(* ===== verification/Js_Prelude.thy ===== *)
theory Js_Prelude
  imports Complex_Main "HOL-Library.Multiset" "HOL-Library.Char_ord" "HOL-Library.List_Lexorder"
begin

text \<open>
  The JavaScript runtime fragment that the modules under \<open>src/frontend\<close> rely on, and
  the generic lemmas and interfaces the component theories share.

  A JavaScript string is a HOL \<open>string\<close>: a list of characters with code points
  U+0000 to U+00FF, so case conversion, white space and percent-encoding follow the
  ECMAScript tables on the Latin-1 block (characters outside it are not represented).
  JSON-like dynamic values are the datatype \<open>js\<close>; its numbers are integers.
  Insertion-ordered dictionaries (\<open>Map\<close>, \<open>Record\<close>) are association lists with
  \<open>rec_get\<close>, \<open>rec_set\<close>, \<open>rec_del\<close>.
\<close>

named_theorems js_str \<open>string primitives\<close>
named_theorems js_rec \<open>dictionary primitives\<close>
named_theorems machine_defs \<open>definitions unfolded by step-invariant proofs\<close>

section \<open>Strings\<close>

definition char_code :: "char \<Rightarrow> nat" where
  "char_code c = of_char c"

definition lower_char :: "char \<Rightarrow> char" where
  "lower_char c =
     (let n = char_code c
      in if (65 \<le> n \<and> n \<le> 90) \<or> (192 \<le> n \<and> n \<le> 222 \<and> n \<noteq> 215) then char_of (n + 32) else c)"

definition to_lower :: "string \<Rightarrow> string" where
  "to_lower s = map lower_char s"

definition starts_with :: "string \<Rightarrow> string \<Rightarrow> bool" where
  "starts_with s p \<longleftrightarrow> take (length p) s = p"

fun str_includes :: "string \<Rightarrow> string \<Rightarrow> bool" where
  "str_includes [] q = (q = [])"
| "str_includes (c # s) q = (starts_with (c # s) q \<or> str_includes s q)"

definition is_space :: "char \<Rightarrow> bool" where
  "is_space c \<longleftrightarrow> char_code c \<in> {9, 10, 11, 12, 13, 32, 160}"

definition trim_start :: "string \<Rightarrow> string" where
  "trim_start s = dropWhile is_space s"

definition js_trim :: "string \<Rightarrow> string" where
  "js_trim s = rev (dropWhile is_space (rev (dropWhile is_space s)))"

text \<open>\<open>s.split(c)\<close> for a one-character separator: never the empty list.\<close>

fun js_split :: "char \<Rightarrow> string \<Rightarrow> string list" where
  "js_split c [] = [[]]"
| "js_split c (x # s) =
     (if x = c then [] # js_split c s
      else (case js_split c s of [] \<Rightarrow> [[x]] | w # ws \<Rightarrow> (x # w) # ws))"

fun js_join :: "string \<Rightarrow> string list \<Rightarrow> string" where
  "js_join sep [] = []"
| "js_join sep [w] = w"
| "js_join sep (w # v # ws) = w @ sep @ js_join sep (v # ws)"

text \<open>Decimal text of numbers, as \<open>String(n)\<close> and template literals print them.\<close>

fun string_of_nat :: "nat \<Rightarrow> string" where
  "string_of_nat n =
     (if n < 10 then [char_of (48 + n)]
      else string_of_nat (n div 10) @ [char_of (48 + n mod 10)])"

declare string_of_nat.simps [simp del]

definition string_of_int :: "int \<Rightarrow> string" where
  "string_of_int i =
     (if i < 0 then CHR ''-'' # string_of_nat (nat (- i)) else string_of_nat (nat i))"

text \<open>
  \<open>encodeURIComponent\<close>: letters, digits and \<open>- _ . ! ~ * ' ( )\<close> stay; any other
  code point is written as its UTF-8 bytes, each as a percent sign and two hex digits.
\<close>

definition uri_unreserved :: "char \<Rightarrow> bool" where
  "uri_unreserved c \<longleftrightarrow>
     (let n = char_code c
      in (65 \<le> n \<and> n \<le> 90) \<or> (97 \<le> n \<and> n \<le> 122) \<or> (48 \<le> n \<and> n \<le> 57)
         \<or> n \<in> {45, 95, 46, 33, 126, 42, 39, 40, 41})"

definition hex_digit :: "nat \<Rightarrow> char" where
  "hex_digit d = (if d < 10 then char_of (48 + d) else char_of (55 + d))"

definition hex_lower :: "nat \<Rightarrow> char" where
  "hex_lower d = (if d < 10 then char_of (48 + d) else char_of (87 + d))"

definition pct_byte :: "nat \<Rightarrow> string" where
  "pct_byte b = [CHR ''%'', hex_digit (b div 16), hex_digit (b mod 16)]"

definition enc_char :: "char \<Rightarrow> string" where
  "enc_char c =
     (if uri_unreserved c then [c]
      else if char_code c < 128 then pct_byte (char_code c)
      else pct_byte (192 + char_code c div 64) @ pct_byte (128 + char_code c mod 64))"

definition encode_uri_component :: "string \<Rightarrow> string" where
  "encode_uri_component s = concat (map enc_char s)"

section \<open>Dynamic values\<close>

datatype js = JUndef | JNull | JBool bool | JNum int | JStr string
  | JArr "js list" | JObj "(string \<times> js) list"

definition rec_get :: "('k \<times> 'v) list \<Rightarrow> 'k \<Rightarrow> 'v option" where
  "rec_get r k = map_of r k"

fun rec_set :: "('k \<times> 'v) list \<Rightarrow> 'k \<Rightarrow> 'v \<Rightarrow> ('k \<times> 'v) list" where
  "rec_set [] k v = [(k, v)]"
| "rec_set ((a, b) # r) k v = (if a = k then (k, v) # r else (a, b) # rec_set r k v)"

definition rec_del :: "('k \<times> 'v) list \<Rightarrow> 'k \<Rightarrow> ('k \<times> 'v) list" where
  "rec_del r k = filter (\<lambda>p. fst p \<noteq> k) r"

text \<open>Truthiness, \<open>??\<close> and optional chaining \<open>v?.k\<close> on dynamic values.\<close>

fun truthy :: "js \<Rightarrow> bool" where
  "truthy JUndef = False"
| "truthy JNull = False"
| "truthy (JBool b) = b"
| "truthy (JNum n) = (n \<noteq> 0)"
| "truthy (JStr s) = (s \<noteq> [])"
| "truthy (JArr _) = True"
| "truthy (JObj _) = True"

definition nullish :: "js \<Rightarrow> bool" where
  "nullish v \<longleftrightarrow> v = JUndef \<or> v = JNull"

definition coalesce :: "js \<Rightarrow> js \<Rightarrow> js" where
  "coalesce v d = (if nullish v then d else v)"

fun js_get :: "js \<Rightarrow> string \<Rightarrow> js" where
  "js_get (JObj r) k = (case rec_get r k of None \<Rightarrow> JUndef | Some v \<Rightarrow> v)"
| "js_get _ k = JUndef"

text \<open>\<open>String(v)\<close>, as template literals apply it.\<close>

fun js_text :: "js \<Rightarrow> string" where
  "js_text JUndef = ''undefined''"
| "js_text JNull = ''null''"
| "js_text (JBool b) = (if b then ''true'' else ''false'')"
| "js_text (JNum n) = string_of_int n"
| "js_text (JStr s) = s"
| "js_text (JArr vs) =
     js_join '','' (map (\<lambda>v. if v = JUndef \<or> v = JNull then [] else js_text v) vs)"
| "js_text (JObj _) = ''[object Object]''"

text \<open>
  \<open>JSON.stringify\<close>; \<open>None\<close> is \<open>undefined\<close>, which an object member skips and an array
  element prints as \<open>null\<close>.
\<close>

definition json_escape :: "char \<Rightarrow> string" where
  "json_escape c =
     (let n = char_code c; bs = char_of (92::nat)
      in if n = 34 then [bs, CHR 0x22] else if n = 92 then [bs, bs]
         else if n = 8 then [bs, CHR ''b''] else if n = 12 then [bs, CHR ''f'']
         else if n = 10 then [bs, CHR ''n''] else if n = 13 then [bs, CHR ''r'']
         else if n = 9 then [bs, CHR ''t'']
         else if n < 32 then
           [bs, CHR ''u'', CHR ''0'', CHR ''0'', hex_lower (n div 16), hex_lower (n mod 16)]
         else [c])"

definition json_quote :: "string \<Rightarrow> string" where
  "json_quote s = CHR 0x22 # concat (map json_escape s) @ [CHR 0x22]"

fun json_stringify :: "js \<Rightarrow> string option" where
  "json_stringify JUndef = None"
| "json_stringify JNull = Some ''null''"
| "json_stringify (JBool b) = Some (if b then ''true'' else ''false'')"
| "json_stringify (JNum n) = Some (string_of_int n)"
| "json_stringify (JStr s) = Some (json_quote s)"
| "json_stringify (JArr vs) =
     Some (''['' @ js_join '','' (map (\<lambda>v. case json_stringify v of None \<Rightarrow> ''null'' | Some t \<Rightarrow> t) vs) @ '']'')"
| "json_stringify (JObj r) =
     Some (''{'' @ js_join '',''
       (concat (map (\<lambda>(k, v). case json_stringify v of None \<Rightarrow> []
                               | Some t \<Rightarrow> [json_quote k @ '':'' @ t]) r)) @ ''}'')"

text \<open>Truthiness of an optional string (\<open>undefined\<close>, \<open>null\<close> and the empty string are falsy).\<close>

definition has_text :: "string option \<Rightarrow> bool" where
  "has_text o1 \<longleftrightarrow> (case o1 of None \<Rightarrow> False | Some s \<Rightarrow> s \<noteq> [])"

lemma has_text_simps [simp]:
  "\<not> has_text None" "has_text (Some s) \<longleftrightarrow> s \<noteq> []"
  by (auto simp: has_text_def)

lemma has_text_iff: "has_text x \<longleftrightarrow> (\<exists>s. x = Some s \<and> s \<noteq> [])"
  by (cases x) auto

section \<open>Laws of the string primitives\<close>

lemma starts_with_iff: "starts_with s p \<longleftrightarrow> (\<exists>t. s = p @ t)"
  unfolding starts_with_def by (metis append_eq_conv_conj append_take_drop_id)

lemma starts_with_append [simp, js_str]: "starts_with (p @ t) p"
  by (simp add: starts_with_iff)

lemma starts_with_Nil [simp, js_str]: "starts_with s []"
  by (simp add: starts_with_def)

lemma starts_with_Cons [simp, js_str]:
  "starts_with [] (d # p) \<longleftrightarrow> False"
  "starts_with (c # s) (d # p) \<longleftrightarrow> c = d \<and> starts_with s p"
  by (auto simp: starts_with_def)

lemma starts_with_self [simp]: "starts_with s s"
  by (simp add: starts_with_def)

lemma starts_with_trans: "starts_with s p \<Longrightarrow> starts_with p q \<Longrightarrow> starts_with s q"
  by (auto simp: starts_with_iff)

lemma str_includes_iff: "str_includes s q \<longleftrightarrow> (\<exists>u v. s = u @ q @ v)"
proof (induction s)
  case (Cons c s)
  show ?case
  proof
    assume "str_includes (c # s) q"
    then consider "starts_with (c # s) q" | "str_includes s q" by auto
    then show "\<exists>u v. c # s = u @ q @ v"
    proof cases
      case 1 then show ?thesis by (metis append_Nil starts_with_iff)
    next
      case 2 then show ?thesis by (metis Cons.IH append_Cons)
    qed
  next
    assume "\<exists>u v. c # s = u @ q @ v"
    then obtain u v where uv: "c # s = u @ q @ v" by blast
    show "str_includes (c # s) q"
    proof (cases u)
      case Nil then show ?thesis using uv by (metis append_Nil starts_with_append str_includes.simps(2))
    next
      case (Cons a u') then show ?thesis using uv Cons.IH by auto
    qed
  qed
qed simp

lemma str_includes_self [simp]: "str_includes s s"
  using str_includes_iff by (metis append_Nil append_Nil2)

lemma starts_with_imp_includes: "starts_with s q \<Longrightarrow> str_includes s q"
  by (cases s) (auto simp: starts_with_def split: list.splits)

lemma str_includes_append: "str_includes s q \<Longrightarrow> str_includes (u @ s @ v) q"
  unfolding str_includes_iff by (metis append.assoc)

lemma length_to_lower [simp]: "length (to_lower s) = length s"
  by (simp add: to_lower_def)

lemma to_lower_append: "to_lower (s @ t) = to_lower s @ to_lower t"
  by (simp add: to_lower_def)

lemma char_code_less: "char_code c < 256"
  unfolding char_code_def by simp

lemma char_code_char_of: "n < 256 \<Longrightarrow> char_code (char_of n) = n"
  unfolding char_code_def by simp

lemma char_of_char_code [simp]: "char_of (char_code c) = c"
  by (simp add: char_code_def)

lemma char_code_inj: "char_code c = char_code d \<longleftrightarrow> c = d"
  by (metis char_of_char_code)

lemma lower_char_idem [simp]: "lower_char (lower_char c) = lower_char c"
  using char_code_less [of c] by (auto simp: lower_char_def Let_def char_code_char_of)

lemma to_lower_idem [simp]: "to_lower (to_lower s) = to_lower s"
  by (simp add: to_lower_def)

subsection \<open>Splitting and joining\<close>

lemma js_split_ne [simp]: "js_split c s \<noteq> []"
  by (induction s) (auto split: list.splits)

lemma js_join_Cons: "js_join sep (w # ws) = w @ (if ws = [] then [] else sep @ js_join sep ws)"
  by (cases ws) auto

lemma js_join_split: "js_join [c] (js_split c s) = s"
proof (induction s)
  case (Cons x s)
  then show ?case
    using js_split_ne [of c s] by (cases "js_split c s") (auto simp: js_join_Cons)
qed simp

lemma js_split_no_sep: "w \<in> set (js_split c s) \<Longrightarrow> c \<notin> set w"
proof (induction s arbitrary: w)
  case (Cons x s)
  then show ?case by (auto split: if_splits list.splits)
qed simp

lemma js_split_atom: "c \<notin> set w \<Longrightarrow> js_split c w = [w]"
  by (induction w) auto

lemma js_split_append_sep:
  "c \<notin> set w \<Longrightarrow> js_split c (w @ c # s) = w # js_split c s"
  by (induction w) auto

lemma js_split_join:
  "ws \<noteq> [] \<Longrightarrow> (\<And>w. w \<in> set ws \<Longrightarrow> c \<notin> set w) \<Longrightarrow> js_split c (js_join [c] ws) = ws"
proof (induction ws)
  case (Cons w ws)
  then show ?case by (cases ws) (auto simp: js_split_atom js_split_append_sep)
qed simp

lemma js_join_inj:
  assumes "js_join [c] ws = js_join [c] vs" "ws \<noteq> []" "vs \<noteq> []"
    and "\<And>w. w \<in> set ws \<union> set vs \<Longrightarrow> c \<notin> set w"
  shows "ws = vs"
  by (metis UnCI assms js_split_join)

subsection \<open>Percent-encoding\<close>

lemma char_code_hex_digit: "d < 16 \<Longrightarrow> char_code (hex_digit d) = (if d < 10 then 48 + d else 55 + d)"
  by (simp add: hex_digit_def char_code_char_of)

lemma hex_digit_inj: "d < 16 \<Longrightarrow> e < 16 \<Longrightarrow> hex_digit d = hex_digit e \<Longrightarrow> d = e"
proof -
  assume d: "d < 16" and e: "e < 16" and eq: "hex_digit d = hex_digit e"
  have "char_code (hex_digit d) = char_code (hex_digit e)" by (simp only: eq)
  then have "(if d < 10 then 48 + d else 55 + d) = (if e < 10 then 48 + e else 55 + e)"
    by (simp only: char_code_hex_digit [OF d] char_code_hex_digit [OF e])
  then show "d = e" by (simp split: if_splits)
qed

lemma pct_byte_inj: "a < 256 \<Longrightarrow> b < 256 \<Longrightarrow> pct_byte a = pct_byte b \<Longrightarrow> a = b"
proof -
  assume lt: "a < 256" "b < 256" and eq: "pct_byte a = pct_byte b"
  have h: "hex_digit (a div 16) = hex_digit (b div 16)" "hex_digit (a mod 16) = hex_digit (b mod 16)"
    using eq by (simp_all only: pct_byte_def list.inject)
  have "a div 16 < 16" "b div 16 < 16" using lt by simp_all
  then have d: "a div 16 = b div 16" using h(1) by (rule hex_digit_inj)
  have m: "a mod 16 = b mod 16" by (rule hex_digit_inj [OF _ _ h(2)]) simp_all
  have "a = a div 16 * 16 + a mod 16" by simp
  also have "\<dots> = b div 16 * 16 + b mod 16" by (simp only: d m)
  also have "\<dots> = b" by simp
  finally show "a = b" .
qed

lemma percent_reserved [simp]: "\<not> uri_unreserved CHR ''%''"
  by (simp add: uri_unreserved_def char_code_def)

lemma enc_char_prefix_free:
  assumes eq: "enc_char a @ s = enc_char b @ t"
  shows "a = b \<and> s = t"
proof -
  have ab: "char_code a < 256" "char_code b < 256" by (rule char_code_less)+
  have ne: "pct_byte (192 + x div 64) \<noteq> pct_byte y" if "x < 256" "y < 128" for x y :: nat
  proof
    assume "pct_byte (192 + x div 64) = pct_byte y"
    moreover have "192 + x div 64 < 256" using that by (simp add: less_mult_imp_div_less)
    ultimately have "192 + x div 64 = y" using pct_byte_inj [of "192 + x div 64" y] that by simp
    then show False using that by simp
  qed
  have two: "x = y"
    if "x < 256" "y < 256" "128 + x mod 64 = 128 + y mod 64" "192 + x div 64 = 192 + y div 64"
    for x y :: nat
    using that by (metis add_left_cancel div_mult_mod_eq)
  have un: "uri_unreserved a \<longleftrightarrow> uri_unreserved b"
    using eq by (auto simp: enc_char_def pct_byte_def split: if_splits)
  show ?thesis
  proof (cases "uri_unreserved a")
    case True
    then show ?thesis using eq un by (simp add: enc_char_def)
  next
    case False
    consider "char_code a < 128" "char_code b < 128" | "char_code a \<ge> 128" "char_code b \<ge> 128"
      | "(char_code a < 128) \<noteq> (char_code b < 128)" by linarith
    then show ?thesis
    proof cases
      case 1
      then have "pct_byte (char_code a) = pct_byte (char_code b)" "s = t"
        using eq False un by (auto simp: enc_char_def pct_byte_def)
      then show ?thesis using ab pct_byte_inj char_code_inj by blast
    next
      case 2
      then have p: "pct_byte (192 + char_code a div 64) = pct_byte (192 + char_code b div 64)"
        "pct_byte (128 + char_code a mod 64) = pct_byte (128 + char_code b mod 64)" and "s = t"
        using eq False un by (auto simp: enc_char_def pct_byte_def)
      have "char_code a = char_code b"
        using pct_byte_inj [OF _ _ p(1)] pct_byte_inj [OF _ _ p(2)] ab two by simp
      then show ?thesis using \<open>s = t\<close> char_code_inj by blast
    next
      case 3
      then show ?thesis
        using eq False un ab ne [of "char_code a" "char_code b"] ne [of "char_code b" "char_code a"]
        by (auto simp: enc_char_def pct_byte_def split: if_splits)
    qed
  qed
qed

lemma enc_char_ne [simp]: "enc_char c \<noteq> []"
  by (simp add: enc_char_def pct_byte_def)

lemma encode_simps [simp, js_str]:
  "encode_uri_component [] = []"
  "encode_uri_component (c # s) = enc_char c @ encode_uri_component s"
  by (simp_all add: encode_uri_component_def)

lemma encode_Nil_iff [simp]: "encode_uri_component s = [] \<longleftrightarrow> s = []"
  by (cases s) auto

lemma encode_inj: "encode_uri_component s = encode_uri_component t \<Longrightarrow> s = t"
proof (induction s arbitrary: t)
  case Nil then show ?case by (metis encode_Nil_iff)
next
  case (Cons a s)
  then obtain b t' where t: "t = b # t'" by (cases t) auto
  from Cons.prems t have "a = b \<and> encode_uri_component s = encode_uri_component t'"
    by (auto dest: enc_char_prefix_free)
  with Cons.IH t show ?case by blast
qed

lemma hex_digit_unreserved: "d < 16 \<Longrightarrow> uri_unreserved (hex_digit d)"
  using char_code_hex_digit [of d] by (auto simp: uri_unreserved_def Let_def split: if_splits)

lemma encode_charset:
  "c \<in> set (encode_uri_component s) \<Longrightarrow> uri_unreserved c \<or> c = CHR ''%''"
proof (induction s)
  case (Cons a s)
  have "128 + char_code a mod 64 < 256" "192 + char_code a div 64 < 256"
    using char_code_less [of a] by auto
  then have "c \<in> set (enc_char a) \<Longrightarrow> uri_unreserved c \<or> c = CHR ''%''"
    using char_code_less [of a]
    by (auto simp: enc_char_def pct_byte_def intro!: hex_digit_unreserved split: if_splits)
  then show ?case using Cons by auto
qed simp

text \<open>An encoded component holds no character that delimits a path segment or a query.\<close>

lemma encode_no_delims [simp]:
  "CHR ''/'' \<notin> set (encode_uri_component s)"
  "CHR ''?'' \<notin> set (encode_uri_component s)"
  "CHR ''#'' \<notin> set (encode_uri_component s)"
  "CHR ''&'' \<notin> set (encode_uri_component s)"
  "CHR ''='' \<notin> set (encode_uri_component s)"
  by (auto dest!: encode_charset simp: uri_unreserved_def char_code_def)

subsection \<open>Decimal text\<close>

lemma string_of_nat_ne [simp]: "string_of_nat n \<noteq> []"
  by (subst string_of_nat.simps) simp

definition dec_digits :: "char set" where
  "dec_digits = {c. 48 \<le> char_code c \<and> char_code c \<le> 57}"

lemma string_of_nat_digits: "set (string_of_nat n) \<subseteq> dec_digits"
proof (induction n rule: string_of_nat.induct)
  case (1 n)
  show ?case
  proof (cases "n < 10")
    case True then show ?thesis
      by (subst string_of_nat.simps) (auto simp: dec_digits_def char_code_char_of)
  next
    case False then show ?thesis
      using "1.IH" by (subst string_of_nat.simps) (auto simp: dec_digits_def char_code_char_of)
  qed
qed

fun nat_of_digits :: "nat \<Rightarrow> string \<Rightarrow> nat" where
  "nat_of_digits acc [] = acc"
| "nat_of_digits acc (c # s) = nat_of_digits (10 * acc + (char_code c - 48)) s"

lemma nat_of_digits_append: "nat_of_digits acc (s @ t) = nat_of_digits (nat_of_digits acc s) t"
  by (induction s arbitrary: acc) auto

lemma nat_of_string_of_nat: "nat_of_digits 0 (string_of_nat n) = n"
proof (induction n rule: string_of_nat.induct)
  case (1 n)
  show ?case
  proof (cases "n < 10")
    case True then show ?thesis
      by (subst string_of_nat.simps) (simp add: char_code_char_of)
  next
    case False then show ?thesis
      using "1.IH" by (subst string_of_nat.simps) (simp add: nat_of_digits_append char_code_char_of)
  qed
qed

lemma string_of_nat_inj: "string_of_nat m = string_of_nat n \<Longrightarrow> m = n"
  by (metis nat_of_string_of_nat)

lemma minus_not_digit: "CHR ''-'' \<notin> dec_digits"
  by (simp add: dec_digits_def char_code_def)

lemma string_of_int_inj: "string_of_int i = string_of_int j \<Longrightarrow> i = j"
proof -
  assume eq: "string_of_int i = string_of_int j"
  have hd: "CHR ''-'' # u \<noteq> string_of_nat n" for u n
    using string_of_nat_digits [of n] minus_not_digit by (metis list.set_intros(1) subsetD)
  show "i = j"
  proof (cases "i < 0 \<longleftrightarrow> j < 0")
    case True
    then show ?thesis
      using eq string_of_nat_inj [of "nat (- i)" "nat (- j)"] string_of_nat_inj [of "nat i" "nat j"]
      by (auto simp: string_of_int_def split: if_splits)
  next
    case False
    then show ?thesis using eq hd hd [symmetric] by (auto simp: string_of_int_def split: if_splits)
  qed
qed

section \<open>Laws of the dictionaries\<close>

lemma rec_get_Nil [simp, js_rec]: "rec_get [] k = None"
  by (simp add: rec_get_def)

lemma rec_get_Cons [simp, js_rec]:
  "rec_get ((a, b) # r) k = (if a = k then Some b else rec_get r k)"
  by (simp add: rec_get_def)

lemma rec_get_set [simp, js_rec]:
  "rec_get (rec_set r k v) k' = (if k' = k then Some v else rec_get r k')"
  by (induction r k v rule: rec_set.induct) auto

lemma rec_del_Cons: "rec_del ((a, b) # r) k = (if a = k then rec_del r k else (a, b) # rec_del r k)"
  by (simp add: rec_del_def)

lemma rec_get_del [simp, js_rec]: "rec_get (rec_del r k) k' = (if k' = k then None else rec_get r k')"
  by (induction r) (auto simp: rec_del_Cons, auto simp: rec_del_def)

lemma rec_keys_set:
  "map fst (rec_set r k v) = (if k \<in> fst ` set r then map fst r else map fst r @ [k])"
  by (induction r k v rule: rec_set.induct) auto

lemma rec_keys_del: "map fst (rec_del r k) = filter (\<lambda>a. a \<noteq> k) (map fst r)"
  by (simp add: rec_del_def filter_map comp_def)

lemma rec_get_None_iff: "rec_get r k = None \<longleftrightarrow> k \<notin> fst ` set r"
  by (simp add: rec_get_def map_of_eq_None_iff)

lemma rec_get_Some_in: "rec_get r k = Some v \<Longrightarrow> (k, v) \<in> set r"
  by (simp add: rec_get_def map_of_SomeD)

lemma rec_get_in: "distinct (map fst r) \<Longrightarrow> (k, v) \<in> set r \<Longrightarrow> rec_get r k = Some v"
  by (simp add: rec_get_def)

lemma distinct_rec_set: "distinct (map fst r) \<Longrightarrow> distinct (map fst (rec_set r k v))"
  by (auto simp: rec_keys_set)

lemma distinct_rec_del: "distinct (map fst r) \<Longrightarrow> distinct (map fst (rec_del r k))"
  by (simp add: rec_keys_del)

lemma set_rec_del: "set (rec_del r k) = {p \<in> set r. fst p \<noteq> k}"
  by (auto simp: rec_del_def)

end
