(* ===== verification/Interfaces.thy ===== *)
theory Interfaces
  imports Js_Prelude
begin

text \<open>
  The interfaces that several components share, as locales. \<open>ordered_dict\<close> is the
  contract of JavaScript's insertion-ordered \<open>Map\<close>; \<open>sort_order\<close> is what
  \<open>Array.prototype.sort\<close> asks of a comparator, with the stable-sort results proved
  once; \<open>machine\<close> is an event-driven module (module-level variables changed by
  handlers) with an inductive invariant, \<open>free_machine\<close> one whose events are all allowed;
  \<open>draining\<close> is a module whose events use up a measure unless they start new work. Each is
  interpreted, in the theory of the component that provides it, on the model's own definitions.
\<close>

section \<open>Insertion-ordered dictionaries\<close>

locale ordered_dict =
  fixes get :: "'m \<Rightarrow> 'k \<Rightarrow> 'v option"
    and put :: "'m \<Rightarrow> 'k \<Rightarrow> 'v \<Rightarrow> 'm"
    and keys :: "'m \<Rightarrow> 'k list"
  assumes get_put: "get (put m k v) k' = (if k' = k then Some v else get m k')"
    and get_keys: "get m k = None \<longleftrightarrow> k \<notin> set (keys m)"
    and keys_put: "keys (put m k v) = (if k \<in> set (keys m) then keys m else keys m @ [k])"
begin

text \<open>
  The accumulation loop \<open>for (const x of xs) m.set(key(x), up(x, m.get(key(x))))\<close>,
  which groups a list by a key.
\<close>

lemma fold_upsert_get:
  "get (fold (\<lambda>x m. put m (key x) (up x (get m (key x)))) xs m) k =
     fold (\<lambda>x o1. Some (up x o1)) (filter (\<lambda>x. key x = k) xs) (get m k)"
  by (induction xs arbitrary: m) (auto simp: get_put)

lemma fold_upsert_keys:
  "set (keys (fold (\<lambda>x m. put m (key x) (up x (get m (key x)))) xs m)) = set (keys m) \<union> key ` set xs"
  by (induction xs arbitrary: m) (auto simp: keys_put)

lemma fold_upsert_distinct:
  "distinct (keys m) \<Longrightarrow>
   distinct (keys (fold (\<lambda>x m. put m (key x) (up x (get m (key x)))) xs m))"
  by (induction xs arbitrary: m) (auto simp: keys_put)

end

text \<open>\<open>Map\<close> as the association list of the prelude.\<close>

interpretation js_map: ordered_dict rec_get rec_set "map fst"
  by unfold_locales (auto simp: rec_get_None_iff rec_keys_set)

section \<open>Stable sorting by a comparator\<close>

text \<open>
  \<open>xs.sort(cmp)\<close>: since ES2019 the sort is stable, so for a consistent comparator the
  result is the one that insertion from the right computes.
\<close>

fun js_insert :: "('a \<Rightarrow> 'a \<Rightarrow> int) \<Rightarrow> 'a \<Rightarrow> 'a list \<Rightarrow> 'a list" where
  "js_insert cmp x [] = [x]"
| "js_insert cmp x (y # ys) = (if cmp x y \<le> 0 then x # y # ys else y # js_insert cmp x ys)"

fun js_sort :: "('a \<Rightarrow> 'a \<Rightarrow> int) \<Rightarrow> 'a list \<Rightarrow> 'a list" where
  "js_sort cmp [] = []"
| "js_sort cmp (x # xs) = js_insert cmp x (js_sort cmp xs)"

lemma mset_js_insert [simp]: "mset (js_insert cmp x ys) = add_mset x (mset ys)"
  by (induction ys) auto

lemma mset_js_sort [simp]: "mset (js_sort cmp xs) = mset xs"
  by (induction xs) auto

lemma set_js_insert [simp]: "set (js_insert cmp x ys) = insert x (set ys)"
  by (induction ys) auto

lemma set_js_sort [simp]: "set (js_sort cmp xs) = set xs"
  by (induction xs) auto

lemma length_js_sort [simp]: "length (js_sort cmp xs) = length xs"
  by (metis mset_js_sort size_mset)

locale sort_order =
  fixes cmp :: "'a \<Rightarrow> 'a \<Rightarrow> int"
  assumes total: "cmp x y \<le> 0 \<or> cmp y x \<le> 0"
    and trans: "cmp x y \<le> 0 \<Longrightarrow> cmp y z \<le> 0 \<Longrightarrow> cmp x z \<le> 0"
begin

lemma sorted_insert:
  "sorted_wrt (\<lambda>x y. cmp x y \<le> 0) ys \<Longrightarrow> sorted_wrt (\<lambda>x y. cmp x y \<le> 0) (js_insert cmp x ys)"
proof (induction ys)
  case (Cons y ys)
  then show ?case using total [of x y] by (auto intro: trans)
qed simp

lemma sorted_sort: "sorted_wrt (\<lambda>x y. cmp x y \<le> 0) (js_sort cmp xs)"
  by (induction xs) (auto intro: sorted_insert)

text \<open>Cutting the sorted list keeps a best prefix: nothing dropped beats anything kept.\<close>

lemma take_best:
  "x \<in> set (take n (js_sort cmp xs)) \<Longrightarrow> y \<in> set (drop n (js_sort cmp xs)) \<Longrightarrow> cmp x y \<le> 0"
  using sorted_sort [of xs] sorted_wrt_append
  by (metis append_take_drop_id)

lemma filter_insert_neg: "\<not> P x \<Longrightarrow> filter P (js_insert cmp x ys) = filter P ys"
  by (induction ys) auto

lemma filter_insert_pos:
  assumes "P x" "\<And>y z. P y \<Longrightarrow> P z \<Longrightarrow> cmp y z \<le> 0"
  shows "filter P (js_insert cmp x ys) = x # filter P ys"
  using assms by (induction ys) auto

text \<open>Stability: a class of elements that compare equal keeps its input order.\<close>

lemma sort_stable:
  assumes "\<And>y z. P y \<Longrightarrow> P z \<Longrightarrow> cmp y z \<le> 0"
  shows "filter P (js_sort cmp xs) = filter P xs"
proof (induction xs)
  case (Cons x xs)
  then show ?case
    using assms filter_insert_pos [of P x] filter_insert_neg [of P x] by (cases "P x") auto
qed simp

end

section \<open>Event-driven modules\<close>

text \<open>
  A module is a state and a step function on events; \<open>None\<close> says that the event
  cannot occur in that state. A run is a sequence of events.
\<close>

fun run_events :: "('s \<Rightarrow> 'e \<Rightarrow> 's option) \<Rightarrow> 's \<Rightarrow> 'e list \<Rightarrow> 's option" where
  "run_events step s [] = Some s"
| "run_events step s (e # es) = (case step s e of None \<Rightarrow> None | Some t \<Rightarrow> run_events step t es)"

text \<open>Every event of the run is allowed by \<open>ok\<close> in the state where it occurs.\<close>

fun run_ok :: "('s \<Rightarrow> 'e \<Rightarrow> 's option) \<Rightarrow> ('s \<Rightarrow> 'e \<Rightarrow> bool) \<Rightarrow> 's \<Rightarrow> 'e list \<Rightarrow> bool" where
  "run_ok step ok s [] = True"
| "run_ok step ok s (e # es) =
     (ok s e \<and> (case step s e of None \<Rightarrow> False | Some t \<Rightarrow> run_ok step ok t es))"

lemma run_events_append:
  "run_events step s (es @ fs) =
     (case run_events step s es of None \<Rightarrow> None | Some t \<Rightarrow> run_events step t fs)"
  by (induction es arbitrary: s) (auto split: option.splits)

lemma run_ok_runs: "run_ok step ok s es \<Longrightarrow> \<exists>t. run_events step s es = Some t"
  by (induction es arbitrary: s) (auto split: option.splits)

locale machine =
  fixes step :: "'s \<Rightarrow> 'e \<Rightarrow> 's option"
    and ok :: "'s \<Rightarrow> 'e \<Rightarrow> bool"
    and inv :: "'s \<Rightarrow> bool"
  assumes step_inv: "inv s \<Longrightarrow> ok s e \<Longrightarrow> step s e = Some t \<Longrightarrow> inv t"
begin

lemma run_inv: "inv s \<Longrightarrow> run_ok step ok s es \<Longrightarrow> run_events step s es = Some t \<Longrightarrow> inv t"
proof (induction es arbitrary: s)
  case (Cons e es)
  then obtain u where u: "step s e = Some u" "ok s e" "run_ok step ok u es"
    by (auto split: option.splits)
  with Cons.prems have "run_events step u es = Some t" by simp
  with Cons.IH [OF step_inv [OF Cons.prems(1) u(2,1)]] u(3) show ?case by blast
qed simp

end

text \<open>A module whose events are all allowed.\<close>

lemma run_ok_True: "run_events step s es = Some t \<Longrightarrow> run_ok step (\<lambda>_ _. True) s es"
  by (induction es arbitrary: s) (auto split: option.splits)

lemma run_ok_all: "run_events step s es = Some t \<Longrightarrow> list_all P es \<Longrightarrow> run_ok step (\<lambda>_. P) s es"
  by (induction es arbitrary: s) (auto split: option.splits)

locale free_machine = machine step "\<lambda>_ _. True" inv
  for step :: "'s \<Rightarrow> 'e \<Rightarrow> 's option" and inv :: "'s \<Rightarrow> bool"
begin

lemma runs_inv:
  assumes "inv s" and r: "run_events step s es = Some t"
  shows "inv t"
  by (rule run_inv [OF assms(1) run_ok_True [OF r] r])

end

text \<open>
  Modules whose events, but for the ones that start new work, use up a measure: without new
  work every run ends.
\<close>

locale draining =
  fixes step :: "'s \<Rightarrow> 'e \<Rightarrow> 's option"
    and inv :: "'s \<Rightarrow> bool"
    and starts :: "'e \<Rightarrow> bool"
    and work :: "'s \<Rightarrow> nat"
  assumes keeps: "inv s \<Longrightarrow> step s e = Some t \<Longrightarrow> inv t"
    and drains: "inv s \<Longrightarrow> \<not> starts e \<Longrightarrow> step s e = Some t \<Longrightarrow> work t < work s"
begin

lemma run_length_bounded:
  "inv s \<Longrightarrow> run_events step s es = Some t \<Longrightarrow> \<forall>e \<in> set es. \<not> starts e \<Longrightarrow>
   length es + work t \<le> work s"
proof (induction es arbitrary: s)
  case (Cons e es)
  then obtain u where u: "step s e = Some u" "run_events step u es = Some t"
    by (auto split: option.splits)
  have "length es + work t \<le> work u"
    using Cons.IH [OF keeps [OF Cons.prems(1) u(1)] u(2)] Cons.prems(3) by simp
  moreover have "work u < work s" using drains [OF Cons.prems(1) _ u(1)] Cons.prems(3) by simp
  ultimately show ?case by simp
qed simp

end

end
