(* ===== verification/Http_Client.thy ===== *)
theory Http_Client
  imports Interfaces
begin

text \<open>
  \<open>lib/api.ts\<close>: the typed fetch wrapper. The module-level variables \<open>accessToken\<close>,
  \<open>refreshPromise\<close> and \<open>on403Callback\<close> are fields of \<open>api_state\<close>; a call of
  \<open>api()\<close> is a process whose \<open>await\<close> points are its phases, so that any interleaving of
  concurrent calls is a run of \<open>api_step\<close>. The server is the environment: its replies are
  the payloads of the events. Reading a reply's body happens in the step that receives it.
\<close>

section \<open>Requests and responses\<close>

text \<open>\<open>Headers\<close>: names are case-insensitive, \<open>append\<close> joins repeated ones.\<close>

type_synonym headers = "(string \<times> string) list"

definition headers_get :: "headers \<Rightarrow> string \<Rightarrow> string option" where
  "headers_get h name = rec_get h (to_lower name)"

definition headers_set :: "headers \<Rightarrow> string \<Rightarrow> string \<Rightarrow> headers" where
  "headers_set h name v = rec_set h (to_lower name) v"

definition headers_append :: "headers \<Rightarrow> string \<Rightarrow> string \<Rightarrow> headers" where
  "headers_append h name v =
     headers_set h name (case headers_get h name of None \<Rightarrow> v | Some w \<Rightarrow> w @ '', '' @ v)"

definition new_headers :: "(string \<times> string) list \<Rightarrow> headers" where
  "new_headers init = fold (\<lambda>(n, v) h. headers_append h n v) init []"

lemma headers_get_set [simp]:
  "headers_get (headers_set h n v) n' = (if to_lower n' = to_lower n then Some v else headers_get h n')"
  by (simp add: headers_get_def headers_set_def)

record request_init =
  ri_method :: "string option"
  ri_headers :: "(string \<times> string) list"
  ri_body :: "string option"

record request =
  rq_url :: string
  rq_method :: "string option"
  rq_headers :: headers
  rq_body :: "string option"

text \<open>\<open>rs_json\<close> is the parsed body, \<open>None\<close> when it is not JSON.\<close>

record response =
  rs_status :: nat
  rs_status_text :: string
  rs_json :: "js option"

definition res_ok :: "response \<Rightarrow> bool" where
  "res_ok r \<longleftrightarrow> 200 \<le> rs_status r \<and> rs_status r \<le> 299"

text \<open>The inner function \<open>doFetch\<close>: the request one attempt sends.\<close>

definition build_request :: "js \<Rightarrow> string \<Rightarrow> string \<Rightarrow> request_init \<Rightarrow> request" where
  "build_request access_tok selected_cluster path options =
     (let h0 = new_headers (ri_headers options);
          h1 = (if truthy access_tok
                then headers_set h0 ''Authorization'' (''Bearer '' @ js_text access_tok) else h0);
          h2 = headers_set h1 ''X-Cluster-ID'' selected_cluster;
          h3 = (if headers_get h2 ''Content-Type'' = None \<and> has_text (ri_body options)
                then headers_set h2 ''Content-Type'' ''application/json'' else h2);
          h4 = (if has_text (ri_method options) \<and> ri_method options \<noteq> Some ''GET''
                then headers_set h3 ''X-Requested-With'' ''XMLHttpRequest'' else h3)
      in \<lparr>rq_url = ''/api'' @ path, rq_method = ri_method options, rq_headers = h4,
          rq_body = ri_body options\<rparr>)"

section \<open>Errors and results\<close>

text \<open>The class \<open>ApiError\<close>; \<open>code\<close>, \<open>detail\<close> and \<open>reason\<close> come from JSON and stay dynamic.\<close>

record api_error =
  ae_status :: nat
  ae_code :: js
  ae_detail :: js
  ae_body :: js
  ae_reason :: js
  ae_message :: string

definition new_api_error :: "nat \<Rightarrow> js \<Rightarrow> js \<Rightarrow> js \<Rightarrow> api_error" where
  "new_api_error status code detail body =
     \<lparr>ae_status = status, ae_code = code, ae_detail = detail, ae_body = body,
      ae_reason = js_get (js_get body ''error'') ''reason'',
      ae_message = ''API error '' @ js_text code @ '': ''
        @ js_text (coalesce detail (JStr ''Unknown error''))\<rparr>"

definition error_extra :: "api_error \<Rightarrow> string \<Rightarrow> string option" where
  "error_extra err key =
     (case js_get (js_get (js_get (ae_body err) ''error'') ''extra'') key of
        JStr s \<Rightarrow> Some s | _ \<Rightarrow> None)"

text \<open>How a call settles: with data, or by throwing.\<close>

datatype api_result =
    ApiData js
  | ApiThrow api_error
  | NetworkError
  | BadJson

text \<open>The tail of \<open>api()\<close> from \<open>if (!res.ok)\<close> on, and whether it runs the 403 callback.\<close>

definition finish_response :: "response \<Rightarrow> api_result" where
  "finish_response res =
     (if \<not> res_ok res then
        (let error_body = (case rs_json res of None \<Rightarrow> JUndef | Some b \<Rightarrow> b);
             err = js_get error_body ''error''
         in ApiThrow (new_api_error (rs_status res)
              (coalesce (js_get err ''code'') (JNum (int (rs_status res))))
              (coalesce (js_get err ''message'') (JStr (rs_status_text res)))
              error_body))
      else if rs_status res = 204 then ApiData (JObj [(''data'', JUndef)])
      else (case rs_json res of None \<Rightarrow> BadJson | Some b \<Rightarrow> ApiData b))"

definition runs_403_callback :: "bool \<Rightarrow> response \<Rightarrow> bool" where
  "runs_403_callback registered res \<longleftrightarrow> \<not> res_ok res \<and> rs_status res = 403 \<and> registered"

text \<open>\<open>refreshAccessToken\<close>: the token a reply of the refresh endpoint carries, if any.\<close>

definition refreshed_token :: "response option \<Rightarrow> js option" where
  "refreshed_token reply =
     (case reply of
        None \<Rightarrow> None
      | Some res \<Rightarrow>
          if \<not> res_ok res then None
          else (case rs_json res of
                  None \<Rightarrow> None
                | Some body \<Rightarrow>
                    (let tok = js_get (js_get body ''data'') ''accessToken''
                     in if truthy tok then Some tok else None)))"

definition refresh_request :: request where
  "refresh_request =
     \<lparr>rq_url = ''/api/v1/auth/refresh'', rq_method = Some ''POST'',
      rq_headers = new_headers [(''X-Requested-With'', ''XMLHttpRequest'')], rq_body = None\<rparr>"

definition session_expired :: api_error where
  "session_expired = new_api_error 401 (JNum 401) (JStr ''Session expired'') JUndef"

section \<open>Concurrent calls and the shared refresh\<close>

text \<open>
  A refresh: its request is in flight, \<open>refreshAccessToken\<close> has returned, and its
  \<open>finally\<close> callback has run (the promise the callers await is settled).
\<close>

datatype refresh_phase = RFlying | RReturned bool | RSettled bool

text \<open>
  A call of \<open>api()\<close>: awaiting its first fetch, awaiting \<open>refreshPromise\<close>, awaiting the
  replayed fetch, or settled.
\<close>

datatype call_phase = FirstFetch | AwaitRefresh nat | SecondFetch | Settled api_result

record api_call =
  ac_path :: string
  ac_options :: request_init
  ac_phase :: call_phase

record api_state =
  access_token :: js
  refresh_promise :: "nat option"
  on403_registered :: bool
  cluster :: string
  at_login :: bool
  refreshes :: "(nat \<times> refresh_phase) list"
  calls :: "(nat \<times> api_call) list"
  sent_log :: "(nat \<times> request) list"
  forbidden_count :: nat

datatype api_event =
    Call nat string request_init
  | Reply nat "response option"
  | RefreshReply nat "response option"
  | RefreshFinally nat
  | Resume nat
  | SetAccessToken js
  | OnForbidden
  | SelectCluster string

text \<open>The module's initial state: \<open>selectedCluster\<close> defaults to \<open>local\<close>.\<close>

definition api_init :: api_state where
  "api_init =
     \<lparr>access_token = JNull, refresh_promise = None, on403_registered = False, cluster = ''local'',
      at_login = False, refreshes = [], calls = [], sent_log = [], forbidden_count = 0\<rparr>"

definition set_phase :: "nat \<Rightarrow> api_call \<Rightarrow> call_phase \<Rightarrow> api_state \<Rightarrow> api_state" where
  "set_phase i c ph s = s\<lparr>calls := rec_set (calls s) i (c\<lparr>ac_phase := ph\<rparr>)\<rparr>"

definition send :: "nat \<Rightarrow> string \<Rightarrow> request_init \<Rightarrow> api_state \<Rightarrow> api_state" where
  "send i path options s =
     s\<lparr>sent_log := sent_log s @ [(i, build_request (access_token s) (cluster s) path options)]\<rparr>"

text \<open>The branch \<open>res.status === 401\<close>: join the refresh in flight or start one.\<close>

definition on_unauthorized :: "nat \<Rightarrow> api_call \<Rightarrow> api_state \<Rightarrow> api_state" where
  "on_unauthorized i c s =
     (case refresh_promise s of
        Some r \<Rightarrow> set_phase i c (AwaitRefresh r) s
      | None \<Rightarrow>
          (let r = length (refreshes s)
           in set_phase i c (AwaitRefresh r)
                (s\<lparr>refreshes := rec_set (refreshes s) r RFlying, refresh_promise := Some r\<rparr>)))"

definition settle_response :: "nat \<Rightarrow> api_call \<Rightarrow> response \<Rightarrow> api_state \<Rightarrow> api_state" where
  "settle_response i c res s =
     set_phase i c (Settled (finish_response res))
       (if runs_403_callback (on403_registered s) res
        then s\<lparr>forbidden_count := forbidden_count s + 1\<rparr> else s)"

fun api_step :: "api_state \<Rightarrow> api_event \<Rightarrow> api_state option" where
  "api_step s (Call i path options) =
     (if rec_get (calls s) i \<noteq> None then None
      else Some (send i path options
        (s\<lparr>calls := rec_set (calls s) i
             \<lparr>ac_path = path, ac_options = options, ac_phase = FirstFetch\<rparr>\<rparr>)))"
| "api_step s (Reply i reply) =
     (case rec_get (calls s) i of
        None \<Rightarrow> None
      | Some c \<Rightarrow>
          (case ac_phase c of
             FirstFetch \<Rightarrow>
               (case reply of
                  None \<Rightarrow> Some (set_phase i c (Settled NetworkError) s)
                | Some res \<Rightarrow>
                    if rs_status res = 401 then Some (on_unauthorized i c s)
                    else Some (settle_response i c res s))
           | SecondFetch \<Rightarrow>
               (case reply of
                  None \<Rightarrow> Some (set_phase i c (Settled NetworkError) s)
                | Some res \<Rightarrow> Some (settle_response i c res s))
           | _ \<Rightarrow> None))"
| "api_step s (RefreshReply r reply) =
     (if rec_get (refreshes s) r = Some RFlying then
        (case refreshed_token reply of
           None \<Rightarrow> Some (s\<lparr>refreshes := rec_set (refreshes s) r (RReturned False)\<rparr>)
         | Some tok \<Rightarrow> Some (s\<lparr>access_token := tok,
                              refreshes := rec_set (refreshes s) r (RReturned True)\<rparr>))
      else None)"
| "api_step s (RefreshFinally r) =
     (case rec_get (refreshes s) r of
        Some (RReturned b) \<Rightarrow>
          Some (s\<lparr>refresh_promise := None, refreshes := rec_set (refreshes s) r (RSettled b)\<rparr>)
      | _ \<Rightarrow> None)"
| "api_step s (Resume i) =
     (case rec_get (calls s) i of
        None \<Rightarrow> None
      | Some c \<Rightarrow>
          (case ac_phase c of
             AwaitRefresh r \<Rightarrow>
               (case rec_get (refreshes s) r of
                  Some (RSettled True) \<Rightarrow>
                    Some (set_phase i c SecondFetch (send i (ac_path c) (ac_options c) s))
                | Some (RSettled False) \<Rightarrow>
                    Some (set_phase i c (Settled (ApiThrow session_expired))
                      (s\<lparr>access_token := JNull, at_login := True\<rparr>))
                | _ \<Rightarrow> None)
           | _ \<Rightarrow> None))"
| "api_step s (SetAccessToken tok) = Some (s\<lparr>access_token := tok\<rparr>)"
| "api_step s OnForbidden = Some (s\<lparr>on403_registered := True\<rparr>)"
| "api_step s (SelectCluster c) = Some (s\<lparr>cluster := c\<rparr>)"

section \<open>Invariant\<close>

definition unsettled :: "refresh_phase \<Rightarrow> bool" where
  "unsettled p \<longleftrightarrow> (case p of RSettled _ \<Rightarrow> False | _ \<Rightarrow> True)"

lemma unsettled_simps [simp]:
  "unsettled RFlying" "unsettled (RReturned b)" "\<not> unsettled (RSettled b)"
  by (simp_all add: unsettled_def)

definition sends_of :: "api_state \<Rightarrow> nat \<Rightarrow> nat" where
  "sends_of s i = length (filter (\<lambda>p. fst p = i) (sent_log s))"

text \<open>
  The promise variable names exactly the refreshes that are not settled; their ids are the
  numbers below the length; a waiting call waits on a refresh that exists; a call has sent one
  request before its replay and two after it, never more.
\<close>

definition promise_inv :: "api_state \<Rightarrow> bool" where
  "promise_inv s \<longleftrightarrow>
     map fst (refreshes s) = [0..<length (refreshes s)]
     \<and> (\<forall>r p. rec_get (refreshes s) r = Some p \<longrightarrow> (unsettled p \<longleftrightarrow> refresh_promise s = Some r))
     \<and> (\<forall>r. refresh_promise s = Some r \<longrightarrow> rec_get (refreshes s) r \<noteq> None)"

definition phase_ok :: "api_state \<Rightarrow> nat \<Rightarrow> call_phase \<Rightarrow> bool" where
  "phase_ok s i ph \<longleftrightarrow>
     (case ph of
        FirstFetch \<Rightarrow> sends_of s i = 1
      | AwaitRefresh r \<Rightarrow> sends_of s i = 1 \<and> rec_get (refreshes s) r \<noteq> None
      | SecondFetch \<Rightarrow> sends_of s i = 2
      | Settled _ \<Rightarrow> 1 \<le> sends_of s i \<and> sends_of s i \<le> 2)"

definition calls_inv :: "api_state \<Rightarrow> bool" where
  "calls_inv s \<longleftrightarrow>
     (\<forall>i c. rec_get (calls s) i = Some c \<longrightarrow> phase_ok s i (ac_phase c))
     \<and> (\<forall>i. rec_get (calls s) i = None \<longrightarrow> sends_of s i = 0)"

definition api_inv :: "api_state \<Rightarrow> bool" where
  "api_inv s \<longleftrightarrow> promise_inv s \<and> calls_inv s"

lemma api_inv_init: "api_inv api_init"
  by (simp add: api_inv_def promise_inv_def calls_inv_def api_init_def sends_of_def)

lemma promise_inv_frame:
  "refreshes t = refreshes s \<Longrightarrow> refresh_promise t = refresh_promise s \<Longrightarrow> promise_inv s \<Longrightarrow> promise_inv t"
  by (simp add: promise_inv_def)

lemma set_phase_simps [simp]:
  "refreshes (set_phase i c ph s) = refreshes s"
  "refresh_promise (set_phase i c ph s) = refresh_promise s"
  "sent_log (set_phase i c ph s) = sent_log s"
  "access_token (set_phase i c ph s) = access_token s"
  "calls (set_phase i c ph s) = rec_set (calls s) i (c\<lparr>ac_phase := ph\<rparr>)"
  "sends_of (set_phase i c ph s) j = sends_of s j"
  by (simp_all add: set_phase_def sends_of_def)

lemma send_simps [simp]:
  "refreshes (send i p o1 s) = refreshes s"
  "refresh_promise (send i p o1 s) = refresh_promise s"
  "calls (send i p o1 s) = calls s"
  "sends_of (send i p o1 s) j = (if j = i then sends_of s j + 1 else sends_of s j)"
  by (simp_all add: send_def sends_of_def)

lemma promise_key_bound: "promise_inv s \<Longrightarrow> rec_get (refreshes s) r = Some p \<Longrightarrow> r < length (refreshes s)"
  unfolding promise_inv_def
  by (metis atLeastLessThan_iff image_set option.distinct(1) rec_get_None_iff set_upt)

lemma promise_inv_start:
  assumes "promise_inv s" "refresh_promise s = None"
  shows "promise_inv (s\<lparr>refreshes := rec_set (refreshes s) (length (refreshes s)) RFlying,
                      refresh_promise := Some (length (refreshes s))\<rparr>)"
proof -
  let ?n = "length (refreshes s)"
  have fresh: "rec_get (refreshes s) ?n = None"
    using promise_key_bound [OF assms(1)] by (metis less_irrefl not_Some_eq)
  then have keys: "map fst (rec_set (refreshes s) ?n RFlying) = map fst (refreshes s) @ [?n]"
    by (simp add: rec_keys_set rec_get_None_iff)
  then have len: "length (rec_set (refreshes s) ?n RFlying) = Suc ?n"
    by (metis length_append_singleton length_map)
  show ?thesis
    using assms fresh unfolding promise_inv_def by (auto simp: keys len)
qed

lemma promise_inv_update:
  assumes "promise_inv s" "rec_get (refreshes s) r = Some p" "unsettled p" "unsettled q"
  shows "promise_inv (s\<lparr>refreshes := rec_set (refreshes s) r q\<rparr>)"
proof -
  have keys: "map fst (rec_set (refreshes s) r q) = map fst (refreshes s)"
    using assms(2) by (metis option.distinct(1) rec_get_None_iff rec_keys_set)
  then have len: "length (rec_set (refreshes s) r q) = length (refreshes s)"
    by (metis length_map)
  show ?thesis using assms unfolding promise_inv_def by (auto simp: keys len)
qed

lemma promise_inv_settle:
  assumes "promise_inv s" "rec_get (refreshes s) r = Some (RReturned b)"
  shows "promise_inv (s\<lparr>refresh_promise := None, refreshes := rec_set (refreshes s) r (RSettled b)\<rparr>)"
proof -
  have keys: "map fst (rec_set (refreshes s) r (RSettled b)) = map fst (refreshes s)"
    using assms(2) by (metis option.distinct(1) rec_get_None_iff rec_keys_set)
  then have len: "length (rec_set (refreshes s) r (RSettled b)) = length (refreshes s)"
    by (metis length_map)
  have "refresh_promise s = Some r"
    using assms unfolding promise_inv_def by fastforce
  then show ?thesis using assms unfolding promise_inv_def by (auto simp: keys len)
qed

lemma promise_inv_tok: "promise_inv s \<Longrightarrow> promise_inv (s\<lparr>access_token := tok\<rparr>)"
  by (simp add: promise_inv_def)

lemma promise_inv_set_phase [simp]: "promise_inv (set_phase i c ph s) = promise_inv s"
  by (simp add: promise_inv_def)

lemma on_unauthorized_promise: "promise_inv s \<Longrightarrow> promise_inv (on_unauthorized i c s)"
  using promise_inv_start [of s] by (auto simp: on_unauthorized_def Let_def split: option.splits)

lemma settle_response_promise: "promise_inv s \<Longrightarrow> promise_inv (settle_response i c res s)"
  by (rule promise_inv_frame [of _ s]) (auto simp: settle_response_def)

lemma step_promise_inv: "promise_inv s \<Longrightarrow> api_step s e = Some t \<Longrightarrow> promise_inv t"
proof (induction s e rule: api_step.induct)
  case (3 s r reply)
  then have r: "rec_get (refreshes s) r = Some RFlying" by (auto split: if_splits)
  show ?case
  proof (cases "refreshed_token reply")
    case None
    with 3 r show ?thesis using promise_inv_update [OF 3(1) r] by auto
  next
    case (Some tok)
    with 3 r show ?thesis using promise_inv_update [OF promise_inv_tok [OF 3(1), of tok], of r RFlying "RReturned True"] by auto
  qed
next
  case (4 s r)
  then show ?case by (auto split: option.splits refresh_phase.splits intro: promise_inv_settle)
qed (auto intro: promise_inv_frame on_unauthorized_promise settle_response_promise
      split: option.splits call_phase.splits refresh_phase.splits bool.splits if_splits)

lemma phase_ok_mono:
  assumes "phase_ok s i ph" "sends_of t i = sends_of s i"
    "\<And>r. rec_get (refreshes s) r \<noteq> None \<Longrightarrow> rec_get (refreshes t) r \<noteq> None"
  shows "phase_ok t i ph"
  using assms by (auto simp: phase_ok_def split: call_phase.splits)

lemma calls_inv_update:
  assumes inv: "calls_inv s" and i: "rec_get (calls s) i = Some c" "phase_ok t i ph"
    and t: "calls t = rec_set (calls s) i (c\<lparr>ac_phase := ph\<rparr>)"
    and sends: "\<And>j. j \<noteq> i \<Longrightarrow> sends_of t j = sends_of s j"
    and known: "\<And>r. rec_get (refreshes s) r \<noteq> None \<Longrightarrow> rec_get (refreshes t) r \<noteq> None"
  shows "calls_inv t"
proof -
  have "phase_ok t j (ac_phase d)" if "rec_get (calls t) j = Some d" for j d
  proof (cases "j = i")
    case True
    then have "d = c\<lparr>ac_phase := ph\<rparr>" using that t by simp
    then show ?thesis using True i(2) by simp
  next
    case False
    then have "phase_ok s j (ac_phase d)" using that inv t by (simp add: calls_inv_def)
    then show ?thesis using sends [OF False] known by (rule phase_ok_mono)
  qed
  moreover have "sends_of t j = 0" if "rec_get (calls t) j = None" for j
    using that inv t sends by (cases "j = i") (auto simp: calls_inv_def)
  ultimately show ?thesis by (simp add: calls_inv_def)
qed

lemma calls_inv_frame:
  assumes inv: "calls_inv s" and t: "calls t = calls s"
    and sends: "\<And>j. sends_of t j = sends_of s j"
    and known: "\<And>r. rec_get (refreshes s) r \<noteq> None \<Longrightarrow> rec_get (refreshes t) r \<noteq> None"
  shows "calls_inv t"
proof -
  have "phase_ok t j (ac_phase d)" if "rec_get (calls s) j = Some d" for j d
    using phase_ok_mono [of s j _ t, OF _ sends known] that inv by (simp add: calls_inv_def)
  then show ?thesis using inv t sends by (simp add: calls_inv_def)
qed

lemma calls_inv_phase: "calls_inv s \<Longrightarrow> rec_get (calls s) i = Some c \<Longrightarrow> phase_ok s i (ac_phase c)"
  by (simp add: calls_inv_def)

lemma sends_of_access [simp]: "sends_of (s\<lparr>access_token := tok\<rparr>) j = sends_of s j"
  "sends_of (s\<lparr>refreshes := rs\<rparr>) j = sends_of s j"
  "sends_of (s\<lparr>refresh_promise := p\<rparr>) j = sends_of s j"
  "sends_of (s\<lparr>forbidden_count := n\<rparr>) j = sends_of s j"
  "sends_of (s\<lparr>at_login := b\<rparr>) j = sends_of s j"
  "sends_of (s\<lparr>on403_registered := b\<rparr>) j = sends_of s j"
  "sends_of (s\<lparr>cluster := x\<rparr>) j = sends_of s j"
  "sends_of (s\<lparr>calls := cs\<rparr>) j = sends_of s j"
  by (simp_all add: sends_of_def)

lemma call_calls_inv:
  assumes "calls_inv s" "rec_get (calls s) i = None"
  shows "calls_inv (send i path options (s\<lparr>calls := rec_set (calls s) i
             \<lparr>ac_path = path, ac_options = options, ac_phase = FirstFetch\<rparr>\<rparr>))" (is "calls_inv ?t")
proof -
  have "phase_ok ?t j (ac_phase d)" if "rec_get (calls ?t) j = Some d" for j d
  proof (cases "j = i")
    case True
    then have "ac_phase d = FirstFetch" using that by auto
    then show ?thesis using True assms by (simp add: calls_inv_def phase_ok_def)
  next
    case False
    then have "phase_ok s j (ac_phase d)" using that assms by (simp add: calls_inv_def)
    then show ?thesis by (rule phase_ok_mono) (use False in simp_all)
  qed
  then show ?thesis using assms by (auto simp: calls_inv_def)
qed

lemma on_unauthorized_calls:
  assumes inv: "calls_inv s" "promise_inv s" and i: "rec_get (calls s) i = Some c" "ac_phase c = FirstFetch"
  shows "calls_inv (on_unauthorized i c s)"
proof -
  have one: "sends_of s i = 1" using calls_inv_phase [OF inv(1) i(1)] i(2) by (simp add: phase_ok_def)
  show ?thesis
  proof (cases "refresh_promise s")
    case None
    then show ?thesis
      by (intro calls_inv_update [OF inv(1) i(1), where ph = "AwaitRefresh (length (refreshes s))"])
        (auto simp: on_unauthorized_def Let_def phase_ok_def one)
  next
    case (Some r)
    then have "rec_get (refreshes s) r \<noteq> None" using inv(2) by (simp add: promise_inv_def)
    with Some show ?thesis
      by (intro calls_inv_update [OF inv(1) i(1), where ph = "AwaitRefresh r"])
        (auto simp: on_unauthorized_def phase_ok_def one)
  qed
qed

lemma settle_calls:
  assumes inv: "calls_inv s" and i: "rec_get (calls s) i = Some c"
    and t: "calls t = rec_set (calls s) i (c\<lparr>ac_phase := Settled x\<rparr>)" "sent_log t = sent_log s"
      "refreshes t = refreshes s"
  shows "calls_inv t"
proof -
  have "1 \<le> sends_of s i \<and> sends_of s i \<le> 2"
    using calls_inv_phase [OF inv i] by (auto simp: phase_ok_def split: call_phase.splits)
  then show ?thesis
    using t by (intro calls_inv_update [OF inv i, of t "Settled x"]) (auto simp: phase_ok_def sends_of_def)
qed

lemma step_calls_inv:
  "promise_inv s \<Longrightarrow> calls_inv s \<Longrightarrow> api_step s e = Some t \<Longrightarrow> calls_inv t"
proof (induction s e rule: api_step.induct)
  case (1 s i path options)
  then show ?case by (auto split: if_splits intro: call_calls_inv)
next
  case (2 s i reply)
  then obtain c where c: "rec_get (calls s) i = Some c" by (auto split: option.splits)
  show ?case
  proof (cases "ac_phase c = FirstFetch \<and> (\<exists>res. reply = Some res \<and> rs_status res = 401)")
    case True
    with 2 c show ?thesis by (auto intro: on_unauthorized_calls)
  next
    case False
    with 2 c obtain x where "calls t = rec_set (calls s) i (c\<lparr>ac_phase := Settled x\<rparr>)"
      "sent_log t = sent_log s" "refreshes t = refreshes s"
      by (auto simp: settle_response_def split: call_phase.splits option.splits if_splits)
    then show ?thesis by (rule settle_calls [OF 2(2) c])
  qed
next
  case (5 s i)
  then obtain c r b where c: "rec_get (calls s) i = Some c" "ac_phase c = AwaitRefresh r"
    "rec_get (refreshes s) r = Some (RSettled b)"
    by (auto split: option.splits call_phase.splits refresh_phase.splits)
  show ?case
  proof (cases b)
    case True
    have "sends_of s i = 1" using calls_inv_phase [OF 5(2) c(1)] c(2) by (simp add: phase_ok_def)
    with 5 c True show ?thesis
      by (intro calls_inv_update [OF 5(2) c(1), of t SecondFetch]) (auto simp: phase_ok_def)
  next
    case False
    with 5 c show ?thesis
      by (intro settle_calls [OF 5(2) c(1), of t "ApiThrow session_expired"]) (auto simp: set_phase_def)
  qed
next
  case (3 s r reply)
  then show ?case
    by (intro calls_inv_frame [OF 3(2), of t]) (auto split: option.splits if_splits)
next
  case (4 s r)
  then show ?case
    by (intro calls_inv_frame [OF 4(2), of t]) (auto split: option.splits refresh_phase.splits)
next
  case (6 s tok)
  then show ?case by (intro calls_inv_frame [OF 6(2), of t]) auto
next
  case (7 s)
  then show ?case by (intro calls_inv_frame [OF 7(2), of t]) auto
next
  case (8 s c)
  then show ?case by (intro calls_inv_frame [OF 8(2), of t]) auto
qed

interpretation api: free_machine api_step api_inv
  by unfold_locales (auto simp: api_inv_def intro: step_promise_inv step_calls_inv)

lemma api_reach_inv: "run_events api_step api_init es = Some s \<Longrightarrow> api_inv s"
  by (rule api.runs_inv [OF api_inv_init])


section \<open>Work and progress\<close>

text \<open>
  Each pending \<open>await\<close> has a weight; a first fetch outweighs the refresh it may start.
\<close>

fun call_weight :: "call_phase \<Rightarrow> nat" where
  "call_weight FirstFetch = 5"
| "call_weight (AwaitRefresh r) = 2"
| "call_weight SecondFetch = 1"
| "call_weight (Settled x) = 0"

fun refresh_weight :: "refresh_phase \<Rightarrow> nat" where
  "refresh_weight RFlying = 2"
| "refresh_weight (RReturned b) = 1"
| "refresh_weight (RSettled b) = 0"

definition api_work :: "api_state \<Rightarrow> nat" where
  "api_work s =
     sum_list (map (\<lambda>p. call_weight (ac_phase (snd p))) (calls s))
     + sum_list (map (\<lambda>p. refresh_weight (snd p)) (refreshes s))"

text \<open>The events that are not the continuation of a call already made.\<close>

fun env_event :: "api_event \<Rightarrow> bool" where
  "env_event (Call i path options) = True"
| "env_event (SetAccessToken tok) = True"
| "env_event OnForbidden = True"
| "env_event (SelectCluster c) = True"
| "env_event (Reply i reply) = False"
| "env_event (RefreshReply r reply) = False"
| "env_event (RefreshFinally r) = False"
| "env_event (Resume i) = False"

lemma sum_rec_set:
  fixes f :: "'k \<times> 'v \<Rightarrow> nat"
  shows "rec_get r k = Some old \<Longrightarrow>
    sum_list (map f (rec_set r k v)) + f (k, old) = sum_list (map f r) + f (k, v)"
  by (induction r k v rule: rec_set.induct) (auto split: if_splits)

lemma sum_rec_set_new:
  fixes f :: "'k \<times> 'v \<Rightarrow> nat"
  shows "rec_get r k = None \<Longrightarrow>
    sum_list (map f (rec_set r k v)) = sum_list (map f r) + f (k, v)"
  by (induction r k v rule: rec_set.induct) (auto split: if_splits)

lemma work_calls:
  assumes "rec_get (calls s) i = Some c" "calls t = rec_set (calls s) i (c\<lparr>ac_phase := ph\<rparr>)"
    "refreshes t = refreshes s" "call_weight ph < call_weight (ac_phase c)"
  shows "api_work t < api_work s"
  using sum_rec_set [OF assms(1), of "\<lambda>p. call_weight (ac_phase (snd p))" "c\<lparr>ac_phase := ph\<rparr>"] assms
  by (simp add: api_work_def)

lemma work_refreshes:
  assumes "rec_get (refreshes s) r = Some p" "refreshes t = rec_set (refreshes s) r q"
    "calls t = calls s" "refresh_weight q < refresh_weight p"
  shows "api_work t < api_work s"
  using sum_rec_set [OF assms(1), of "\<lambda>p. refresh_weight (snd p)" q] assms
  by (simp add: api_work_def)

lemma work_unauthorized:
  assumes "promise_inv s" "rec_get (calls s) i = Some c" "ac_phase c = FirstFetch"
  shows "api_work (on_unauthorized i c s) < api_work s"
proof (cases "refresh_promise s")
  case None
  have "rec_get (refreshes s) (length (refreshes s)) = None"
    using promise_key_bound [OF assms(1)] by (metis less_irrefl not_Some_eq)
  then show ?thesis
    using None assms sum_rec_set [OF assms(2), of "\<lambda>p. call_weight (ac_phase (snd p))"
        "c\<lparr>ac_phase := AwaitRefresh (length (refreshes s))\<rparr>"]
    by (simp add: api_work_def on_unauthorized_def Let_def sum_rec_set_new)
next
  case (Some r)
  with assms show ?thesis by (intro work_calls) (auto simp: on_unauthorized_def)
qed

lemma step_drains:
  "api_inv s \<Longrightarrow> \<not> env_event e \<Longrightarrow> api_step s e = Some t \<Longrightarrow> api_work t < api_work s"
proof (induction s e rule: api_step.induct)
  case (2 s i reply)
  then obtain c where c: "rec_get (calls s) i = Some c" by (auto split: option.splits)
  show ?case
  proof (cases "ac_phase c = FirstFetch \<and> (\<exists>res. reply = Some res \<and> rs_status res = 401)")
    case True
    with 2 c show ?thesis by (auto simp: api_inv_def intro: work_unauthorized)
  next
    case False
    with 2 c obtain x where "calls t = rec_set (calls s) i (c\<lparr>ac_phase := Settled x\<rparr>)"
      "refreshes t = refreshes s" "0 < call_weight (ac_phase c)"
      by (auto simp: settle_response_def split: call_phase.splits option.splits if_splits)
    then show ?thesis by (intro work_calls [OF c]) auto
  qed
next
  case (3 s r reply)
  then show ?case
    by (cases "refreshed_token reply") (auto intro: work_refreshes split: if_splits)
next
  case (4 s r)
  then obtain b where "rec_get (refreshes s) r = Some (RReturned b)"
    by (auto split: option.splits refresh_phase.splits)
  with 4 show ?case by (intro work_refreshes [of s r "RReturned b" t]) auto
next
  case (5 s i)
  then obtain c r b where c: "rec_get (calls s) i = Some c" "ac_phase c = AwaitRefresh r"
    "rec_get (refreshes s) r = Some (RSettled b)"
    by (auto split: option.splits call_phase.splits refresh_phase.splits)
  with 5 show ?case
    by (cases b) (auto intro!: work_calls [OF c(1)] simp: set_phase_def send_def)
qed auto

interpretation api_drain: draining api_step api_inv env_event api_work
  by unfold_locales (auto intro: api.step_inv step_drains)

text \<open>A call that is not settled has an event to continue with.\<close>

lemma unsettled_call_enabled:
  assumes inv: "api_inv s" and c: "rec_get (calls s) i = Some c" "\<forall>x. ac_phase c \<noteq> Settled x"
  shows "\<exists>e t. \<not> env_event e \<and> api_step s e = Some t"
proof (cases "ac_phase c")
  case FirstFetch
  then show ?thesis using c by (intro exI [of _ "Reply i None"]) auto
next
  case SecondFetch
  then show ?thesis using c by (intro exI [of _ "Reply i None"]) auto
next
  case (AwaitRefresh r)
  then obtain p where p: "rec_get (refreshes s) r = Some p"
    using inv c(1) calls_inv_phase [of s i c] by (auto simp: api_inv_def phase_ok_def)
  show ?thesis
  proof (cases p)
    case RFlying
    then show ?thesis using p by (intro exI [of _ "RefreshReply r None"]) (auto simp: refreshed_token_def)
  next
    case (RReturned b)
    then show ?thesis using p by (intro exI [of _ "RefreshFinally r"]) auto
  next
    case (RSettled b)
    then show ?thesis using p c AwaitRefresh by (intro exI [of _ "Resume i"]) (cases b; auto)
  qed
qed (use c in auto)

section \<open>Where results come from\<close>

text \<open>A call that is settled with data was settled by a reply to that very call.\<close>

lemma step_reply:
  assumes "api_step s (Reply i reply) = Some t"
  obtains c ph where "rec_get (calls s) i = Some c"
    "calls t = rec_set (calls s) i (c\<lparr>ac_phase := ph\<rparr>)"
    "\<And>x. ph = Settled x \<Longrightarrow> x = NetworkError \<or> (\<exists>res. reply = Some res \<and> x = finish_response res)"
proof -
  from assms obtain c where c: "rec_get (calls s) i = Some c" by (auto split: option.splits)
  show thesis
  proof (cases "ac_phase c = FirstFetch \<and> (\<exists>res. reply = Some res \<and> rs_status res = 401)")
    case True
    then have "t = on_unauthorized i c s" using assms c by auto
    then show thesis using c
      by (cases "refresh_promise s") (auto simp: on_unauthorized_def Let_def intro: that)
  next
    case False
    show thesis
    proof (cases reply)
      case None
      then have "t = set_phase i c (Settled NetworkError) s"
        using assms c by (auto split: call_phase.splits)
      then show thesis using c by (intro that [OF c]) auto
    next
      case (Some res)
      then have "t = settle_response i c res s"
        using False assms c by (auto split: call_phase.splits if_splits)
      then show thesis using Some
        by (intro that [OF c, of "Settled (finish_response res)"]) (auto simp: settle_response_def)
    qed
  qed
qed

lemma step_resume:
  assumes "api_step s (Resume i) = Some t"
  obtains c ph where "rec_get (calls s) i = Some c"
    "calls t = rec_set (calls s) i (c\<lparr>ac_phase := ph\<rparr>)"
    "ph = SecondFetch \<or> ph = Settled (ApiThrow session_expired)"
proof -
  from assms obtain c r b where c: "rec_get (calls s) i = Some c" "ac_phase c = AwaitRefresh r"
    "rec_get (refreshes s) r = Some (RSettled b)"
    by (auto split: option.splits call_phase.splits refresh_phase.splits)
  with assms show thesis by (cases b) (auto simp: set_phase_def send_def intro: that)
qed

lemma finish_response_data: "finish_response res = ApiData d \<Longrightarrow> res_ok res"
  by (auto simp: finish_response_def Let_def split: if_splits)

lemma step_data_source:
  assumes st: "api_step s e = Some t" and i: "rec_get (calls t) i = Some c"
    and d: "ac_phase c = Settled (ApiData d)"
  shows "(\<exists>c'. rec_get (calls s) i = Some c' \<and> ac_phase c' = Settled (ApiData d))
    \<or> (\<exists>res. e = Reply i (Some res) \<and> res_ok res \<and> finish_response res = ApiData d)"
proof (cases e)
  case (Reply j reply)
  from st [unfolded Reply] obtain c' ph where c': "rec_get (calls s) j = Some c'"
    "calls t = rec_set (calls s) j (c'\<lparr>ac_phase := ph\<rparr>)"
    "\<And>x. ph = Settled x \<Longrightarrow> x = NetworkError \<or> (\<exists>res. reply = Some res \<and> x = finish_response res)"
    by (rule step_reply) blast
  show ?thesis
  proof (cases "j = i")
    case True
    then have "c = c'\<lparr>ac_phase := ph\<rparr>" using i c'(2) by simp
    with d have "ph = Settled (ApiData d)" by simp
    from c'(3) [OF this] obtain res where "reply = Some res" "finish_response res = ApiData d" by auto
    then show ?thesis using True Reply finish_response_data by blast
  next
    case False
    then show ?thesis using i c'(2) d by auto
  qed
next
  case (Resume j)
  from st [unfolded Resume] obtain c' ph where c': "rec_get (calls s) j = Some c'"
    "calls t = rec_set (calls s) j (c'\<lparr>ac_phase := ph\<rparr>)"
    "ph = SecondFetch \<or> ph = Settled (ApiThrow session_expired)"
    by (rule step_resume) blast
  then have "j \<noteq> i" using i d by auto
  then show ?thesis using i c'(2) d by auto
qed (use st i d in \<open>auto simp: send_def split: option.splits refresh_phase.splits if_splits\<close>)

lemma run_data_source:
  "run_events api_step s es = Some t \<Longrightarrow> rec_get (calls t) i = Some c \<Longrightarrow>
   ac_phase c = Settled (ApiData d) \<Longrightarrow>
   (\<exists>c'. rec_get (calls s) i = Some c' \<and> ac_phase c' = Settled (ApiData d))
    \<or> (\<exists>res. Reply i (Some res) \<in> set es \<and> res_ok res \<and> finish_response res = ApiData d)"
proof (induction es arbitrary: s)
  case (Cons e es)
  then obtain u where u: "api_step s e = Some u" "run_events api_step u es = Some t"
    by (auto split: option.splits)
  from Cons.IH [OF u(2) Cons.prems(2,3)] show ?case
    using step_data_source [OF u(1)] by fastforce
qed auto

lemma settled_persists:
  assumes "promise_inv s" "api_step s e = Some t" "rec_get (refreshes s) r = Some (RSettled b)"
  shows "rec_get (refreshes t) r = Some (RSettled b)"
proof -
  have fresh: "r \<noteq> length (refreshes s)" using promise_key_bound [OF assms(1,3)] by simp
  show ?thesis
  proof (cases e)
    case (Reply i reply)
    then show ?thesis using assms fresh
      by (auto simp: on_unauthorized_def Let_def settle_response_def
          split: option.splits call_phase.splits if_splits)
  next
    case (RefreshReply q reply)
    then show ?thesis using assms by (auto split: option.splits if_splits)
  next
    case (RefreshFinally q)
    then show ?thesis using assms by (auto split: option.splits refresh_phase.splits)
  next
    case (Resume i)
    then show ?thesis using assms
      by (auto split: option.splits call_phase.splits refresh_phase.splits bool.splits)
  qed (use assms in \<open>auto split: if_splits\<close>)
qed

definition retry_inv :: "api_state \<Rightarrow> bool" where
  "retry_inv s \<longleftrightarrow> (\<forall>i. 2 \<le> sends_of s i \<longrightarrow> (\<exists>r. rec_get (refreshes s) r = Some (RSettled True)))"

lemma step_sends_frame:
  assumes "api_step s e = Some t" "\<And>i p o1. e \<noteq> Call i p o1" "\<And>i. e \<noteq> Resume i"
  shows "sends_of t j = sends_of s j"
proof (cases e)
  case (Reply i reply)
  then show ?thesis using assms(1)
    by (auto simp: on_unauthorized_def Let_def settle_response_def
        split: option.splits call_phase.splits if_splits)
next
  case (RefreshReply r reply)
  then show ?thesis using assms(1) by (auto split: option.splits if_splits simp: sends_of_def)
next
  case (RefreshFinally r)
  then show ?thesis using assms(1) by (auto split: option.splits refresh_phase.splits simp: sends_of_def)
qed (use assms in auto)

lemma step_retry_inv:
  assumes "api_inv s" "retry_inv s" "api_step s e = Some t"
  shows "retry_inv t"
proof -
  have keep: "\<exists>r. rec_get (refreshes t) r = Some (RSettled True)"
    if "2 \<le> sends_of s i" for i
    using assms that settled_persists [of s e t] unfolding retry_inv_def api_inv_def by blast
  show ?thesis
  proof (cases e)
    case (Call i path options)
    then have "rec_get (calls s) i = None" "\<And>j. sends_of t j = (if j = i then sends_of s j + 1 else sends_of s j)"
      using assms(3) by (auto split: if_splits)
    then have "2 \<le> sends_of t j \<Longrightarrow> 2 \<le> sends_of s j" for j
      using assms(1) by (auto simp: api_inv_def calls_inv_def split: if_splits)
    then show ?thesis using keep unfolding retry_inv_def by blast
  next
    case (Resume i)
    then obtain c r b where c: "rec_get (calls s) i = Some c" "ac_phase c = AwaitRefresh r"
      "rec_get (refreshes s) r = Some (RSettled b)"
      using assms(3) by (auto split: option.splits call_phase.splits refresh_phase.splits)
    show ?thesis
    proof (cases b)
      case True
      then have "rec_get (refreshes t) r = Some (RSettled True)"
        using settled_persists [OF _ assms(3) c(3)] assms(1) by (simp add: api_inv_def)
      then show ?thesis unfolding retry_inv_def by blast
    next
      case False
      then have "sends_of t j = sends_of s j" for j
        using assms(3) Resume c by (auto simp: set_phase_def)
      then show ?thesis using keep unfolding retry_inv_def by metis
    qed
  next
    case (Reply i reply)
    then show ?thesis using keep step_sends_frame [OF assms(3)] unfolding retry_inv_def by simp
  next
    case (RefreshReply i reply)
    then show ?thesis using keep step_sends_frame [OF assms(3)] unfolding retry_inv_def by simp
  next
    case (RefreshFinally i)
    then show ?thesis using keep step_sends_frame [OF assms(3)] unfolding retry_inv_def by simp
  qed (use keep step_sends_frame [OF assms(3)] in \<open>simp_all add: retry_inv_def\<close>)
qed

lemma retry_inv_init: "retry_inv api_init"
  by (simp add: retry_inv_def api_init_def sends_of_def)

interpretation api_retry: free_machine api_step "\<lambda>s. api_inv s \<and> retry_inv s"
  by unfold_locales (auto intro: api.step_inv step_retry_inv)

lemma phase_ok_bound: "phase_ok s i ph \<Longrightarrow> sends_of s i \<le> 2"
  by (cases ph) (auto simp: phase_ok_def)

lemma sends_bound: "api_inv s \<Longrightarrow> sends_of s i \<le> 2"
  using phase_ok_bound by (cases "rec_get (calls s) i") (fastforce simp: api_inv_def calls_inv_def)+

lemma await_known:
  "api_inv s \<Longrightarrow> rec_get (calls s) i = Some c \<Longrightarrow> ac_phase c = AwaitRefresh r \<Longrightarrow>
   \<exists>p. rec_get (refreshes s) r = Some p"
  using calls_inv_phase [of s i c] by (simp add: api_inv_def phase_ok_def)

section \<open>Properties\<close>

lemma unsettled_at_most_one:
  assumes "promise_inv s"
  shows "length (filter (\<lambda>p. unsettled (snd p)) (refreshes s)) \<le> 1"
proof -
  let ?u = "filter (\<lambda>p. unsettled (snd p)) (refreshes s)"
  have d: "distinct (map fst (refreshes s))"
    using assms by (metis distinct_upt promise_inv_def)
  have "fst ` set ?u \<subseteq> set_option (refresh_promise s)"
    using assms rec_get_in [OF d] by (fastforce simp: promise_inv_def)
  then have "card (fst ` set ?u) \<le> card (set_option (refresh_promise s))"
    by (intro card_mono) simp_all
  moreover have "card (set_option (refresh_promise s)) \<le> 1"
    by (cases "refresh_promise s") simp_all
  moreover have "card (set (map fst ?u)) = length (map fst ?u)"
    using d by (intro distinct_card) (simp add: distinct_map_filter)
  ultimately show ?thesis by simp
qed

text \<open>C1: In every run of concurrent \<open>api()\<close> calls, whatever the server answers and in whatever
  order, at most one token refresh is unfinished, and every call that waits for an unfinished
  refresh waits for the one \<open>refreshPromise\<close> holds.\<close>

theorem refresh_single_flight:
  assumes "run_events api_step api_init es = Some s"
  shows "length (filter (\<lambda>p. unsettled (snd p)) (refreshes s)) \<le> 1
    \<and> (\<forall>i c r. rec_get (calls s) i = Some c \<longrightarrow> ac_phase c = AwaitRefresh r \<longrightarrow>
         refresh_promise s = Some r \<or> (\<exists>b. rec_get (refreshes s) r = Some (RSettled b)))"
proof -
  have inv: "api_inv s" using assms by (rule api_reach_inv)
  have "refresh_promise s = Some r \<or> (\<exists>b. rec_get (refreshes s) r = Some (RSettled b))"
    if c: "rec_get (calls s) i = Some c" "ac_phase c = AwaitRefresh r" for i c r
  proof -
    obtain p where p: "rec_get (refreshes s) r = Some p" using await_known [OF inv c] by blast
    then show ?thesis using inv by (cases p) (fastforce simp: api_inv_def promise_inv_def)+
  qed
  then show ?thesis using inv unsettled_at_most_one by (auto simp: api_inv_def)
qed

definition demo_get :: request_init where
  "demo_get = \<lparr>ri_method = Some ''GET'', ri_headers = [], ri_body = None\<rparr>"

definition demo_unauthorized :: response where
  "demo_unauthorized = \<lparr>rs_status = 401, rs_status_text = ''Unauthorized'', rs_json = None\<rparr>"

lemma refresh_single_flight_witness:
  "\<exists>s. run_events api_step api_init
      [Call 0 ''/v1/a'' demo_get, Call 1 ''/v1/b'' demo_get,
       Reply 0 (Some demo_unauthorized), Reply 1 (Some demo_unauthorized)] = Some s
    \<and> length (filter (\<lambda>p. unsettled (snd p)) (refreshes s)) \<le> 1"
  (is "\<exists>s. run_events _ _ ?es = Some s \<and> _")
proof -
  obtain s where s: "run_events api_step api_init ?es = Some s"
    by (simp add: api_init_def demo_unauthorized_def on_unauthorized_def set_phase_def send_def Let_def)
  from refresh_single_flight [OF s] s show ?thesis by blast
qed

text \<open>C5: A call of \<open>api()\<close> sends at most two requests in any run, and it sends the second
  one (the replay) only when some refresh has succeeded.\<close>

theorem at_most_one_retry:
  assumes "run_events api_step api_init es = Some s"
  shows "sends_of s i \<le> 2
    \<and> (sends_of s i = 2 \<longrightarrow> (\<exists>r. rec_get (refreshes s) r = Some (RSettled True)))"
proof -
  have "api_inv s \<and> retry_inv s"
    using api_retry.runs_inv [OF _ assms] api_inv_init retry_inv_init by blast
  then show ?thesis using sends_bound unfolding retry_inv_def by (metis le_refl)
qed

definition demo_token_reply :: response where
  "demo_token_reply = \<lparr>rs_status = 200, rs_status_text = ''OK'',
     rs_json = Some (JObj [(''data'', JObj [(''accessToken'', JStr ''t1'')])])\<rparr>"

definition demo_data :: response where
  "demo_data = \<lparr>rs_status = 200, rs_status_text = ''OK'', rs_json = Some (JObj [(''data'', JNum 7)])\<rparr>"

definition demo_retry_run :: "api_event list" where
  "demo_retry_run =
     [Call 0 ''/v1/a'' demo_get, Reply 0 (Some demo_unauthorized), RefreshReply 0 (Some demo_token_reply),
      RefreshFinally 0, Resume 0, Reply 0 (Some demo_data)]"

lemmas demo_run_simps =
  api_init_def demo_retry_run_def demo_get_def demo_unauthorized_def demo_token_reply_def demo_data_def
  on_unauthorized_def set_phase_def send_def Let_def refreshed_token_def res_ok_def
  settle_response_def finish_response_def runs_403_callback_def sends_of_def

lemma demo_retry_ends:
  "\<exists>s. run_events api_step api_init demo_retry_run = Some s \<and> sends_of s 0 = 2
     \<and> (\<exists>c. rec_get (calls s) 0 = Some c \<and> ac_phase c = Settled (ApiData (JObj [(''data'', JNum 7)])))"
  by (simp add: demo_run_simps)

lemma at_most_one_retry_witness:
  "\<exists>s. run_events api_step api_init demo_retry_run = Some s \<and> sends_of s 0 = 2
     \<and> (\<exists>r. rec_get (refreshes s) r = Some (RSettled True))"
  using demo_retry_ends at_most_one_retry by blast

text \<open>C6: Every \<open>api()\<close> call settles: from any reachable state the continuations of the calls
  already made use up a measure, so they cannot go on for ever, and when none is left every call
  has returned or thrown.\<close>

theorem api_calls_settle:
  assumes "run_events api_step api_init es = Some s"
  shows "(\<forall>fs t. run_events api_step s fs = Some t \<longrightarrow> (\<forall>e \<in> set fs. \<not> env_event e) \<longrightarrow>
            length fs \<le> api_work s)
    \<and> ((\<forall>e. \<not> env_event e \<longrightarrow> api_step s e = None) \<longrightarrow>
         (\<forall>i c. rec_get (calls s) i = Some c \<longrightarrow> (\<exists>x. ac_phase c = Settled x)))"
proof -
  have inv: "api_inv s" using assms by (rule api_reach_inv)
  show ?thesis
    using api_drain.run_length_bounded [OF inv] unsettled_call_enabled [OF inv]
    by (metis add_leD1 option.distinct(1))
qed

lemma api_calls_settle_witness:
  "\<exists>s. run_events api_step api_init demo_retry_run = Some s
    \<and> (\<forall>fs t. run_events api_step s fs = Some t \<longrightarrow> (\<forall>e \<in> set fs. \<not> env_event e) \<longrightarrow>
            length fs \<le> api_work s)"
  using demo_retry_ends api_calls_settle by blast



lemma header_names [simp]:
  "to_lower ''Authorization'' = ''authorization''" "to_lower ''X-Cluster-ID'' = ''x-cluster-id''"
  "to_lower ''Content-Type'' = ''content-type''" "to_lower ''X-Requested-With'' = ''x-requested-with''"
  by code_simp+

text \<open>The headers of every request \<open>doFetch\<close> builds, by name and whatever the caller passes:
  the cluster id is always set, the bearer token whenever there is one, the CSRF header on every
  method but GET, a JSON content type only for a body whose caller gave none; the caller's other
  headers are untouched.\<close>

theorem request_headers:
  "headers_get (rq_headers (build_request tok cl path o1)) n =
     (if to_lower n = ''x-requested-with'' \<and> has_text (ri_method o1) \<and> ri_method o1 \<noteq> Some ''GET''
      then Some ''XMLHttpRequest''
      else if to_lower n = ''content-type'' \<and> has_text (ri_body o1)
              \<and> headers_get (new_headers (ri_headers o1)) ''Content-Type'' = None
      then Some ''application/json''
      else if to_lower n = ''x-cluster-id'' then Some cl
      else if to_lower n = ''authorization'' \<and> truthy tok then Some (''Bearer '' @ js_text tok)
      else headers_get (new_headers (ri_headers o1)) n)"
  by (auto simp: build_request_def Let_def)

end
