(* ===== verification/Ws_Client.thy ===== *)
theory Ws_Client
  imports Http_Client
begin

text \<open>
  \<open>lib/ws.ts\<close>: the WebSocket client with authentication, subscriptions and reconnection.
  The module-level variables are the fields of \<open>ws_state\<close>; the browser's sockets are kept
  beside them, since a socket outlives the variable \<open>ws\<close> that pointed to it and its handlers
  still run. Each handler, timer callback, \<open>await\<close> continuation and exported function is one
  event of \<open>ws_step\<close>; the order of the events is the environment's choice.
\<close>

section \<open>State\<close>

datatype ws_status_value = WsConnecting | WsConnected | WsDisconnected

datatype ready_state = RConnecting | ROpen | RClosing | RClosed

datatype client_msg =
    MsgAuth js
  | MsgSubscribe string string string
  | MsgUnsubscribe string

record socket =
  sk_ready :: ready_state
  sk_sent :: "client_msg list"

record subscription =
  sb_id :: string
  sb_kind :: string
  sb_namespace :: string
  sb_callback :: nat

text \<open>
  A timeout is pending exactly while \<open>reconnectTimer\<close> is not null, so the field holds the
  cancellation token its callback captured. Tokens are numbers; \<open>disconnectWS\<close> cancels the
  current one and makes the next current, so a token is cancelled when it is below
  \<open>cancel_token\<close>. \<open>reconnecting\<close> lists the callbacks that await \<open>refreshTokenForWS\<close>, and
  \<open>vis_listeners\<close> counts the registered \<open>onVisible\<close> listeners. \<open>delivered\<close> logs the
  invocations of subscribers' callbacks.
\<close>

record ws_state =
  ws_ref :: "nat option"
  sockets :: "nat \<Rightarrow> socket option"
  next_socket :: nat
  reconnect_attempt :: nat
  reconnect_timer :: "nat option"
  cancel_token :: nat
  reconnecting :: "nat list"
  subscriptions :: "(string \<times> subscription) list"
  authenticated :: bool
  ws_status :: ws_status_value
  ws_token :: js
  doc_hidden :: bool
  vis_listeners :: nat
  delivered :: "(nat \<times> js \<times> js) list"

definition ws_init :: ws_state where
  "ws_init =
     \<lparr>ws_ref = None, sockets = (\<lambda>_. None), next_socket = 0, reconnect_attempt = 0,
      reconnect_timer = None, cancel_token = 0, reconnecting = [], subscriptions = [],
      authenticated = False, ws_status = WsDisconnected, ws_token = JNull, doc_hidden = False,
      vis_listeners = 0, delivered = []\<rparr>"

definition BASE_DELAY :: rat where "BASE_DELAY = 1000"
definition MAX_DELAY :: rat where "MAX_DELAY = 30000"
definition JITTER :: rat where "JITTER = 1 / 5"
definition AUTH_FAILURE_CODES :: "nat list" where "AUTH_FAILURE_CODES = [4001, 4003]"
definition MAX_RECONNECT_ATTEMPTS :: nat where "MAX_RECONNECT_ATTEMPTS = 15"

section \<open>Operations\<close>

text \<open>\<open>getWsUrl\<close>, from the page's protocol and host.\<close>

definition get_ws_url :: "string \<Rightarrow> string \<Rightarrow> string" where
  "get_ws_url protocol host =
     (if protocol = ''https:'' then ''wss:'' else ''ws:'') @ ''//'' @ host @ ''/ws/v1/ws/resources''"

text \<open>\<open>reconnectDelay\<close>, for the value \<open>u\<close> that \<open>Math.random()\<close> returns (exact arithmetic).\<close>

definition reconnect_delay :: "nat \<Rightarrow> rat \<Rightarrow> rat" where
  "reconnect_delay attempt u =
     (let delay = min (BASE_DELAY * 2 ^ attempt) MAX_DELAY;
          jitter = delay * JITTER * (u * 2 - 1)
      in delay + jitter)"

definition ready_of :: "ws_state \<Rightarrow> nat \<Rightarrow> ready_state option" where
  "ready_of s k = map_option sk_ready (sockets s k)"

definition set_ready :: "nat \<Rightarrow> ready_state \<Rightarrow> ws_state \<Rightarrow> ws_state" where
  "set_ready k r s =
     (case sockets s k of None \<Rightarrow> s
      | Some sk \<Rightarrow> s\<lparr>sockets := (sockets s)(k \<mapsto> sk\<lparr>sk_ready := r\<rparr>)\<rparr>)"

text \<open>\<open>socket.send\<close> on an open socket.\<close>

definition push_msg :: "nat \<Rightarrow> client_msg \<Rightarrow> ws_state \<Rightarrow> ws_state" where
  "push_msg k m s =
     (case sockets s k of None \<Rightarrow> s
      | Some sk \<Rightarrow> s\<lparr>sockets := (sockets s)(k \<mapsto> sk\<lparr>sk_sent := sk_sent sk @ [m]\<rparr>)\<rparr>)"

text \<open>\<open>socket.close()\<close>: the socket starts to close unless it already does.\<close>

definition close_socket :: "nat \<Rightarrow> ws_state \<Rightarrow> ws_state" where
  "close_socket k s =
     (if ready_of s k \<in> {Some RConnecting, Some ROpen} then set_ready k RClosing s else s)"

definition schedule_reconnect :: "ws_state \<Rightarrow> ws_state" where
  "schedule_reconnect s =
     (if reconnect_timer s \<noteq> None then s
      else if doc_hidden s then s\<lparr>vis_listeners := vis_listeners s + 1\<rparr>
      else s\<lparr>reconnect_attempt := reconnect_attempt s + 1, reconnect_timer := Some (cancel_token s)\<rparr>)"

definition ws_live :: "ws_state \<Rightarrow> bool" where
  "ws_live s \<longleftrightarrow>
     (case ws_ref s of None \<Rightarrow> False | Some k \<Rightarrow> ready_of s k \<in> {Some ROpen, Some RConnecting})"

text \<open>\<open>connectWS\<close>; \<open>ctor_ok\<close> says that \<open>new WebSocket\<close> does not throw.\<close>

definition connect_ws :: "bool \<Rightarrow> ws_state \<Rightarrow> ws_state" where
  "connect_ws ctor_ok s =
     (if ws_live s then s
      else
        (let s1 = s\<lparr>ws_status := WsConnecting, authenticated := False\<rparr>
         in if ctor_ok then
              s1\<lparr>ws_ref := Some (next_socket s1),
                 sockets := (sockets s1)(next_socket s1 \<mapsto> \<lparr>sk_ready = RConnecting, sk_sent = []\<rparr>),
                 next_socket := next_socket s1 + 1\<rparr>
            else schedule_reconnect s1))"

text \<open>\<open>sendSubscribe\<close>.\<close>

definition send_subscribe :: "subscription \<Rightarrow> ws_state \<Rightarrow> ws_state" where
  "send_subscribe sub s =
     (case ws_ref s of
        None \<Rightarrow> s
      | Some k \<Rightarrow>
          if ready_of s k = Some ROpen \<and> authenticated s
          then push_msg k (MsgSubscribe (sb_id sub) (sb_kind sub) (sb_namespace sub)) s else s)"

text \<open>
  \<open>ws.onopen\<close> of any socket: it uses the variable \<open>ws\<close>. When that is null, or the socket
  it holds is still connecting, the handler throws and nothing more happens; \<open>send\<close> on a
  closing socket is dropped.
\<close>

definition on_open :: "ws_state \<Rightarrow> ws_state" where
  "on_open s =
     (case ws_ref s of
        None \<Rightarrow> s
      | Some k \<Rightarrow>
          if truthy (ws_token s) then
            (if ready_of s k = Some ROpen then push_msg k (MsgAuth (ws_token s)) s else s)
          else (close_socket k s)\<lparr>ws_status := WsDisconnected\<rparr>)"

text \<open>\<open>ws.onclose\<close> of any socket.\<close>

definition on_close :: "nat \<Rightarrow> ws_state \<Rightarrow> ws_state" where
  "on_close code s =
     (let s1 = s\<lparr>ws_ref := None, authenticated := False, ws_status := WsDisconnected\<rparr>
      in if code \<in> set AUTH_FAILURE_CODES then s1
         else if reconnect_attempt s1 \<ge> MAX_RECONNECT_ATTEMPTS then s1
         else schedule_reconnect s1)"

text \<open>\<open>handleMessage\<close>, on the parsed message.\<close>

definition notify :: "js \<Rightarrow> js \<Rightarrow> js \<Rightarrow> ws_state \<Rightarrow> ws_state" where
  "notify msg_id event_type object s =
     (case msg_id of
        JStr i \<Rightarrow>
          (case rec_get (subscriptions s) i of
             None \<Rightarrow> s
           | Some sub \<Rightarrow> s\<lparr>delivered := delivered s @ [(sb_callback sub, event_type, object)]\<rparr>)
      | _ \<Rightarrow> s)"

definition handle_message :: "js \<Rightarrow> ws_state \<Rightarrow> ws_state" where
  "handle_message msg s =
     (let ty = js_get msg ''type''; msg_id = js_get msg ''id''
      in if ty = JStr ''auth_ok'' then
           fold send_subscribe (map snd (subscriptions s))
             (s\<lparr>authenticated := True, ws_status := WsConnected, reconnect_attempt := 0\<rparr>)
         else if ty = JStr ''event'' then
           (if truthy msg_id \<and> truthy (js_get msg ''eventType'') \<and> js_get msg ''object'' \<noteq> JUndef
            then notify msg_id (js_get msg ''eventType'') (js_get msg ''object'') s else s)
         else if ty = JStr ''error'' then
           (if truthy msg_id \<and> js_get msg ''code'' = JNum 403
            then notify msg_id (JStr ''RBAC_DENIED'') JNull s else s)
         else if ty = JStr ''subscribed'' then s
         else if ty = JStr ''resync_required'' then
           (if truthy msg_id then notify msg_id (JStr ''RESYNC'') JNull s else s)
         else s)"

text \<open>The unsubscribe function that \<open>subscribe\<close> returns.\<close>

definition unsubscribe :: "string \<Rightarrow> ws_state \<Rightarrow> ws_state" where
  "unsubscribe sub_id s =
     (let s1 = s\<lparr>subscriptions := rec_del (subscriptions s) sub_id\<rparr>
      in case ws_ref s1 of
           None \<Rightarrow> s1
         | Some k \<Rightarrow>
             if ready_of s1 k = Some ROpen \<and> authenticated s1
             then push_msg k (MsgUnsubscribe sub_id) s1 else s1)"

definition subscribe_ws :: "bool \<Rightarrow> subscription \<Rightarrow> ws_state \<Rightarrow> ws_state" where
  "subscribe_ws ctor_ok sub s =
     send_subscribe sub
       (connect_ws ctor_ok (s\<lparr>subscriptions := rec_set (subscriptions s) (sb_id sub) sub\<rparr>))"

definition disconnect_ws :: "ws_state \<Rightarrow> ws_state" where
  "disconnect_ws s =
     (let s1 = s\<lparr>cancel_token := cancel_token s + 1, reconnect_timer := None,
                 reconnect_attempt := 0, subscriptions := []\<rparr>;
          s2 = (case ws_ref s1 of None \<Rightarrow> s1 | Some k \<Rightarrow> (close_socket k s1)\<lparr>ws_ref := None\<rparr>)
      in s2\<lparr>ws_status := WsDisconnected\<rparr>)"

text \<open>The timeout's callback up to its \<open>await\<close>, and its continuation.\<close>

definition timer_callback :: "nat \<Rightarrow> ws_state \<Rightarrow> ws_state" where
  "timer_callback tok s =
     (let s1 = s\<lparr>reconnect_timer := None\<rparr>
      in if tok < cancel_token s1 then s1 else s1\<lparr>reconnecting := tok # reconnecting s1\<rparr>)"

definition reconnect_continue :: "nat \<Rightarrow> response option \<Rightarrow> bool \<Rightarrow> ws_state \<Rightarrow> ws_state" where
  "reconnect_continue tok reply ctor_ok s =
     (let s1 = s\<lparr>reconnecting := remove1 tok (reconnecting s)\<rparr>;
          s2 = (case refreshed_token reply of None \<Rightarrow> s1 | Some v \<Rightarrow> s1\<lparr>ws_token := v\<rparr>)
      in if tok < cancel_token s2 then s2 else connect_ws ctor_ok s2)"

section \<open>Events\<close>

datatype ws_event =
    WConnect bool
  | WOpen nat
  | WMessage nat "js option"
  | WCloseStart nat
  | WClose nat nat
  | WTimer
  | WRefreshed nat "response option" bool
  | WSubscribe bool subscription
  | WUnsubscribe string
  | WDisconnect
  | WVisibility bool
  | WSetToken js

text \<open>
  \<open>WCloseStart\<close> is the server's closing handshake: the socket is closing, no handler runs yet.
  A message that does not parse (\<open>None\<close>) is ignored.
\<close>

fun ws_step :: "ws_state \<Rightarrow> ws_event \<Rightarrow> ws_state option" where
  "ws_step s (WConnect ctor_ok) = Some (connect_ws ctor_ok s)"
| "ws_step s (WOpen k) =
     (if ready_of s k = Some RConnecting then Some (on_open (set_ready k ROpen s)) else None)"
| "ws_step s (WMessage k m) =
     (if ready_of s k = Some ROpen
      then Some (case m of None \<Rightarrow> s | Some msg \<Rightarrow> handle_message msg s) else None)"
| "ws_step s (WCloseStart k) =
     (if ready_of s k = Some ROpen then Some (set_ready k RClosing s) else None)"
| "ws_step s (WClose k code) =
     (if ready_of s k \<in> {Some RConnecting, Some ROpen, Some RClosing}
      then Some (on_close code (set_ready k RClosed s)) else None)"
| "ws_step s WTimer =
     (case reconnect_timer s of None \<Rightarrow> None | Some tok \<Rightarrow> Some (timer_callback tok s))"
| "ws_step s (WRefreshed tok reply ctor_ok) =
     (if tok \<in> set (reconnecting s) then Some (reconnect_continue tok reply ctor_ok s) else None)"
| "ws_step s (WSubscribe ctor_ok sub) = Some (subscribe_ws ctor_ok sub s)"
| "ws_step s (WUnsubscribe sub_id) = Some (unsubscribe sub_id s)"
| "ws_step s WDisconnect = Some (disconnect_ws s)"
| "ws_step s (WVisibility h) =
     Some ((schedule_reconnect ^^ vis_listeners s) (s\<lparr>doc_hidden := h, vis_listeners := 0\<rparr>))"
| "ws_step s (WSetToken v) = Some (s\<lparr>ws_token := v\<rparr>)"

section \<open>Frame facts\<close>

text \<open>What each operation leaves alone, for the fields the invariants read.\<close>

lemma set_ready_simps [simp]:
  "ws_ref (set_ready k r s) = ws_ref s" "next_socket (set_ready k r s) = next_socket s"
  "reconnect_attempt (set_ready k r s) = reconnect_attempt s"
  "reconnect_timer (set_ready k r s) = reconnect_timer s"
  "cancel_token (set_ready k r s) = cancel_token s" "reconnecting (set_ready k r s) = reconnecting s"
  "subscriptions (set_ready k r s) = subscriptions s" "authenticated (set_ready k r s) = authenticated s"
  "ws_status (set_ready k r s) = ws_status s" "ws_token (set_ready k r s) = ws_token s"
  "doc_hidden (set_ready k r s) = doc_hidden s" "vis_listeners (set_ready k r s) = vis_listeners s"
  by (simp_all add: set_ready_def split: option.splits)

lemma push_msg_simps [simp]:
  "ws_ref (push_msg k m s) = ws_ref s" "next_socket (push_msg k m s) = next_socket s"
  "reconnect_attempt (push_msg k m s) = reconnect_attempt s"
  "reconnect_timer (push_msg k m s) = reconnect_timer s"
  "cancel_token (push_msg k m s) = cancel_token s" "reconnecting (push_msg k m s) = reconnecting s"
  "subscriptions (push_msg k m s) = subscriptions s" "authenticated (push_msg k m s) = authenticated s"
  "ws_status (push_msg k m s) = ws_status s" "ws_token (push_msg k m s) = ws_token s"
  "doc_hidden (push_msg k m s) = doc_hidden s" "vis_listeners (push_msg k m s) = vis_listeners s"
  "ready_of (push_msg k m s) j = ready_of s j"
  by (simp_all add: push_msg_def ready_of_def split: option.splits)

lemma close_socket_simps [simp]:
  "ws_ref (close_socket k s) = ws_ref s" "next_socket (close_socket k s) = next_socket s"
  "reconnect_attempt (close_socket k s) = reconnect_attempt s"
  "reconnect_timer (close_socket k s) = reconnect_timer s"
  "cancel_token (close_socket k s) = cancel_token s" "reconnecting (close_socket k s) = reconnecting s"
  "subscriptions (close_socket k s) = subscriptions s"
  "authenticated (close_socket k s) = authenticated s"
  "ws_status (close_socket k s) = ws_status s" "doc_hidden (close_socket k s) = doc_hidden s"
  "vis_listeners (close_socket k s) = vis_listeners s"
  by (simp_all add: close_socket_def)

lemma ready_of_set_ready [simp]:
  "ready_of (set_ready k r s) j = (if j = k \<and> sockets s k \<noteq> None then Some r else ready_of s j)"
  by (auto simp: set_ready_def ready_of_def split: option.splits)

lemma send_subscribe_simps [simp]:
  "ws_ref (send_subscribe u s) = ws_ref s" "next_socket (send_subscribe u s) = next_socket s"
  "reconnect_attempt (send_subscribe u s) = reconnect_attempt s"
  "reconnect_timer (send_subscribe u s) = reconnect_timer s"
  "cancel_token (send_subscribe u s) = cancel_token s"
  "reconnecting (send_subscribe u s) = reconnecting s"
  "subscriptions (send_subscribe u s) = subscriptions s"
  "authenticated (send_subscribe u s) = authenticated s"
  "ws_status (send_subscribe u s) = ws_status s" "doc_hidden (send_subscribe u s) = doc_hidden s"
  "vis_listeners (send_subscribe u s) = vis_listeners s"
  "ready_of (send_subscribe u s) j = ready_of s j"
  by (simp_all add: send_subscribe_def split: option.splits)

lemma fold_send_subscribe_simps [simp]:
  "ws_ref (fold send_subscribe us s) = ws_ref s"
  "next_socket (fold send_subscribe us s) = next_socket s"
  "reconnect_attempt (fold send_subscribe us s) = reconnect_attempt s"
  "reconnect_timer (fold send_subscribe us s) = reconnect_timer s"
  "cancel_token (fold send_subscribe us s) = cancel_token s"
  "reconnecting (fold send_subscribe us s) = reconnecting s"
  "subscriptions (fold send_subscribe us s) = subscriptions s"
  "authenticated (fold send_subscribe us s) = authenticated s"
  "ws_status (fold send_subscribe us s) = ws_status s"
  "doc_hidden (fold send_subscribe us s) = doc_hidden s"
  "vis_listeners (fold send_subscribe us s) = vis_listeners s"
  "ready_of (fold send_subscribe us s) j = ready_of s j"
  by (induction us arbitrary: s) simp_all

lemma notify_simps [simp]:
  "ws_ref (notify i e x s) = ws_ref s" "next_socket (notify i e x s) = next_socket s"
  "reconnect_attempt (notify i e x s) = reconnect_attempt s"
  "reconnect_timer (notify i e x s) = reconnect_timer s"
  "cancel_token (notify i e x s) = cancel_token s" "reconnecting (notify i e x s) = reconnecting s"
  "subscriptions (notify i e x s) = subscriptions s"
  "authenticated (notify i e x s) = authenticated s" "ws_status (notify i e x s) = ws_status s"
  "doc_hidden (notify i e x s) = doc_hidden s" "vis_listeners (notify i e x s) = vis_listeners s"
  "sockets (notify i e x s) = sockets s"
  by (simp_all add: notify_def split: js.splits option.splits)

section \<open>The reconnect budget\<close>

text \<open>
  Listeners wait only while the tab is hidden, and only for attempts below the limit.
\<close>

definition budget_inv :: "ws_state \<Rightarrow> bool" where
  "budget_inv s \<longleftrightarrow>
     reconnect_attempt s \<le> MAX_RECONNECT_ATTEMPTS
     \<and> (0 < vis_listeners s \<longrightarrow> doc_hidden s \<and> reconnect_attempt s < MAX_RECONNECT_ATTEMPTS)"

text \<open>The \<open>WebSocket\<close> constructor does not throw.\<close>

fun ctor_works :: "ws_state \<Rightarrow> ws_event \<Rightarrow> bool" where
  "ctor_works s (WConnect b) = b"
| "ctor_works s (WRefreshed tok reply b) = b"
| "ctor_works s (WSubscribe b sub) = b"
| "ctor_works s e = True"

lemma schedule_budget:
  "budget_inv s \<Longrightarrow> reconnect_attempt s < MAX_RECONNECT_ATTEMPTS \<Longrightarrow> budget_inv (schedule_reconnect s)"
  by (auto simp: budget_inv_def schedule_reconnect_def)

lemma schedule_budget_timer:
  "budget_inv u \<Longrightarrow> reconnect_timer u = None \<longrightarrow> reconnect_attempt u < MAX_RECONNECT_ATTEMPTS \<Longrightarrow>
   budget_inv (schedule_reconnect u)
   \<and> (reconnect_timer (schedule_reconnect u) = None \<longrightarrow>
        reconnect_attempt (schedule_reconnect u) < MAX_RECONNECT_ATTEMPTS)"
  by (auto simp: budget_inv_def schedule_reconnect_def)

lemma schedule_pow_budget:
  assumes "budget_inv s" "reconnect_attempt s < MAX_RECONNECT_ATTEMPTS"
  shows "budget_inv ((schedule_reconnect ^^ n) s)"
proof -
  have "budget_inv ((schedule_reconnect ^^ n) s)
    \<and> (reconnect_timer ((schedule_reconnect ^^ n) s) = None \<longrightarrow>
        reconnect_attempt ((schedule_reconnect ^^ n) s) < MAX_RECONNECT_ATTEMPTS)"
  proof (induction n)
    case (Suc n)
    then show ?case unfolding funpow.simps comp_apply by (intro schedule_budget_timer) blast+
  qed (use assms in simp)
  then show ?thesis ..
qed

lemma budget_frame:
  "reconnect_attempt t = reconnect_attempt s \<Longrightarrow> vis_listeners t = vis_listeners s \<Longrightarrow>
   doc_hidden t = doc_hidden s \<Longrightarrow> budget_inv s \<Longrightarrow> budget_inv t"
  by (simp add: budget_inv_def)

lemma connect_ws_frame [simp]:
  "reconnect_attempt (connect_ws True s) = reconnect_attempt s"
  "reconnect_timer (connect_ws True s) = reconnect_timer s"
  "cancel_token (connect_ws True s) = cancel_token s"
  "reconnecting (connect_ws True s) = reconnecting s"
  "subscriptions (connect_ws True s) = subscriptions s"
  "vis_listeners (connect_ws True s) = vis_listeners s"
  "doc_hidden (connect_ws True s) = doc_hidden s"
  by (simp_all add: connect_ws_def Let_def)

lemma connect_ws_budget: "budget_inv s \<Longrightarrow> budget_inv (connect_ws True s)"
  by (simp add: connect_ws_def Let_def budget_inv_def)

lemma step_budget:
  assumes "budget_inv s" "ctor_works s e" "ws_step s e = Some t"
  shows "budget_inv t"
proof (cases e)
  case (WMessage k m)
  then show ?thesis using assms
    by (auto simp: budget_inv_def handle_message_def Let_def MAX_RECONNECT_ATTEMPTS_def
        split: if_splits option.splits)
next
  case (WClose k code)
  then have t: "t = on_close code (set_ready k RClosed s)" using assms by (auto split: if_splits)
  show ?thesis
  proof (cases "code \<in> set AUTH_FAILURE_CODES \<or> reconnect_attempt s \<ge> MAX_RECONNECT_ATTEMPTS")
    case True
    then show ?thesis using assms(1) t by (auto simp: on_close_def Let_def budget_inv_def)
  next
    case False
    let ?u = "set_ready k RClosed s\<lparr>ws_ref := None, authenticated := False, ws_status := WsDisconnected\<rparr>"
    have u: "budget_inv ?u" using assms(1) by (simp add: budget_inv_def)
    have "t = schedule_reconnect ?u" using False t by (simp add: on_close_def Let_def)
    then show ?thesis using schedule_budget [OF u] False by simp
  qed
next
  case (WVisibility h)
  then have t: "t = (schedule_reconnect ^^ vis_listeners s) (s\<lparr>doc_hidden := h, vis_listeners := 0\<rparr>)"
    using assms by simp
  show ?thesis
  proof (cases "vis_listeners s")
    case 0 then show ?thesis using assms(1) t by (simp add: budget_inv_def)
  next
    case (Suc n)
    then show ?thesis unfolding t using assms(1)
      by (intro schedule_pow_budget) (auto simp: budget_inv_def)
  qed
next
  case (WRefreshed tok reply b)
  then have t: "t = reconnect_continue tok reply True s" using assms by (auto split: if_splits)
  show ?thesis using assms(1) unfolding t reconnect_continue_def Let_def
    by (auto simp: budget_inv_def split: option.splits)
next
  case (WSubscribe b sub)
  then have t: "t = subscribe_ws True sub s" using assms by simp
  have "budget_inv (s\<lparr>subscriptions := rec_set (subscriptions s) (sb_id sub) sub\<rparr>)"
    using assms(1) by (simp add: budget_inv_def)
  from connect_ws_budget [OF this] show ?thesis unfolding t subscribe_ws_def
    by (rule budget_frame [rotated 3]) simp_all
next
  case (WOpen k)
  then have "t = on_open (set_ready k ROpen s)" using assms by (auto split: if_splits)
  then show ?thesis using assms(1)
    by (auto simp: on_open_def budget_inv_def split: option.splits)
next
  case WTimer
  then show ?thesis using assms
    by (auto simp: timer_callback_def Let_def budget_inv_def split: option.splits if_splits)
next
  case (WUnsubscribe i)
  then show ?thesis using assms
    by (auto simp: unsubscribe_def Let_def budget_inv_def split: option.splits)
next
  case WDisconnect
  then show ?thesis using assms
    by (auto simp: disconnect_ws_def Let_def budget_inv_def MAX_RECONNECT_ATTEMPTS_def
        split: option.splits)
next
  case (WConnect b)
  then show ?thesis using assms connect_ws_budget by auto
qed (use assms in \<open>auto simp: budget_inv_def split: if_splits\<close>)

lemma budget_init: "budget_inv ws_init"
  by (simp add: budget_inv_def ws_init_def)

interpretation ws_budget: machine ws_step ctor_works budget_inv
  by unfold_locales (rule step_budget)

text \<open>
  Counting the reconnects: every expiry of the timer was paid for by an increment of
  \<open>reconnectAttempt\<close>, which only \<open>auth_ok\<close> and \<open>disconnectWS\<close> reset.
\<close>

fun is_timer :: "ws_event \<Rightarrow> bool" where
  "is_timer WTimer = True"
| "is_timer e = False"

fun resets_attempts :: "ws_event \<Rightarrow> bool" where
  "resets_attempts WDisconnect = True"
| "resets_attempts (WMessage k (Some m)) = (js_get m ''type'' = JStr ''auth_ok'')"
| "resets_attempts e = False"

definition count_events :: "('e \<Rightarrow> bool) \<Rightarrow> 'e list \<Rightarrow> nat" where
  "count_events P es = length (filter P es)"

lemma count_events_simps [simp]:
  "count_events P [] = 0"
  "count_events P (e # es) = (if P e then 1 else 0) + count_events P es"
  by (simp_all add: count_events_def)

definition timer_pending :: "ws_state \<Rightarrow> nat" where
  "timer_pending s = (if reconnect_timer s = None then 0 else 1)"

definition attempts_left :: "ws_state \<Rightarrow> nat" where
  "attempts_left s = MAX_RECONNECT_ATTEMPTS - reconnect_attempt s"

lemma attempts_left_le: "attempts_left s \<le> MAX_RECONNECT_ATTEMPTS"
  by (simp add: attempts_left_def)

definition paid :: "ws_state \<Rightarrow> ws_state \<Rightarrow> bool" where
  "paid s t \<longleftrightarrow> timer_pending t + attempts_left t \<le> timer_pending s + attempts_left s"

lemma paid_frame:
  "reconnect_timer t = reconnect_timer s \<Longrightarrow> reconnect_attempt t = reconnect_attempt s \<Longrightarrow> paid s t"
  by (simp add: paid_def timer_pending_def attempts_left_def)

lemma schedule_paid:
  "reconnect_timer s = None \<longrightarrow> reconnect_attempt s < MAX_RECONNECT_ATTEMPTS \<Longrightarrow> paid s (schedule_reconnect s)"
  by (auto simp: schedule_reconnect_def paid_def timer_pending_def attempts_left_def)

lemma schedule_pow_paid:
  assumes "budget_inv s" "reconnect_attempt s < MAX_RECONNECT_ATTEMPTS"
  shows "paid s ((schedule_reconnect ^^ n) s)"
proof -
  let ?P = "\<lambda>u. budget_inv u \<and> (reconnect_timer u = None \<longrightarrow>
        reconnect_attempt u < MAX_RECONNECT_ATTEMPTS)"
  have "?P ((schedule_reconnect ^^ n) s) \<and> paid s ((schedule_reconnect ^^ n) s)"
  proof (induction n)
    case (Suc n)
    then have P: "?P ((schedule_reconnect ^^ n) s)" by blast
    have "paid ((schedule_reconnect ^^ n) s) (schedule_reconnect ((schedule_reconnect ^^ n) s))"
      using P by (intro schedule_paid) blast
    then have "paid s (schedule_reconnect ((schedule_reconnect ^^ n) s))"
      using Suc unfolding paid_def by linarith
    moreover have "?P (schedule_reconnect ((schedule_reconnect ^^ n) s))"
      using P by (intro schedule_budget_timer) blast+
    ultimately show ?case unfolding funpow.simps comp_apply by blast
  qed (use assms in \<open>simp add: paid_def\<close>)
  then show ?thesis ..
qed

lemma step_pays:
  assumes inv: "budget_inv s" and ok: "ctor_works s e" and st: "ws_step s e = Some t"
  shows "(if is_timer e then 1 else 0) + timer_pending t + attempts_left t
    \<le> timer_pending s + attempts_left s + (if resets_attempts e then MAX_RECONNECT_ATTEMPTS else 0)"
proof (cases "resets_attempts e \<or> is_timer e")
  case True
  then consider "e = WDisconnect" | k m where "e = WMessage k (Some m)" "js_get m ''type'' = JStr ''auth_ok''"
    | "e = WTimer"
    by (cases e rule: resets_attempts.cases) auto
  then show ?thesis
  proof cases
    case 1
    then have "timer_pending t = 0"
      using st by (auto simp: disconnect_ws_def Let_def timer_pending_def split: option.splits)
    then show ?thesis using 1 attempts_left_le [of t] by simp
  next
    case 2
    then have "reconnect_timer t = reconnect_timer s"
      using st by (auto simp: handle_message_def Let_def split: if_splits)
    then show ?thesis using 2 attempts_left_le [of t] by (simp add: timer_pending_def)
  next
    case 3
    then show ?thesis using st
      by (auto simp: timer_callback_def Let_def timer_pending_def attempts_left_def
          split: option.splits if_splits)
  qed
next
  case False
  have "paid s t"
  proof (cases e)
    case (WMessage k m)
    then show ?thesis using st False
      by (intro paid_frame) (auto simp: handle_message_def Let_def split: if_splits option.splits)
  next
    case (WClose k code)
    let ?u = "set_ready k RClosed s\<lparr>ws_ref := None, authenticated := False, ws_status := WsDisconnected\<rparr>"
    have "t = ?u \<or> reconnect_attempt s < MAX_RECONNECT_ATTEMPTS \<and> t = schedule_reconnect ?u"
      using st WClose by (auto simp: on_close_def Let_def split: if_splits)
    then show ?thesis
    proof
      assume "t = ?u" then show ?thesis by (intro paid_frame) auto
    next
      assume a: "reconnect_attempt s < MAX_RECONNECT_ATTEMPTS \<and> t = schedule_reconnect ?u"
      have "paid ?u (schedule_reconnect ?u)" using a by (intro schedule_paid) simp
      moreover have "paid s ?u" by (intro paid_frame) auto
      ultimately show ?thesis using a unfolding paid_def by (metis order_trans)
    qed
  next
    case (WVisibility h)
    let ?u = "s\<lparr>doc_hidden := h, vis_listeners := 0\<rparr>"
    have t: "t = (schedule_reconnect ^^ vis_listeners s) ?u" using st WVisibility by simp
    show ?thesis
    proof (cases "vis_listeners s")
      case 0 then show ?thesis using t by (intro paid_frame) auto
    next
      case (Suc n)
      then have "paid ?u t" unfolding t using inv
        by (intro schedule_pow_paid) (auto simp: budget_inv_def)
      then show ?thesis by (simp add: paid_def timer_pending_def attempts_left_def)
    qed
  next
    case (WRefreshed tok reply b)
    then have "t = reconnect_continue tok reply True s" using st ok by (auto split: if_splits)
    then show ?thesis
      by (intro paid_frame) (auto simp: reconnect_continue_def Let_def split: option.splits)
  next
    case (WOpen k)
    then show ?thesis using st
      by (intro paid_frame) (auto simp: on_open_def split: if_splits option.splits)
  next
    case (WUnsubscribe i)
    then show ?thesis using st
      by (intro paid_frame) (auto simp: unsubscribe_def Let_def split: option.splits)
  next
    case (WSubscribe b sub)
    then show ?thesis using st ok by (intro paid_frame) (auto simp: subscribe_ws_def)
  next
    case (WConnect b)
    then show ?thesis using st ok by (intro paid_frame) auto
  next
    case (WCloseStart k)
    then show ?thesis using st by (intro paid_frame) (auto split: if_splits)
  next
    case (WSetToken v)
    then show ?thesis using st by (intro paid_frame) auto
  qed (use False in auto)
  then show ?thesis using False by (simp add: paid_def)
qed

lemma run_pays:
  "budget_inv s \<Longrightarrow> run_ok ws_step ctor_works s es \<Longrightarrow> run_events ws_step s es = Some t \<Longrightarrow>
   count_events is_timer es + timer_pending t + attempts_left t
   \<le> timer_pending s + attempts_left s + MAX_RECONNECT_ATTEMPTS * count_events resets_attempts es"
proof (induction es arbitrary: s)
  case (Cons e es)
  then obtain u where u: "ws_step s e = Some u" "ctor_works s e" "run_ok ws_step ctor_works u es"
      "run_events ws_step u es = Some t"
    by (auto split: option.splits)
  have "budget_inv u" using step_budget Cons.prems(1) u by blast
  from Cons.IH [OF this u(3,4)] step_pays [OF Cons.prems(1) u(2,1)] show ?case
    by (auto split: if_splits)
qed simp

text \<open>C4: The client gives up reconnecting: as long as constructing a socket does not throw, no
  run, however sockets open, close and the tab hides, fires the reconnect timer more than
  15 times per reset (a server's \<open>auth_ok\<close> or \<open>disconnectWS\<close>), and the attempt counter
  never exceeds 15.\<close>

theorem reconnects_bounded:
  assumes "run_ok ws_step ctor_works ws_init es" and "run_events ws_step ws_init es = Some s"
  shows "reconnect_attempt s \<le> MAX_RECONNECT_ATTEMPTS
    \<and> count_events is_timer es \<le> MAX_RECONNECT_ATTEMPTS * (1 + count_events resets_attempts es)"
proof -
  have "reconnect_attempt s \<le> MAX_RECONNECT_ATTEMPTS"
    using ws_budget.run_inv [OF budget_init assms] by (simp add: budget_inv_def)
  moreover have "timer_pending ws_init + attempts_left ws_init = MAX_RECONNECT_ATTEMPTS"
    by (simp add: ws_init_def timer_pending_def attempts_left_def)
  ultimately show ?thesis using run_pays [OF budget_init assms] by simp
qed

definition demo_reconnect_run :: "ws_event list" where
  "demo_reconnect_run =
     [WSetToken (JStr ''t''), WConnect True, WOpen 0, WClose 0 1006, WTimer, WRefreshed 0 None True]"

lemma reconnects_bounded_witness:
  "\<exists>s. run_events ws_step ws_init demo_reconnect_run = Some s \<and> reconnect_attempt s \<le> 15
    \<and> count_events is_timer demo_reconnect_run \<le> 15"
proof -
  have ok: "run_ok ws_step ctor_works ws_init demo_reconnect_run" by code_simp
  obtain s where s: "run_events ws_step ws_init demo_reconnect_run = Some s"
    using run_ok_runs [OF ok] by blast
  have "count_events resets_attempts demo_reconnect_run = 0"
    by (simp add: demo_reconnect_run_def)
  then show ?thesis using reconnects_bounded [OF ok s] s by (simp add: MAX_RECONNECT_ATTEMPTS_def)
qed

section \<open>The subscriptions the server knows\<close>

text \<open>What a server has understood from the messages of one connection: kind and namespace by id.\<close>

fun announce :: "client_msg \<Rightarrow> (string \<Rightarrow> (string \<times> string) option) \<Rightarrow> (string \<Rightarrow> (string \<times> string) option)" where
  "announce (MsgAuth v) m = m"
| "announce (MsgSubscribe i k n) m = m(i \<mapsto> (k, n))"
| "announce (MsgUnsubscribe i) m = m(i := None)"

definition announced :: "client_msg list \<Rightarrow> (string \<Rightarrow> (string \<times> string) option)" where
  "announced ms = fold announce ms Map.empty"

lemma announced_simps [simp]:
  "announced [] = Map.empty" "announced (ms @ [m]) = announce m (announced ms)"
  by (simp_all add: announced_def)

text \<open>What the client wants the server to know.\<close>

definition wanted :: "(string \<times> subscription) list \<Rightarrow> (string \<Rightarrow> (string \<times> string) option)" where
  "wanted subs i = map_option (\<lambda>u. (sb_kind u, sb_namespace u)) (rec_get subs i)"

lemma wanted_simps [simp]:
  "wanted [] = Map.empty"
  "wanted (rec_set subs i u) = (wanted subs)(i \<mapsto> (sb_kind u, sb_namespace u))"
  "wanted (rec_del subs i) = (wanted subs)(i := None)"
  by (auto simp: wanted_def)

definition sent_on :: "ws_state \<Rightarrow> nat \<Rightarrow> client_msg list" where
  "sent_on s k = (case sockets s k of None \<Rightarrow> [] | Some sk \<Rightarrow> sk_sent sk)"

lemma sent_on_simps [simp]:
  "sent_on (set_ready k r s) j = sent_on s j"
  "sent_on (close_socket k s) j = sent_on s j"
  "sent_on (notify i e x s) j = sent_on s j"
  "sent_on (push_msg k m s) j = (if j = k \<and> sockets s k \<noteq> None then sent_on s j @ [m] else sent_on s j)"
  by (auto simp: sent_on_def set_ready_def close_socket_def push_msg_def split: option.splits)

lemma schedule_reconnect_simps [simp]:
  "ws_ref (schedule_reconnect s) = ws_ref s" "sockets (schedule_reconnect s) = sockets s"
  "next_socket (schedule_reconnect s) = next_socket s"
  "authenticated (schedule_reconnect s) = authenticated s"
  "subscriptions (schedule_reconnect s) = subscriptions s"
  "ws_status (schedule_reconnect s) = ws_status s"
  by (simp_all add: schedule_reconnect_def)

lemma schedule_pow_simps [simp]:
  "ws_ref ((schedule_reconnect ^^ n) s) = ws_ref s"
  "sockets ((schedule_reconnect ^^ n) s) = sockets s"
  "next_socket ((schedule_reconnect ^^ n) s) = next_socket s"
  "authenticated ((schedule_reconnect ^^ n) s) = authenticated s"
  "subscriptions ((schedule_reconnect ^^ n) s) = subscriptions s"
  "ws_status ((schedule_reconnect ^^ n) s) = ws_status s"
  by (induction n) simp_all

text \<open>
  The invariant. Only the current socket connects or is open; it is fresh for nobody else;
  \<open>connected\<close> means authenticated on it; and on an open current socket the server knows
  exactly the client's subscriptions once authenticated, and none before.
\<close>

definition view_ok :: "ws_state \<Rightarrow> nat \<Rightarrow> bool" where
  "view_ok s k \<longleftrightarrow>
     (case ready_of s k of
        Some RConnecting \<Rightarrow> sent_on s k = [] \<and> \<not> authenticated s
      | Some ROpen \<Rightarrow>
          announced (sent_on s k) = (if authenticated s then wanted (subscriptions s) else Map.empty)
      | _ \<Rightarrow> True)"

definition subs_ok :: "(string \<times> subscription) list \<Rightarrow> bool" where
  "subs_ok subs \<longleftrightarrow> distinct (map fst subs) \<and> (\<forall>p \<in> set subs. sb_id (snd p) = fst p)"

lemma subs_ok_simps [simp, intro]:
  "subs_ok []" "subs_ok subs \<Longrightarrow> subs_ok (rec_set subs (sb_id u) u)" "subs_ok subs \<Longrightarrow> subs_ok (rec_del subs i)"
proof -
  have "(\<forall>p \<in> set subs. sb_id (snd p) = fst p) \<Longrightarrow> p \<in> set (rec_set subs (sb_id u) u) \<Longrightarrow> sb_id (snd p) = fst p"
    for p by (induction subs "sb_id u" u rule: rec_set.induct) (auto split: if_splits)
  then show "subs_ok subs \<Longrightarrow> subs_ok (rec_set subs (sb_id u) u)"
    by (auto simp: subs_ok_def distinct_rec_set)
qed (auto simp: subs_ok_def distinct_rec_del set_rec_del)

lemma fold_wanted:
  "subs_ok subs \<Longrightarrow>
   fold (\<lambda>u m. m(sb_id u \<mapsto> (sb_kind u, sb_namespace u))) (map snd subs) M i =
     (case wanted subs i of None \<Rightarrow> M i | Some x \<Rightarrow> Some x)"
  by (induction subs arbitrary: M)
    (auto simp: subs_ok_def wanted_def rec_get_None_iff [symmetric] split: option.splits)

definition sync_inv :: "ws_state \<Rightarrow> bool" where
  "sync_inv s \<longleftrightarrow>
     (\<forall>k. ready_of s k = Some RConnecting \<or> ready_of s k = Some ROpen \<longrightarrow> ws_ref s = Some k)
     \<and> (\<forall>k. sockets s k \<noteq> None \<longrightarrow> k < next_socket s)
     \<and> (\<forall>k. ws_ref s = Some k \<longrightarrow> ready_of s k \<in> {Some RConnecting, Some ROpen, Some RClosing})
     \<and> (ws_status s = WsConnected \<longrightarrow> authenticated s \<and> ws_ref s \<noteq> None)
     \<and> (\<forall>k. ws_ref s = Some k \<longrightarrow> view_ok s k)
     \<and> subs_ok (subscriptions s)"

text \<open>
  The one timing the invariant needs: the close handler of a superseded socket does not run
  while a newer one is current.
\<close>

fun tidy :: "ws_state \<Rightarrow> ws_event \<Rightarrow> bool" where
  "tidy s (WClose k code) = (ws_ref s = None \<or> ws_ref s = Some k)"
| "tidy s e = True"

lemma sync_invI:
  assumes "\<And>k. ready_of s k = Some RConnecting \<or> ready_of s k = Some ROpen \<Longrightarrow> ws_ref s = Some k"
    and "\<And>k. sockets s k \<noteq> None \<Longrightarrow> k < next_socket s"
    and "\<And>k. ws_ref s = Some k \<Longrightarrow> ready_of s k \<in> {Some RConnecting, Some ROpen, Some RClosing}"
    and "ws_status s = WsConnected \<Longrightarrow> authenticated s \<and> ws_ref s \<noteq> None"
    and "\<And>k. ws_ref s = Some k \<Longrightarrow> view_ok s k"
    and "subs_ok (subscriptions s)"
  shows "sync_inv s"
  using assms unfolding sync_inv_def by blast

lemma sync_init: "sync_inv ws_init"
  by (simp add: sync_inv_def ws_init_def ready_of_def)

text \<open>Operations that keep the fields the invariant reads keep the invariant.\<close>

lemma sync_frame:
  "ws_ref t = ws_ref s \<Longrightarrow> sockets t = sockets s \<Longrightarrow> next_socket t = next_socket s \<Longrightarrow>
   authenticated t = authenticated s \<Longrightarrow> subscriptions t = subscriptions s \<Longrightarrow>
   ws_status t = ws_status s \<Longrightarrow> sync_inv s \<Longrightarrow> sync_inv t"
proof -
  assume eq: "ws_ref t = ws_ref s" "sockets t = sockets s" "next_socket t = next_socket s"
    "authenticated t = authenticated s" "subscriptions t = subscriptions s" "ws_status t = ws_status s"
  have r: "ready_of t = ready_of s" "sent_on t = sent_on s"
    by (intro ext, simp add: ready_of_def sent_on_def eq)+
  have v: "view_ok t = view_ok s" by (intro ext) (simp only: view_ok_def r eq)
  have "sync_inv t = sync_inv s" unfolding sync_inv_def by (simp only: v r eq)
  then show "sync_inv s \<Longrightarrow> sync_inv t" by blast
qed

lemma sockets_None_iff: "sockets s k = None \<longleftrightarrow> ready_of s k = None"
  by (simp add: ready_of_def)

lemma sync_subs: "sync_inv s \<Longrightarrow> subs_ok (subscriptions s)"
  by (simp add: sync_inv_def)

lemma sync_current:
  "sync_inv s \<Longrightarrow> ready_of s k = Some ROpen \<Longrightarrow> ws_ref s = Some k"
  by (simp add: sync_inv_def)

lemma sync_fresh: "sync_inv s \<Longrightarrow> sockets s k \<noteq> None \<Longrightarrow> k < next_socket s"
  unfolding sync_inv_def by blast

lemma connect_sync:
  assumes inv: "sync_inv s"
  shows "sync_inv (connect_ws b s)"
proof (cases "ws_live s")
  case True then show ?thesis using inv by (simp add: connect_ws_def)
next
  case dead: False
  have nolive: "ready_of s k \<noteq> Some RConnecting \<and> ready_of s k \<noteq> Some ROpen" for k
    using dead inv by (auto simp: ws_live_def sync_inv_def split: option.splits)
  let ?s1 = "s\<lparr>ws_status := WsConnecting, authenticated := False\<rparr>"
  show ?thesis
  proof (cases b)
    case True
    define t where "t = ?s1\<lparr>ws_ref := Some (next_socket s),
        sockets := (sockets s)(next_socket s \<mapsto> \<lparr>sk_ready = RConnecting, sk_sent = []\<rparr>),
        next_socket := next_socket s + 1\<rparr>"
    have f: "ws_ref t = Some (next_socket s)" "next_socket t = Suc (next_socket s)"
      "ws_status t = WsConnecting" "\<not> authenticated t"
      "\<And>k. ready_of t k = (if k = next_socket s then Some RConnecting else ready_of s k)"
      "\<And>k. sockets t k \<noteq> None \<Longrightarrow> k = next_socket s \<or> sockets s k \<noteq> None"
      "sent_on t (next_socket s) = []"
      by (auto simp: t_def ready_of_def sent_on_def split: if_splits)
    have "sync_inv t"
    proof (rule sync_invI)
      fix k assume "sockets t k \<noteq> None"
      then show "k < next_socket t" using f(2) f(6) [of k] sync_fresh [OF inv, of k] by linarith
    next
      fix k assume "ready_of t k = Some RConnecting \<or> ready_of t k = Some ROpen"
      then show "ws_ref t = Some k" using nolive [of k] f(1) f(5) [of k] by (simp split: if_splits)
    next
      fix k assume "ws_ref t = Some k"
      then have "k = next_socket s" using f(1) by simp
      then show "ready_of t k \<in> {Some RConnecting, Some ROpen, Some RClosing}" "view_ok t k"
        using f(4,7) f(5) [of k] by (simp_all add: view_ok_def)
    qed (use f(3) sync_subs [OF inv] in \<open>simp_all add: t_def\<close>)
    moreover have "connect_ws b s = t" using dead True by (simp add: t_def connect_ws_def Let_def)
    ultimately show ?thesis by simp
  next
    case False
    have t: "connect_ws b s = schedule_reconnect ?s1" using dead False by (simp add: connect_ws_def Let_def)
    have r: "ready_of ?s1 = ready_of s" by (intro ext) (simp add: ready_of_def)
    have "sync_inv ?s1"
    proof (rule sync_invI)
      fix k assume "ws_ref ?s1 = Some k"
      then have "ready_of s k = Some RClosing" using nolive [of k] inv by (auto simp: sync_inv_def)
      then show "ready_of ?s1 k \<in> {Some RConnecting, Some ROpen, Some RClosing}" "view_ok ?s1 k"
        by (simp_all add: view_ok_def r)
    qed (use nolive sync_fresh [OF inv] sync_subs [OF inv] in \<open>simp_all add: r\<close>)
    then show ?thesis unfolding t by (rule sync_frame [rotated 6]) simp_all
  qed
qed

lemma send_subscribe_sent:
  "sent_on (send_subscribe u s) k =
     (if ws_ref s = Some k \<and> ready_of s k = Some ROpen \<and> authenticated s
      then sent_on s k @ [MsgSubscribe (sb_id u) (sb_kind u) (sb_namespace u)] else sent_on s k)"
  by (auto simp: send_subscribe_def sockets_None_iff split: option.splits)

lemma fold_announced:
  "ws_ref s = Some k \<Longrightarrow> ready_of s k = Some ROpen \<Longrightarrow> authenticated s \<Longrightarrow>
   announced (sent_on (fold send_subscribe us s) k) =
     fold (\<lambda>u m. m(sb_id u \<mapsto> (sb_kind u, sb_namespace u))) us (announced (sent_on s k))"
  by (induction us arbitrary: s) (simp_all add: send_subscribe_sent)

lemma sync_view: "sync_inv s \<Longrightarrow> ws_ref s = Some k \<Longrightarrow> view_ok s k"
  by (simp add: sync_inv_def)

lemma sync_status: "sync_inv s \<Longrightarrow> ws_status s = WsConnected \<Longrightarrow> authenticated s \<and> ws_ref s \<noteq> None"
  by (simp add: sync_inv_def)

lemma sync_ref: "sync_inv s \<Longrightarrow> ws_ref s = Some k \<Longrightarrow>
  ready_of s k \<in> {Some RConnecting, Some ROpen, Some RClosing}"
  by (simp add: sync_inv_def)

lemma sync_live: "sync_inv s \<Longrightarrow> ready_of s k = Some RConnecting \<or> ready_of s k = Some ROpen \<Longrightarrow> ws_ref s = Some k"
  unfolding sync_inv_def by blast

text \<open>
  A change that keeps the current socket, its readiness, the socket table's domain and the
  status only has to re-establish the view.
\<close>

lemma sync_update:
  assumes inv: "sync_inv s"
    and same: "ws_ref t = ws_ref s" "\<And>k. ready_of t k = ready_of s k" "next_socket t = next_socket s"
    and st: "ws_status t = WsConnected \<longrightarrow> authenticated t \<and> ws_ref t \<noteq> None"
    and subs: "subs_ok (subscriptions t)"
    and view: "\<And>k. ws_ref s = Some k \<Longrightarrow> view_ok t k"
  shows "sync_inv t"
proof (rule sync_invI)
  fix k assume "sockets t k \<noteq> None"
  then have "sockets s k \<noteq> None" using same(2) [of k] by (simp only: sockets_None_iff not_False_eq_True)
  then show "k < next_socket t" using sync_fresh [OF inv] same(3) by simp
next
  fix k assume "ready_of t k = Some RConnecting \<or> ready_of t k = Some ROpen"
  then show "ws_ref t = Some k" using sync_live [OF inv, of k] same by simp
next
  fix k assume "ws_ref t = Some k"
  then show "ready_of t k \<in> {Some RConnecting, Some ROpen, Some RClosing}" "view_ok t k"
    using sync_ref [OF inv, of k] view [of k] same by simp_all
qed (use st subs in simp_all)

text \<open>Closing the current socket, or marking it closed while it stays unreachable.\<close>

lemma message_sync:
  assumes inv: "sync_inv s" and k: "ready_of s k = Some ROpen"
  shows "sync_inv (handle_message m s)"
proof (cases "js_get m ''type'' = JStr ''auth_ok''")
  case True
  let ?u = "s\<lparr>authenticated := True, ws_status := WsConnected, reconnect_attempt := 0\<rparr>"
  let ?t = "fold send_subscribe (map snd (subscriptions s)) ?u"
  have ref: "ws_ref s = Some k" using inv k by (rule sync_current)
  have r: "ready_of ?u j = ready_of s j" "sent_on ?u j = sent_on s j" for j
    by (simp_all add: ready_of_def sent_on_def)
  have "announced (sent_on s k) = (if authenticated s then wanted (subscriptions s) else Map.empty)"
    using sync_view [OF inv ref] k by (simp add: view_ok_def)
  moreover have "announced (sent_on ?t k) =
      fold (\<lambda>u m. m(sb_id u \<mapsto> (sb_kind u, sb_namespace u))) (map snd (subscriptions s)) (announced (sent_on s k))"
    using fold_announced [of ?u k] ref k r by simp
  ultimately have "announced (sent_on ?t k) = wanted (subscriptions s)"
    by (intro ext) (simp add: fold_wanted [OF sync_subs [OF inv]] split: option.splits)
  then have "view_ok ?t k" using k by (simp add: view_ok_def r)
  then have "sync_inv ?t"
    using ref sync_subs [OF inv] by (intro sync_update [OF inv]) (auto simp: r)
  then show ?thesis using True by (simp add: handle_message_def Let_def)
next
  case False
  have fr: "sync_inv (notify i e x s)" for i e x
    using inv by (rule sync_frame [rotated 6]) simp_all
  show ?thesis using False inv fr by (simp add: handle_message_def Let_def)
qed

lemma sync_closing:
  assumes inv: "sync_inv s" and ref: "ws_ref s = Some k"
  shows "sync_inv (set_ready k RClosing s)"
proof (rule sync_invI)
  have ex: "sockets s k \<noteq> None" using sync_ref [OF inv ref] by (auto simp: sockets_None_iff)
  fix j assume "ready_of (set_ready k RClosing s) j = Some RConnecting
    \<or> ready_of (set_ready k RClosing s) j = Some ROpen"
  then show "ws_ref (set_ready k RClosing s) = Some j"
    using sync_live [OF inv, of j] ex by (auto split: if_splits)
next
  fix j assume "sockets (set_ready k RClosing s) j \<noteq> None"
  then have "sockets s j \<noteq> None" by (auto simp: set_ready_def split: option.splits if_splits)
  then show "j < next_socket (set_ready k RClosing s)" using sync_fresh [OF inv] by simp
next
  have ex: "sockets s k \<noteq> None" using sync_ref [OF inv ref] by (auto simp: sockets_None_iff)
  fix j assume "ws_ref (set_ready k RClosing s) = Some j"
  then have "j = k" using ref by simp
  then show "ready_of (set_ready k RClosing s) j \<in> {Some RConnecting, Some ROpen, Some RClosing}"
    "view_ok (set_ready k RClosing s) j"
    using ex by (auto simp: view_ok_def)
qed (use sync_status [OF inv] sync_subs [OF inv] in simp_all)

text \<open>A state without a current socket, and with none connecting or open.\<close>

lemma sync_detached:
  assumes "ws_ref t = None" "ws_status t \<noteq> WsConnected" "subs_ok (subscriptions t)"
    and "\<And>k. sockets t k \<noteq> None \<Longrightarrow> k < next_socket t"
    and "\<And>k. ready_of t k \<noteq> Some RConnecting \<and> ready_of t k \<noteq> Some ROpen"
  shows "sync_inv t"
  using assms by (intro sync_invI) auto

lemma sockets_set_ready: "sockets (set_ready k r s) j = None \<longleftrightarrow> sockets s j = None"
  by (auto simp: set_ready_def split: option.splits)

lemma sync_status_down:
  assumes inv: "sync_inv s" and x: "x \<noteq> WsConnected"
  shows "sync_inv (s\<lparr>ws_status := x\<rparr>)"
proof -
  have r: "ready_of (s\<lparr>ws_status := x\<rparr>) = ready_of s" "sent_on (s\<lparr>ws_status := x\<rparr>) = sent_on s"
    by (intro ext, simp add: ready_of_def sent_on_def)+
  have f: "authenticated (s\<lparr>ws_status := x\<rparr>) = authenticated s"
    "subscriptions (s\<lparr>ws_status := x\<rparr>) = subscriptions s" by simp_all
  have v: "view_ok (s\<lparr>ws_status := x\<rparr>) = view_ok s"
    by (intro ext) (simp only: view_ok_def r f)
  show ?thesis
    by (rule sync_update [OF inv]) (use x sync_subs [OF inv] sync_view [OF inv] in \<open>simp_all add: r v\<close>)
qed

lemma open_sync:
  assumes inv: "sync_inv s" and k: "ready_of s k = Some RConnecting"
  shows "sync_inv (on_open (set_ready k ROpen s))"
proof -
  have ref: "ws_ref s = Some k" using sync_live [OF inv] k by blast
  have ex: "sockets s k \<noteq> None" using k by (simp add: sockets_None_iff)
  have v: "sent_on s k = []" "\<not> authenticated s" using sync_view [OF inv ref] k by (simp_all add: view_ok_def)
  let ?o = "set_ready k ROpen s"
  have o: "ready_of ?o k = Some ROpen" using ex by simp
  have oinv: "sync_inv ?o"
  proof (rule sync_invI)
    fix j assume "ready_of ?o j = Some RConnecting \<or> ready_of ?o j = Some ROpen"
    then show "ws_ref ?o = Some j" using sync_live [OF inv, of j] ref by (auto split: if_splits)
  next
    fix j assume "sockets ?o j \<noteq> None"
    then show "j < next_socket ?o" using sync_fresh [OF inv] by (simp add: sockets_set_ready)
  next
    fix j assume "ws_ref ?o = Some j"
    then have "j = k" using ref by simp
    then show "ready_of ?o j \<in> {Some RConnecting, Some ROpen, Some RClosing}" "view_ok ?o j"
      using ex v by (auto simp: view_ok_def)
  qed (use sync_status [OF inv] sync_subs [OF inv] in simp_all)
  show ?thesis
  proof (cases "truthy (ws_token s)")
    case True
    then have t: "on_open ?o = push_msg k (MsgAuth (ws_token s)) ?o"
      using ref o by (simp add: on_open_def)
    show ?thesis unfolding t
    proof (rule sync_update [OF oinv])
      fix j assume "ws_ref ?o = Some j"
      then have "j = k" using ref by simp
      then show "view_ok (push_msg k (MsgAuth (ws_token s)) ?o) j"
        using o v ex by (simp add: view_ok_def sockets_set_ready announced_def)
    qed (use sync_status [OF oinv] sync_subs [OF oinv] in simp_all)
  next
    case False
    then have t: "on_open ?o = (set_ready k RClosing ?o)\<lparr>ws_status := WsDisconnected\<rparr>"
      using ref o ex by (simp add: on_open_def close_socket_def)
    have c: "sync_inv (set_ready k RClosing ?o)" using sync_closing [OF oinv] ref by simp
    show ?thesis unfolding t using c by (rule sync_status_down) simp
  qed
qed

lemma close_sync:
  assumes inv: "sync_inv s" and k: "ws_ref s = None \<or> ws_ref s = Some k"
  shows "sync_inv (on_close code (set_ready k RClosed s))"
proof -
  let ?u = "set_ready k RClosed s\<lparr>ws_ref := None, authenticated := False, ws_status := WsDisconnected\<rparr>"
  have r: "ready_of ?u j = ready_of (set_ready k RClosed s) j" for j by (simp add: ready_of_def)
  have "sync_inv ?u"
  proof (rule sync_detached)
    fix j
    show "ready_of ?u j \<noteq> Some RConnecting \<and> ready_of ?u j \<noteq> Some ROpen"
      using sync_live [OF inv, of j] k by (auto simp: r sockets_None_iff)
    show "sockets ?u j \<noteq> None \<Longrightarrow> j < next_socket ?u"
      using sync_fresh [OF inv, of j] by (simp add: sockets_set_ready)
  qed (use sync_subs [OF inv] in simp_all)
  moreover have "sync_inv (schedule_reconnect ?u)"
    by (rule sync_frame [OF _ _ _ _ _ _ calculation]) simp_all
  ultimately show ?thesis by (simp add: on_close_def Let_def)
qed


lemma subscribe_sync:
  assumes inv: "sync_inv s"
  shows "sync_inv (subscribe_ws b sub s)"
proof -
  let ?u = "s\<lparr>subscriptions := rec_set (subscriptions s) (sb_id sub) sub\<rparr>"
  have r: "ready_of ?u j = ready_of s j" "sent_on ?u j = sent_on s j" for j
    by (simp_all add: ready_of_def sent_on_def)
  have so: "subs_ok (subscriptions ?u)" using sync_subs [OF inv] by simp
  show ?thesis
  proof (cases "ws_live s")
    case True
    then have "ws_live ?u" by (simp add: ws_live_def r split: option.splits)
    then have t: "subscribe_ws b sub s = send_subscribe sub ?u"
      by (simp add: subscribe_ws_def connect_ws_def)
    show ?thesis unfolding t
    proof (rule sync_update [OF inv])
      fix k assume ref: "ws_ref s = Some k"
      show "view_ok (send_subscribe sub ?u) k"
        using sync_view [OF inv ref] ref
        by (auto simp: view_ok_def r send_subscribe_sent split: option.splits ready_state.splits)
    qed (use so sync_status [OF inv] r in simp_all)
  next
    case False
    have no: "ws_ref s = Some k \<Longrightarrow> ready_of s k = Some RClosing" for k
      using False sync_ref [OF inv, of k] by (auto simp: ws_live_def)
    have "sync_inv ?u"
      by (rule sync_update [OF inv])
        (use so sync_status [OF inv] no r in \<open>simp_all add: view_ok_def\<close>)
    then have c: "sync_inv (connect_ws b ?u)" by (rule connect_sync)
    have "ready_of (connect_ws b ?u) k \<noteq> Some ROpen" if "ws_ref (connect_ws b ?u) = Some k" for k
      using sync_view [OF c that] False no that
      by (auto simp: connect_ws_def Let_def ws_live_def ready_of_def split: option.splits if_splits)
    then have "send_subscribe sub (connect_ws b ?u) = connect_ws b ?u"
      by (auto simp: send_subscribe_def split: option.splits)
    then show ?thesis using c by (simp add: subscribe_ws_def)
  qed
qed

lemma unsubscribe_sync:
  assumes inv: "sync_inv s"
  shows "sync_inv (unsubscribe i s)"
proof -
  let ?u = "s\<lparr>subscriptions := rec_del (subscriptions s) i\<rparr>"
  have r: "ready_of ?u j = ready_of s j" "sent_on ?u j = sent_on s j"
      "sockets s j = None \<longleftrightarrow> ready_of s j = None" for j
    by (simp_all add: ready_of_def sent_on_def)
  show ?thesis
  proof (rule sync_update [OF inv])
    fix k assume ref: "ws_ref s = Some k"
    show "view_ok (unsubscribe i s) k"
      using sync_view [OF inv ref] ref
      by (auto simp: view_ok_def unsubscribe_def Let_def r split: option.splits ready_state.splits)
  qed (use sync_subs [OF inv] sync_status [OF inv] in
      \<open>auto simp: unsubscribe_def Let_def r split: option.splits\<close>)
qed

lemma disconnect_sync:
  assumes inv: "sync_inv s"
  shows "sync_inv (disconnect_ws s)"
proof (rule sync_detached)
  let ?u = "s\<lparr>cancel_token := cancel_token s + 1, reconnect_timer := None,
                 reconnect_attempt := 0, subscriptions := []\<rparr>"
  have r: "ready_of (disconnect_ws s) j =
      (case ws_ref s of None \<Rightarrow> ready_of s j | Some k \<Rightarrow> ready_of (close_socket k s) j)" for j
    by (auto simp: disconnect_ws_def Let_def close_socket_def ready_of_def set_ready_def
        split: option.splits if_splits)
  fix j
  show "ready_of (disconnect_ws s) j \<noteq> Some RConnecting \<and> ready_of (disconnect_ws s) j \<noteq> Some ROpen"
    using sync_live [OF inv, of j]
    by (auto simp: r close_socket_def sockets_None_iff split: option.splits if_splits)
  show "sockets (disconnect_ws s) j \<noteq> None \<Longrightarrow> j < next_socket (disconnect_ws s)"
    using sync_fresh [OF inv, of j]
    by (auto simp: disconnect_ws_def Let_def close_socket_def set_ready_def split: option.splits if_splits)
qed (auto simp: disconnect_ws_def Let_def split: option.splits)

lemma step_sync:
  assumes inv: "sync_inv s" and "tidy s e" and st: "ws_step s e = Some t"
  shows "sync_inv t"
proof (cases e)
  case (WOpen k) then show ?thesis using st open_sync [OF inv] by (auto split: if_splits)
next
  case (WMessage k m)
  then show ?thesis using st message_sync [OF inv] inv by (auto split: if_splits option.splits)
next
  case (WCloseStart k)
  then show ?thesis using st sync_closing [OF inv] sync_live [OF inv] by (auto split: if_splits)
next
  case (WClose k code)
  then show ?thesis using st assms(2) close_sync [OF inv] by (auto split: if_splits)
next
  case WTimer
  then obtain tok where "t = timer_callback tok s" using st by (auto split: option.splits)
  then show ?thesis by (auto simp: timer_callback_def Let_def intro: sync_frame [OF _ _ _ _ _ _ inv])
next
  case (WRefreshed tok reply b)
  let ?u = "\<lambda>v. s\<lparr>reconnecting := remove1 tok (reconnecting s), ws_token := v\<rparr>"
  have u: "sync_inv (?u v)" "sync_inv (s\<lparr>reconnecting := remove1 tok (reconnecting s)\<rparr>)" for v
    by (rule sync_frame [OF _ _ _ _ _ _ inv]; simp)+
  have "t = reconnect_continue tok reply b s" using st WRefreshed by (simp split: if_splits)
  then show ?thesis using u connect_sync [OF u(1)] connect_sync [OF u(2)]
    by (simp add: reconnect_continue_def Let_def split: option.splits)
next
  case (WVisibility h)
  then have t: "t = (schedule_reconnect ^^ vis_listeners s) (s\<lparr>doc_hidden := h, vis_listeners := 0\<rparr>)"
    using st by simp
  show ?thesis unfolding t by (rule sync_frame [OF _ _ _ _ _ _ inv]) simp_all
next
  case (WSetToken v)
  then have t: "t = s\<lparr>ws_token := v\<rparr>" using st by simp
  show ?thesis unfolding t by (rule sync_frame [OF _ _ _ _ _ _ inv]) simp_all
next
  case (WConnect b) then show ?thesis using st connect_sync [OF inv, of b] by simp
next
  case (WSubscribe b sub) then show ?thesis using st subscribe_sync [OF inv, of b sub] by simp
next
  case (WUnsubscribe i) then show ?thesis using st unsubscribe_sync [OF inv, of i] by simp
next
  case WDisconnect then show ?thesis using st disconnect_sync [OF inv] by simp
qed

interpretation ws_sync: machine ws_step tidy sync_inv
  by unfold_locales (rule step_sync)

text \<open>C7: In every run where the close handler of a superseded socket does not run while a newer
  one is current, at most the current socket is open, \<open>connected\<close> is shown only with a current
  socket, and what the server has been told on it (subscribe and unsubscribe messages in their
  order) is exactly the client's subscriptions, across reconnects, re-subscriptions and
  disconnects.\<close>

theorem ws_in_sync:
  assumes "run_ok ws_step tidy ws_init es" and "run_events ws_step ws_init es = Some s"
  shows "(\<forall>k. ready_of s k = Some ROpen \<longrightarrow> ws_ref s = Some k)
    \<and> (ws_status s = WsConnected \<longrightarrow>
        (\<exists>k. ws_ref s = Some k
             \<and> (ready_of s k = Some ROpen \<longrightarrow> announced (sent_on s k) = wanted (subscriptions s))))"
proof -
  have inv: "sync_inv s" by (rule ws_sync.run_inv [OF sync_init assms])
  have "\<exists>k. ws_ref s = Some k
      \<and> (ready_of s k = Some ROpen \<longrightarrow> announced (sent_on s k) = wanted (subscriptions s))"
    if c: "ws_status s = WsConnected"
  proof -
    obtain k where k: "ws_ref s = Some k" "authenticated s" using sync_status [OF inv c] by blast
    then show ?thesis using sync_view [OF inv k(1)] by (auto simp: view_ok_def)
  qed
  then show ?thesis using sync_current [OF inv] by blast
qed

definition demo_sub :: "string \<Rightarrow> subscription" where
  "demo_sub i = \<lparr>sb_id = i, sb_kind = ''pods'', sb_namespace = ''web'', sb_callback = 1\<rparr>"

definition auth_ok_msg :: js where
  "auth_ok_msg = JObj [(''type'', JStr ''auth_ok'')]"

definition demo_sync_run :: "ws_event list" where
  "demo_sync_run =
     [WSetToken (JStr ''t''), WSubscribe True (demo_sub ''a''), WOpen 0, WMessage 0 (Some auth_ok_msg),
      WSubscribe True (demo_sub ''b''), WUnsubscribe ''a'', WClose 0 1006, WTimer,
      WRefreshed 0 None True, WOpen 1, WMessage 1 (Some auth_ok_msg)]"

lemma ws_in_sync_witness:
  "\<exists>s. run_events ws_step ws_init demo_sync_run = Some s \<and> ws_status s = WsConnected
     \<and> ws_ref s = Some 1 \<and> announced (sent_on s 1) = wanted (subscriptions s)
     \<and> map fst (subscriptions s) = [''b'']"
proof -
  have ok: "run_ok ws_step tidy ws_init demo_sync_run" by code_simp
  have e: "case run_events ws_step ws_init demo_sync_run of None \<Rightarrow> False
    | Some s \<Rightarrow> ws_status s = WsConnected \<and> ws_ref s = Some 1 \<and> ready_of s 1 = Some ROpen
        \<and> map fst (subscriptions s) = [''b'']" by code_simp
  then obtain s where s: "run_events ws_step ws_init demo_sync_run = Some s" "ws_status s = WsConnected"
    "ws_ref s = Some 1" "ready_of s 1 = Some ROpen" "map fst (subscriptions s) = [''b'']"
    by (auto split: option.splits)
  then show ?thesis using ws_in_sync [OF ok s(1)] by auto
qed

text \<open>
  The hypothesis is needed: connecting while the current socket is closing, then the old close
  handler, leaves the new socket open and unreferenced beside its successor.
\<close>

definition orphan_run :: "ws_event list" where
  "orphan_run =
     [WSetToken (JStr ''t''), WConnect True, WOpen 0, WCloseStart 0, WConnect True, WClose 0 1006,
      WOpen 1, WTimer, WRefreshed 0 None True, WOpen 2]"

lemma orphaned_socket:
  "\<exists>s. run_events ws_step ws_init orphan_run = Some s
     \<and> ready_of s 1 = Some ROpen \<and> ready_of s 2 = Some ROpen \<and> ws_ref s = Some 2"
proof -
  have "case run_events ws_step ws_init orphan_run of None \<Rightarrow> False
    | Some s \<Rightarrow> ready_of s 1 = Some ROpen \<and> ready_of s 2 = Some ROpen \<and> ws_ref s = Some 2"
    by code_simp
  then show ?thesis by (auto split: option.splits)
qed

text \<open>\<open>disconnectWS\<close> leaves \<open>onclose\<close> on the socket it closes, so the client reconnects.\<close>

definition disconnect_run :: "ws_event list" where
  "disconnect_run =
     [WSetToken (JStr ''t''), WConnect True, WOpen 0, WDisconnect, WClose 0 1005, WTimer,
      WRefreshed 1 None True, WOpen 1]"

lemma disconnect_reconnects:
  "\<exists>s. run_events ws_step ws_init disconnect_run = Some s
     \<and> ws_ref s = Some 1 \<and> ready_of s 1 = Some ROpen \<and> sent_on s 1 = [MsgAuth (JStr ''t'')]"
proof -
  have "case run_events ws_step ws_init disconnect_run of None \<Rightarrow> False
    | Some s \<Rightarrow> ws_ref s = Some 1 \<and> ready_of s 1 = Some ROpen \<and> sent_on s 1 = [MsgAuth (JStr ''t'')]"
    by code_simp
  then show ?thesis by (auto split: option.splits)
qed

text \<open>When constructing the socket throws, the limit of 15 attempts is not consulted.\<close>

definition throwing_run :: "ws_event list" where
  "throwing_run =
     WConnect False # concat (replicate 20 [WTimer, WRefreshed 0 None False])"

lemma throwing_constructor_exceeds_limit:
  "\<exists>s. run_events ws_step ws_init throwing_run = Some s \<and> reconnect_attempt s = 21"
proof -
  have "case run_events ws_step ws_init throwing_run of None \<Rightarrow> False
    | Some s \<Rightarrow> reconnect_attempt s = 21" by code_simp
  then show ?thesis by (auto split: option.splits)
qed

section \<open>Cancellation and delivery\<close>

text \<open>Every captured token is one that \<open>disconnectWS\<close> has made, so it can cancel them all.\<close>

definition tokens_inv :: "ws_state \<Rightarrow> bool" where
  "tokens_inv s \<longleftrightarrow>
     (\<forall>tok. reconnect_timer s = Some tok \<longrightarrow> tok \<le> cancel_token s)
     \<and> (\<forall>tok \<in> set (reconnecting s). tok \<le> cancel_token s)"

lemma tokens_frame:
  "reconnect_timer t = reconnect_timer s \<Longrightarrow> reconnecting t = reconnecting s \<Longrightarrow>
   cancel_token t = cancel_token s \<Longrightarrow> tokens_inv s \<Longrightarrow> tokens_inv t"
  by (simp add: tokens_inv_def)

lemma schedule_tokens: "tokens_inv s \<Longrightarrow> tokens_inv (schedule_reconnect s)"
  by (auto simp: tokens_inv_def schedule_reconnect_def)

lemma schedule_pow_tokens: "tokens_inv s \<Longrightarrow> tokens_inv ((schedule_reconnect ^^ n) s)"
  by (induction n) (auto simp del: funpow.simps(2) simp: schedule_tokens funpow.simps)

lemma connect_tokens:
  assumes "tokens_inv s" shows "tokens_inv (connect_ws b s)"
proof -
  have "tokens_inv (s\<lparr>ws_status := WsConnecting, authenticated := False\<rparr>)"
    using assms by (rule tokens_frame [rotated 3]) simp_all
  from schedule_tokens [OF this] have "\<not> b \<Longrightarrow> tokens_inv (connect_ws b s)"
    using assms by (simp add: connect_ws_def Let_def)
  moreover have "b \<Longrightarrow> tokens_inv (connect_ws b s)"
    using assms by (auto intro: tokens_frame)
  ultimately show ?thesis by blast
qed

lemma step_tokens:
  assumes inv: "tokens_inv s" and st: "ws_step s e = Some t"
  shows "tokens_inv t"
proof (cases e)
  case (WClose k code)
  have "tokens_inv (set_ready k RClosed s\<lparr>ws_ref := None, authenticated := False, ws_status := WsDisconnected\<rparr>)"
    using inv by (rule tokens_frame [rotated 3]) simp_all
  then show ?thesis using st WClose schedule_tokens by (auto simp: on_close_def Let_def split: if_splits)
next
  case (WVisibility h)
  have "tokens_inv (s\<lparr>doc_hidden := h, vis_listeners := 0\<rparr>)"
    using inv by (rule tokens_frame [rotated 3]) simp_all
  then show ?thesis using st WVisibility schedule_pow_tokens by auto
next
  case (WSubscribe b sub)
  have "tokens_inv (connect_ws b (s\<lparr>subscriptions := rec_set (subscriptions s) (sb_id sub) sub\<rparr>))"
    by (rule connect_tokens, rule tokens_frame [OF _ _ _ inv]) simp_all
  then show ?thesis using st WSubscribe
    by (auto simp: subscribe_ws_def intro: tokens_frame)
next
  case (WRefreshed tok reply b)
  have "tokens_inv (s\<lparr>reconnecting := remove1 tok (reconnecting s)\<rparr>)"
    "tokens_inv (s\<lparr>reconnecting := remove1 tok (reconnecting s), ws_token := v\<rparr>)" for v
    using inv by (auto simp: tokens_inv_def dest: notin_set_remove1 set_remove1_subset [THEN subsetD])
  then show ?thesis using st WRefreshed connect_tokens
    by (auto simp: reconnect_continue_def Let_def split: if_splits option.splits)
next
  case WTimer
  then show ?thesis using st inv
    by (auto simp: timer_callback_def Let_def tokens_inv_def split: option.splits if_splits)
next
  case WDisconnect
  then show ?thesis using st inv
    by (auto simp: disconnect_ws_def Let_def tokens_inv_def le_SucI split: option.splits)
next
  case (WConnect b) then show ?thesis using st connect_tokens [OF inv, of b] by simp
next
  case (WOpen k)
  then have "t = on_open (set_ready k ROpen s)" using st by (simp split: if_splits)
  then show ?thesis
    by (intro tokens_frame [OF _ _ _ inv]) (auto simp: on_open_def split: option.splits)
next
  case (WMessage k m)
  then show ?thesis using st
    by (intro tokens_frame [OF _ _ _ inv])
      (auto simp: handle_message_def Let_def split: if_splits option.splits)
next
  case (WUnsubscribe i)
  then show ?thesis using st
    by (intro tokens_frame [OF _ _ _ inv]) (auto simp: unsubscribe_def Let_def split: option.splits)
next
  case (WCloseStart k)
  then show ?thesis using st by (intro tokens_frame [OF _ _ _ inv]) (auto split: if_splits)
next
  case (WSetToken v)
  then show ?thesis using st by (intro tokens_frame [OF _ _ _ inv]) auto
qed

lemma tokens_init: "tokens_inv ws_init"
  by (simp add: tokens_inv_def ws_init_def)

interpretation ws_tokens: free_machine ws_step tokens_inv
  by unfold_locales (rule step_tokens)

text \<open>After \<open>disconnectWS\<close> no reconnect that was pending or in flight opens a socket: no timer
  is left, and every callback that was awaiting the token refresh returns without connecting.\<close>

theorem disconnect_cancels:
  assumes "run_events ws_step ws_init es = Some s"
  shows "reconnect_timer (disconnect_ws s) = None
    \<and> (\<forall>tok \<in> set (reconnecting s). \<forall>reply b t.
         ws_step (disconnect_ws s) (WRefreshed tok reply b) = Some t
           \<longrightarrow> sockets t = sockets (disconnect_ws s) \<and> ws_ref t = None)"
proof -
  have inv: "tokens_inv s" using ws_tokens.runs_inv [OF tokens_init assms] .
  have d: "reconnect_timer (disconnect_ws s) = None" "cancel_token (disconnect_ws s) = Suc (cancel_token s)"
    "ws_ref (disconnect_ws s) = None"
    by (auto simp: disconnect_ws_def Let_def split: option.splits)
  have "sockets t = sockets (disconnect_ws s) \<and> ws_ref t = None"
    if "tok \<in> set (reconnecting s)" "ws_step (disconnect_ws s) (WRefreshed tok reply b) = Some t"
    for tok reply b t
  proof -
    have "tok < cancel_token (disconnect_ws s)" using inv that(1) d(2) by (auto simp: tokens_inv_def)
    then show ?thesis using that(2) d(3)
      by (auto simp: reconnect_continue_def Let_def split: if_splits option.splits)
  qed
  then show ?thesis using d(1) by blast
qed

lemma disconnect_cancels_witness:
  "\<exists>s. run_events ws_step ws_init [WConnect True, WClose 0 1006, WTimer] = Some s
     \<and> reconnecting s = [0] \<and> reconnect_timer (disconnect_ws s) = None
     \<and> (\<forall>t. ws_step (disconnect_ws s) (WRefreshed 0 None True) = Some t \<longrightarrow> ws_ref t = None)"
proof -
  have "case run_events ws_step ws_init [WConnect True, WClose 0 1006, WTimer] of None \<Rightarrow> False
    | Some s \<Rightarrow> reconnecting s = [0]" by code_simp
  then obtain s where s: "run_events ws_step ws_init [WConnect True, WClose 0 1006, WTimer] = Some s"
    "reconnecting s = [0]" by (auto split: option.splits)
  have "0 \<in> set (reconnecting s)" using s(2) by simp
  then have "\<forall>t. ws_step (disconnect_ws s) (WRefreshed 0 None True) = Some t \<longrightarrow> ws_ref t = None"
    using disconnect_cancels [OF s(1)] by blast
  then show ?thesis using disconnect_cancels [OF s(1)] s by blast
qed

text \<open>The calls a subscriber has received.\<close>

definition received :: "ws_state \<Rightarrow> nat \<Rightarrow> (nat \<times> js \<times> js) list" where
  "received s cb = filter (\<lambda>p. fst p = cb) (delivered s)"

definition registered :: "ws_state \<Rightarrow> nat \<Rightarrow> bool" where
  "registered s cb \<longleftrightarrow> (\<exists>p \<in> set (subscriptions s). sb_callback (snd p) = cb)"

fun registers :: "nat \<Rightarrow> ws_event \<Rightarrow> bool" where
  "registers cb (WSubscribe b sub) = (sb_callback sub = cb)"
| "registers cb e = False"

lemma delivered_simps [simp]:
  "delivered (set_ready k r s) = delivered s" "delivered (push_msg k m s) = delivered s"
  "delivered (close_socket k s) = delivered s" "delivered (send_subscribe u s) = delivered s"
  "delivered (schedule_reconnect s) = delivered s" "delivered (connect_ws b s) = delivered s"
  "delivered (on_open s) = delivered s" "delivered (on_close c s) = delivered s"
  "delivered (disconnect_ws s) = delivered s" "delivered (unsubscribe i s) = delivered s"
  by (simp_all add: set_ready_def push_msg_def close_socket_def send_subscribe_def
      schedule_reconnect_def connect_ws_def Let_def on_open_def on_close_def disconnect_ws_def
      unsubscribe_def split: option.splits)

lemma delivered_iterate [simp]:
  "delivered (fold send_subscribe us s) = delivered s"
  "delivered ((schedule_reconnect ^^ n) s) = delivered s"
  by (induction us arbitrary: s, simp_all) (induction n, simp_all)

lemma connect_subscriptions [simp]: "subscriptions (connect_ws b s) = subscriptions s"
  by (cases b) (simp_all add: connect_ws_def Let_def)

lemma notify_silent: "\<not> registered s cb \<Longrightarrow> received (notify i e x s) cb = received s cb"
  by (auto simp: notify_def received_def registered_def dest!: rec_get_Some_in
      split: js.splits option.splits)

lemma rec_set_snd: "p \<in> set (rec_set r k v) \<Longrightarrow> p \<in> set r \<or> p = (k, v)"
  by (induction r k v rule: rec_set.induct) (auto split: if_splits)

lemma step_silent:
  assumes nr: "\<not> registered s cb" and ev: "\<not> registers cb e" and st: "ws_step s e = Some t"
  shows "\<not> registered t cb \<and> received t cb = received s cb"
proof (cases e)
  case (WMessage k m)
  show ?thesis
  proof (cases m)
    case (Some msg)
    then have "t = handle_message msg s" using st WMessage by (simp split: if_splits)
    then show ?thesis using nr notify_silent [OF nr]
      by (auto simp: handle_message_def Let_def registered_def received_def)
  qed (use st WMessage nr in \<open>auto split: if_splits\<close>)
next
  case (WSubscribe b sub)
  then have "subscriptions t = rec_set (subscriptions s) (sb_id sub) sub" "delivered t = delivered s"
    using st by (auto simp: subscribe_ws_def)
  then show ?thesis using nr ev WSubscribe
    by (auto simp: registered_def received_def dest!: rec_set_snd)
next
  case (WUnsubscribe i)
  then have "set (subscriptions t) \<subseteq> set (subscriptions s)" "delivered t = delivered s"
    using st by (auto simp: unsubscribe_def Let_def set_rec_del split: option.splits if_splits)
  then show ?thesis using nr by (auto simp: registered_def received_def)
next
  case WDisconnect
  then have "subscriptions t = []" "delivered t = delivered s"
    using st by (auto simp: disconnect_ws_def Let_def split: option.splits)
  then show ?thesis by (simp add: registered_def received_def)
next
  case (WRefreshed tok reply b)
  then have "t = reconnect_continue tok reply b s" using st by (simp split: if_splits)
  then show ?thesis using nr
    by (simp add: reconnect_continue_def Let_def registered_def received_def split: option.splits)
next
  case (WOpen k)
  then have "t = on_open (set_ready k ROpen s)" using st by (simp split: if_splits)
  then have "subscriptions t = subscriptions s" "delivered t = delivered s"
    by (auto simp: on_open_def split: option.splits)
  then show ?thesis using nr by (simp add: registered_def received_def)
next
  case (WClose k code)
  then have "t = on_close code (set_ready k RClosed s)" using st by (simp split: if_splits)
  then have "subscriptions t = subscriptions s" "delivered t = delivered s"
    by (auto simp: on_close_def Let_def schedule_reconnect_def)
  then show ?thesis using nr by (simp add: registered_def received_def)
next
  case WTimer
  then obtain tok where "t = timer_callback tok s" using st by (auto split: option.splits)
  then show ?thesis using nr by (simp add: timer_callback_def Let_def registered_def received_def)
next
  case (WCloseStart k)
  then show ?thesis using st nr by (auto simp: registered_def received_def split: if_splits)
next
  case (WConnect b) then show ?thesis using st nr by (auto simp: registered_def received_def)
next
  case (WVisibility h) then show ?thesis using st nr by (auto simp: registered_def received_def)
next
  case (WSetToken v) then show ?thesis using st nr by (auto simp: registered_def received_def)
qed

text \<open>A subscriber that is not registered (its unsubscribe function has run, or the client was
  disconnected) is never called again in any run in which it does not subscribe anew, whatever
  messages arrive.\<close>

theorem no_call_after_unsubscribe:
  assumes "\<not> registered s cb" and "\<forall>e \<in> set es. \<not> registers cb e"
    and "run_events ws_step s es = Some t"
  shows "received t cb = received s cb \<and> \<not> registered t cb"
  using assms
proof (induction es arbitrary: s)
  case (Cons e es)
  then obtain u where u: "ws_step s e = Some u" "run_events ws_step u es = Some t"
    by (auto split: option.splits)
  have "\<not> registered u cb \<and> received u cb = received s cb"
    using step_silent [OF Cons.prems(1) _ u(1)] Cons.prems(2) by simp
  then show ?case using Cons.IH [OF _ _ u(2)] Cons.prems(2) by simp
qed simp

definition event_msg :: "string \<Rightarrow> js" where
  "event_msg i = JObj [(''type'', JStr ''event''), (''id'', JStr i), (''eventType'', JStr ''ADDED''),
     (''object'', JObj [])]"

lemma no_call_after_unsubscribe_witness:
  "\<exists>s t. run_events ws_step ws_init
      [WSetToken (JStr ''t''), WSubscribe True (demo_sub ''a''), WOpen 0, WMessage 0 (Some auth_ok_msg),
       WMessage 0 (Some (event_msg ''a'')), WUnsubscribe ''a''] = Some s
    \<and> run_events ws_step s [WMessage 0 (Some (event_msg ''a''))] = Some t
    \<and> received s 1 = [(1, JStr ''ADDED'', JObj [])] \<and> received t 1 = received s 1"
proof -
  let ?es = "[WSetToken (JStr ''t''), WSubscribe True (demo_sub ''a''), WOpen 0,
    WMessage 0 (Some auth_ok_msg), WMessage 0 (Some (event_msg ''a'')), WUnsubscribe ''a'']"
  have "case run_events ws_step ws_init ?es of None \<Rightarrow> False
    | Some s \<Rightarrow> subscriptions s = [] \<and> received s 1 = [(1, JStr ''ADDED'', JObj [])]
        \<and> ready_of s 0 = Some ROpen" by code_simp
  then obtain s where s: "run_events ws_step ws_init ?es = Some s" "subscriptions s = []"
    "received s 1 = [(1, JStr ''ADDED'', JObj [])]" "ready_of s 0 = Some ROpen"
    by (auto split: option.splits)
  obtain t where t: "run_events ws_step s [WMessage 0 (Some (event_msg ''a''))] = Some t"
    using s(4) by simp
  have "received t 1 = received s 1"
    using no_call_after_unsubscribe [OF _ _ t, of 1] s(2) by (simp add: registered_def)
  then show ?thesis using s(1,3) t by blast
qed

section \<open>Backoff\<close>

text \<open>The delay backs off exponentially, within a fifth of the capped value: from 0.8 to 36 s.\<close>

lemma reconnect_delay_bounds:
  assumes "0 \<le> u" "u \<le> 1"
  shows "4 / 5 * min (1000 * 2 ^ n) 30000 \<le> reconnect_delay n u"
    and "reconnect_delay n u \<le> 6 / 5 * min (1000 * 2 ^ n) 30000"
    and "800 \<le> reconnect_delay n u" and "reconnect_delay n u \<le> 36000"
proof -
  define d :: rat where "d = min (1000 * 2 ^ n) 30000"
  have d: "1000 \<le> d" "d \<le> 30000" by (simp_all add: d_def)
  have r: "reconnect_delay n u = d + d / 5 * (u * 2 - 1)"
    by (simp add: reconnect_delay_def Let_def BASE_DELAY_def MAX_DELAY_def JITTER_def d_def)
  have lo: "- (d / 5) \<le> d / 5 * (u * 2 - 1)" and hi: "d / 5 * (u * 2 - 1) \<le> d / 5"
    using mult_left_mono [of "-1" "u * 2 - 1" "d / 5"] mult_left_mono [of "u * 2 - 1" 1 "d / 5"] assms d
    by simp_all
  show "4 / 5 * min (1000 * 2 ^ n) 30000 \<le> reconnect_delay n u"
    "reconnect_delay n u \<le> 6 / 5 * min (1000 * 2 ^ n) 30000"
    "800 \<le> reconnect_delay n u" "reconnect_delay n u \<le> 36000"
    unfolding r d_def [symmetric] using lo hi d by linarith+
qed

end
