(* ===== verification/Endpoints.thy ===== *)
theory Endpoints
  imports Http_Client
begin

text \<open>
  The typed clients over \<open>api()\<close>: the convenience methods, \<open>notifApi\<close> and
  \<open>limitsApi\<close> of \<open>lib/api.ts\<close>, \<open>lib/eso-api.ts\<close> and \<open>lib/mesh-api.ts\<close>. An
  operation is the pair of the path and the options that it passes to \<open>api()\<close>; abort
  signals are left out. The properties say that no argument can escape its path segment or
  query parameter, so distinct operations never issue the same request.
\<close>

type_synonym endpoint = "string \<times> request_init"

section \<open>Convenience methods\<close>

definition api_get :: "string \<Rightarrow> endpoint" where
  "api_get path = (path, \<lparr>ri_method = Some ''GET'', ri_headers = [], ri_body = None\<rparr>)"

definition api_post :: "string \<Rightarrow> js \<Rightarrow> endpoint" where
  "api_post path body =
     (path, \<lparr>ri_method = Some ''POST'', ri_headers = [],
             ri_body = (if truthy body then json_stringify body else None)\<rparr>)"

definition api_put :: "string \<Rightarrow> js \<Rightarrow> endpoint" where
  "api_put path body =
     (path, \<lparr>ri_method = Some ''PUT'', ri_headers = [], ri_body = json_stringify body\<rparr>)"

definition api_delete :: "string \<Rightarrow> endpoint" where
  "api_delete path = (path, \<lparr>ri_method = Some ''DELETE'', ri_headers = [], ri_body = None\<rparr>)"

definition api_post_raw :: "string \<Rightarrow> string \<Rightarrow> string \<Rightarrow> endpoint" where
  "api_post_raw path body content_type =
     (path, \<lparr>ri_method = Some ''POST'', ri_headers = [(''Content-Type'', content_type)],
             ri_body = Some body\<rparr>)"

section \<open>Query strings\<close>

text \<open>
  \<open>URLSearchParams\<close> writes letters, digits and \<open>* - . _\<close> as they are, a space as a
  plus sign and any other code point as percent-encoded UTF-8.
\<close>

definition form_unreserved :: "char \<Rightarrow> bool" where
  "form_unreserved c \<longleftrightarrow>
     (let n = char_code c
      in (65 \<le> n \<and> n \<le> 90) \<or> (97 \<le> n \<and> n \<le> 122) \<or> (48 \<le> n \<and> n \<le> 57) \<or> n \<in> {42, 45, 46, 95})"

definition form_char :: "char \<Rightarrow> string" where
  "form_char c =
     (if form_unreserved c then [c]
      else if char_code c = 32 then ''+''
      else if char_code c < 128 then pct_byte (char_code c)
      else pct_byte (192 + char_code c div 64) @ pct_byte (128 + char_code c mod 64))"

definition form_encode :: "string \<Rightarrow> string" where
  "form_encode s = concat (map form_char s)"

definition params_to_string :: "(string \<times> string) list \<Rightarrow> string" where
  "params_to_string ps = js_join ''&'' (map (\<lambda>(k, v). form_encode k @ ''='' @ form_encode v) ps)"

text \<open>One optional parameter, set when the value is truthy.\<close>

definition opt_param :: "string \<Rightarrow> string option \<Rightarrow> (string \<times> string) list" where
  "opt_param k v = (case v of None \<Rightarrow> [] | Some s \<Rightarrow> if s = [] then [] else [(k, s)])"

definition num_param :: "string \<Rightarrow> int option \<Rightarrow> (string \<times> string) list" where
  "num_param k v = (case v of None \<Rightarrow> [] | Some n \<Rightarrow> [(k, string_of_int n)])"

section \<open>Notification centre and namespace limits\<close>

record notif_list_params =
  nl_source :: "string option"
  nl_severity :: "string option"
  nl_read :: "string option"
  nl_since :: "string option"
  nl_until :: "string option"
  nl_limit :: "int option"
  nl_offset :: "int option"

definition notif_query_params :: "notif_list_params \<Rightarrow> (string \<times> string) list" where
  "notif_query_params p =
     opt_param ''source'' (nl_source p) @ opt_param ''severity'' (nl_severity p)
     @ opt_param ''read'' (nl_read p) @ opt_param ''since'' (nl_since p)
     @ opt_param ''until'' (nl_until p) @ num_param ''limit'' (nl_limit p)
     @ num_param ''offset'' (nl_offset p)"

definition notif_query_string :: "notif_list_params \<Rightarrow> string" where
  "notif_query_string p =
     (let qs = params_to_string (notif_query_params p) in if qs \<noteq> [] then ''?'' @ qs else [])"

text \<open>The methods of \<open>notifApi\<close>; ids are put into the path as they are.\<close>

datatype notif_op =
    NotifList notif_list_params | NotifUnreadCount | NotifMarkRead string | NotifMarkReadQuiet string
  | NotifMarkAllRead | ListChannels | CreateChannel js | UpdateChannel string js | DeleteChannel string
  | TestChannel string | ListRules | CreateRule js | UpdateRule string js | DeleteRule string

fun notif_api :: "notif_op \<Rightarrow> endpoint" where
  "notif_api (NotifList p) = api_get (''/v1/notifications'' @ notif_query_string p)"
| "notif_api NotifUnreadCount = api_get ''/v1/notifications/unread-count''"
| "notif_api (NotifMarkRead i) = api_post (''/v1/notifications/'' @ i @ ''/read'') JUndef"
| "notif_api (NotifMarkReadQuiet i) =
     (''/v1/notifications/'' @ i @ ''/read'',
      \<lparr>ri_method = Some ''POST'', ri_headers = [], ri_body = None\<rparr>)"
| "notif_api NotifMarkAllRead = api_post ''/v1/notifications/read-all'' JUndef"
| "notif_api ListChannels = api_get ''/v1/notifications/channels''"
| "notif_api (CreateChannel ch) = api_post ''/v1/notifications/channels'' ch"
| "notif_api (UpdateChannel i ch) = api_put (''/v1/notifications/channels/'' @ i) ch"
| "notif_api (DeleteChannel i) = api_delete (''/v1/notifications/channels/'' @ i)"
| "notif_api (TestChannel i) = api_post (''/v1/notifications/channels/'' @ i @ ''/test'') JUndef"
| "notif_api ListRules = api_get ''/v1/notifications/rules''"
| "notif_api (CreateRule r) = api_post ''/v1/notifications/rules'' r"
| "notif_api (UpdateRule i r) = api_put (''/v1/notifications/rules/'' @ i) r"
| "notif_api (DeleteRule i) = api_delete (''/v1/notifications/rules/'' @ i)"

datatype limits_op = LimitsStatusOp | LimitsList | LimitsGet string

fun limits_api :: "limits_op \<Rightarrow> endpoint" where
  "limits_api LimitsStatusOp = api_get ''/v1/limits/status''"
| "limits_api LimitsList = api_get ''/v1/limits/namespaces''"
| "limits_api (LimitsGet ns) = api_get (''/v1/limits/namespaces/'' @ ns)"

section \<open>External Secrets Operator\<close>

definition ns_query_string :: "string option \<Rightarrow> string" where
  "ns_query_string ns =
     (if \<not> has_text ns then [] else ''?namespace='' @ encode_uri_component (the ns))"

text \<open>\<open>pathParam\<close>; an absent property of the bulk target prints as \<open>undefined\<close>.\<close>

definition path_param :: "string \<Rightarrow> string" where
  "path_param s = encode_uri_component s"

definition target_param :: "string option \<Rightarrow> string" where
  "target_param o1 = path_param (case o1 of None \<Rightarrow> ''undefined'' | Some s \<Rightarrow> s)"

datatype bulk_action = RefreshStore | RefreshClusterStore | RefreshNamespace

datatype eso_op =
    EsoStatus | ListExternalSecrets "string option" | GetExternalSecret string string
  | ListClusterExternalSecrets | GetClusterExternalSecret string
  | ListStores "string option" | GetStore string string | ListClusterStores | GetClusterStore string
  | ListPushSecrets "string option" | GetPushSecret string string
  | ForceSyncExternalSecret string string | ResolveStoreScope string string
  | ResolveClusterStoreScope string | ResolveNamespaceScope string
  | BulkRefresh bulk_action "string option" "string option" "string list"
  | GetBulkRefreshJob string | GetStoreMetrics string string | GetClusterStoreMetrics string
  | ListStorePaths string string "string option" | PreviewExternalSecret js

definition bulk_refresh_path :: "bulk_action \<Rightarrow> string option \<Rightarrow> string option \<Rightarrow> string" where
  "bulk_refresh_path action ns name =
     (case action of
        RefreshStore \<Rightarrow>
          ''/v1/externalsecrets/stores/'' @ target_param ns @ ''/'' @ target_param name @ ''/refresh-all''
      | RefreshClusterStore \<Rightarrow> ''/v1/externalsecrets/clusterstores/'' @ target_param name @ ''/refresh-all''
      | RefreshNamespace \<Rightarrow> ''/v1/externalsecrets/refresh-namespace/'' @ target_param ns)"

fun eso_api :: "eso_op \<Rightarrow> endpoint" where
  "eso_api EsoStatus = api_get ''/v1/externalsecrets/status''"
| "eso_api (ListExternalSecrets ns) =
     api_get (''/v1/externalsecrets/externalsecrets'' @ ns_query_string ns)"
| "eso_api (GetExternalSecret ns n) =
     api_get (''/v1/externalsecrets/externalsecrets/'' @ path_param ns @ ''/'' @ path_param n)"
| "eso_api ListClusterExternalSecrets = api_get ''/v1/externalsecrets/clusterexternalsecrets''"
| "eso_api (GetClusterExternalSecret n) =
     api_get (''/v1/externalsecrets/clusterexternalsecrets/'' @ path_param n)"
| "eso_api (ListStores ns) = api_get (''/v1/externalsecrets/stores'' @ ns_query_string ns)"
| "eso_api (GetStore ns n) =
     api_get (''/v1/externalsecrets/stores/'' @ path_param ns @ ''/'' @ path_param n)"
| "eso_api ListClusterStores = api_get ''/v1/externalsecrets/clusterstores''"
| "eso_api (GetClusterStore n) = api_get (''/v1/externalsecrets/clusterstores/'' @ path_param n)"
| "eso_api (ListPushSecrets ns) = api_get (''/v1/externalsecrets/pushsecrets'' @ ns_query_string ns)"
| "eso_api (GetPushSecret ns n) =
     api_get (''/v1/externalsecrets/pushsecrets/'' @ path_param ns @ ''/'' @ path_param n)"
| "eso_api (ForceSyncExternalSecret ns n) =
     api_post (''/v1/externalsecrets/externalsecrets/'' @ path_param ns @ ''/'' @ path_param n
       @ ''/force-sync'') JUndef"
| "eso_api (ResolveStoreScope ns n) =
     api_get (''/v1/externalsecrets/stores/'' @ path_param ns @ ''/'' @ path_param n @ ''/refresh-scope'')"
| "eso_api (ResolveClusterStoreScope n) =
     api_get (''/v1/externalsecrets/clusterstores/'' @ path_param n @ ''/refresh-scope'')"
| "eso_api (ResolveNamespaceScope ns) =
     api_get (''/v1/externalsecrets/refresh-namespace/'' @ path_param ns @ ''/refresh-scope'')"
| "eso_api (BulkRefresh action ns n uids) =
     api_post (bulk_refresh_path action ns n) (JObj [(''targetUIDs'', JArr (map JStr uids))])"
| "eso_api (GetBulkRefreshJob j) =
     api_get (''/v1/externalsecrets/bulk-refresh-jobs/'' @ path_param j)"
| "eso_api (GetStoreMetrics ns n) =
     api_get (''/v1/externalsecrets/stores/'' @ path_param ns @ ''/'' @ path_param n @ ''/metrics'')"
| "eso_api (GetClusterStoreMetrics n) =
     api_get (''/v1/externalsecrets/clusterstores/'' @ path_param n @ ''/metrics'')"
| "eso_api (ListStorePaths ns n prefix) =
     api_get (''/v1/externalsecrets/stores/'' @ path_param ns @ ''/'' @ path_param n @ ''/paths''
       @ (if has_text prefix then ''?prefix='' @ encode_uri_component (the prefix) else []))"
| "eso_api (PreviewExternalSecret input) = api_post ''/v1/wizards/external-secret/preview'' input"

section \<open>Service mesh\<close>

definition namespace_query_string :: "string option \<Rightarrow> string" where
  "namespace_query_string ns =
     (if \<not> has_text ns then [] else ''?'' @ params_to_string [(''namespace'', the ns)])"

definition golden_signals_query_string :: "string \<Rightarrow> string \<Rightarrow> string option \<Rightarrow> string" where
  "golden_signals_query_string ns service mesh =
     ''?'' @ params_to_string ([(''namespace'', ns), (''service'', service)] @ opt_param ''mesh'' mesh)"

datatype mesh_op =
    MeshStatus | MeshRoutes "string option" | MeshRoute string | MeshMtls "string option"
  | MeshGoldenSignals string string "string option"

fun mesh_api :: "mesh_op \<Rightarrow> endpoint" where
  "mesh_api MeshStatus = api_get ''/v1/mesh/status''"
| "mesh_api (MeshRoutes ns) = api_get (''/v1/mesh/routing'' @ namespace_query_string ns)"
| "mesh_api (MeshRoute i) = api_get (''/v1/mesh/routing/'' @ encode_uri_component i)"
| "mesh_api (MeshMtls ns) = api_get (''/v1/mesh/mtls'' @ namespace_query_string ns)"
| "mesh_api (MeshGoldenSignals ns service mesh) =
     api_get (''/v1/mesh/golden-signals'' @ golden_signals_query_string ns service mesh)"

section \<open>What a server reads\<close>

text \<open>
  The receiving side, as the URL standard and HTTP routers define it: the path up to the
  question mark is split at slashes and each segment percent-decoded; the query is split at
  ampersands and equals signs and form-decoded.
\<close>

definition unhex :: "char \<Rightarrow> nat" where
  "unhex c = (let n = char_code c in if n \<le> 57 then n - 48 else if n \<le> 70 then n - 55 else n - 87)"

fun pct_bytes :: "string \<Rightarrow> nat list" where
  "pct_bytes [] = []"
| "pct_bytes (c # s) =
     (if c = CHR ''%''
      then (case s of a # b # r \<Rightarrow> (unhex a * 16 + unhex b) # pct_bytes r | _ \<Rightarrow> 37 # pct_bytes s)
      else char_code c # pct_bytes s)"

fun utf8_decode :: "nat list \<Rightarrow> string" where
  "utf8_decode [] = []"
| "utf8_decode (b # bs) =
     (if b < 128 then char_of b # utf8_decode bs
      else (case bs of [] \<Rightarrow> [] | d # r \<Rightarrow> char_of ((b - 192) * 64 + (d - 128)) # utf8_decode r))"

definition percent_decode :: "string \<Rightarrow> string" where
  "percent_decode s = utf8_decode (pct_bytes s)"

definition form_decode :: "string \<Rightarrow> string" where
  "form_decode s = percent_decode (map (\<lambda>c. if c = CHR ''+'' then CHR '' '' else c) s)"

definition parse_param :: "string \<Rightarrow> string \<times> string" where
  "parse_param p =
     (form_decode (takeWhile (\<lambda>c. c \<noteq> CHR ''='') p), form_decode (drop 1 (dropWhile (\<lambda>c. c \<noteq> CHR ''='') p)))"

definition parse_query :: "string \<Rightarrow> (string \<times> string) list" where
  "parse_query q = (if q = [] then [] else map parse_param (js_split CHR ''&'' q))"

definition server_view :: "string \<Rightarrow> string list \<times> (string \<times> string) list" where
  "server_view p =
     (map percent_decode (js_split CHR ''/'' (takeWhile (\<lambda>c. c \<noteq> CHR ''?'') p)),
      parse_query (drop 1 (dropWhile (\<lambda>c. c \<noteq> CHR ''?'') p)))"

subsection \<open>Decoding inverts encoding\<close>

definition utf8_char :: "char \<Rightarrow> nat list" where
  "utf8_char c =
     (let n = char_code c in if n < 128 then [n] else [192 + n div 64, 128 + n mod 64])"

lemma utf8_decode_char: "utf8_decode (utf8_char c @ bs) = c # utf8_decode bs"
proof -
  have "(192 + char_code c div 64 - 192) * 64 + (128 + char_code c mod 64 - 128) = char_code c"
    by simp
  then show ?thesis by (simp add: utf8_char_def Let_def del: add_diff_cancel_left')
qed

lemma unhex_hex_digit: "d < 16 \<Longrightarrow> unhex (hex_digit d) = d"
  by (simp add: unhex_def Let_def char_code_hex_digit)

lemma pct_bytes_pct: "b < 256 \<Longrightarrow> pct_bytes (pct_byte b @ s) = b # pct_bytes s"
  by (simp add: pct_byte_def unhex_hex_digit less_mult_imp_div_less)

lemma pct_bytes_two:
  "128 \<le> char_code c \<Longrightarrow>
   pct_bytes ((pct_byte (192 + char_code c div 64) @ pct_byte (128 + char_code c mod 64)) @ s)
     = utf8_char c @ pct_bytes s"
proof -
  have "192 + char_code c div 64 < 256" "128 + char_code c mod 64 < 256"
    using char_code_less [of c] by (simp_all add: less_mult_imp_div_less)
  then show "128 \<le> char_code c \<Longrightarrow> ?thesis" by (simp add: pct_bytes_pct utf8_char_def Let_def)
qed

lemma unreserved_ascii: "uri_unreserved c \<Longrightarrow> char_code c < 128" "form_unreserved c \<Longrightarrow> char_code c < 128"
  by (auto simp: uri_unreserved_def form_unreserved_def Let_def)

lemma unreserved_not_pct: "uri_unreserved c \<Longrightarrow> c \<noteq> CHR ''%''" "form_unreserved c \<Longrightarrow> c \<noteq> CHR ''%''"
  by (auto simp: uri_unreserved_def form_unreserved_def Let_def char_code_def)

lemma pct_bytes_enc: "pct_bytes (enc_char c @ s) = utf8_char c @ pct_bytes s"
proof -
  consider "uri_unreserved c" | "\<not> uri_unreserved c" "char_code c < 128" | "\<not> uri_unreserved c" "128 \<le> char_code c"
    by linarith
  then show ?thesis
  proof cases
    case 1 then show ?thesis using unreserved_ascii unreserved_not_pct
      by (simp add: enc_char_def utf8_char_def Let_def)
  next
    case 2 then show ?thesis using pct_bytes_pct [of "char_code c"]
      by (simp add: enc_char_def utf8_char_def Let_def)
  next
    case 3 then show ?thesis using pct_bytes_two [of c] by (simp add: enc_char_def)
  qed
qed

lemma percent_decode_encode [simp]: "percent_decode (encode_uri_component s) = s"
  unfolding percent_decode_def by (induction s) (simp_all add: pct_bytes_enc utf8_decode_char)

definition unplus :: "char \<Rightarrow> char" where
  "unplus c = (if c = CHR ''+'' then CHR '' '' else c)"

lemma form_decode_alt: "form_decode s = percent_decode (map unplus s)"
  by (simp add: form_decode_def unplus_def cong: map_cong)

lemma unplus_id: "CHR ''+'' \<notin> set s \<Longrightarrow> map unplus s = s"
  by (induction s) (auto simp: unplus_def)

lemma hex_digit_not_plus: "d < 16 \<Longrightarrow> hex_digit d \<noteq> CHR ''+''"
  using hex_digit_unreserved [of d] by (auto simp: uri_unreserved_def char_code_def)

lemma pct_byte_no_plus: "b < 256 \<Longrightarrow> CHR ''+'' \<notin> set (pct_byte b)"
  using hex_digit_not_plus [of "b div 16"] hex_digit_not_plus [of "b mod 16"]
  by (auto simp: pct_byte_def less_mult_imp_div_less)

lemma form_decode_encode_uri [simp]: "form_decode (encode_uri_component s) = s"
proof -
  have "CHR ''+'' \<notin> set (encode_uri_component s)"
    using encode_charset [of "CHR ''+''" s] by (auto simp: uri_unreserved_def char_code_def)
  then show ?thesis by (simp add: form_decode_alt unplus_id)
qed

lemma two_bytes: "192 + char_code c div 64 < 256" "128 + char_code c mod 64 < 256"
  using char_code_less [of c] by (simp_all add: less_mult_imp_div_less)

lemma pct_bytes_form: "pct_bytes (map unplus (form_char c) @ s) = utf8_char c @ pct_bytes s"
proof -
  consider "form_unreserved c" | "\<not> form_unreserved c" "char_code c = 32"
    | "\<not> form_unreserved c" "char_code c \<noteq> 32" "char_code c < 128"
    | "\<not> form_unreserved c" "char_code c \<noteq> 32" "128 \<le> char_code c"
    by linarith
  then show ?thesis
  proof cases
    case 1
    then have "c \<noteq> CHR ''+''" by (auto simp: form_unreserved_def char_code_def)
    then show ?thesis using 1 unreserved_ascii unreserved_not_pct
      by (simp add: form_char_def unplus_def utf8_char_def Let_def)
  next
    case 2
    have "char_code CHR '' '' = 32" by (simp add: char_code_def)
    then show ?thesis using 2 by (simp add: form_char_def unplus_def utf8_char_def Let_def)
  next
    case 3 then show ?thesis using pct_bytes_pct [of "char_code c"] pct_byte_no_plus [of "char_code c"]
      by (simp add: form_char_def utf8_char_def Let_def unplus_id)
  next
    case 4
    then have "map unplus (form_char c) = form_char c"
      using two_bytes [of c] by (intro unplus_id) (simp add: form_char_def pct_byte_no_plus)
    then show ?thesis using 4 pct_bytes_two [of c] by (simp add: form_char_def)
  qed
qed

lemma form_encode_simps [simp]:
  "form_encode [] = []" "form_encode (c # s) = form_char c @ form_encode s"
  by (simp_all add: form_encode_def)

lemma form_decode_encode [simp]: "form_decode (form_encode s) = s"
  unfolding form_decode_alt percent_decode_def
  by (induction s) (simp_all add: pct_bytes_form utf8_decode_char)

lemma pct_byte_charset: "b < 256 \<Longrightarrow> c \<in> set (pct_byte b) \<Longrightarrow> uri_unreserved c \<or> c = CHR ''%''"
  using hex_digit_unreserved [of "b div 16"] hex_digit_unreserved [of "b mod 16"]
  by (auto simp: pct_byte_def less_mult_imp_div_less)

lemma form_char_charset:
  assumes "c \<in> set (form_char a)" shows "uri_unreserved c \<or> c = CHR ''%'' \<or> c = CHR ''+''"
proof (cases "form_unreserved a")
  case True
  then have "uri_unreserved a" by (auto simp: form_unreserved_def uri_unreserved_def Let_def)
  then show ?thesis using assms True by (simp add: form_char_def)
next
  case False
  then show ?thesis
    using assms pct_byte_charset [OF two_bytes(1) [of a], of c] pct_byte_charset [OF two_bytes(2) [of a], of c]
      pct_byte_charset [OF char_code_less [of a], of c]
    by (auto simp: form_char_def split: if_splits)
qed

lemma form_charset: "c \<in> set (form_encode s) \<Longrightarrow> uri_unreserved c \<or> c = CHR ''%'' \<or> c = CHR ''+''"
  by (induction s) (auto dest: form_char_charset)

lemma form_no_delims [simp]:
  "CHR ''?'' \<notin> set (form_encode s)" "CHR ''&'' \<notin> set (form_encode s)"
  "CHR ''='' \<notin> set (form_encode s)" "CHR ''/'' \<notin> set (form_encode s)"
  by (auto dest!: form_charset simp: uri_unreserved_def char_code_def)

lemma takeWhile_stop: "c \<notin> set u \<Longrightarrow> takeWhile (\<lambda>x. x \<noteq> c) (u @ c # v) = u"
  by (induction u) auto

lemma dropWhile_stop: "c \<notin> set u \<Longrightarrow> dropWhile (\<lambda>x. x \<noteq> c) (u @ c # v) = c # v"
  by (induction u) auto

lemma takeWhile_all: "c \<notin> set u \<Longrightarrow> takeWhile (\<lambda>x. x \<noteq> c) u = u"
  by (induction u) auto

lemma dropWhile_none: "c \<notin> set u \<Longrightarrow> dropWhile (\<lambda>x. x \<noteq> c) u = []"
  by (induction u) auto

lemma parse_query_params: "parse_query (params_to_string ps) = ps"
proof (cases "ps = []")
  case False
  let ?seg = "\<lambda>(k, v). form_encode k @ ''='' @ form_encode v"
  have ne: "params_to_string ps \<noteq> []" using False
    by (cases ps) (auto simp: params_to_string_def js_join_Cons split: prod.splits)
  have "js_split CHR ''&'' (params_to_string ps) = map ?seg ps"
    unfolding params_to_string_def by (rule js_split_join) (use False in auto)
  moreover have "parse_param (?seg p) = p" for p
    by (cases p) (simp add: parse_param_def takeWhile_stop dropWhile_stop)
  ultimately show ?thesis using ne by (simp add: parse_query_def comp_def)
qed (simp add: params_to_string_def parse_query_def)

text \<open>The server's view of a path made of segments and an optional query.\<close>

definition plain_text :: "string \<Rightarrow> bool" where
  "plain_text w \<longleftrightarrow> list_all (\<lambda>c. c \<noteq> CHR ''%'' \<and> char_code c < 128) w"

lemma percent_decode_plain: "plain_text w \<Longrightarrow> percent_decode w = w"
  unfolding percent_decode_def plain_text_def by (induction w) auto

lemma server_view_path:
  assumes "segs \<noteq> []" "\<forall>w \<in> set segs. CHR ''/'' \<notin> set w \<and> CHR ''?'' \<notin> set w"
  shows "server_view (js_join ''/'' segs) = (map percent_decode segs, [])"
    and "server_view (js_join ''/'' segs @ CHR ''?'' # q) = (map percent_decode segs, parse_query q)"
proof -
  have "CHR ''?'' \<notin> set (js_join ''/'' segs)"
    using assms(2) by (induction segs) (auto simp: js_join_Cons)
  moreover have "js_split CHR ''/'' (js_join ''/'' segs) = segs"
    using assms by (intro js_split_join) auto
  ultimately show "server_view (js_join ''/'' segs) = (map percent_decode segs, [])"
    and "server_view (js_join ''/'' segs @ CHR ''?'' # q) = (map percent_decode segs, parse_query q)"
    by (simp_all add: server_view_def takeWhile_all dropWhile_none takeWhile_stop dropWhile_stop
        parse_query_def)
qed

section \<open>What each operation asks for\<close>

text \<open>
  The contract of the clients: the path segments and query parameters each operation names,
  as plain strings.
\<close>

definition eso_base :: "string list" where
  "eso_base = [[], ''v1'', ''externalsecrets'']"

definition the_target :: "string option \<Rightarrow> string" where
  "the_target o1 = (case o1 of None \<Rightarrow> ''undefined'' | Some s \<Rightarrow> s)"

fun eso_route :: "eso_op \<Rightarrow> string list \<times> (string \<times> string) list" where
  "eso_route EsoStatus = (eso_base @ [''status''], [])"
| "eso_route (ListExternalSecrets ns) = (eso_base @ [''externalsecrets''], opt_param ''namespace'' ns)"
| "eso_route (GetExternalSecret ns n) = (eso_base @ [''externalsecrets'', ns, n], [])"
| "eso_route ListClusterExternalSecrets = (eso_base @ [''clusterexternalsecrets''], [])"
| "eso_route (GetClusterExternalSecret n) = (eso_base @ [''clusterexternalsecrets'', n], [])"
| "eso_route (ListStores ns) = (eso_base @ [''stores''], opt_param ''namespace'' ns)"
| "eso_route (GetStore ns n) = (eso_base @ [''stores'', ns, n], [])"
| "eso_route ListClusterStores = (eso_base @ [''clusterstores''], [])"
| "eso_route (GetClusterStore n) = (eso_base @ [''clusterstores'', n], [])"
| "eso_route (ListPushSecrets ns) = (eso_base @ [''pushsecrets''], opt_param ''namespace'' ns)"
| "eso_route (GetPushSecret ns n) = (eso_base @ [''pushsecrets'', ns, n], [])"
| "eso_route (ForceSyncExternalSecret ns n) = (eso_base @ [''externalsecrets'', ns, n, ''force-sync''], [])"
| "eso_route (ResolveStoreScope ns n) = (eso_base @ [''stores'', ns, n, ''refresh-scope''], [])"
| "eso_route (ResolveClusterStoreScope n) = (eso_base @ [''clusterstores'', n, ''refresh-scope''], [])"
| "eso_route (ResolveNamespaceScope ns) =
     (eso_base @ [''refresh-namespace'', ns, ''refresh-scope''], [])"
| "eso_route (BulkRefresh RefreshStore ns n uids) =
     (eso_base @ [''stores'', the_target ns, the_target n, ''refresh-all''], [])"
| "eso_route (BulkRefresh RefreshClusterStore ns n uids) =
     (eso_base @ [''clusterstores'', the_target n, ''refresh-all''], [])"
| "eso_route (BulkRefresh RefreshNamespace ns n uids) =
     (eso_base @ [''refresh-namespace'', the_target ns], [])"
| "eso_route (GetBulkRefreshJob j) = (eso_base @ [''bulk-refresh-jobs'', j], [])"
| "eso_route (GetStoreMetrics ns n) = (eso_base @ [''stores'', ns, n, ''metrics''], [])"
| "eso_route (GetClusterStoreMetrics n) = (eso_base @ [''clusterstores'', n, ''metrics''], [])"
| "eso_route (ListStorePaths ns n prefix) =
     (eso_base @ [''stores'', ns, n, ''paths''], opt_param ''prefix'' prefix)"
| "eso_route (PreviewExternalSecret input) =
     ([[], ''v1'', ''wizards'', ''external-secret'', ''preview''], [])"

fun mesh_route :: "mesh_op \<Rightarrow> string list \<times> (string \<times> string) list" where
  "mesh_route MeshStatus = ([[], ''v1'', ''mesh'', ''status''], [])"
| "mesh_route (MeshRoutes ns) = ([[], ''v1'', ''mesh'', ''routing''], opt_param ''namespace'' ns)"
| "mesh_route (MeshRoute i) = ([[], ''v1'', ''mesh'', ''routing'', i], [])"
| "mesh_route (MeshMtls ns) = ([[], ''v1'', ''mesh'', ''mtls''], opt_param ''namespace'' ns)"
| "mesh_route (MeshGoldenSignals ns service mesh) =
     ([[], ''v1'', ''mesh'', ''golden-signals''],
      [(''namespace'', ns), (''service'', service)] @ opt_param ''mesh'' mesh)"

text \<open>Building the views: each path is a join of literal and encoded segments.\<close>

lemma endpoint_path [simp]:
  "fst (api_get p) = p" "fst (api_post p b) = p" "fst (api_put p b) = p" "fst (api_delete p) = p"
  by (simp_all add: api_get_def api_post_def api_put_def api_delete_def)

lemma form_decode_plain: "plain_text k \<Longrightarrow> CHR ''+'' \<notin> set k \<Longrightarrow> form_decode k = k"
  by (simp add: form_decode_alt unplus_id percent_decode_plain)

lemma takeWhile_encoded:
  "takeWhile (\<lambda>c. c \<noteq> CHR ''?'') (encode_uri_component s @ r) =
     encode_uri_component s @ takeWhile (\<lambda>c. c \<noteq> CHR ''?'') r"
  "dropWhile (\<lambda>c. c \<noteq> CHR ''?'') (encode_uri_component s @ r) = dropWhile (\<lambda>c. c \<noteq> CHR ''?'') r"
proof -
  have "\<And>c. c \<in> set (encode_uri_component s) \<Longrightarrow> c \<noteq> CHR ''?''" by (metis encode_no_delims(2))
  then show "takeWhile (\<lambda>c. c \<noteq> CHR ''?'') (encode_uri_component s @ r) =
     encode_uri_component s @ takeWhile (\<lambda>c. c \<noteq> CHR ''?'') r"
    and "dropWhile (\<lambda>c. c \<noteq> CHR ''?'') (encode_uri_component s @ r) = dropWhile (\<lambda>c. c \<noteq> CHR ''?'') r"
    by (simp_all add: takeWhile_append2 dropWhile_append2)
qed

lemma takeWhile_encoded_end:
  "takeWhile (\<lambda>c. c \<noteq> CHR ''?'') (encode_uri_component s) = encode_uri_component s"
  "dropWhile (\<lambda>c. c \<noteq> CHR ''?'') (encode_uri_component s) = []"
  by (simp_all add: takeWhile_all dropWhile_none)

lemma one_param:
  assumes "plain_text k" "CHR ''='' \<notin> set k" "CHR ''&'' \<notin> set k" "CHR ''+'' \<notin> set k"
  shows "parse_query (k @ CHR ''='' # encode_uri_component v) = [(k, v)]"
  using assms by (simp add: parse_query_def js_split_atom parse_param_def takeWhile_stop dropWhile_stop
      form_decode_plain)

lemma ns_param: "parse_query (''namespace='' @ encode_uri_component v) = [(''namespace'', v)]"
  using one_param [of "''namespace''" v] by (simp add: plain_text_def char_code_def)

lemma prefix_param: "parse_query (''prefix='' @ encode_uri_component v) = [(''prefix'', v)]"
  using one_param [of "''prefix''" v] by (simp add: plain_text_def char_code_def)

lemmas route_eval = server_view_def takeWhile_encoded takeWhile_encoded_end js_split_append_sep
  js_split_atom percent_decode_plain plain_text_def char_code_def

lemma parse_query_Nil [simp]: "parse_query [] = []"
  by (simp add: parse_query_def)

lemma list_route_eval:
  "server_view (''/v1/externalsecrets/externalsecrets'' @ ns_query_string ns) =
     (eso_base @ [''externalsecrets''], opt_param ''namespace'' ns)"
  "server_view (''/v1/externalsecrets/stores'' @ ns_query_string ns) =
     (eso_base @ [''stores''], opt_param ''namespace'' ns)"
  "server_view (''/v1/externalsecrets/pushsecrets'' @ ns_query_string ns) =
     (eso_base @ [''pushsecrets''], opt_param ''namespace'' ns)"
  using ns_param
  by (cases ns, simp_all add: route_eval eso_base_def ns_query_string_def opt_param_def)+

text \<open>Whatever the namespace, name, job id or prefix holds (slashes, question marks, percent signs
  and spaces included), the server that splits and decodes the path of an \<open>esoApi\<close> operation
  sees exactly that operation's route with the arguments as they were given: no argument escapes
  its segment or its query parameter.\<close>

theorem eso_api_route: "server_view (fst (eso_api op)) = eso_route op"
proof (cases op)
  case (BulkRefresh action ns n uids)
  then show ?thesis
    by (cases action)
      (simp_all add: route_eval eso_base_def bulk_refresh_path_def target_param_def the_target_def path_param_def)
next
  case (ListStorePaths ns n prefix)
  then show ?thesis using prefix_param
    by (cases prefix) (auto simp: route_eval path_param_def eso_base_def opt_param_def)
next
  case (ListExternalSecrets ns)
  then show ?thesis by (simp only: eso_api.simps eso_route.simps endpoint_path list_route_eval)
next
  case (ListStores ns)
  then show ?thesis by (simp only: eso_api.simps eso_route.simps endpoint_path list_route_eval)
next
  case (ListPushSecrets ns)
  then show ?thesis by (simp only: eso_api.simps eso_route.simps endpoint_path list_route_eval)
qed (simp_all add: route_eval path_param_def eso_base_def)

lemma mesh_ns_param: "server_view (''/v1/mesh/'' @ w @ namespace_query_string ns) =
    ([[], ''v1'', ''mesh'', w], opt_param ''namespace'' ns)"
  if "plain_text w" "CHR ''/'' \<notin> set w" "CHR ''?'' \<notin> set w"
proof (cases "has_text ns")
  case True
  then obtain v where v: "ns = Some v" "v \<noteq> []" by (auto simp: has_text_iff)
  have "server_view (js_join ''/'' [[], ''v1'', ''mesh'', w] @ CHR ''?'' # params_to_string [(''namespace'', v)])
      = (map percent_decode [[], ''v1'', ''mesh'', w], parse_query (params_to_string [(''namespace'', v)]))"
    by (rule server_view_path(2)) (use that in auto)
  then show ?thesis using v that
    by (simp add: namespace_query_string_def parse_query_params opt_param_def percent_decode_plain
        plain_text_def char_code_def)
next
  case False
  have "server_view (js_join ''/'' [[], ''v1'', ''mesh'', w]) = (map percent_decode [[], ''v1'', ''mesh'', w], [])"
    by (rule server_view_path(1)) (use that in auto)
  then show ?thesis using False that
    by (auto simp: namespace_query_string_def opt_param_def percent_decode_plain plain_text_def
        char_code_def split: option.splits)
qed

text \<open>The same for \<open>meshApi\<close> and for the notification feed: route ids, namespaces, service
  names and every filter of the feed reach the server as one segment or parameter each, in the
  order the code sets them, with empty ones left out.\<close>

theorem mesh_and_feed_routes:
  "(server_view (fst (mesh_api m)) = mesh_route m)
    \<and> (server_view (fst (notif_api (NotifList p))) = ([[], ''v1'', ''notifications''], notif_query_params p))"
proof (intro conjI)
  show "server_view (fst (mesh_api m)) = mesh_route m"
  proof (cases m)
    case (MeshGoldenSignals ns service mesh)
    let ?ps = "[(''namespace'', ns), (''service'', service)] @ opt_param ''mesh'' mesh"
    have "server_view (js_join ''/'' [[], ''v1'', ''mesh'', ''golden-signals''] @ CHR ''?'' # params_to_string ?ps)
      = (map percent_decode [[], ''v1'', ''mesh'', ''golden-signals''], parse_query (params_to_string ?ps))"
      by (rule server_view_path(2)) auto
    then show ?thesis using MeshGoldenSignals
      by (simp add: golden_signals_query_string_def parse_query_params percent_decode_plain
          plain_text_def char_code_def)
  next
    case (MeshRoutes ns) then show ?thesis using mesh_ns_param [of "''routing''" ns]
      by (simp add: plain_text_def char_code_def)
  next
    case (MeshMtls ns) then show ?thesis using mesh_ns_param [of "''mtls''" ns]
      by (simp add: plain_text_def char_code_def)
  qed (simp_all add: route_eval)
  let ?qs = "notif_query_params p"
  have "server_view (js_join ''/'' [[], ''v1'', ''notifications''])
      = (map percent_decode [[], ''v1'', ''notifications''], [])"
    by (rule server_view_path(1)) auto
  moreover have "server_view (js_join ''/'' [[], ''v1'', ''notifications''] @ CHR ''?'' # params_to_string ?qs)
      = (map percent_decode [[], ''v1'', ''notifications''], parse_query (params_to_string ?qs))"
    by (rule server_view_path(2)) auto
  moreover have "params_to_string ?qs = [] \<longleftrightarrow> ?qs = []"
    using parse_query_params [of ?qs] by (auto simp: params_to_string_def)
  ultimately show "server_view (fst (notif_api (NotifList p)))
      = ([[], ''v1'', ''notifications''], notif_query_params p)"
    by (auto simp: notif_query_string_def Let_def parse_query_params percent_decode_plain
        plain_text_def char_code_def)
qed

end
