(* ===== verification/Auth.thy ===== *)
theory Auth
  imports Endpoints
begin

text \<open>
  \<open>lib/auth.ts\<close>: the session signals and the operations that change them. Each operation is a
  task whose \<open>api()\<close> call is awaited; tasks run concurrently, so a step starts one or
  delivers the result of the call a task awaits. The result is an \<open>api_result\<close> of the HTTP
  client; a reply whose \<open>data\<close> is missing makes the property access throw.
\<close>

section \<open>State\<close>

text \<open>
  What a task awaits: the login reply, the OIDC exchange, the logout reply, the reply of
  \<open>/auth/me\<close> (for \<open>fetchCurrentUser\<close>), or of \<open>/auth/me?namespace=\<close> (for
  \<open>refreshPermissions\<close>).
\<close>

datatype auth_task = AwaitLogin | AwaitOidc | AwaitLogout | AwaitMe | AwaitPerms

record auth_state =
  token_value :: js
  user_signal :: js
  rbac_signal :: js
  loading_signal :: bool
  selected_namespace :: string
  tasks :: "(nat \<times> auth_task) list"
  next_task :: nat
  auth_sent :: "endpoint list"

definition auth_init :: auth_state where
  "auth_init =
     \<lparr>token_value = JNull, user_signal = JNull, rbac_signal = JNull, loading_signal = False,
      selected_namespace = ''all'', tasks = [], next_task = 0, auth_sent = []\<rparr>"

definition is_authenticated :: "auth_state \<Rightarrow> bool" where
  "is_authenticated s \<longleftrightarrow> user_signal s \<noteq> JNull"

section \<open>Operations\<close>

definition await :: "auth_task \<Rightarrow> endpoint \<Rightarrow> auth_state \<Rightarrow> auth_state" where
  "await k ep s =
     s\<lparr>tasks := rec_set (tasks s) (next_task s) k, next_task := next_task s + 1,
       auth_sent := auth_sent s @ [ep]\<rparr>"

definition login_body :: "string \<Rightarrow> string \<Rightarrow> string option \<Rightarrow> js" where
  "login_body username password provider =
     JObj ([(''username'', JStr username), (''password'', JStr password)]
       @ (if has_text provider \<and> provider \<noteq> Some ''local''
          then [(''provider'', JStr (the provider))] else []))"

definition login :: "string \<Rightarrow> string \<Rightarrow> string option \<Rightarrow> auth_state \<Rightarrow> auth_state" where
  "login username password provider s =
     await AwaitLogin (''/v1/auth/login'',
       \<lparr>ri_method = Some ''POST'', ri_headers = [],
        ri_body = json_stringify (login_body username password provider)\<rparr>) s"

definition handle_oidc_callback :: "auth_state \<Rightarrow> auth_state" where
  "handle_oidc_callback s =
     await AwaitOidc (''/auth/oidc-token-exchange'',
       \<lparr>ri_method = Some ''POST'', ri_headers = [], ri_body = None\<rparr>) s"

definition logout :: "auth_state \<Rightarrow> auth_state" where
  "logout s =
     await AwaitLogout (''/v1/auth/logout'',
       \<lparr>ri_method = Some ''POST'', ri_headers = [], ri_body = None\<rparr>) s"

definition fetch_current_user :: "string option \<Rightarrow> auth_state \<Rightarrow> auth_state" where
  "fetch_current_user namespace s =
     await AwaitMe
       (api_get (''/v1/auth/me'' @
          (if has_text namespace then ''?namespace='' @ encode_uri_component (the namespace) else [])))
       (s\<lparr>loading_signal := True\<rparr>)"

definition refresh_permissions :: "string \<Rightarrow> auth_state \<Rightarrow> auth_state" where
  "refresh_permissions namespace s =
     (if \<not> truthy (token_value s) then s
      else await AwaitPerms (api_get (''/v1/auth/me?namespace='' @ encode_uri_component namespace)) s)"

text \<open>The callback registered with \<open>onForbidden\<close>.\<close>

definition on_forbidden :: "auth_state \<Rightarrow> auth_state" where
  "on_forbidden s =
     (if selected_namespace s \<noteq> [] \<and> selected_namespace s \<noteq> ''all''
      then refresh_permissions (selected_namespace s) s else s)"

text \<open>The \<open>data\<close> of a reply, \<open>None\<close> when the call threw or reading its properties throws.\<close>

definition reply_data :: "api_result \<Rightarrow> js option" where
  "reply_data r =
     (case r of ApiData b \<Rightarrow> (let d = js_get b ''data'' in if nullish d then None else Some d) | _ \<Rightarrow> None)"

definition is_forbidden :: "api_result \<Rightarrow> bool" where
  "is_forbidden r \<longleftrightarrow> (case r of ApiThrow e \<Rightarrow> ae_status e = 403 | _ \<Rightarrow> False)"

text \<open>The continuations after each \<open>await\<close>.\<close>

definition after_login :: "api_result \<Rightarrow> auth_state \<Rightarrow> auth_state" where
  "after_login r s =
     (case reply_data r of
        None \<Rightarrow> s
      | Some d \<Rightarrow> fetch_current_user None (s\<lparr>token_value := js_get d ''accessToken''\<rparr>))"

definition after_oidc :: "api_result \<Rightarrow> auth_state \<Rightarrow> auth_state" where
  "after_oidc r s =
     (case reply_data r of
        None \<Rightarrow> s
      | Some d \<Rightarrow>
          if truthy (js_get d ''accessToken'')
          then fetch_current_user None (s\<lparr>token_value := js_get d ''accessToken''\<rparr>) else s)"

definition after_logout :: "auth_state \<Rightarrow> auth_state" where
  "after_logout s = s\<lparr>token_value := JNull, user_signal := JNull, rbac_signal := JNull\<rparr>"

definition after_me :: "api_result \<Rightarrow> auth_state \<Rightarrow> auth_state" where
  "after_me r s =
     (case reply_data r of
        None \<Rightarrow> s\<lparr>user_signal := JNull, rbac_signal := JNull, loading_signal := False\<rparr>
      | Some d \<Rightarrow>
          s\<lparr>user_signal := js_get d ''user'', rbac_signal := js_get d ''rbac'', loading_signal := False\<rparr>)"

definition after_perms :: "api_result \<Rightarrow> auth_state \<Rightarrow> auth_state" where
  "after_perms r s =
     (case reply_data r of
        None \<Rightarrow> s\<lparr>rbac_signal := JNull\<rparr>
      | Some d \<Rightarrow> s\<lparr>rbac_signal := js_get d ''rbac''\<rparr>)"

section \<open>Events\<close>

datatype auth_event =
    StartLogin string string "string option"
  | StartOidc
  | StartLogout
  | StartFetch "string option"
  | StartPerms string
  | Done nat api_result
  | ForbiddenElsewhere
  | TokenSet js
  | NamespaceSet string

text \<open>
  \<open>Done i r\<close> settles task \<open>i\<close>: a 403 first runs the callback, then the continuation runs.
  \<open>ForbiddenElsewhere\<close> is a 403 of any other caller of \<open>api()\<close>, \<open>TokenSet\<close> a token refresh of
  the HTTP client.
\<close>

fun auth_step :: "auth_state \<Rightarrow> auth_event \<Rightarrow> auth_state option" where
  "auth_step s (StartLogin u p pr) = Some (login u p pr s)"
| "auth_step s StartOidc = Some (handle_oidc_callback s)"
| "auth_step s StartLogout = Some (logout s)"
| "auth_step s (StartFetch ns) = Some (fetch_current_user ns s)"
| "auth_step s (StartPerms ns) = Some (refresh_permissions ns s)"
| "auth_step s (Done i r) =
     (case rec_get (tasks s) i of
        None \<Rightarrow> None
      | Some k \<Rightarrow>
          (let s1 = s\<lparr>tasks := rec_del (tasks s) i\<rparr>;
               s2 = (if is_forbidden r then on_forbidden s1 else s1)
           in Some (case k of
                AwaitLogin \<Rightarrow> after_login r s2
              | AwaitOidc \<Rightarrow> after_oidc r s2
              | AwaitLogout \<Rightarrow> after_logout s2
              | AwaitMe \<Rightarrow> after_me r s2
              | AwaitPerms \<Rightarrow> after_perms r s2)))"
| "auth_step s ForbiddenElsewhere = Some (on_forbidden s)"
| "auth_step s (TokenSet v) = Some (s\<lparr>token_value := v\<rparr>)"
| "auth_step s (NamespaceSet ns) = Some (s\<lparr>selected_namespace := ns\<rparr>)"

section \<open>Invariants\<close>

lemma await_simps [simp]:
  "token_value (await k ep s) = token_value s" "user_signal (await k ep s) = user_signal s"
  "rbac_signal (await k ep s) = rbac_signal s" "loading_signal (await k ep s) = loading_signal s"
  "selected_namespace (await k ep s) = selected_namespace s"
  "tasks (await k ep s) = rec_set (tasks s) (next_task s) k" "next_task (await k ep s) = Suc (next_task s)"
  by (simp_all add: await_def)

lemma refresh_permissions_simps [simp]:
  "token_value (refresh_permissions ns s) = token_value s"
  "user_signal (refresh_permissions ns s) = user_signal s"
  "rbac_signal (refresh_permissions ns s) = rbac_signal s"
  "loading_signal (refresh_permissions ns s) = loading_signal s"
  by (simp_all add: refresh_permissions_def)

lemma on_forbidden_simps [simp]:
  "token_value (on_forbidden s) = token_value s" "user_signal (on_forbidden s) = user_signal s"
  "rbac_signal (on_forbidden s) = rbac_signal s" "loading_signal (on_forbidden s) = loading_signal s"
  by (simp_all add: on_forbidden_def)

text \<open>
  The permissions shown are null or came from a reply of \<open>/auth/me\<close>; so did the user; the
  loading flag is up only while \<open>fetchCurrentUser\<close> awaits. The first two are about the run:
  \<open>seen\<close> is the list of replies delivered so far.
\<close>

definition from_reply :: "api_result set \<Rightarrow> string \<Rightarrow> js \<Rightarrow> bool" where
  "from_reply seen field v \<longleftrightarrow> (\<exists>r \<in> seen. \<exists>d. reply_data r = Some d \<and> v = js_get d field)"

definition delivered_results :: "auth_event list \<Rightarrow> api_result set" where
  "delivered_results es = {r. \<exists>i. Done i r \<in> set es}"

lemma from_reply_mono: "from_reply A f v \<Longrightarrow> A \<subseteq> B \<Longrightarrow> from_reply B f v"
  unfolding from_reply_def by blast

lemma after_provenance:
  "user_signal (after_login r s) = user_signal s" "rbac_signal (after_login r s) = rbac_signal s"
  "user_signal (after_oidc r s) = user_signal s" "rbac_signal (after_oidc r s) = rbac_signal s"
  "user_signal (after_logout s) = JNull" "rbac_signal (after_logout s) = JNull"
  "user_signal (after_perms r s) = user_signal s"
  "user_signal (after_me r s) = JNull \<or> from_reply {r} ''user'' (user_signal (after_me r s))"
  "rbac_signal (after_me r s) = JNull \<or> from_reply {r} ''rbac'' (rbac_signal (after_me r s))"
  "rbac_signal (after_perms r s) = JNull \<or> from_reply {r} ''rbac'' (rbac_signal (after_perms r s))"
  by (auto simp: after_login_def after_oidc_def after_logout_def after_me_def after_perms_def
      fetch_current_user_def from_reply_def split: option.splits)

lemma done_step:
  assumes "auth_step s (Done i r) = Some t"
  obtains k s2 where "rec_get (tasks s) i = Some k"
    "s2 = (if is_forbidden r then on_forbidden (s\<lparr>tasks := rec_del (tasks s) i\<rparr>)
           else s\<lparr>tasks := rec_del (tasks s) i\<rparr>)"
    "t = (case k of AwaitLogin \<Rightarrow> after_login r s2 | AwaitOidc \<Rightarrow> after_oidc r s2
          | AwaitLogout \<Rightarrow> after_logout s2 | AwaitMe \<Rightarrow> after_me r s2 | AwaitPerms \<Rightarrow> after_perms r s2)"
  using assms by (auto simp: Let_def split: option.splits)

lemma done_frame:
  "user_signal (if b then on_forbidden s else s) = user_signal s"
  "rbac_signal (if b then on_forbidden s else s) = rbac_signal s"
  by simp_all

lemma step_provenance:
  assumes st: "auth_step s e = Some t"
  shows "(user_signal t = user_signal s \<or> user_signal t = JNull
           \<or> from_reply (delivered_results [e]) ''user'' (user_signal t))
       \<and> (rbac_signal t = rbac_signal s \<or> rbac_signal t = JNull
           \<or> from_reply (delivered_results [e]) ''rbac'' (rbac_signal t))"
proof (cases e)
  case (Done i r)
  then have d: "delivered_results [e] = {r}" by (auto simp: delivered_results_def)
  obtain k s2 where k: "s2 = (if is_forbidden r then on_forbidden (s\<lparr>tasks := rec_del (tasks s) i\<rparr>)
           else s\<lparr>tasks := rec_del (tasks s) i\<rparr>)"
    "t = (case k of AwaitLogin \<Rightarrow> after_login r s2 | AwaitOidc \<Rightarrow> after_oidc r s2
          | AwaitLogout \<Rightarrow> after_logout s2 | AwaitMe \<Rightarrow> after_me r s2 | AwaitPerms \<Rightarrow> after_perms r s2)"
    using done_step [OF st [unfolded Done]] by blast
  have f: "user_signal s2 = user_signal s" "rbac_signal s2 = rbac_signal s"
    unfolding k(1) by simp_all
  show ?thesis unfolding d k(2)
    by (cases k) (use after_provenance(8-10) [of r s2] f in \<open>simp_all add: after_provenance(1-7)\<close>)
qed (use st in \<open>auto simp: login_def handle_oidc_callback_def logout_def fetch_current_user_def\<close>)

lemma run_provenance:
  "run_events auth_step s es = Some t \<Longrightarrow>
   (user_signal t = user_signal s \<or> user_signal t = JNull
      \<or> from_reply (delivered_results es) ''user'' (user_signal t))
   \<and> (rbac_signal t = rbac_signal s \<or> rbac_signal t = JNull
      \<or> from_reply (delivered_results es) ''rbac'' (rbac_signal t))"
proof (induction es arbitrary: s)
  case (Cons e es)
  then obtain u where u: "auth_step s e = Some u" "run_events auth_step u es = Some t"
    by (auto split: option.splits)
  have sub: "delivered_results [e] \<subseteq> delivered_results (e # es)" "delivered_results es \<subseteq> delivered_results (e # es)"
    by (auto simp: delivered_results_def)
  show ?case using step_provenance [OF u(1)] Cons.IH [OF u(2)]
      from_reply_mono [OF _ sub(1)] from_reply_mono [OF _ sub(2)] by metis
qed simp

text \<open>Task numbers are fresh, and the loading flag needs a \<open>fetchCurrentUser\<close> in flight.\<close>

definition tasks_wf :: "auth_state \<Rightarrow> bool" where
  "tasks_wf s \<longleftrightarrow> distinct (map fst (tasks s)) \<and> (\<forall>p \<in> set (tasks s). fst p < next_task s)"

definition session_inv :: "auth_state \<Rightarrow> bool" where
  "session_inv s \<longleftrightarrow>
     tasks_wf s \<and> (loading_signal s \<longrightarrow> (\<exists>i. rec_get (tasks s) i = Some AwaitMe))"

lemma session_init: "session_inv auth_init"
  by (simp add: session_inv_def tasks_wf_def auth_init_def)

lemma session_frame:
  "tasks t = tasks s \<Longrightarrow> next_task t = next_task s \<Longrightarrow> loading_signal t \<longrightarrow> loading_signal s \<Longrightarrow>
   session_inv s \<Longrightarrow> session_inv t"
  by (auto simp: session_inv_def tasks_wf_def)

lemma rec_set_fresh: "k \<notin> fst ` set r \<Longrightarrow> rec_set r k v = r @ [(k, v)]"
  by (induction r k v rule: rec_set.induct) auto

lemma fresh_task: "tasks_wf s \<Longrightarrow> next_task s \<notin> fst ` set (tasks s)"
  by (force simp: tasks_wf_def)

lemma await_wf: "tasks_wf s \<Longrightarrow> tasks_wf (await k ep s)"
  using fresh_task [of s] by (auto simp: tasks_wf_def rec_set_fresh less_SucI)

lemma await_get: "tasks_wf s \<Longrightarrow> rec_get (tasks (await k ep s)) i =
    (if i = next_task s then Some k else rec_get (tasks s) i)"
  by simp

lemma await_session: "session_inv s \<Longrightarrow> session_inv (await k ep s)"
proof -
  assume inv: "session_inv s"
  then have wf: "tasks_wf s" by (simp add: session_inv_def)
  have "i \<noteq> next_task s" if "rec_get (tasks s) i = Some x" for i x
    using fresh_task [OF wf] rec_get_Some_in [OF that] by force
  then have "rec_get (tasks (await k ep s)) i = Some x" if "rec_get (tasks s) i = Some x" for i x
    using that by (metis await_get wf)
  then show "session_inv (await k ep s)"
    using inv await_wf [OF wf] unfolding session_inv_def by (metis await_simps(4))
qed

lemma fetch_session: "tasks_wf s \<Longrightarrow> session_inv (fetch_current_user ns s)"
proof -
  assume wf: "tasks_wf s"
  then have "tasks_wf (s\<lparr>loading_signal := True\<rparr>)" by (simp add: tasks_wf_def)
  from await_wf [OF this] await_get [OF this] show ?thesis
    unfolding session_inv_def fetch_current_user_def by metis
qed

lemma refresh_session:
  "session_inv s \<Longrightarrow> session_inv (refresh_permissions ns s)"
  "tasks_wf s \<Longrightarrow> tasks_wf (refresh_permissions ns s)"
  by (simp_all add: refresh_permissions_def await_session await_wf)

lemma forbidden_session:
  "session_inv s \<Longrightarrow> session_inv (on_forbidden s)" "tasks_wf s \<Longrightarrow> tasks_wf (on_forbidden s)"
  by (simp_all add: on_forbidden_def refresh_session)

lemma session_wf: "session_inv s \<Longrightarrow> tasks_wf s"
  by (simp add: session_inv_def)

lemma step_session:
  assumes inv: "session_inv s" and st: "auth_step s e = Some t"
  shows "session_inv t"
proof (cases e)
  case (Done i r)
  let ?s1 = "s\<lparr>tasks := rec_del (tasks s) i\<rparr>"
  obtain k s2 where k: "rec_get (tasks s) i = Some k" "s2 = (if is_forbidden r then on_forbidden ?s1 else ?s1)"
    "t = (case k of AwaitLogin \<Rightarrow> after_login r s2 | AwaitOidc \<Rightarrow> after_oidc r s2
          | AwaitLogout \<Rightarrow> after_logout s2 | AwaitMe \<Rightarrow> after_me r s2 | AwaitPerms \<Rightarrow> after_perms r s2)"
    using done_step [OF st [unfolded Done]] by blast
  have wf1: "tasks_wf ?s1" using session_wf [OF inv]
    by (auto simp: tasks_wf_def distinct_rec_del set_rec_del)
  then have wf: "tasks_wf s2" unfolding k(2) by (simp add: forbidden_session)
  have s2: "session_inv s2" if "k \<noteq> AwaitMe"
  proof -
    have "loading_signal s \<Longrightarrow> \<exists>j. rec_get (rec_del (tasks s) i) j = Some AwaitMe"
      using inv k(1) that unfolding session_inv_def by (metis option.inject rec_get_del)
    then have "session_inv ?s1" using wf1 by (simp add: session_inv_def del: rec_get_del)
    then show ?thesis unfolding k(2) by (simp add: forbidden_session)
  qed
  have tok: "tasks_wf (s2\<lparr>token_value := v\<rparr>)" for v using wf by (simp add: tasks_wf_def)
  show ?thesis
  proof (cases k)
    case AwaitLogin then show ?thesis using s2 tok
      by (auto simp: k(3) after_login_def fetch_session split: option.splits)
  next
    case AwaitOidc then show ?thesis using s2 tok
      by (auto simp: k(3) after_oidc_def fetch_session split: option.splits)
  next
    case AwaitLogout then show ?thesis using s2
      by (auto simp: k(3) after_logout_def elim: session_frame [rotated 3])
  next
    case AwaitMe then show ?thesis using wf
      by (auto simp: k(3) after_me_def session_inv_def tasks_wf_def split: option.splits)
  next
    case AwaitPerms then show ?thesis using s2
      by (auto simp: k(3) after_perms_def elim: session_frame [rotated 3] split: option.splits)
  qed
next
  case (TokenSet v)
  then show ?thesis using st inv by (auto elim: session_frame [rotated 3])
next
  case (NamespaceSet ns)
  then show ?thesis using st inv by (auto elim: session_frame [rotated 3])
qed (use st inv session_wf [OF inv] in
    \<open>auto simp: login_def handle_oidc_callback_def logout_def await_session fetch_session
      refresh_session forbidden_session\<close>)

interpretation auth: free_machine auth_step session_inv
  by unfold_locales (rule step_session)

text \<open>C13: In every run of the session module, whatever the order of replies: the user and the
  permissions that gate the interface are null or were carried by a delivered reply, and once no
  \<open>fetchCurrentUser\<close> is in flight the loading flag is down.\<close>

theorem session_state:
  assumes "run_events auth_step auth_init es = Some s"
  shows "(user_signal s = JNull \<or> from_reply (delivered_results es) ''user'' (user_signal s))
    \<and> (rbac_signal s = JNull \<or> from_reply (delivered_results es) ''rbac'' (rbac_signal s))
    \<and> ((\<forall>i. rec_get (tasks s) i \<noteq> Some AwaitMe) \<longrightarrow> \<not> loading_signal s)"
proof -
  have "session_inv s" by (rule auth.runs_inv [OF session_init assms])
  then show ?thesis using run_provenance [OF assms] by (auto simp: session_inv_def auth_init_def)
qed

definition me_reply :: api_result where
  "me_reply = ApiData (JObj [(''data'', JObj [(''user'', JStr ''ann''), (''rbac'', JObj [])])])"

definition login_reply :: api_result where
  "login_reply = ApiData (JObj [(''data'', JObj [(''accessToken'', JStr ''t'')])])"

definition demo_login_run :: "auth_event list" where
  "demo_login_run = [StartLogin ''ann'' ''pw'' None, Done 0 login_reply, Done 1 me_reply]"

lemma session_state_witness:
  "\<exists>s. run_events auth_step auth_init demo_login_run = Some s \<and> is_authenticated s
     \<and> from_reply (delivered_results demo_login_run) ''user'' (user_signal s) \<and> \<not> loading_signal s"
proof -
  have "case run_events auth_step auth_init demo_login_run of None \<Rightarrow> False
    | Some s \<Rightarrow> user_signal s = JStr ''ann'' \<and> tasks s = []" by code_simp
  then obtain s where s: "run_events auth_step auth_init demo_login_run = Some s"
    "user_signal s = JStr ''ann''" "tasks s = []" by (auto split: option.splits)
  show ?thesis using session_state [OF s(1)] s by (auto simp: is_authenticated_def)
qed

text \<open>
  Logging out clears the session. With nothing else in flight it stays cleared until a task
  starts, since only a reply of a task changes the user.
\<close>

text \<open>Logging out with nothing else in flight leaves no token, no user and no permissions,
  whether the server answers, refuses or cannot be reached, and the user is not authenticated.\<close>

theorem logout_clears:
  assumes "auth_step s StartLogout = Some u" and "auth_step u (Done (next_task s) r) = Some t"
    and "tasks s = []"
  shows "token_value t = JNull \<and> user_signal t = JNull \<and> rbac_signal t = JNull \<and> \<not> is_authenticated t
    \<and> (\<forall>p \<in> set (tasks t). snd p = AwaitPerms)"
proof -
  have u: "u = logout s" using assms(1) by simp
  have g: "rec_get (tasks u) (next_task s) = Some AwaitLogout" using assms(3) by (simp add: u logout_def)
  let ?s1 = "u\<lparr>tasks := rec_del (tasks u) (next_task s)\<rparr>"
  have t: "t = after_logout (if is_forbidden r then on_forbidden ?s1 else ?s1)"
    using assms(2) g by (auto simp: Let_def)
  have "tasks ?s1 = []" using assms(3) by (simp add: u logout_def rec_del_def)
  then have "\<forall>p \<in> set (tasks (on_forbidden ?s1)). snd p = AwaitPerms"
    by (simp add: on_forbidden_def refresh_permissions_def)
  then show ?thesis using \<open>tasks ?s1 = []\<close> by (auto simp: t after_logout_def is_authenticated_def)
qed

lemma logout_clears_witness:
  "\<exists>s t u. run_events auth_step auth_init demo_login_run = Some s \<and> is_authenticated s
     \<and> auth_step s StartLogout = Some u \<and> auth_step u (Done 2 NetworkError) = Some t
     \<and> token_value t = JNull \<and> \<not> is_authenticated t"
proof -
  have "case run_events auth_step auth_init demo_login_run of None \<Rightarrow> False
    | Some s \<Rightarrow> user_signal s = JStr ''ann'' \<and> tasks s = [] \<and> next_task s = 2" by code_simp
  then obtain s where s: "run_events auth_step auth_init demo_login_run = Some s"
    "user_signal s = JStr ''ann''" "tasks s = []" "next_task s = 2" by (auto split: option.splits)
  have "rec_get (tasks (logout s)) 2 = Some AwaitLogout" using s by (simp add: logout_def)
  then obtain t where t: "auth_step (logout s) (Done 2 NetworkError) = Some t" by (simp add: Let_def)
  have u: "auth_step s StartLogout = Some (logout s)" by simp
  show ?thesis using logout_clears [OF u t [folded s(4)] s(3)] s(1,2) t u
    by (auto simp: is_authenticated_def)
qed

text \<open>
  When the permission request is itself answered with 403, its callback asks again: a namespace
  the user may not read keeps the client requesting for as long as the server refuses.
\<close>

definition forbidden_reply :: api_result where
  "forbidden_reply = ApiThrow (new_api_error 403 (JNum 403) (JStr ''forbidden'') JUndef)"

lemma forbidden_loop_step:
  assumes "tasks s = [(i, AwaitPerms)]" "i < next_task s" "truthy (token_value s)"
    "selected_namespace s = ''web''"
  shows "\<exists>t. auth_step s (Done i forbidden_reply) = Some t \<and> tasks t = [(next_task s, AwaitPerms)]
     \<and> next_task s < next_task t \<and> truthy (token_value t) \<and> selected_namespace t = ''web''"
  using assms
  by (simp add: Let_def forbidden_reply_def is_forbidden_def new_api_error_def on_forbidden_def
      refresh_permissions_def after_perms_def reply_data_def rec_del_def await_def)

end
