(* ===== verification/Nav.thy ===== *)
theory Nav
  imports Endpoints
begin

text \<open>
  Where the interface links to: the navigation data and lookups of \<open>lib/constants.ts\<close>,
  \<open>resourceHref\<close> of \<open>lib/k8s-links.ts\<close>, \<open>notifActionUrl\<close> of \<open>lib/notif-action.ts\<close>,
  the namespace filter of \<open>lib/namespace.ts\<close>, \<open>lib/nav.ts\<close> and the diagnostic links of
  \<open>lib/types/diagnostics.ts\<close>. The pages that exist are the files under \<open>routes\<close>; the
  properties relate the two.
\<close>

section \<open>Resource kinds\<close>

definition RESOURCE_API_KINDS :: "(string \<times> string) list" where
  "RESOURCE_API_KINDS =
     [(''pods'', ''Pod''), (''deployments'', ''Deployment''),
      (''replicasets'', ''ReplicaSet''), (''statefulsets'', ''StatefulSet''),
      (''daemonsets'', ''DaemonSet''), (''services'', ''Service''),
      (''ingresses'', ''Ingress''), (''endpoints'', ''Endpoints''),
      (''configmaps'', ''ConfigMap''), (''secrets'', ''Secret''),
      (''serviceaccounts'', ''ServiceAccount''), (''resourcequotas'', ''ResourceQuota''),
      (''limitranges'', ''LimitRange''), (''namespaces'', ''Namespace''),
      (''nodes'', ''Node''), (''persistentvolumes'', ''PersistentVolume''),
      (''pvs'', ''PersistentVolume''), (''pvcs'', ''PersistentVolumeClaim''),
      (''storageclasses'', ''StorageClass''), (''jobs'', ''Job''), (''cronjobs'', ''CronJob''),
      (''networkpolicies'', ''NetworkPolicy''),
      (''horizontalpodautoscalers'', ''HorizontalPodAutoscaler''),
      (''hpas'', ''HorizontalPodAutoscaler''),
      (''poddisruptionbudgets'', ''PodDisruptionBudget''), (''pdbs'', ''PodDisruptionBudget''),
      (''endpointslices'', ''EndpointSlice''), (''roles'', ''Role''),
      (''clusterroles'', ''ClusterRole''), (''rolebindings'', ''RoleBinding''),
      (''clusterrolebindings'', ''ClusterRoleBinding''),
      (''validatingwebhookconfigurations'', ''ValidatingWebhookConfiguration''),
      (''mutatingwebhookconfigurations'', ''MutatingWebhookConfiguration''),
      (''ciliumnetworkpolicies'', ''CiliumNetworkPolicy'')]"

definition RESOURCE_DETAIL_PATHS :: "(string \<times> string) list" where
  "RESOURCE_DETAIL_PATHS =
     [(''pods'', ''/workloads/pods''), (''deployments'', ''/workloads/deployments''),
      (''replicasets'', ''/workloads/replicasets''),
      (''statefulsets'', ''/workloads/statefulsets''),
      (''daemonsets'', ''/workloads/daemonsets''), (''jobs'', ''/workloads/jobs''),
      (''cronjobs'', ''/workloads/cronjobs''), (''services'', ''/networking/services''),
      (''ingresses'', ''/networking/ingresses''), (''endpoints'', ''/networking/endpoints''),
      (''networkpolicies'', ''/networking/networkpolicies''),
      (''persistentvolumes'', ''/cluster/pvs''), (''pvs'', ''/cluster/pvs''),
      (''pvcs'', ''/storage/pvcs''), (''storageclasses'', ''/cluster/storageclasses''),
      (''configmaps'', ''/config/configmaps''), (''secrets'', ''/config/secrets''),
      (''serviceaccounts'', ''/config/serviceaccounts''),
      (''resourcequotas'', ''/config/resourcequotas''),
      (''limitranges'', ''/config/limitranges''),
      (''horizontalpodautoscalers'', ''/scaling/hpas''), (''hpas'', ''/scaling/hpas''),
      (''poddisruptionbudgets'', ''/scaling/pdbs''), (''pdbs'', ''/scaling/pdbs''),
      (''endpointslices'', ''/networking/endpointslices''), (''roles'', ''/rbac/roles''),
      (''clusterroles'', ''/rbac/clusterroles''), (''rolebindings'', ''/rbac/rolebindings''),
      (''clusterrolebindings'', ''/rbac/clusterrolebindings''),
      (''validatingwebhookconfigurations'', ''/admin/validatingwebhooks''),
      (''mutatingwebhookconfigurations'', ''/admin/mutatingwebhooks''),
      (''ciliumnetworkpolicies'', ''/networking/cilium-policies''),
      (''nodes'', ''/cluster/nodes''), (''namespaces'', ''/cluster/namespaces'')]"

definition CLUSTER_SCOPED_KINDS :: "string list" where
  "CLUSTER_SCOPED_KINDS =
     [''nodes'', ''namespaces'', ''clusterroles'', ''clusterrolebindings'',
      ''persistentvolumes'', ''pvs'', ''storageclasses'', ''validatingwebhookconfigurations'',
      ''mutatingwebhookconfigurations'']"

section \<open>Navigation\<close>

record nav_item =
  ni_label :: string
  ni_href :: string
  ni_kind :: "string option"
  ni_count :: bool

record nav_group =
  ng_header :: string
  ng_items :: "nav_item list"

record domain_section =
  ds_id :: string
  ds_label :: string
  ds_icon :: string
  ds_href :: string
  ds_groups :: "nav_group list option"

definition nav_item :: "string \<Rightarrow> string \<Rightarrow> string option \<Rightarrow> bool \<Rightarrow> nav_item" where
  "nav_item label href kind counted =
     \<lparr>ni_label = label, ni_href = href, ni_kind = kind, ni_count = counted\<rparr>"

definition flatten_groups :: "domain_section \<Rightarrow> nav_item list" where
  "flatten_groups s =
     (case ds_groups s of None \<Rightarrow> [] | Some gs \<Rightarrow> concat (map ng_items gs))"

text \<open>\<open>DOMAIN_SECTIONS\<close>, one definition per section.\<close>

definition overview_section :: domain_section where
  "overview_section =
     \<lparr>ds_id = ''overview'', ds_label = ''Overview'', ds_icon = ''grid'', ds_href = ''/'',
      ds_groups = None\<rparr>"

definition workloads_section :: domain_section where
  "workloads_section =
     \<lparr>ds_id = ''workloads'', ds_label = ''Workloads'', ds_icon = ''box'', ds_href = ''/workloads/deployments'',
      ds_groups = Some
       [\<lparr>ng_header = ''Controllers'',
          ng_items =
            [nav_item ''Deployments'' ''/workloads/deployments'' (Some ''deployments'') True,
             nav_item ''StatefulSets'' ''/workloads/statefulsets'' (Some ''statefulsets'') True,
             nav_item ''DaemonSets'' ''/workloads/daemonsets'' (Some ''daemonsets'') True,
             nav_item ''ReplicaSets'' ''/workloads/replicasets'' (Some ''replicasets'') True]\<rparr>,
        \<lparr>ng_header = ''Pods & Jobs'',
          ng_items =
            [nav_item ''Pods'' ''/workloads/pods'' (Some ''pods'') True,
             nav_item ''Jobs'' ''/workloads/jobs'' (Some ''jobs'') True,
             nav_item ''CronJobs'' ''/workloads/cronjobs'' (Some ''cronjobs'') True]\<rparr>]\<rparr>"

definition network_section :: domain_section where
  "network_section =
     \<lparr>ds_id = ''network'', ds_label = ''Network'', ds_icon = ''globe'', ds_href = ''/networking'',
      ds_groups = Some
       [\<lparr>ng_header = ''Connectivity'',
          ng_items =
            [nav_item ''Services'' ''/networking/services'' (Some ''services'') True,
             nav_item ''Ingresses'' ''/networking/ingresses'' (Some ''ingresses'') True,
             nav_item ''Endpoints'' ''/networking/endpoints'' (Some ''endpoints'') True,
             nav_item ''EndpointSlices'' ''/networking/endpointslices'' (Some ''endpointslices'') True]\<rparr>,
        \<lparr>ng_header = ''Policies'',
          ng_items =
            [nav_item ''Network Policies'' ''/networking/networkpolicies'' (Some ''networkpolicies'') True,
             nav_item ''Cilium Policies'' ''/networking/cilium-policies'' (Some ''ciliumnetworkpolicies'') True]\<rparr>,
        \<lparr>ng_header = ''Service Mesh'',
          ng_items =
            [nav_item ''Overview'' ''/networking/mesh'' None False,
             nav_item ''Traffic Routing'' ''/networking/mesh/routing'' None False,
             nav_item ''mTLS Posture'' ''/networking/mesh/mtls'' None False,
             nav_item ''Gateway API'' ''/networking/gateway-api'' None False,
             nav_item ''Live Flows'' ''/networking/flows'' None False]\<rparr>]\<rparr>"

definition storage_section :: domain_section where
  "storage_section =
     \<lparr>ds_id = ''storage'', ds_label = ''Storage'', ds_icon = ''harddrive'', ds_href = ''/storage/overview'',
      ds_groups = Some
       [\<lparr>ng_header = ''Volumes'',
          ng_items =
            [nav_item ''Persistent Volume Claims'' ''/storage/pvcs'' (Some ''persistentvolumeclaims'') True,
             nav_item ''Persistent Volumes'' ''/cluster/pvs'' (Some ''persistentvolumes'') True,
             nav_item ''Storage Classes'' ''/cluster/storageclasses'' (Some ''storageclasses'') True,
             nav_item ''Snapshots'' ''/storage/snapshots'' None False]\<rparr>]\<rparr>"

definition config_section :: domain_section where
  "config_section =
     \<lparr>ds_id = ''config'', ds_label = ''Config'', ds_icon = ''sliders'', ds_href = ''/config/configmaps'',
      ds_groups = Some
       [\<lparr>ng_header = ''Application'',
          ng_items =
            [nav_item ''ConfigMaps'' ''/config/configmaps'' (Some ''configmaps'') True,
             nav_item ''Secrets'' ''/config/secrets'' (Some ''secrets'') True,
             nav_item ''Service Accounts'' ''/config/serviceaccounts'' (Some ''serviceaccounts'') True]\<rparr>,
        \<lparr>ng_header = ''Governance'',
          ng_items =
            [nav_item ''Resource Quotas'' ''/config/resourcequotas'' (Some ''resourcequotas'') True,
             nav_item ''Limit Ranges'' ''/config/limitranges'' (Some ''limitranges'') True,
             nav_item ''Namespace Limits'' ''/config/namespace-limits'' None False]\<rparr>]\<rparr>"

definition security_section :: domain_section where
  "security_section =
     \<lparr>ds_id = ''security'', ds_label = ''Security'', ds_icon = ''shield'', ds_href = ''/rbac/overview'',
      ds_groups = Some
       [\<lparr>ng_header = ''Access Control'',
          ng_items =
            [nav_item ''Roles'' ''/rbac/roles'' (Some ''roles'') True,
             nav_item ''Cluster Roles'' ''/rbac/clusterroles'' (Some ''clusterroles'') True,
             nav_item ''Role Bindings'' ''/rbac/rolebindings'' (Some ''rolebindings'') True,
             nav_item ''Cluster Role Bindings'' ''/rbac/clusterrolebindings'' (Some ''clusterrolebindings'') True,
             nav_item ''Webhooks'' ''/admin/validatingwebhooks'' None False]\<rparr>,
        \<lparr>ng_header = ''Posture'',
          ng_items =
            [nav_item ''Policies'' ''/security/policies'' None False,
             nav_item ''Violations'' ''/security/violations'' None False,
             nav_item ''Compliance'' ''/security/compliance'' None False,
             nav_item ''Vulnerabilities'' ''/security/vulnerabilities'' None False,
             nav_item ''Certificates'' ''/security/certificates'' None False]\<rparr>]\<rparr>"

definition observability_section :: domain_section where
  "observability_section =
     \<lparr>ds_id = ''observability'', ds_label = ''Observability'', ds_icon = ''activity'', ds_href = ''/monitoring'',
      ds_groups = Some
       [\<lparr>ng_header = ''Explore'',
          ng_items =
            [nav_item ''Service Topology'' ''/observability/topology'' None False,
             nav_item ''Log Explorer'' ''/observability/logs'' None False,
             nav_item ''Investigate'' ''/observability/investigate'' None False]\<rparr>,
        \<lparr>ng_header = ''Metrics'',
          ng_items =
            [nav_item ''Overview'' ''/monitoring'' None False,
             nav_item ''Dashboards'' ''/monitoring/dashboards'' None False,
             nav_item ''Prometheus'' ''/monitoring/prometheus'' None False]\<rparr>,
        \<lparr>ng_header = ''Alerts'',
          ng_items =
            [nav_item ''Active Alerts'' ''/alerting'' None False,
             nav_item ''Alert Rules'' ''/alerting/rules'' None False]\<rparr>]\<rparr>"

definition gitops_section :: domain_section where
  "gitops_section =
     \<lparr>ds_id = ''gitops'', ds_label = ''GitOps'', ds_icon = ''git-branch'', ds_href = ''/gitops/applications'',
      ds_groups = Some
       [\<lparr>ng_header = ''Delivery'',
          ng_items =
            [nav_item ''Applications'' ''/gitops/applications'' None False,
             nav_item ''ApplicationSets'' ''/gitops/applicationsets'' None False,
             nav_item ''Notifications'' ''/gitops/notifications'' None False]\<rparr>]\<rparr>"

definition external_secrets_section :: domain_section where
  "external_secrets_section =
     \<lparr>ds_id = ''external-secrets'', ds_label = ''External Secrets'', ds_icon = ''key'', ds_href = ''/external-secrets/dashboard'',
      ds_groups = Some
       [\<lparr>ng_header = ''External Secrets'',
          ng_items =
            [nav_item ''Dashboard'' ''/external-secrets/dashboard'' None False,
             nav_item ''ExternalSecrets'' ''/external-secrets/external-secrets'' None False,
             nav_item ''ClusterExternalSecrets'' ''/external-secrets/cluster-external-secrets'' None False,
             nav_item ''Secret Stores'' ''/external-secrets/stores'' None False,
             nav_item ''Cluster Stores'' ''/external-secrets/cluster-stores'' None False,
             nav_item ''PushSecrets'' ''/external-secrets/push-secrets'' None False,
             nav_item ''Provider Chain'' ''/external-secrets/chain'' None False]\<rparr>]\<rparr>"

definition backup_section :: domain_section where
  "backup_section =
     \<lparr>ds_id = ''backup'', ds_label = ''Backup'', ds_icon = ''archive'', ds_href = ''/backup/backups'',
      ds_groups = Some
       [\<lparr>ng_header = ''Protection'',
          ng_items =
            [nav_item ''Backups'' ''/backup/backups'' None False,
             nav_item ''Restores'' ''/backup/restores'' None False,
             nav_item ''Schedules'' ''/backup/schedules'' None False]\<rparr>]\<rparr>"

definition tools_section :: domain_section where
  "tools_section =
     \<lparr>ds_id = ''tools'', ds_label = ''Tools'', ds_icon = ''wrench'', ds_href = ''/tools/yaml-apply'',
      ds_groups = Some
       [\<lparr>ng_header = ''Tools'',
          ng_items =
            [nav_item ''YAML Apply'' ''/tools/yaml-apply'' None False,
             nav_item ''StorageClass Wizard'' ''/tools/storageclass-wizard'' None False]\<rparr>]\<rparr>"

definition SETTINGS_SECTION :: domain_section where
  "SETTINGS_SECTION =
     \<lparr>ds_id = ''settings'', ds_label = ''Settings'', ds_icon = ''settings'', ds_href = ''/settings/general'',
      ds_groups = Some
       [\<lparr>ng_header = ''Settings'',
          ng_items =
            [nav_item ''General'' ''/settings/general'' None False,
             nav_item ''Clusters'' ''/settings/clusters'' None False,
             nav_item ''Users'' ''/settings/users'' None False,
             nav_item ''Authentication'' ''/settings/auth'' None False,
             nav_item ''Audit Log'' ''/settings/audit'' None False]\<rparr>]\<rparr>"

definition DOMAIN_SECTIONS :: "domain_section list" where
  "DOMAIN_SECTIONS =
     [overview_section, workloads_section, network_section, storage_section, config_section,
      security_section, observability_section, gitops_section, external_secrets_section,
      backup_section, tools_section]"

definition ALL_SECTIONS :: "domain_section list" where
  "ALL_SECTIONS = DOMAIN_SECTIONS @ [SETTINGS_SECTION]"

definition item_owns :: "string \<Rightarrow> nav_item \<Rightarrow> bool" where
  "item_owns path it \<longleftrightarrow> path = ni_href it \<or> starts_with path (ni_href it @ ''/'')"

definition section_owns :: "string \<Rightarrow> domain_section \<Rightarrow> bool" where
  "section_owns path s \<longleftrightarrow>
     (ds_href s = ''/'' \<and> path = ''/'')
     \<or> (ds_href s \<noteq> ''/'' \<and> starts_with path (''/'' @ ds_id s))
     \<or> (case ds_groups s of None \<Rightarrow> False
         | Some gs \<Rightarrow> list_ex (\<lambda>g. list_ex (item_owns path) (ng_items g)) gs)"

definition get_active_domain :: "string \<Rightarrow> string option" where
  "get_active_domain path =
     (if starts_with path ''/cluster'' then Some ''overview''
      else if starts_with path ''/rbac'' then Some ''security''
      else if starts_with path ''/admin'' then Some ''security''
      else if starts_with path ''/settings'' then Some ''settings''
      else if starts_with path ''/scaling'' then Some ''workloads''
      else map_option ds_id (find (section_owns path) ALL_SECTIONS))"

definition domain_by_id :: "string option \<Rightarrow> domain_section option" where
  "domain_by_id o1 =
     (if \<not> has_text o1 then None else find (\<lambda>s. Some (ds_id s) = o1) ALL_SECTIONS)"

text \<open>\<open>lib/nav.ts\<close>: the collapsed flag, kept in local storage.\<close>

definition initial_collapsed :: "bool \<Rightarrow> string option \<Rightarrow> bool" where
  "initial_collapsed is_browser stored = (is_browser \<and> stored = Some ''1'')"

definition toggle_nav :: "bool \<Rightarrow> bool \<times> string option \<Rightarrow> bool \<times> string option" where
  "toggle_nav is_browser st =
     (let v = \<not> fst st in (v, if is_browser then Some (if v then ''1'' else ''0'') else snd st))"

definition panel_width :: "bool \<Rightarrow> string" where
  "panel_width collapsed = (if collapsed then ''0px'' else ''var(--panel-width, 250px)'')"

section \<open>Links\<close>

definition KIND_PLURALS :: "(string \<times> string) list" where
  "KIND_PLURALS =
     [(''ingress'', ''ingresses''), (''endpointslice'', ''endpointslices''),
      (''networkpolicy'', ''networkpolicies'')]"

definition plural_of :: "string \<Rightarrow> string" where
  "plural_of kind =
     (let lower = to_lower kind
      in case rec_get KIND_PLURALS lower of Some p \<Rightarrow> p | None \<Rightarrow> lower @ ''s'')"

definition resource_href :: "string \<Rightarrow> string option \<Rightarrow> string option \<Rightarrow> string option" where
  "resource_href kind ns name =
     (case rec_get RESOURCE_DETAIL_PATHS (plural_of kind) of
        None \<Rightarrow> None
      | Some base \<Rightarrow>
          if base = [] \<or> \<not> has_text name then None
          else if has_text ns
          then Some (base @ ''/'' @ encode_uri_component (the ns) @ ''/'' @ encode_uri_component (the name))
          else Some (base @ ''/'' @ encode_uri_component (the name)))"

text \<open>The sources and the optional fields of a notification that its link depends on.\<close>

datatype notif_source =
    SrcAlert | SrcPolicy | SrcGitops | SrcDiagnostic | SrcScan | SrcCluster | SrcAudit | SrcLimits
  | SrcVelero | SrcCertmanager | SrcExternalSecrets

record app_notification =
  an_source :: notif_source
  an_kind :: "string option"
  an_namespace :: "string option"
  an_name :: "string option"

definition notif_action_url :: "app_notification \<Rightarrow> bool \<Rightarrow> string option" where
  "notif_action_url n is_admin =
     (case an_source n of
        SrcAlert \<Rightarrow> Some ''/alerting''
      | SrcPolicy \<Rightarrow> Some ''/security/violations''
      | SrcGitops \<Rightarrow> Some ''/gitops/applications''
      | SrcDiagnostic \<Rightarrow>
          if has_text (an_namespace n) \<and> has_text (an_kind n) \<and> has_text (an_name n)
          then Some (''/observability/investigate?namespace='' @ encode_uri_component (the (an_namespace n))
            @ ''&kind='' @ encode_uri_component (the (an_kind n))
            @ ''&name='' @ encode_uri_component (the (an_name n)))
          else Some ''/observability/investigate''
      | SrcScan \<Rightarrow> Some ''/security/scanning''
      | SrcCluster \<Rightarrow> if is_admin then Some ''/admin/clusters'' else None
      | SrcAudit \<Rightarrow> if is_admin then Some ''/admin/audit'' else None
      | SrcLimits \<Rightarrow>
          if has_text (an_namespace n)
          then Some (''/governance/limits/namespaces/'' @ encode_uri_component (the (an_namespace n)))
          else Some ''/governance/limits''
      | SrcVelero \<Rightarrow> Some ''/governance/backups''
      | SrcCertmanager \<Rightarrow>
          if has_text (an_namespace n) \<and> has_text (an_name n)
          then Some (''/security/certificates/'' @ encode_uri_component (the (an_namespace n)) @ ''/''
            @ encode_uri_component (the (an_name n)))
          else Some ''/security/certificates''
      | SrcExternalSecrets \<Rightarrow>
          if has_text (an_namespace n) \<and> has_text (an_name n)
          then Some (''/external-secrets/external-secrets/'' @ encode_uri_component (the (an_namespace n))
            @ ''/'' @ encode_uri_component (the (an_name n)))
          else Some ''/external-secrets/dashboard'')"

text \<open>\<open>filterByNamespace\<close>, for the accessor of the items' namespace, and the persistence effect.\<close>

definition filter_by_namespace :: "('a \<Rightarrow> string option) \<Rightarrow> 'a list \<Rightarrow> string \<Rightarrow> 'a list" where
  "filter_by_namespace ns_of items ns =
     (if ns = [] \<or> ns = ''all'' then items else filter (\<lambda>x. ns_of x = Some ns) items)"

definition persist_namespace :: "string option \<Rightarrow> string option" where
  "persist_namespace ns = (if has_text ns \<and> ns \<noteq> Some ''all'' then ns else None)"

definition initial_namespace :: "bool \<Rightarrow> string \<Rightarrow> string" where
  "initial_namespace is_browser ns = (if is_browser \<and> ns \<noteq> ''all'' then ns else ''default'')"

definition KIND_ROUTE_MAP :: "(string \<times> string) list" where
  "KIND_ROUTE_MAP =
     [(''Pod'', ''pods''), (''Deployment'', ''deployments''), (''StatefulSet'', ''statefulsets''),
      (''DaemonSet'', ''daemonsets''), (''Service'', ''services''), (''Job'', ''jobs''),
      (''CronJob'', ''cronjobs''), (''PersistentVolumeClaim'', ''pvcs''),
      (''ReplicaSet'', ''replicasets''), (''Ingress'', ''ingresses''),
      (''ConfigMap'', ''configmaps''), (''Secret'', ''secrets''), (''Endpoints'', ''endpoints'')]"

definition get_resource_section :: "string \<Rightarrow> string" where
  "get_resource_section kind =
     (if kind \<in> set [''Service'', ''Ingress'', ''Endpoints''] then ''networking''
      else if kind \<in> set [''ConfigMap'', ''Secret''] then ''config''
      else if kind \<in> set [''PersistentVolumeClaim''] then ''storage''
      else ''workloads'')"

section \<open>The pages\<close>

text \<open>
  The page files under \<open>routes\<close> (those whose name starts with an underscore are layouts): a
  bracketed file name matches any one segment, \<open>index\<close> is its directory. One list per directory
  of the first level, holding the rest of the route.
\<close>

datatype route_seg = Lit string | Param

definition admin_pages :: "route_seg list list" where
  "admin_pages =
     [[Lit ''mutatingwebhooks''], [Lit ''mutatingwebhooks'', Param], [Lit ''notifications''],
      [Lit ''notifications'', Lit ''channels''], [Lit ''notifications'', Lit ''feed''],
      [Lit ''notifications'', Lit ''rules''], [Lit ''validatingwebhooks''],
      [Lit ''validatingwebhooks'', Param]]"

definition alerting_pages :: "route_seg list list" where
  "alerting_pages =
     [[], [Lit ''rules''], [Lit ''settings'']]"

definition auth_pages :: "route_seg list list" where
  "auth_pages =
     [[Lit ''callback'']]"

definition backup_pages :: "route_seg list list" where
  "backup_pages =
     [[], [Lit ''backups''], [Lit ''backups'', Lit ''new''], [Lit ''restores''],
      [Lit ''restores'', Lit ''new''], [Lit ''schedules''], [Lit ''schedules'', Lit ''new'']]"

definition cluster_pages :: "route_seg list list" where
  "cluster_pages =
     [[Lit ''events''], [Lit ''namespaces''], [Lit ''namespaces'', Param],
      [Lit ''namespaces'', Lit ''new''], [Lit ''nodes''], [Lit ''nodes'', Param],
      [Lit ''pvs''], [Lit ''pvs'', Param], [Lit ''storageclasses''],
      [Lit ''storageclasses'', Param]]"

definition config_pages :: "route_seg list list" where
  "config_pages =
     [[], [Lit ''configmaps''], [Lit ''configmaps'', Param, Param],
      [Lit ''configmaps'', Lit ''new''], [Lit ''limitranges''],
      [Lit ''limitranges'', Param, Param], [Lit ''namespace-limits''],
      [Lit ''namespace-limits'', Lit ''new''], [Lit ''resourcequotas''],
      [Lit ''resourcequotas'', Param, Param], [Lit ''secrets''],
      [Lit ''secrets'', Param, Param], [Lit ''secrets'', Lit ''new''],
      [Lit ''serviceaccounts''], [Lit ''serviceaccounts'', Param, Param]]"

definition extensions_pages :: "route_seg list list" where
  "extensions_pages =
     [[], [Param, Param], [Param, Param, Param, Param], [Param, Param, Lit ''_'', Param],
      [Param, Param, Lit ''new'']]"

definition external_secrets_pages :: "route_seg list list" where
  "external_secrets_pages =
     [[], [Lit ''chain''], [Lit ''cluster-external-secrets''],
      [Lit ''cluster-external-secrets'', Param], [Lit ''cluster-stores''],
      [Lit ''cluster-stores'', Param], [Lit ''cluster-stores'', Lit ''new''],
      [Lit ''dashboard''], [Lit ''external-secrets''],
      [Lit ''external-secrets'', Param, Param], [Lit ''external-secrets'', Lit ''new''],
      [Lit ''push-secrets''], [Lit ''push-secrets'', Param, Param], [Lit ''stores''],
      [Lit ''stores'', Param, Param], [Lit ''stores'', Lit ''new''],
      [Lit ''stores'', Lit ''new-from-template'']]"

definition gitops_pages :: "route_seg list list" where
  "gitops_pages =
     [[], [Lit ''applications''], [Lit ''applications'', Param], [Lit ''applicationsets''],
      [Lit ''applicationsets'', Param], [Lit ''notifications'']]"

definition login_pages :: "route_seg list list" where
  "login_pages =
     [[]]"

definition monitoring_pages :: "route_seg list list" where
  "monitoring_pages =
     [[], [Lit ''dashboards''], [Lit ''prometheus'']]"

definition networking_pages :: "route_seg list list" where
  "networking_pages =
     [[], [Lit ''cilium-policies''], [Lit ''cilium-policies'', Param, Param],
      [Lit ''cilium-policies'', Lit ''new''], [Lit ''cni''], [Lit ''endpoints''],
      [Lit ''endpoints'', Param, Param], [Lit ''endpointslices''],
      [Lit ''endpointslices'', Param, Param], [Lit ''flows''], [Lit ''gateway-api''],
      [Lit ''gateway-api'', Lit ''gatewayclasses'', Param],
      [Lit ''gateway-api'', Lit ''gateways'', Param, Param],
      [Lit ''gateway-api'', Lit ''grpcroutes'', Param, Param],
      [Lit ''gateway-api'', Lit ''httproutes'', Param, Param],
      [Lit ''gateway-api'', Lit ''tcproutes'', Param, Param],
      [Lit ''gateway-api'', Lit ''tlsroutes'', Param, Param],
      [Lit ''gateway-api'', Lit ''udproutes'', Param, Param], [Lit ''ingresses''],
      [Lit ''ingresses'', Param, Param], [Lit ''ingresses'', Lit ''new''], [Lit ''mesh''],
      [Lit ''mesh'', Lit ''dashboard''], [Lit ''mesh'', Lit ''mtls''],
      [Lit ''mesh'', Lit ''routing''], [Lit ''mesh'', Lit ''routing'', Param],
      [Lit ''networkpolicies''], [Lit ''networkpolicies'', Param, Param],
      [Lit ''networkpolicies'', Lit ''new''], [Lit ''services''],
      [Lit ''services'', Param, Param], [Lit ''services'', Lit ''new'']]"

definition notifications_pages :: "route_seg list list" where
  "notifications_pages =
     [[]]"

definition observability_pages :: "route_seg list list" where
  "observability_pages =
     [[Lit ''investigate''], [Lit ''logs''], [Lit ''topology'']]"

definition privacy_pages :: "route_seg list list" where
  "privacy_pages =
     [[]]"

definition rbac_pages :: "route_seg list list" where
  "rbac_pages =
     [[], [Lit ''clusterrolebindings''], [Lit ''clusterrolebindings'', Param],
      [Lit ''clusterrolebindings'', Lit ''new''], [Lit ''clusterroles''],
      [Lit ''clusterroles'', Param], [Lit ''overview''], [Lit ''rolebindings''],
      [Lit ''rolebindings'', Param, Param], [Lit ''rolebindings'', Lit ''new''],
      [Lit ''roles''], [Lit ''roles'', Param, Param]]"

definition scaling_pages :: "route_seg list list" where
  "scaling_pages =
     [[], [Lit ''hpas''], [Lit ''hpas'', Param, Param], [Lit ''hpas'', Lit ''new''],
      [Lit ''pdbs''], [Lit ''pdbs'', Param, Param], [Lit ''pdbs'', Lit ''new'']]"

definition security_pages :: "route_seg list list" where
  "security_pages =
     [[], [Lit ''certificates''], [Lit ''certificates'', Param, Param],
      [Lit ''certificates'', Lit ''cluster-issuers''],
      [Lit ''certificates'', Lit ''cluster-issuers'', Lit ''new''],
      [Lit ''certificates'', Lit ''issuers''],
      [Lit ''certificates'', Lit ''issuers'', Lit ''new''],
      [Lit ''certificates'', Lit ''new''], [Lit ''compliance''], [Lit ''create-policy''],
      [Lit ''policies''], [Lit ''violations''], [Lit ''vulnerabilities''],
      [Lit ''vulnerabilities'', Param, Param, Param]]"

definition settings_pages :: "route_seg list list" where
  "settings_pages =
     [[Lit ''audit''], [Lit ''auth''], [Lit ''clusters''], [Lit ''general''], [Lit ''users''],
      [Lit ''users'', Lit ''new'']]"

definition setup_pages :: "route_seg list list" where
  "setup_pages =
     [[]]"

definition storage_pages :: "route_seg list list" where
  "storage_pages =
     [[], [Lit ''overview''], [Lit ''pvcs''], [Lit ''pvcs'', Param, Param],
      [Lit ''pvcs'', Lit ''new''], [Lit ''snapshots''], [Lit ''snapshots'', Lit ''new''],
      [Lit ''snapshots'', Lit ''restore''], [Lit ''snapshots'', Lit ''schedule'']]"

definition tools_pages :: "route_seg list list" where
  "tools_pages =
     [[], [Lit ''storageclass-wizard''], [Lit ''yaml-apply'']]"

definition workloads_pages :: "route_seg list list" where
  "workloads_pages =
     [[], [Lit ''cronjobs''], [Lit ''cronjobs'', Param, Param],
      [Lit ''cronjobs'', Lit ''new''], [Lit ''daemonsets''],
      [Lit ''daemonsets'', Param, Param], [Lit ''daemonsets'', Lit ''new''],
      [Lit ''deployments''], [Lit ''deployments'', Param, Param],
      [Lit ''deployments'', Lit ''new''], [Lit ''jobs''], [Lit ''jobs'', Param, Param],
      [Lit ''jobs'', Lit ''new''], [Lit ''pods''], [Lit ''pods'', Param, Param],
      [Lit ''replicasets''], [Lit ''replicasets'', Param, Param], [Lit ''statefulsets''],
      [Lit ''statefulsets'', Param, Param], [Lit ''statefulsets'', Lit ''new'']]"

definition pages_under :: "string \<Rightarrow> route_seg list list" where
  "pages_under w =
     (if w = ''admin'' then admin_pages
      else if w = ''alerting'' then alerting_pages
      else if w = ''auth'' then auth_pages
      else if w = ''backup'' then backup_pages
      else if w = ''cluster'' then cluster_pages
      else if w = ''config'' then config_pages
      else if w = ''extensions'' then extensions_pages
      else if w = ''external-secrets'' then external_secrets_pages
      else if w = ''gitops'' then gitops_pages
      else if w = ''login'' then login_pages
      else if w = ''monitoring'' then monitoring_pages
      else if w = ''networking'' then networking_pages
      else if w = ''notifications'' then notifications_pages
      else if w = ''observability'' then observability_pages
      else if w = ''privacy'' then privacy_pages
      else if w = ''rbac'' then rbac_pages
      else if w = ''scaling'' then scaling_pages
      else if w = ''security'' then security_pages
      else if w = ''settings'' then settings_pages
      else if w = ''setup'' then setup_pages
      else if w = ''storage'' then storage_pages
      else if w = ''tools'' then tools_pages
      else if w = ''workloads'' then workloads_pages
      else [])"

fun seg_matches :: "route_seg \<Rightarrow> string \<Rightarrow> bool" where
  "seg_matches (Lit w) s = (s = w)"
| "seg_matches Param s = (s \<noteq> [])"

definition route_matches :: "string list \<Rightarrow> route_seg list \<Rightarrow> bool" where
  "route_matches segs r \<longleftrightarrow> list_all2 seg_matches r segs"

text \<open>The segments of a link's path, without its query.\<close>

definition link_segments :: "string \<Rightarrow> string list" where
  "link_segments href =
     filter (\<lambda>w. w \<noteq> []) (js_split CHR ''/'' (takeWhile (\<lambda>c. c \<noteq> CHR ''?'') href))"

definition page_exists :: "string \<Rightarrow> bool" where
  "page_exists href \<longleftrightarrow>
     (case link_segments href of
        [] \<Rightarrow> True
      | w # ws \<Rightarrow> list_ex (route_matches ws) (pages_under w))"

section \<open>Every link has a page\<close>

lemmas page_eval = page_exists_def link_segments_def pages_under_def route_matches_def
  admin_pages_def alerting_pages_def auth_pages_def backup_pages_def cluster_pages_def config_pages_def
  extensions_pages_def external_secrets_pages_def gitops_pages_def login_pages_def monitoring_pages_def
  networking_pages_def notifications_pages_def observability_pages_def privacy_pages_def rbac_pages_def
  scaling_pages_def security_pages_def settings_pages_def setup_pages_def storage_pages_def
  tools_pages_def workloads_pages_def

definition section_resolves :: "domain_section \<Rightarrow> bool" where
  "section_resolves s \<longleftrightarrow>
     page_exists (ds_href s) \<and> list_all (\<lambda>it. page_exists (ni_href it)) (flatten_groups s)"

lemmas section_eval = section_resolves_def flatten_groups_def nav_item_def page_eval

lemma sections_resolve:
  "section_resolves overview_section" "section_resolves workloads_section"
  "section_resolves network_section" "section_resolves storage_section"
  "section_resolves config_section" "section_resolves security_section"
  "section_resolves observability_section" "section_resolves gitops_section"
  "section_resolves external_secrets_section" "section_resolves backup_section"
  "section_resolves tools_section" "section_resolves SETTINGS_SECTION"
  by (simp_all add: section_eval overview_section_def workloads_section_def network_section_def
      storage_section_def config_section_def security_section_def observability_section_def
      gitops_section_def external_secrets_section_def backup_section_def tools_section_def
      SETTINGS_SECTION_def)

lemma all_sections_iff:
  "(\<forall>s \<in> set ALL_SECTIONS. P s) \<longleftrightarrow>
     P overview_section \<and> P workloads_section \<and> P network_section \<and> P storage_section
     \<and> P config_section \<and> P security_section \<and> P observability_section \<and> P gitops_section
     \<and> P external_secrets_section \<and> P backup_section \<and> P tools_section \<and> P SETTINGS_SECTION"
  by (simp add: ALL_SECTIONS_def DOMAIN_SECTIONS_def)

text \<open>
  The links of a resource: an encoded name is one non-empty segment, so a detail path with its
  arguments has the segments of the path, then the arguments.
\<close>

lemma link_segments_append:
  assumes "CHR ''/'' \<notin> set w" "CHR ''?'' \<notin> set w" "CHR ''?'' \<notin> set base" "w \<noteq> []"
  shows "link_segments (base @ ''/'' @ w) = link_segments base @ [w]"
proof -
  have split: "js_split CHR ''/'' (u @ CHR ''/'' # w) = js_split CHR ''/'' u @ [w]" for u
  proof (induction u)
    case Nil then show ?case by (simp add: js_split_atom assms)
  next
    case (Cons x u)
    then show ?case by (cases "js_split CHR ''/'' u") auto
  qed
  have "CHR ''?'' \<notin> set (base @ ''/'' @ w)" using assms by simp
  then have tw: "takeWhile (\<lambda>c. c \<noteq> CHR ''?'') (base @ ''/'' @ w) = base @ ''/'' @ w"
    by (rule takeWhile_all)
  show ?thesis unfolding link_segments_def tw takeWhile_all [OF assms(3)]
    using split [of base] assms(4) by simp
qed

definition detail_page :: "string \<Rightarrow> nat \<Rightarrow> bool" where
  "detail_page base n \<longleftrightarrow>
     CHR ''?'' \<notin> set base
     \<and> (case link_segments base of
          [] \<Rightarrow> False
        | w # ws \<Rightarrow> list_ex (\<lambda>r. list_all2 seg_matches (take (length ws) r) ws
                                   \<and> drop (length ws) r = replicate n Param) (pages_under w))"

lemma detail_page_exists:
  assumes d: "detail_page base (length args)" and args: "\<forall>a \<in> set args. a \<noteq> []"
  shows "page_exists (base @ concat (map (\<lambda>a. ''/'' @ encode_uri_component a) args))"
proof -
  obtain w ws r where r: "link_segments base = w # ws" "r \<in> set (pages_under w)"
    "list_all2 seg_matches (take (length ws) r) ws" "drop (length ws) r = replicate (length args) Param"
    and q: "CHR ''?'' \<notin> set base"
    using d by (auto simp: detail_page_def list_ex_iff split: list.splits)
  have seg: "link_segments (base @ concat (map (\<lambda>a. ''/'' @ encode_uri_component a) as))
      = link_segments base @ map encode_uri_component as" if "\<forall>a \<in> set as. a \<noteq> []" for as
    using that
  proof (induction as rule: rev_induct)
    case (snoc a as)
    have "CHR ''?'' \<notin> set (base @ concat (map (\<lambda>a. ''/'' @ encode_uri_component a) as))"
      using q by (induction as) auto
    from link_segments_append [OF _ _ this, of "encode_uri_component a"] snoc
    show ?case by simp
  qed simp
  have "list_all2 seg_matches (replicate (length args) Param) (map encode_uri_component args)"
    using args by (induction args) auto
  then have "list_all2 seg_matches (take (length ws) r @ drop (length ws) r) (ws @ map encode_uri_component args)"
    using r(3,4) by (intro list_all2_appendI) simp_all
  then have "list_all2 seg_matches r (ws @ map encode_uri_component args)" by simp
  then show ?thesis using r(1,2) seg [OF args]
    by (auto simp: page_exists_def route_matches_def list_ex_iff)
qed

definition detail_arity :: "string \<Rightarrow> nat" where
  "detail_arity kind = (if kind \<in> set CLUSTER_SCOPED_KINDS then 1 else 2)"

lemma detail_paths_have_pages:
  "list_all (\<lambda>(k, base). base \<noteq> [] \<and> detail_page base (detail_arity k)) RESOURCE_DETAIL_PATHS"
  by (simp add: RESOURCE_DETAIL_PATHS_def detail_page_def detail_arity_def CLUSTER_SCOPED_KINDS_def
      numeral_2_eq_2 page_eval)

lemma detail_path_page:
  "rec_get RESOURCE_DETAIL_PATHS k = Some base \<Longrightarrow> detail_page base (detail_arity k)"
  using detail_paths_have_pages by (auto dest!: rec_get_Some_in simp: list_all_iff)

text \<open>Every link \<open>resourceHref\<close> builds leads to a page under \<open>routes\<close>, for any namespace and
  name (slashes and other reserved characters included), when a namespace is passed exactly for
  the kinds that have one.\<close>

theorem resource_links_resolve:
  assumes "resource_href kind ns name = Some h"
    and "has_text ns = (plural_of kind \<notin> set CLUSTER_SCOPED_KINDS)"
  shows "page_exists h"
proof -
  obtain base where b: "rec_get RESOURCE_DETAIL_PATHS (plural_of kind) = Some base" "has_text name"
    and h: "h = (if has_text ns
        then base @ ''/'' @ encode_uri_component (the ns) @ ''/'' @ encode_uri_component (the name)
        else base @ ''/'' @ encode_uri_component (the name))"
    using assms(1) by (auto simp: resource_href_def split: option.splits if_splits)
  note d = detail_path_page [OF b(1)]
  show ?thesis
  proof (cases "has_text ns")
    case True
    then have "detail_page base (length [the ns, the name])"
      using d assms(2) by (simp add: detail_arity_def numeral_2_eq_2)
    from detail_page_exists [OF this] True b(2) show ?thesis by (auto simp: h has_text_iff)
  next
    case False
    then have "detail_page base (length [the name])" using d assms(2) by (simp add: detail_arity_def)
    from detail_page_exists [OF this] False b(2) show ?thesis by (auto simp: h has_text_iff)
  qed
qed

lemma resource_links_resolve_witness:
  "\<exists>h. resource_href ''NetworkPolicy'' (Some ''web'') (Some ''a/b'') = Some h \<and> page_exists h"
proof -
  have p: "plural_of ''NetworkPolicy'' = ''networkpolicies''" by code_simp
  have "rec_get RESOURCE_DETAIL_PATHS ''networkpolicies'' = Some ''/networking/networkpolicies''"
    by (simp add: RESOURCE_DETAIL_PATHS_def)
  then obtain h where h: "resource_href ''NetworkPolicy'' (Some ''web'') (Some ''a/b'') = Some h"
    by (simp add: resource_href_def p)
  have "page_exists h"
    by (rule resource_links_resolve [OF h]) (simp add: p CLUSTER_SCOPED_KINDS_def)
  then show ?thesis using h by blast
qed

text \<open>The API kinds whose name plus \<open>s\<close> is not the plural and that \<open>KIND_PLURALS\<close> misses.\<close>

definition unlinkable_kinds :: "string list" where
  "unlinkable_kinds = [''Endpoints'', ''PersistentVolumeClaim'', ''StorageClass'', ''CiliumNetworkPolicy'']"

lemma api_kind_plurals:
  "map (\<lambda>p. plural_of (snd p)) RESOURCE_API_KINDS =
     [''pods'', ''deployments'', ''replicasets'', ''statefulsets'', ''daemonsets'',
      ''services'', ''ingresses'', ''endpointss'', ''configmaps'', ''secrets'',
      ''serviceaccounts'', ''resourcequotas'', ''limitranges'', ''namespaces'', ''nodes'',
      ''persistentvolumes'', ''persistentvolumes'', ''persistentvolumeclaims'',
      ''storageclasss'', ''jobs'', ''cronjobs'', ''networkpolicies'',
      ''horizontalpodautoscalers'', ''horizontalpodautoscalers'', ''poddisruptionbudgets'',
      ''poddisruptionbudgets'', ''endpointslices'', ''roles'', ''clusterroles'',
      ''rolebindings'', ''clusterrolebindings'', ''validatingwebhookconfigurations'',
      ''mutatingwebhookconfigurations'', ''ciliumnetworkpolicys'']"
  by code_simp

lemma kind_plurals:
  "list_all (\<lambda>(p, k). (k \<in> set unlinkable_kinds) = (rec_get RESOURCE_DETAIL_PATHS (plural_of k) = None))
     RESOURCE_API_KINDS"
  using api_kind_plurals
  by (simp add: RESOURCE_API_KINDS_def RESOURCE_DETAIL_PATHS_def unlinkable_kinds_def)

text \<open>A named resource of an API kind has a link exactly when the kind is not one of the four
  whose plural \<open>resourceHref\<close> does not know (although each of the four has a detail page).\<close>

theorem resource_href_kinds:
  "list_all (\<lambda>(p, k). (resource_href k ns (Some (c # n)) = None) = (k \<in> set unlinkable_kinds)
      \<and> rec_get RESOURCE_DETAIL_PATHS p \<noteq> None) RESOURCE_API_KINDS"
proof -
  have "(resource_href k ns (Some (c # n)) = None) = (rec_get RESOURCE_DETAIL_PATHS (plural_of k) = None)" for k
    using detail_paths_have_pages
    by (auto simp: resource_href_def list_all_iff dest!: rec_get_Some_in split: option.splits)
  moreover have "list_all (\<lambda>(p, k). rec_get RESOURCE_DETAIL_PATHS p \<noteq> None) RESOURCE_API_KINDS"
    by (simp add: RESOURCE_API_KINDS_def RESOURCE_DETAIL_PATHS_def)
  ultimately show ?thesis using kind_plurals by (auto simp: list_all_iff)
qed

text \<open>Every entry of the navigation, in every section, and every rail icon leads to a page; and
  the domain that \<open>getActiveDomain\<close> highlights on an entry's own page is the section that lists
  the entry, but for the two cluster-prefixed storage entries, which highlight the overview.\<close>

theorem navigation_resolves:
  "list_all (\<lambda>s. page_exists (ds_href s)
     \<and> list_all (\<lambda>it. page_exists (ni_href it)
          \<and> (get_active_domain (ni_href it) =
               (if ni_href it \<in> set [''/cluster/pvs'', ''/cluster/storageclasses'']
                then Some ''overview'' else Some (ds_id s)))) (flatten_groups s)) ALL_SECTIONS"
proof -
  have "list_all (\<lambda>s. list_all (\<lambda>it. get_active_domain (ni_href it) =
               (if ni_href it \<in> set [''/cluster/pvs'', ''/cluster/storageclasses'']
                then Some ''overview'' else Some (ds_id s))) (flatten_groups s)) ALL_SECTIONS"
    by code_simp
  moreover have "list_all section_resolves ALL_SECTIONS"
    using sections_resolve by (simp add: list_all_iff all_sections_iff)
  ultimately show ?thesis by (simp add: list_all_iff section_resolves_def)
qed

text \<open>Where a notification leads: the alert, policy, GitOps, diagnostic, certificate and external
  secret links lead to a page for every namespace and name; the scan, limits, velero and the
  administrator's cluster and audit links lead to no page; and only the administrator's two are
  withheld from other users.\<close>

theorem notification_links:
  "((notif_action_url n is_admin = None) = (an_source n \<in> set [SrcCluster, SrcAudit] \<and> \<not> is_admin))
    \<and> ((case notif_action_url n is_admin of None \<Rightarrow> True
    | Some h \<Rightarrow> page_exists h =
        (an_source n \<notin> set [SrcScan, SrcCluster, SrcAudit, SrcLimits, SrcVelero])))"
proof (intro conjI)
  show "(notif_action_url n is_admin = None) = (an_source n \<in> set [SrcCluster, SrcAudit] \<and> \<not> is_admin)"
    by (auto simp: notif_action_url_def split: notif_source.splits)
  have dp: "detail_page ''/security/certificates'' 2" "detail_page ''/external-secrets/external-secrets'' 2"
    by (simp_all add: detail_page_def numeral_2_eq_2 page_eval)
  have ne: "page_exists (''/security/certificates'' @ concat (map (\<lambda>a. ''/'' @ encode_uri_component a) [a, b]))"
    "page_exists (''/external-secrets/external-secrets'' @ concat (map (\<lambda>a. ''/'' @ encode_uri_component a) [a, b]))"
    if "a \<noteq> []" "b \<noteq> []" for a b
    using that dp detail_page_exists [of "''/security/certificates''" "[a, b]"]
      detail_page_exists [of "''/external-secrets/external-secrets''" "[a, b]"]
    by (simp_all add: numeral_2_eq_2 del: append.simps)
  have inv: "page_exists (''/observability/investigate'' @ CHR ''?'' # q)" for q
    by (simp add: page_eval)
  have lim: "\<not> page_exists (''/governance/limits/namespaces/'' @ w)" for w
    using js_split_ne [of "CHR ''/''" "takeWhile (\<lambda>c. c \<noteq> CHR ''?'') w"]
    by (simp add: page_eval)
  have st: "page_exists ''/alerting''" "page_exists ''/security/violations''"
    "page_exists ''/gitops/applications''" "page_exists ''/observability/investigate''"
    "page_exists ''/security/certificates''" "page_exists ''/external-secrets/dashboard''"
    "\<not> page_exists ''/security/scanning''" "\<not> page_exists ''/admin/clusters''"
    "\<not> page_exists ''/admin/audit''" "\<not> page_exists ''/governance/limits''"
    "\<not> page_exists ''/governance/backups''"
    by (simp_all add: page_eval)
  show "(case notif_action_url n is_admin of None \<Rightarrow> True
    | Some h \<Rightarrow> page_exists h =
        (an_source n \<notin> set [SrcScan, SrcCluster, SrcAudit, SrcLimits, SrcVelero]))"
  proof (cases "an_source n")
    case SrcDiagnostic
    then show ?thesis using st inv by (auto simp: notif_action_url_def)
  next
    case SrcLimits
    then show ?thesis using st lim by (auto simp: notif_action_url_def)
  next
    case SrcCertmanager
    then show ?thesis using st ne(1) by (auto simp: notif_action_url_def has_text_iff)
  next
    case SrcExternalSecrets
    then show ?thesis using st ne(2) by (auto simp: notif_action_url_def has_text_iff)
  qed (use st in \<open>auto simp: notif_action_url_def\<close>)
qed

end
