(* ===== verification/Access.thy ===== *)
theory Access
  imports Nav
begin

text \<open>
  What the interface lets a user do: \<open>canPerform\<close> (\<open>lib/permissions.ts\<close>), the actions of
  \<open>lib/action-handlers.ts\<close>, and the RBAC views of \<open>lib/rbac-utils.ts\<close>. A resource of the
  API is a dynamic value; an action's outcome is an error message or the request it issues with
  the message of its reply.
\<close>

section \<open>Permissions\<close>

type_synonym kind_verbs = "(string \<times> string list) list"

text \<open>\<open>RBACSummary\<close>: verbs by kind, cluster-wide and by namespace; either part may be absent.\<close>

record rbac_summary =
  rb_cluster :: "kind_verbs option"
  rb_namespaces :: "(string \<times> kind_verbs) list option"

definition verbs_allow :: "kind_verbs \<Rightarrow> string \<Rightarrow> string \<Rightarrow> bool" where
  "verbs_allow perms kind verb \<longleftrightarrow>
     (case rec_get perms kind of None \<Rightarrow> False | Some vs \<Rightarrow> verb \<in> set vs \<or> ''*'' \<in> set vs)"

definition can_perform :: "rbac_summary option \<Rightarrow> string \<Rightarrow> string \<Rightarrow> string \<Rightarrow> bool" where
  "can_perform rbac kind verb namespace =
     (case rbac of
        None \<Rightarrow> True
      | Some r \<Rightarrow>
          if (case rb_cluster r of None \<Rightarrow> False | Some p \<Rightarrow> verbs_allow p kind verb) then True
          else if namespace = [] then
            list_ex (\<lambda>p. verbs_allow (snd p) kind verb)
              (case rb_namespaces r of None \<Rightarrow> [] | Some ns \<Rightarrow> ns)
          else
            (case rb_namespaces r of
               None \<Rightarrow> False
             | Some ns \<Rightarrow> (case rec_get ns namespace of None \<Rightarrow> False | Some p \<Rightarrow> verbs_allow p kind verb)))"

section \<open>Actions\<close>

datatype action_id = Scale | Restart | Delete | Suspend | Trigger

definition ACTIONS_BY_KIND :: "(string \<times> action_id list) list" where
  "ACTIONS_BY_KIND =
     [(''deployments'', [Scale, Restart, Delete]), (''statefulsets'', [Scale, Restart, Delete]),
      (''daemonsets'', [Restart, Delete]), (''pods'', [Delete]), (''jobs'', [Suspend, Delete]),
      (''cronjobs'', [Suspend, Trigger, Delete]), (''rolebindings'', [Delete]),
      (''clusterrolebindings'', [Delete])]"

fun ACTION_VERB_MAP :: "action_id \<Rightarrow> string" where
  "ACTION_VERB_MAP Scale = ''update''"
| "ACTION_VERB_MAP Restart = ''update''"
| "ACTION_VERB_MAP Delete = ''delete''"
| "ACTION_VERB_MAP Suspend = ''update''"
| "ACTION_VERB_MAP Trigger = ''create''"

definition kind_actions :: "string \<Rightarrow> action_id list" where
  "kind_actions kind = (case rec_get ACTIONS_BY_KIND kind of None \<Rightarrow> [] | Some a \<Rightarrow> a)"

definition get_visible_actions :: "string \<Rightarrow> string \<Rightarrow> rbac_summary option \<Rightarrow> action_id list" where
  "get_visible_actions kind namespace rbac =
     (let all_actions = kind_actions kind
      in if rbac = None then all_actions
         else filter (\<lambda>a. can_perform rbac kind (ACTION_VERB_MAP a) namespace) all_actions)"

datatype confirm_mode = Confirm | Destructive

record action_meta =
  am_label :: string
  am_danger :: bool
  am_confirm :: "confirm_mode option"
  am_message :: "string option"

definition quoted :: "string \<Rightarrow> string" where
  "quoted s = CHR 0x22 # s @ [CHR 0x22]"

definition is_suspended :: "js \<Rightarrow> bool" where
  "is_suspended resource \<longleftrightarrow> js_get (js_get resource ''spec'') ''suspend'' = JBool True"

definition first_owner :: "js \<Rightarrow> js option" where
  "first_owner resource =
     (case js_get (js_get resource ''metadata'') ''ownerReferences'' of
        JArr (x # _) \<Rightarrow> (if truthy x then Some x else None) | _ \<Rightarrow> None)"

fun get_action_meta :: "action_id \<Rightarrow> js \<Rightarrow> action_meta" where
  "get_action_meta Scale resource =
     \<lparr>am_label = ''Scale'', am_danger = False, am_confirm = None, am_message = None\<rparr>"
| "get_action_meta Restart resource =
     \<lparr>am_label = ''Restart'', am_danger = False, am_confirm = Some Confirm,
      am_message = Some ''This will perform a rolling restart, cycling all pods.''\<rparr>"
| "get_action_meta Delete resource =
     (let kind = js_text (coalesce (js_get resource ''kind'') (JStr ''resource''))
      in \<lparr>am_label = ''Delete'', am_danger = True, am_confirm = Some Destructive,
          am_message = Some (case first_owner resource of
            Some owner \<Rightarrow>
              ''This '' @ kind @ '' is managed by '' @ js_text (js_get owner ''kind'') @ ''/''
              @ js_text (js_get owner ''name'') @ '' and will be recreated after deletion.''
          | None \<Rightarrow>
              ''This will permanently delete ''
              @ quoted (js_text (js_get (js_get resource ''metadata'') ''name'')) @ ''.'')\<rparr>)"
| "get_action_meta Suspend resource =
     \<lparr>am_label = (if is_suspended resource then ''Resume'' else ''Suspend''), am_danger = False,
      am_confirm = Some Confirm,
      am_message = Some (if is_suspended resource then ''Resume scheduling/execution?''
                         else ''Suspend scheduling/execution?'')\<rparr>"
| "get_action_meta Trigger resource =
     \<lparr>am_label = ''Trigger Job'', am_danger = False, am_confirm = Some Confirm,
      am_message = Some (''Create a new Job from this CronJob'' @ [CHR 0x27] @ ''s template?'')\<rparr>"

text \<open>
  \<open>executeAction\<close>: an error thrown before any request, or the request with the message shown
  for its reply. A number is an integer here (a fractional or NaN count is not represented).
\<close>

definition execute_action ::
    "action_id \<Rightarrow> string \<Rightarrow> string \<Rightarrow> string \<Rightarrow> js \<Rightarrow> string + endpoint \<times> (js \<Rightarrow> string)" where
  "execute_action action kind namespace name params =
     (let path = ''/v1/resources/'' @ kind @ ''/'' @ namespace @ ''/'' @ name
      in case action of
           Scale \<Rightarrow>
             (case js_get params ''replicas'' of
                JNum n \<Rightarrow>
                  if n < 0 then Inl ''replicas must be a non-negative number''
                  else Inr (api_post (path @ ''/scale'') (JObj [(''replicas'', JNum n)]),
                            \<lambda>_. ''Scaled to '' @ string_of_int n @ '' replicas'')
              | _ \<Rightarrow> Inl ''replicas must be a non-negative number'')
         | Restart \<Rightarrow> Inr (api_post (path @ ''/restart'') JUndef, \<lambda>_. ''Rolling restart initiated'')
         | Delete \<Rightarrow> Inr (api_delete path, \<lambda>_. ''Deleted '' @ name)
         | Suspend \<Rightarrow>
             (case js_get params ''suspend'' of
                JBool b \<Rightarrow>
                  Inr (api_post (path @ ''/suspend'') (JObj [(''suspend'', JBool b)]),
                       \<lambda>_. if b then ''Suspended'' else ''Resumed'')
              | _ \<Rightarrow> Inl ''suspend must be a boolean'')
         | Trigger \<Rightarrow>
             Inr (api_post (path @ ''/trigger'') JUndef,
                  \<lambda>res. ''Job '' @ quoted (js_text (coalesce
                       (js_get (js_get (js_get res ''data'') ''metadata'') ''name'') (JStr ''unknown'')))
                       @ '' created''))"

section \<open>RBAC views\<close>

record policy_rule =
  pr_groups :: "string list option"
  pr_resources :: "string list option"
  pr_verbs :: "string list option"

record rbac_subject =
  su_kind :: string
  su_name :: string
  su_namespace :: "string option"

record binding_like =
  bl_name :: string
  bl_namespace :: "string option"
  bl_role_kind :: string
  bl_role_name :: string
  bl_subjects :: "rbac_subject list option"

text \<open>A role is what \<open>RoleLike.rules\<close> holds.\<close>

type_synonym role_map = "(string \<times> policy_rule list option) list"

record resolved_binding =
  rv_subject_kind :: string
  rv_subject_name :: string
  rv_subject_namespace :: "string option"
  rv_binding_kind :: string
  rv_binding_name :: string
  rv_binding_namespace :: "string option"
  rv_role_kind :: string
  rv_role_name :: string
  rv_rules_count :: nat

record effective_rule =
  er_groups :: "string list"
  er_resources :: "string list"
  er_verbs :: "string list"
  er_source :: string

definition opt_text :: "string option \<Rightarrow> string" where
  "opt_text o1 = (case o1 of None \<Rightarrow> ''undefined'' | Some s \<Rightarrow> s)"

definition resolve_role_href :: "string \<Rightarrow> string \<Rightarrow> string option \<Rightarrow> string" where
  "resolve_role_href role_kind role_name namespace =
     (let key = to_lower role_kind @ ''s''
      in case rec_get RESOURCE_DETAIL_PATHS key of
           None \<Rightarrow> ''#''
         | Some path \<Rightarrow>
             if path = [] then ''#''
             else if key \<in> set CLUSTER_SCOPED_KINDS then path @ ''/'' @ role_name
             else path @ ''/'' @ opt_text namespace @ ''/'' @ role_name)"

definition role_map_key :: "string \<Rightarrow> string option \<Rightarrow> string \<Rightarrow> string" where
  "role_map_key kind namespace name =
     (if kind = ''ClusterRole'' then ''cluster:'' @ name else opt_text namespace @ '':'' @ name)"

definition binding_role :: "binding_like \<Rightarrow> role_map \<Rightarrow> policy_rule list option" where
  "binding_role b roles =
     (case rec_get roles (role_map_key (bl_role_kind b) (bl_namespace b) (bl_role_name b)) of
        None \<Rightarrow> None | Some rules \<Rightarrow> rules)"

definition resolve_binding :: "role_map \<Rightarrow> binding_like \<Rightarrow> rbac_subject \<Rightarrow> resolved_binding" where
  "resolve_binding roles b s =
     \<lparr>rv_subject_kind = su_kind s, rv_subject_name = su_name s, rv_subject_namespace = su_namespace s,
      rv_binding_kind = (if has_text (bl_namespace b) then ''RoleBinding'' else ''ClusterRoleBinding''),
      rv_binding_name = bl_name b, rv_binding_namespace = bl_namespace b,
      rv_role_kind = bl_role_kind b, rv_role_name = bl_role_name b,
      rv_rules_count = (case binding_role b roles of None \<Rightarrow> 0 | Some rules \<Rightarrow> length rules)\<rparr>"

definition resolve_bindings :: "binding_like list \<Rightarrow> role_map \<Rightarrow> resolved_binding list" where
  "resolve_bindings bindings roles =
     concat (map (\<lambda>b. case bl_subjects b of None \<Rightarrow> []
                      | Some ss \<Rightarrow> map (resolve_binding roles b) ss) bindings)"

definition rule_source :: "binding_like \<Rightarrow> string" where
  "rule_source b =
     bl_role_kind b @ '': '' @ bl_role_name b @ '' (via '' @ bl_name b
     @ (if has_text (bl_namespace b) then '' in '' @ the (bl_namespace b) else []) @ '')''"

definition rules_of_binding :: "role_map \<Rightarrow> binding_like \<Rightarrow> effective_rule list" where
  "rules_of_binding roles b =
     (case binding_role b roles of
        None \<Rightarrow>
          [\<lparr>er_groups = [''*''], er_resources = [''(aggregated)''], er_verbs = [''(see child roles)''],
            er_source = rule_source b\<rparr>]
      | Some rules \<Rightarrow>
          map (\<lambda>r. \<lparr>er_groups = (case pr_groups r of None \<Rightarrow> [''''] | Some g \<Rightarrow> g),
                    er_resources = (case pr_resources r of None \<Rightarrow> [] | Some x \<Rightarrow> x),
                    er_verbs = (case pr_verbs r of None \<Rightarrow> [] | Some v \<Rightarrow> v),
                    er_source = rule_source b\<rparr>) rules)"

definition binds_subject :: "string \<Rightarrow> binding_like \<Rightarrow> bool" where
  "binds_subject subject b \<longleftrightarrow>
     (case bl_subjects b of None \<Rightarrow> False | Some ss \<Rightarrow> list_ex (\<lambda>s. su_name s = subject) ss)"

definition compute_effective_permissions ::
    "string \<Rightarrow> binding_like list \<Rightarrow> role_map \<Rightarrow> effective_rule list" where
  "compute_effective_permissions subject bindings roles =
     concat (map (rules_of_binding roles) (filter (binds_subject subject) bindings))"

section \<open>Permissions: what is granted\<close>

text \<open>The grants of a summary, cluster-wide and in a namespace.\<close>

definition cluster_grants :: "rbac_summary \<Rightarrow> string \<Rightarrow> string \<Rightarrow> bool" where
  "cluster_grants r kind verb \<longleftrightarrow> (\<exists>p. rb_cluster r = Some p \<and> verbs_allow p kind verb)"

definition ns_grants :: "rbac_summary \<Rightarrow> string \<Rightarrow> string \<Rightarrow> string \<Rightarrow> bool" where
  "ns_grants r ns kind verb \<longleftrightarrow>
     (\<exists>m p. rb_namespaces r = Some m \<and> rec_get m ns = Some p \<and> verbs_allow p kind verb)"

definition rbac_wf :: "rbac_summary \<Rightarrow> bool" where
  "rbac_wf r \<longleftrightarrow>
     (case rb_namespaces r of None \<Rightarrow> True
      | Some m \<Rightarrow> distinct (map fst m) \<and> list_all (\<lambda>p. fst p \<noteq> []) m)"

lemma can_perform_ns:
  "ns \<noteq> [] \<Longrightarrow> can_perform (Some r) kind verb ns = (cluster_grants r kind verb \<or> ns_grants r ns kind verb)"
  by (auto simp: can_perform_def cluster_grants_def ns_grants_def split: option.splits)

lemma can_perform_all:
  assumes "rbac_wf r"
  shows "can_perform (Some r) kind verb [] =
    (cluster_grants r kind verb \<or> (\<exists>ns. ns \<noteq> [] \<and> ns_grants r ns kind verb))"
proof -
  have "list_ex (\<lambda>p. verbs_allow (snd p) kind verb) m =
      (\<exists>ns p. ns \<noteq> [] \<and> rec_get m ns = Some p \<and> verbs_allow p kind verb)"
    if "rb_namespaces r = Some m" for m
  proof
    assume "list_ex (\<lambda>p. verbs_allow (snd p) kind verb) m"
    then obtain ns p where p: "(ns, p) \<in> set m" "verbs_allow p kind verb" by (auto simp: list_ex_iff)
    have "rec_get m ns = Some p" using assms that p(1) by (auto simp: rbac_wf_def intro: rec_get_in)
    moreover have "ns \<noteq> []" using assms that p(1) by (auto simp: rbac_wf_def list_all_iff)
    ultimately show "\<exists>ns p. ns \<noteq> [] \<and> rec_get m ns = Some p \<and> verbs_allow p kind verb"
      using p(2) by blast
  next
    assume "\<exists>ns p. ns \<noteq> [] \<and> rec_get m ns = Some p \<and> verbs_allow p kind verb"
    then obtain ns p where "(ns, p) \<in> set m" "verbs_allow p kind verb"
      using rec_get_Some_in by metis
    then show "list_ex (\<lambda>p. verbs_allow (snd p) kind verb) m" by (force simp: list_ex_iff)
  qed
  then show ?thesis
    by (auto simp: can_perform_def cluster_grants_def ns_grants_def split: option.splits)
qed


definition demo_rbac :: rbac_summary where
  "demo_rbac =
     \<lparr>rb_cluster = Some [(''nodes'', [''get''])],
      rb_namespaces = Some [(''web'', [(''pods'', [''*''])]), (''db'', [(''jobs'', [''update''])])]\<rparr>"


text \<open>One summary grants at least what another grants.\<close>

definition rbac_le :: "rbac_summary \<Rightarrow> rbac_summary \<Rightarrow> bool" where
  "rbac_le r r' \<longleftrightarrow>
     (\<forall>k v. cluster_grants r k v \<longrightarrow> cluster_grants r' k v)
     \<and> (\<forall>ns k v. ns_grants r ns k v \<longrightarrow> ns_grants r' ns k v)"

lemma can_perform_mono:
  assumes "rbac_wf r" "rbac_wf r'" "rbac_le r r'" "can_perform (Some r) kind verb ns"
  shows "can_perform (Some r') kind verb ns"
  using assms can_perform_all can_perform_ns unfolding rbac_le_def by (cases "ns = []") metis+

text \<open>The menu offers, in the order of the kind's actions, exactly those whose verb is permitted,
  and all of them while permissions are unknown; gaining grants only ever adds actions.\<close>

theorem visible_actions:
  assumes "rbac_wf r" and "rbac_wf r'" and "rbac_le r r'"
  shows "(get_visible_actions kind ns None = kind_actions kind)
    \<and> (get_visible_actions kind ns (Some r) =
      filter (\<lambda>a. can_perform (Some r) kind (ACTION_VERB_MAP a) ns) (kind_actions kind))
    \<and> (get_visible_actions kind ns (Some r) =
      filter (\<lambda>a. a \<in> set (get_visible_actions kind ns (Some r))) (get_visible_actions kind ns (Some r')))"
proof (intro conjI)
  show "get_visible_actions kind ns None = kind_actions kind"
    by (simp add: get_visible_actions_def Let_def)
  show v: "get_visible_actions kind ns (Some r) =
      filter (\<lambda>a. can_perform (Some r) kind (ACTION_VERB_MAP a) ns) (kind_actions kind)"
    by (simp add: get_visible_actions_def Let_def)
  show "get_visible_actions kind ns (Some r) =
      filter (\<lambda>a. a \<in> set (get_visible_actions kind ns (Some r))) (get_visible_actions kind ns (Some r'))"
    using can_perform_mono [OF assms]
    by (auto simp: get_visible_actions_def Let_def intro!: filter_cong)
qed

lemma visible_actions_witness:
  "get_visible_actions ''pods'' ''web'' (Some demo_rbac) = [Delete]
   \<and> get_visible_actions ''pods'' ''web'' None = [Delete]"
proof -
  have "rbac_wf demo_rbac" "rbac_le demo_rbac demo_rbac"
    by (simp_all add: rbac_wf_def demo_rbac_def rbac_le_def)
  from visible_actions [OF this(1,1,2)] show ?thesis
    by (simp add: kind_actions_def ACTIONS_BY_KIND_def can_perform_def demo_rbac_def verbs_allow_def)
qed

section \<open>Actions\<close>

lemma endpoint_method [simp]:
  "ri_method (snd (api_post p b)) = Some ''POST''" "ri_method (snd (api_delete p)) = Some ''DELETE''"
  by (simp_all add: api_post_def api_delete_def)

text \<open>What an action sends: an error is thrown before any request only for a count that is
  missing or negative or a suspend flag that is not a boolean; the only request that deletes is that
  of \<open>delete\<close>, the one action shown as dangerous and confirmed by typing the name; every action
  but scaling asks for confirmation.\<close>

theorem action_requests:
  "(isl (execute_action a kind ns name params) =
     (a = Scale \<and> (\<forall>n. js_get params ''replicas'' = JNum n \<longrightarrow> n < 0)
      \<or> a = Suspend \<and> (\<forall>b. js_get params ''suspend'' \<noteq> JBool b)))
    \<and> (\<not> isl (execute_action a kind ns name params) \<longrightarrow>
     (ri_method (snd (fst (projr (execute_action a kind ns name params)))) =
        Some (if am_confirm (get_action_meta a res) = Some Destructive then ''DELETE'' else ''POST'')))
    \<and> (am_danger (get_action_meta a res) = (am_confirm (get_action_meta a res) = Some Destructive))
    \<and> ((am_confirm (get_action_meta a res) = None) = (a = Scale))"
  by (intro conjI; cases a; auto simp: execute_action_def Let_def split: js.splits)

lemma action_requests_witness:
  "ri_method (snd (fst (projr (execute_action Delete ''pods'' ''web'' ''p1'' JUndef)))) = Some ''DELETE''"
  using action_requests [of Delete "''pods''" "''web''" "''p1''" JUndef JUndef]
  by (simp add: execute_action_def Let_def)

section \<open>RBAC views\<close>

text \<open>The lookup key of a role identifies its scope and name, for namespaces without a colon
  other than one called \<open>cluster\<close>.\<close>

theorem role_map_key_inj:
  assumes "role_map_key k1 ns1 n1 = role_map_key k2 ns2 n2"
    and "CHR '':'' \<notin> set (opt_text ns1)" and "CHR '':'' \<notin> set (opt_text ns2)"
    and "opt_text ns1 \<noteq> ''cluster''" and "opt_text ns2 \<noteq> ''cluster''"
  shows "n1 = n2 \<and> (k1 = ''ClusterRole'') = (k2 = ''ClusterRole'')
    \<and> (k1 \<noteq> ''ClusterRole'' \<longrightarrow> opt_text ns1 = opt_text ns2)"
proof -
  have key: "js_split CHR '':'' (p @ CHR '':'' # n) = p # js_split CHR '':'' n" if "CHR '':'' \<notin> set p" for p n
    using that by (rule js_split_append_sep)
  have inj: "p = q \<and> m = n" if "p @ CHR '':'' # m = q @ CHR '':'' # n" "CHR '':'' \<notin> set p" "CHR '':'' \<notin> set q"
    for p q m n :: string
    using that key [of p m] key [of q n] by (metis list.inject same_append_eq)
  let ?p = "\<lambda>k ns. if k = ''ClusterRole'' then ''cluster'' else opt_text ns"
  have "?p k1 ns1 = ?p k2 ns2 \<and> n1 = n2"
    by (rule inj) (use assms in \<open>simp_all add: role_map_key_def split: if_splits\<close>)
  then show ?thesis using assms(4,5) by (auto split: if_splits)
qed

lemma role_map_key_inj_witness:
  "role_map_key ''Role'' (Some ''web'') ''r'' \<noteq> role_map_key ''ClusterRole'' (Some ''web'') ''r''"
  using role_map_key_inj [of "''Role''" "Some ''web''" "''r''" "''ClusterRole''" "Some ''web''" "''r''"]
  by (auto simp: opt_text_def)

text \<open>A role in a namespace called \<open>cluster\<close> shares its key with the cluster role of its name.\<close>

lemma role_map_key_collision:
  "role_map_key ''Role'' (Some ''cluster'') n = role_map_key ''ClusterRole'' None n"
  by (simp add: role_map_key_def opt_text_def)

definition names_once :: "string \<Rightarrow> binding_like \<Rightarrow> bool" where
  "names_once subject b \<longleftrightarrow>
     (case bl_subjects b of None \<Rightarrow> True
      | Some ss \<Rightarrow> length (filter (\<lambda>s. su_name s = subject) ss) \<le> 1)"

text \<open>The two RBAC views agree: when every binding of a subject names it once and its role has
  inline rules, the subject's effective rules are as many as the rule counts that the bindings
  table shows on its rows.\<close>

theorem rbac_views_agree:
  assumes "\<forall>b \<in> set bindings. names_once subject b"
    and "\<forall>b \<in> set bindings. binds_subject subject b \<longrightarrow> binding_role b roles \<noteq> None"
  shows "length (compute_effective_permissions subject bindings roles) =
    sum_list (map rv_rules_count
      (filter (\<lambda>v. rv_subject_name v = subject) (resolve_bindings bindings roles)))"
  using assms
proof (induction bindings)
  case Nil
  show ?case by (simp add: compute_effective_permissions_def resolve_bindings_def)
next
  case (Cons b bs)
  have hd: "length (if binds_subject subject b then rules_of_binding roles b else []) =
    sum_list (map rv_rules_count (filter (\<lambda>v. rv_subject_name v = subject)
      (case bl_subjects b of None \<Rightarrow> [] | Some ss \<Rightarrow> map (resolve_binding roles b) ss)))"
  proof (cases "bl_subjects b")
    case None then show ?thesis by (simp add: binds_subject_def)
  next
    case (Some ss)
    let ?hits = "filter (\<lambda>s. su_name s = subject) ss"
    have f: "filter (\<lambda>v. rv_subject_name v = subject) (map (resolve_binding roles b) ss)
        = map (resolve_binding roles b) ?hits"
      by (simp add: filter_map comp_def resolve_binding_def)
    have le: "length ?hits \<le> 1" using Cons.prems(1) Some by (simp add: names_once_def)
    show ?thesis
    proof (cases "?hits")
      case Nil
      then have "\<not> binds_subject subject b"
        using Some by (auto simp: binds_subject_def list_ex_iff filter_empty_conv)
      then show ?thesis using Some f Nil by simp
    next
      case (Cons h hs)
      then have hs: "hs = []" using le by simp
      have "h \<in> set ss" "su_name h = subject" using arg_cong [OF Cons, of set] by auto
      then have bs: "binds_subject subject b" using Some by (auto simp: binds_subject_def list_ex_iff)
      then obtain rules where "binding_role b roles = Some rules" using Cons.prems(2) by auto
      then show ?thesis using Some f Cons hs bs by (simp add: rules_of_binding_def resolve_binding_def)
    qed
  qed
  show ?case using Cons.IH Cons.prems hd
    by (simp add: compute_effective_permissions_def resolve_bindings_def split: if_splits)
qed

definition demo_binding :: binding_like where
  "demo_binding =
     \<lparr>bl_name = ''b'', bl_namespace = Some ''web'', bl_role_kind = ''Role'', bl_role_name = ''r'',
      bl_subjects = Some [\<lparr>su_kind = ''User'', su_name = ''ann'', su_namespace = None\<rparr>]\<rparr>"

definition demo_roles :: role_map where
  "demo_roles = [(''web:r'', Some [\<lparr>pr_groups = None, pr_resources = Some [''pods''], pr_verbs = None\<rparr>])]"

lemma rbac_views_agree_witness:
  "length (compute_effective_permissions ''ann'' [demo_binding] demo_roles) = 1
   \<and> sum_list (map rv_rules_count (resolve_bindings [demo_binding] demo_roles)) = 1"
proof -
  have h: "\<forall>b \<in> set [demo_binding]. names_once ''ann'' b"
    "\<forall>b \<in> set [demo_binding]. binds_subject ''ann'' b \<longrightarrow> binding_role b demo_roles \<noteq> None"
    by (simp_all add: names_once_def demo_binding_def binding_role_def demo_roles_def role_map_key_def opt_text_def)
  show ?thesis using rbac_views_agree [OF h]
    by (simp add: resolve_bindings_def resolve_binding_def demo_binding_def binding_role_def
        demo_roles_def role_map_key_def opt_text_def)
qed

end
