(* ===== verification/Api_Proxy.thy ===== *)
theory Api_Proxy
  imports Http_Client
begin

text \<open>
  The server side of the frontend: the catch-all proxy \<open>routes/api/[...path].ts\<close> and the cookie
  exchange \<open>routes/api/auth/oidc-token-exchange.ts\<close>.
  The routed path and the backend's outcome are arguments. The fetch of a URL is
  modelled as far as the URL standard says which path the request line gets.
\<close>

section \<open>The catch-all proxy\<close>

definition FORWARD_HEADERS :: "string list" where
  "FORWARD_HEADERS =
     [''authorization'', ''content-type'', ''accept'', ''x-requested-with'', ''x-cluster-id'', ''cookie'']"

definition HOP_BY_HOP_HEADERS :: "string list" where
  "HOP_BY_HOP_HEADERS =
     [''connection'', ''keep-alive'', ''proxy-authenticate'', ''proxy-authorization'', ''te'',
      ''trailers'', ''transfer-encoding'', ''upgrade'']"

text \<open>The regular expression \<open>/\.\.|\/\/|%2e/i\<close>.\<close>

definition suspicious_path :: "string \<Rightarrow> bool" where
  "suspicious_path p \<longleftrightarrow>
     str_includes p ''..'' \<or> str_includes p ''//'' \<or> str_includes (to_lower p) ''%2e''"

definition valid_path :: "string \<Rightarrow> bool" where
  "valid_path p \<longleftrightarrow> starts_with p ''v1/'' \<and> \<not> suspicious_path p"

text \<open>\<open>/^v1\/auth\/oidc\/[^/]+\/(login|callback)$/\<close>.\<close>

definition is_oidc_path :: "string \<Rightarrow> bool" where
  "is_oidc_path p \<longleftrightarrow>
     (case js_split CHR ''/'' p of
        [a, b, c, x, d] \<Rightarrow>
          a = ''v1'' \<and> b = ''auth'' \<and> c = ''oidc'' \<and> x \<noteq> [] \<and> (d = ''login'' \<or> d = ''callback'')
      | _ \<Rightarrow> False)"

record proxy_request =
  px_method :: string
  px_path :: string
  px_search :: string
  px_headers :: headers
  px_body :: "string option"

record backend_fetch =
  bf_url :: string
  bf_method :: string
  bf_headers :: headers
  bf_body :: "string option"
  bf_manual_redirect :: bool

datatype backend_outcome =
    BackendReply nat string headers string
  | BackendTimeout
  | BackendError

record proxy_response =
  pr_status :: nat
  pr_headers :: headers
  pr_body :: string

definition json_error :: "nat \<Rightarrow> (string \<times> js) list \<Rightarrow> proxy_response" where
  "json_error status rest =
     \<lparr>pr_status = status, pr_headers = [(''content-type'', ''application/json'')],
      pr_body = the (json_stringify (JObj [(''error'', JObj ((''code'', JNum (int status)) # rest))]))\<rparr>"

definition forward_headers :: "headers \<Rightarrow> headers" where
  "forward_headers h =
     fold (\<lambda>name acc. case headers_get h name of None \<Rightarrow> acc
           | Some v \<Rightarrow> if v = [] then acc else headers_set acc name v) FORWARD_HEADERS []"

definition strip_hop_by_hop :: "headers \<Rightarrow> headers" where
  "strip_hop_by_hop h = fold (\<lambda>name acc. rec_del acc (to_lower name)) HOP_BY_HOP_HEADERS h"

definition backend_fetch_of :: "string \<Rightarrow> proxy_request \<Rightarrow> backend_fetch" where
  "backend_fetch_of backend_url r =
     \<lparr>bf_url = backend_url @ ''/api/'' @ px_path r @ px_search r, bf_method = px_method r,
      bf_headers = forward_headers (px_headers r), bf_body = px_body r,
      bf_manual_redirect = is_oidc_path (px_path r)\<rparr>"

definition respond :: "backend_outcome \<Rightarrow> proxy_response" where
  "respond out =
     (case out of
        BackendReply status status_text h body \<Rightarrow>
          \<lparr>pr_status = status, pr_headers = strip_hop_by_hop h, pr_body = body\<rparr>
      | BackendTimeout \<Rightarrow>
          json_error 504 [(''message'', JStr ''Gateway timeout''),
            (''detail'', JStr ''The backend did not respond in time'')]
      | BackendError \<Rightarrow>
          json_error 502 [(''message'', JStr ''Backend unavailable''),
            (''detail'', JStr ''Could not connect to the k8sCenter backend'')])"

text \<open>
  \<open>proxyRequest\<close>: the requests it sends to the backend and its response, for a backend that
  answers as \<open>out\<close> says.
\<close>

definition proxy_request :: "string \<Rightarrow> (backend_fetch \<Rightarrow> backend_outcome) \<Rightarrow> proxy_request \<Rightarrow>
    backend_fetch list \<times> proxy_response" where
  "proxy_request backend_url out r =
     (if \<not> valid_path (px_path r) then
        ([], json_error 400 [(''message'', JStr ''Invalid API path'')])
      else (let f = backend_fetch_of backend_url r in ([f], respond (out f))))"

section \<open>The OIDC token exchange\<close>

text \<open>\<open>parseCookies\<close>.\<close>

definition parse_cookies :: "string \<Rightarrow> (string \<times> string) list" where
  "parse_cookies header =
     fold (\<lambda>pair cookies.
        case js_split CHR ''='' (js_trim pair) of
          [] \<Rightarrow> cookies
        | key # rest \<Rightarrow> if key = [] then cookies else rec_set cookies key (js_join ''='' rest))
       (js_split CHR '';'' header) []"

definition clear_cookie :: string where
  "clear_cookie =
     ''oidc_access_token=; Path=/api/auth/oidc-token-exchange; HttpOnly; SameSite=Lax; Max-Age=0''"

definition oidc_token_exchange :: "headers \<Rightarrow> proxy_response" where
  "oidc_token_exchange h =
     (if \<not> has_text (headers_get h ''x-requested-with'') then
        json_error 403 [(''message'', JStr ''Missing X-Requested-With header'')]
      else
        (let header = (case headers_get h ''cookie'' of None \<Rightarrow> [] | Some v \<Rightarrow> v);
             access_token = rec_get (parse_cookies header) ''oidc_access_token''
         in if \<not> has_text access_token then
              json_error 401 [(''message'', JStr ''No OIDC token available'')]
            else
              \<lparr>pr_status = 200,
               pr_headers = [(''content-type'', ''application/json''), (''set-cookie'', clear_cookie)],
               pr_body = the (json_stringify
                 (JObj [(''data'', JObj [(''accessToken'', JStr (the access_token))])]))\<rparr>))"

section \<open>The path a request line gets\<close>

text \<open>
  The URL standard's path parser for a special URL: ASCII tab, line feed and carriage return are
  removed, trailing control characters and spaces are cut, the path ends at the first question
  mark or hash, slashes and backslashes separate segments, a double-dot segment (with each dot
  also as \<open>%2e\<close>) removes its predecessor, a single-dot segment is dropped.
\<close>

definition tab_or_newline :: "char \<Rightarrow> bool" where
  "tab_or_newline c \<longleftrightarrow> char_code c \<in> {9, 10, 13}"

definition cut_trailing :: "string \<Rightarrow> string" where
  "cut_trailing s = rev (dropWhile (\<lambda>c. char_code c \<le> 32) (rev s))"

definition url_clean :: "string \<Rightarrow> string" where
  "url_clean s = filter (\<lambda>c. \<not> tab_or_newline c) (cut_trailing s)"

definition raw_segments :: "string \<Rightarrow> string list" where
  "raw_segments s =
     js_split CHR ''/''
       (map (\<lambda>c. if char_code c = 92 then CHR ''/'' else c)
         (takeWhile (\<lambda>c. c \<noteq> CHR ''?'' \<and> c \<noteq> CHR ''#'') s))"

definition single_dot :: "string \<Rightarrow> bool" where
  "single_dot w \<longleftrightarrow> to_lower w \<in> set [''.'', ''%2e'']"

definition double_dot :: "string \<Rightarrow> bool" where
  "double_dot w \<longleftrightarrow> to_lower w \<in> set [''..'', ''.%2e'', ''%2e.'', ''%2e%2e'']"

definition push_segment :: "string \<Rightarrow> string list \<Rightarrow> string list" where
  "push_segment w acc =
     (if double_dot w then butlast acc else if single_dot w then acc else acc @ [w])"

text \<open>The path segments that the target after the origin's slash parses to.\<close>

definition request_segments :: "string \<Rightarrow> string list" where
  "request_segments target = fold push_segment (raw_segments (url_clean target)) []"

section \<open>The proxy is confined to the backend's API\<close>

lemma str_includes_sub: "str_includes s q \<Longrightarrow> t = u @ s @ v \<Longrightarrow> str_includes t q"
  using str_includes_append by blast

lemma str_includes_trans: "str_includes s q \<Longrightarrow> str_includes q r \<Longrightarrow> str_includes s r"
  unfolding str_includes_iff by (metis append.assoc)

lemma str_includes_Nil [simp]: "str_includes s []"
  by (cases s) simp_all

lemma js_split_includes: "w \<in> set (js_split c s) \<Longrightarrow> str_includes s w"
proof (induction s arbitrary: w)
  case (Cons x s)
  have sub: "str_includes s v \<Longrightarrow> str_includes (x # s) v" for v by simp
  show ?case
  proof (cases "x = c")
    case True then show ?thesis using Cons.IH [of w] Cons.prems sub by auto
  next
    case False
    obtain h hs where h: "js_split c s = h # hs" using js_split_ne [of c s] by (cases "js_split c s") auto
    have "\<exists>v. s = h @ v" using js_join_split [of c s] h by (metis js_join_Cons)
    then have "str_includes (x # s) (x # h)" unfolding str_includes_iff by (metis append_Cons append_Nil)
    then show ?thesis using Cons False h sub by auto
  qed
qed simp

definition unbackslash :: "char \<Rightarrow> char" where
  "unbackslash c = (if char_code c = 92 then CHR ''/'' else c)"

lemma raw_segments_alt:
  "raw_segments s = js_split CHR ''/'' (map unbackslash (takeWhile (\<lambda>c. c \<noteq> CHR ''?'' \<and> c \<noteq> CHR ''#'') s))"
  by (simp add: raw_segments_def unbackslash_def cong: map_cong)

lemma map_unbackslash_eq: "map unbackslash q' = q \<Longrightarrow> CHR ''/'' \<notin> set q \<Longrightarrow> q' = q"
  by (induction q' arbitrary: q) (auto simp: unbackslash_def split: if_splits)

lemma includes_unbackslash:
  assumes "str_includes (map unbackslash x) q" "CHR ''/'' \<notin> set q"
  shows "str_includes x q"
proof -
  obtain u v where "map unbackslash x = u @ q @ v" using assms(1) by (auto simp: str_includes_iff)
  then obtain u' x' where x: "x = u' @ x'" and m: "q @ v = map unbackslash x'"
    unfolding map_eq_append_conv by metis
  from m [symmetric] obtain q' v' where "x' = q' @ v'" "map unbackslash q' = q"
    unfolding map_eq_append_conv by metis
  with x have "x = u' @ q' @ v'" "map unbackslash q' = q" by simp_all
  then show ?thesis using map_unbackslash_eq [OF _ assms(2)] str_includes_iff by blast
qed

lemma to_lower_includes: "str_includes s q \<Longrightarrow> str_includes (to_lower s) (to_lower q)"
  unfolding str_includes_iff to_lower_def by (metis map_append)

lemma lower_dot: "lower_char c = CHR ''.'' \<Longrightarrow> c = CHR ''.''"
proof -
  assume a: "lower_char c = CHR ''.''"
  have "char_code (lower_char c) = 46" unfolding a by (simp add: char_code_def)
  then have "char_code c = 46" using char_code_less [of c]
    by (auto simp: lower_char_def Let_def char_code_char_of split: if_splits)
  then have "char_code c = char_code CHR ''.''" by (simp add: char_code_def)
  then show ?thesis by (simp only: char_code_inj)
qed

lemma double_dot_suspicious:
  assumes "double_dot w" shows "w = ''..'' \<or> str_includes (to_lower w) ''%2e''"
proof -
  have "to_lower w = ''..'' \<Longrightarrow> w = ''..''"
    by (auto simp: to_lower_def map_eq_Cons_conv dest: lower_dot)
  then show ?thesis using assms by (auto simp: double_dot_def)
qed

lemma push_no_double:
  "\<forall>w \<in> set ws. \<not> double_dot w \<Longrightarrow> fold push_segment ws acc = acc @ filter (\<lambda>w. \<not> single_dot w) ws"
  by (induction ws arbitrary: acc) (auto simp: push_segment_def)

lemma unsuspicious_segments:
  assumes "\<not> suspicious_path x"
  shows "\<forall>w \<in> set (js_split CHR ''/'' (map unbackslash x)). \<not> double_dot w"
proof
  fix w assume w: "w \<in> set (js_split CHR ''/'' (map unbackslash x))"
  have "str_includes x w"
    using includes_unbackslash [OF js_split_includes [OF w] js_split_no_sep [OF w]] .
  then show "\<not> double_dot w"
    using assms double_dot_suspicious [of w] str_includes_trans [OF to_lower_includes [of x w]]
    by (auto simp: suspicious_path_def)
qed

lemma suspicious_prefix: "\<not> suspicious_path (u @ x @ v) \<Longrightarrow> \<not> suspicious_path x"
  using str_includes_append [of x _ u v] str_includes_append [of "to_lower x" _ "to_lower u" "to_lower v"]
  by (auto simp: suspicious_path_def to_lower_append)

lemma cut_trailing_prefix: "\<exists>t. s = cut_trailing s @ t"
proof -
  have "rev s = takeWhile (\<lambda>c. char_code c \<le> 32) (rev s) @ dropWhile (\<lambda>c. char_code c \<le> 32) (rev s)" by simp
  then have "s = rev (dropWhile (\<lambda>c. char_code c \<le> 32) (rev s)) @ rev (takeWhile (\<lambda>c. char_code c \<le> 32) (rev s))"
    by (metis rev_append rev_rev_ident)
  then show ?thesis unfolding cut_trailing_def by blast
qed

lemma cut_trailing_append:
  assumes "a \<noteq> []" "32 < char_code (last a)"
  shows "cut_trailing (a @ s) = a @ cut_trailing s"
proof -
  obtain b x where a: "a = b @ [x]" using assms(1) by (cases a rule: rev_cases) auto
  then have "32 < char_code x" using assms(2) by simp
  then show ?thesis unfolding cut_trailing_def a
    by (simp add: dropWhile_append)
qed

definition query_or_empty :: "string \<Rightarrow> bool" where
  "query_or_empty s \<longleftrightarrow> s = [] \<or> (\<exists>q. s = CHR ''?'' # q)"

text \<open>The part of the target after a clean prefix stays a prefix of the path.\<close>

lemma path_part:
  assumes clean: "\<forall>c \<in> set p. \<not> tab_or_newline c" and q: "query_or_empty search"
  shows "\<exists>t. p = takeWhile (\<lambda>c. c \<noteq> CHR ''?'' \<and> c \<noteq> CHR ''#'')
    (filter (\<lambda>c. \<not> tab_or_newline c) (cut_trailing (p @ search))) @ t"
proof -
  let ?P = "\<lambda>c. c \<noteq> CHR ''?'' \<and> c \<noteq> CHR ''#''"
  obtain t where t: "p @ search = cut_trailing (p @ search) @ t" using cut_trailing_prefix by blast
  then have "\<exists>u. cut_trailing (p @ search) @ u = p \<or> cut_trailing (p @ search) = p @ u \<and> u @ t = search"
    unfolding append_eq_append_conv2 by metis
  then obtain u where "cut_trailing (p @ search) @ u = p \<or> cut_trailing (p @ search) = p @ u \<and> u @ t = search" ..
  then show ?thesis
  proof
    assume a: "cut_trailing (p @ search) @ u = p"
    then have "filter (\<lambda>c. \<not> tab_or_newline c) (cut_trailing (p @ search)) = cut_trailing (p @ search)"
      using clean by (metis UnI1 filter_True set_append)
    then show ?thesis using a by (metis append.assoc takeWhile_dropWhile_id)
  next
    assume a: "cut_trailing (p @ search) = p @ u \<and> u @ t = search"
    have f: "filter (\<lambda>c. \<not> tab_or_newline c) (p @ u) = p @ filter (\<lambda>c. \<not> tab_or_newline c) u"
      using clean by (simp add: filter_True)
    have "u = [] \<or> (\<exists>r. filter (\<lambda>c. \<not> tab_or_newline c) u = CHR ''?'' # r)"
      using q a by (cases u) (auto simp: query_or_empty_def tab_or_newline_def char_code_def)
    then have "takeWhile ?P (p @ filter (\<lambda>c. \<not> tab_or_newline c) u) = takeWhile ?P p"
      by (induction p) auto
    then show ?thesis using a f by (metis takeWhile_dropWhile_id)
  qed
qed

text \<open>C2: The proxy cannot be steered off the backend's API: for every path it accepts that holds no
  tab or newline, whatever dots, percent signs, backslashes, queries or spaces it contains, the
  request line that the URL parser makes of the target stays under \<open>/api/v1\<close>.\<close>

theorem proxy_confined:
  assumes "valid_path p" and "\<forall>c \<in> set p. \<not> tab_or_newline c" and "query_or_empty search"
  shows "take 2 (request_segments (''api/'' @ p @ search)) = [''api'', ''v1'']"
proof -
  obtain p2 where p: "p = ''v1/'' @ p2" using assms(1) by (auto simp: valid_path_def starts_with_iff)
  let ?P = "\<lambda>c. c \<noteq> CHR ''?'' \<and> c \<noteq> CHR ''#''"
  let ?rest = "filter (\<lambda>c. \<not> tab_or_newline c) (cut_trailing (p2 @ search))"
  have "cut_trailing (''api/v1/'' @ p2 @ search) = ''api/v1/'' @ cut_trailing (p2 @ search)"
    by (rule cut_trailing_append) (simp_all add: char_code_def)
  then have "url_clean (''api/'' @ p @ search) = ''api/v1/'' @ ?rest"
    by (simp add: p url_clean_def tab_or_newline_def char_code_def)
  then have raw: "raw_segments (url_clean (''api/'' @ p @ search)) =
      ''api'' # ''v1'' # js_split CHR ''/'' (map unbackslash (takeWhile ?P ?rest))"
    by (simp add: raw_segments_alt unbackslash_def char_code_def)
  obtain t where "p2 = takeWhile ?P ?rest @ t"
    using path_part [of p2 search] assms p by auto
  then have "\<not> suspicious_path (takeWhile ?P ?rest)"
    using assms(1) suspicious_prefix [of "''v1/''" "takeWhile ?P ?rest" t] p by (simp add: valid_path_def)
  then have "request_segments (''api/'' @ p @ search) =
      fold push_segment [''api'', ''v1''] []
      @ filter (\<lambda>w. \<not> single_dot w) (js_split CHR ''/'' (map unbackslash (takeWhile ?P ?rest)))"
    using unsuspicious_segments push_no_double unfolding request_segments_def raw
    by (simp del: js_split.simps)
  moreover have "fold push_segment [''api'', ''v1''] [] = [''api'', ''v1'']" by code_simp
  ultimately show ?thesis by simp
qed

lemma proxy_confined_witness:
  "take 2 (request_segments (''api/'' @ ''v1/x/./%2fy'' @ ''?q=..'')) = [''api'', ''v1'']"
  by (rule proxy_confined)
    (simp_all add: valid_path_def suspicious_path_def tab_or_newline_def char_code_def
      query_or_empty_def, code_simp)

text \<open>A tab between two dots passes the check and is removed by the URL parser.\<close>

lemma proxy_tab_escape:
  "valid_path (''v1/.'' @ [char_of (9::nat)] @ ''./x'')
   \<and> request_segments (''api/'' @ (''v1/.'' @ [char_of (9::nat)] @ ''./x'')) = [''api'', ''x'']"
  by code_simp

section \<open>Headers, redirects and errors\<close>

lemma headers_get_del:
  "headers_get (rec_del h (to_lower n)) m = (if to_lower m = to_lower n then None else headers_get h m)"
  by (simp add: headers_get_def)

lemma forward_fold:
  "headers_get (fold (\<lambda>name acc. case headers_get h name of None \<Rightarrow> acc
      | Some v \<Rightarrow> if v = [] then acc else headers_set acc name v) names acc) n =
   (if to_lower n \<in> set (map to_lower names) \<and> has_text (headers_get h n) then headers_get h n
    else headers_get acc n)"
proof (induction names arbitrary: acc)
  case (Cons x xs)
  have same: "to_lower n = to_lower x \<Longrightarrow> headers_get h n = headers_get h x"
    by (simp add: headers_get_def)
  show ?case using Cons same
    by (cases "headers_get h x") (auto simp: has_text_iff)
qed simp

lemma strip_fold:
  "headers_get (fold (\<lambda>name acc. rec_del acc (to_lower name)) names h) n =
   (if to_lower n \<in> set (map to_lower names) then None else headers_get h n)"
  by (induction names arbitrary: h) (auto simp: headers_get_del)

lemma header_lists_lower:
  "map to_lower FORWARD_HEADERS = FORWARD_HEADERS" "map to_lower HOP_BY_HOP_HEADERS = HOP_BY_HOP_HEADERS"
  by code_simp+

text \<open>What a fetch carries of the client's request, and what a response keeps of the backend's.\<close>

definition fetch_ok :: "string \<Rightarrow> proxy_request \<Rightarrow> backend_fetch \<Rightarrow> bool" where
  "fetch_ok b r f \<longleftrightarrow>
     bf_url f = b @ ''/api/'' @ px_path r @ px_search r \<and> bf_method f = px_method r
     \<and> bf_body f = px_body r \<and> bf_manual_redirect f = is_oidc_path (px_path r)
     \<and> (\<forall>n. headers_get (bf_headers f) n =
            (if to_lower n \<in> set FORWARD_HEADERS \<and> has_text (headers_get (px_headers r) n)
             then headers_get (px_headers r) n else None))"

definition response_ok :: "backend_outcome \<Rightarrow> proxy_response \<Rightarrow> bool" where
  "response_ok out res \<longleftrightarrow>
     (case out of
        BackendReply st tx h body \<Rightarrow>
          pr_status res = st \<and> pr_body res = body
          \<and> (\<forall>n. headers_get (pr_headers res) n =
                (if to_lower n \<in> set HOP_BY_HOP_HEADERS then None else headers_get h n))
      | BackendTimeout \<Rightarrow> pr_status res = 504
      | BackendError \<Rightarrow> pr_status res = 502)"

lemma fetch_of_ok: "fetch_ok b r (backend_fetch_of b r)"
  unfolding fetch_ok_def backend_fetch_of_def forward_headers_def
  by (simp add: forward_fold header_lists_lower, simp add: headers_get_def)

lemma respond_ok: "response_ok out (respond out)"
  unfolding response_ok_def respond_def strip_hop_by_hop_def
  by (simp add: strip_fold header_lists_lower json_error_def split: backend_outcome.splits)

text \<open>C40: A rejected path costs no backend request and gets status 400; an accepted one costs exactly
  one, which carries, of the client's headers, exactly the allowlisted ones with a value; its
  reply passes through with the hop-by-hop headers removed and every other header kept, a timeout
  becomes 504 and any other failure 502.\<close>

theorem proxy_behaviour:
  "case proxy_request b out r of
     ([], res) \<Rightarrow> \<not> valid_path (px_path r) \<and> pr_status res = 400
   | (f # fs, res) \<Rightarrow>
       valid_path (px_path r) \<and> fs = [] \<and> fetch_ok b r f \<and> response_ok (out f) res"
  by (simp add: proxy_request_def Let_def fetch_of_ok respond_ok json_error_def)

text \<open>The redirect of a login flow is left to the browser exactly on the two OIDC endpoints of one
  provider: \<open>v1/auth/oidc/<provider>/login\<close> and \<open>/callback\<close>, with a provider id of one
  non-empty segment.\<close>

theorem manual_redirect_paths:
  "is_oidc_path p = (\<exists>x. x \<noteq> [] \<and> CHR ''/'' \<notin> set x
     \<and> (p = ''v1/auth/oidc/'' @ x @ ''/login'' \<or> p = ''v1/auth/oidc/'' @ x @ ''/callback''))"
proof
  assume "is_oidc_path p"
  then obtain x d where sp: "js_split CHR ''/'' p = [''v1'', ''auth'', ''oidc'', x, d]" "x \<noteq> []"
    "d = ''login'' \<or> d = ''callback''"
    by (auto simp: is_oidc_path_def split: list.splits)
  have "p = ''v1/auth/oidc/'' @ x @ ''/'' @ d" using js_join_split [of "CHR ''/''" p] sp(1) by simp
  moreover have "CHR ''/'' \<notin> set x" using sp(1) by (intro js_split_no_sep [of _ _ p]) simp
  ultimately show "\<exists>x. x \<noteq> [] \<and> CHR ''/'' \<notin> set x
     \<and> (p = ''v1/auth/oidc/'' @ x @ ''/login'' \<or> p = ''v1/auth/oidc/'' @ x @ ''/callback'')"
    using sp(2,3) by auto
next
  assume "\<exists>x. x \<noteq> [] \<and> CHR ''/'' \<notin> set x
     \<and> (p = ''v1/auth/oidc/'' @ x @ ''/login'' \<or> p = ''v1/auth/oidc/'' @ x @ ''/callback'')"
  then show "is_oidc_path p" by (auto simp: is_oidc_path_def js_split_append_sep)
qed

section \<open>The cookie exchange\<close>

text \<open>A cookie header as browsers write it: pairs joined by a semicolon and a space.\<close>

definition cookie_header :: "(string \<times> string) list \<Rightarrow> string" where
  "cookie_header cs = js_join ''; '' (map (\<lambda>(k, v). k @ ''='' @ v) cs)"

definition cookie_ok :: "string \<times> string \<Rightarrow> bool" where
  "cookie_ok p \<longleftrightarrow>
     fst p \<noteq> [] \<and> list_all (\<lambda>c. c \<noteq> CHR '';'' \<and> \<not> is_space c) (fst p @ snd p) \<and> CHR ''='' \<notin> set (fst p)"

lemma dropWhile_no_space: "list_all (\<lambda>c. \<not> is_space c) w \<Longrightarrow> dropWhile is_space w = w"
  by (cases w) auto

lemma js_trim_plain:
  assumes "list_all (\<lambda>c. \<not> is_space c) w"
  shows "js_trim w = w" "js_trim (CHR '' '' # w) = w"
proof -
  have "list_all (\<lambda>c. \<not> is_space c) (rev w)" using assms by (simp add: list_all_iff)
  then have "dropWhile is_space (rev w) = rev w" "dropWhile is_space w = w"
    using assms by (simp_all add: dropWhile_no_space)
  moreover have "is_space CHR '' ''" by (simp add: is_space_def char_code_def)
  ultimately show "js_trim w = w" "js_trim (CHR '' '' # w) = w" by (simp_all add: js_trim_def)
qed

definition cookie_text :: "string \<times> string \<Rightarrow> string" where
  "cookie_text p = fst p @ ''='' @ snd p"

lemma cookie_header_alt: "cookie_header cs = js_join ''; '' (map cookie_text cs)"
  by (simp add: cookie_header_def cookie_text_def split_def cong: map_cong)

lemma cookie_text_props:
  assumes "cookie_ok p"
  shows "CHR '';'' \<notin> set (cookie_text p)" "list_all (\<lambda>c. \<not> is_space c) (cookie_text p)"
    "js_split CHR ''='' (cookie_text p) = fst p # js_split CHR ''='' (snd p)"
proof -
  have "\<not> is_space CHR ''=''" by (simp add: is_space_def char_code_def)
  then show "CHR '';'' \<notin> set (cookie_text p)" "list_all (\<lambda>c. \<not> is_space c) (cookie_text p)"
    using assms by (auto simp: cookie_ok_def cookie_text_def list_all_iff)
  show "js_split CHR ''='' (cookie_text p) = fst p # js_split CHR ''='' (snd p)"
    using assms by (simp add: cookie_text_def cookie_ok_def js_split_append_sep)
qed

lemma split_cookie_header:
  "(\<forall>p \<in> set cs. cookie_ok p) \<Longrightarrow>
   js_split CHR '';'' (cookie_header cs) =
     (case cs of [] \<Rightarrow> [[]] | p # ps \<Rightarrow> cookie_text p # map (\<lambda>q. CHR '' '' # cookie_text q) ps)"
proof (induction cs)
  case (Cons p ps)
  then have p: "CHR '';'' \<notin> set (cookie_text p)" by (simp add: cookie_text_props)
  show ?case
  proof (cases ps)
    case Nil then show ?thesis using p by (simp add: cookie_header_alt js_split_atom)
  next
    case (Cons q qs)
    have "cookie_header (p # ps) = cookie_text p @ CHR '';'' # CHR '' '' # cookie_header ps"
      using Cons by (simp add: cookie_header_alt)
    then have "js_split CHR '';'' (cookie_header (p # ps))
        = cookie_text p # js_split CHR '';'' (CHR '' '' # cookie_header ps)"
      using p by (simp only: js_split_append_sep not_False_eq_True)
    then show ?thesis using Cons.IH Cons.prems Cons by simp
  qed
qed (simp add: cookie_header_def)

definition add_cookie :: "string \<Rightarrow> (string \<times> string) list \<Rightarrow> (string \<times> string) list" where
  "add_cookie pair cookies =
     (case js_split CHR ''='' (js_trim pair) of
        [] \<Rightarrow> cookies
      | key # rest \<Rightarrow> if key = [] then cookies else rec_set cookies key (js_join ''='' rest))"

lemma parse_cookies_alt: "parse_cookies h = fold add_cookie (js_split CHR '';'' h) []"
  unfolding parse_cookies_def add_cookie_def ..

lemma add_cookie_text:
  assumes "cookie_ok p"
  shows "add_cookie (cookie_text p) cs = rec_set cs (fst p) (snd p)"
    "add_cookie (CHR '' '' # cookie_text p) cs = rec_set cs (fst p) (snd p)"
proof -
  have "js_join ''='' (js_split CHR ''='' (snd p)) = snd p" by (rule js_join_split)
  then show "add_cookie (cookie_text p) cs = rec_set cs (fst p) (snd p)"
    "add_cookie (CHR '' '' # cookie_text p) cs = rec_set cs (fst p) (snd p)"
    using assms cookie_text_props [OF assms]
    by (simp_all add: add_cookie_def js_trim_plain cookie_ok_def)
qed

lemma parse_cookie_header:
  assumes "\<forall>p \<in> set cs. cookie_ok p"
  shows "parse_cookies (cookie_header cs) = fold (\<lambda>p acc. rec_set acc (fst p) (snd p)) cs []"
proof (cases cs)
  case Nil
  then show ?thesis by (simp add: parse_cookies_alt cookie_header_def add_cookie_def js_trim_def)
next
  case (Cons p ps)
  have "fold add_cookie (map (\<lambda>q. CHR '' '' # cookie_text q) ps) acc
      = fold (\<lambda>p acc. rec_set acc (fst p) (snd p)) ps acc" if "\<forall>q \<in> set ps. cookie_ok q" for ps acc
    using that by (induction ps arbitrary: acc) (simp_all add: add_cookie_text)
  then show ?thesis using assms Cons
    by (simp add: parse_cookies_alt split_cookie_header add_cookie_text)
qed

lemma fold_set_get:
  "distinct (map fst cs) \<Longrightarrow>
   rec_get (fold (\<lambda>p acc. rec_set acc (fst p) (snd p)) cs acc) k =
     (case rec_get cs k of Some v \<Rightarrow> Some v | None \<Rightarrow> rec_get acc k)"
  by (induction cs arbitrary: acc) (auto simp: rec_get_None_iff [symmetric] split: option.splits)

text \<open>The exchange hands out the token exactly to a caller that proves with the CSRF header that
  it is not a cross-origin form and whose cookies, as a browser sends them, hold a token: then
  the body is that token, equals signs included, and the cookie is cleared; a missing header is
  403 whatever the cookies, a missing token 401, and neither sets a cookie.\<close>

theorem oidc_exchange:
  assumes "headers_get h ''cookie'' = Some (cookie_header cs)"
    and "\<forall>p \<in> set cs. cookie_ok p" and "distinct (map fst cs)"
  shows "oidc_token_exchange h =
    (if \<not> has_text (headers_get h ''x-requested-with'') then
       json_error 403 [(''message'', JStr ''Missing X-Requested-With header'')]
     else if \<not> has_text (rec_get cs ''oidc_access_token'') then
       json_error 401 [(''message'', JStr ''No OIDC token available'')]
     else
       \<lparr>pr_status = 200,
        pr_headers = [(''content-type'', ''application/json''), (''set-cookie'', clear_cookie)],
        pr_body = ''{'' @ json_quote ''data'' @ '':{'' @ json_quote ''accessToken'' @ '':''
          @ json_quote (the (rec_get cs ''oidc_access_token'')) @ ''}}''\<rparr>)"
proof -
  have g: "rec_get (parse_cookies (cookie_header cs)) k = rec_get cs k" for k
    using assms(2,3) by (simp add: parse_cookie_header fold_set_get split: option.splits)
  show ?thesis
    by (simp add: oidc_token_exchange_def assms(1) Let_def g)
qed

definition demo_cookies :: "(string \<times> string) list" where
  "demo_cookies = [(''theme'', ''dark''), (''oidc_access_token'', ''a.b=='')]"

lemma oidc_exchange_witness:
  "pr_body (oidc_token_exchange
      [(''cookie'', cookie_header demo_cookies), (''x-requested-with'', ''XMLHttpRequest'')]) =
    ''{'' @ json_quote ''data'' @ '':{'' @ json_quote ''accessToken'' @ '':'' @ json_quote ''a.b=='' @ ''}}''"
proof -
  let ?h = "[(''cookie'', cookie_header demo_cookies), (''x-requested-with'', ''XMLHttpRequest'')]"
  have low: "to_lower ''cookie'' = ''cookie''" "to_lower ''x-requested-with'' = ''x-requested-with''" by code_simp+
  have h: "headers_get ?h ''cookie'' = Some (cookie_header demo_cookies)"
    "headers_get ?h ''x-requested-with'' = Some ''XMLHttpRequest''"
    unfolding headers_get_def low by simp_all
  have c: "\<forall>p \<in> set demo_cookies. cookie_ok p" "distinct (map fst demo_cookies)"
    by (simp_all add: demo_cookies_def cookie_ok_def is_space_def char_code_def)
  have "rec_get demo_cookies ''oidc_access_token'' = Some ''a.b==''" by (simp add: demo_cookies_def)
  then show ?thesis using oidc_exchange [OF h(1) c] h(2) by simp
qed

end
