(* ===== verification/Ws_Proxy.thy ===== *)
theory Ws_Proxy
  imports Api_Proxy
begin

text \<open>
  \<open>routes/ws/[...path].ts\<close>: the WebSocket proxy. The handler's checks are a function of the
  request; the relay between the client's and the backend's socket is a state machine whose
  events are the two sockets' handlers and the start of a closing handshake.
\<close>

section \<open>The upgrade request\<close>

text \<open>The six regular expressions of \<open>allowedPatterns\<close>, on the segments of the path.\<close>

definition allowed_ws_path :: "string \<Rightarrow> bool" where
  "allowed_ws_path p \<longleftrightarrow>
     (case js_split CHR ''/'' p of
        [a, b, c] \<Rightarrow>
          a = ''v1'' \<and> b = ''ws'' \<and> c \<in> set [''resources'', ''alerts'', ''flows'', ''logs-search'']
      | [a, b, c, x, y, z] \<Rightarrow>
          a = ''v1'' \<and> b = ''ws'' \<and> c \<in> set [''logs'', ''exec''] \<and> x \<noteq> [] \<and> y \<noteq> [] \<and> z \<noteq> []
      | _ \<Rightarrow> False)"

datatype ws_upgrade =
    UpgradeReject nat string
  | UpgradeAccept string

text \<open>
  The handler up to the upgrade: the status and message of a rejection, or the URL of the backend
  socket, for the protocol and host of \<open>BACKEND_URL\<close>.
\<close>

definition ws_handler :: "string \<Rightarrow> string \<Rightarrow> string \<Rightarrow> string option \<Rightarrow> ws_upgrade" where
  "ws_handler backend_protocol backend_host path upgrade =
     (if \<not> valid_path path then UpgradeReject 400 ''Invalid WS path''
      else if \<not> allowed_ws_path path then UpgradeReject 404 ''Unknown WS endpoint''
      else if map_option to_lower upgrade \<noteq> Some ''websocket''
      then UpgradeReject 426 ''Expected WebSocket upgrade''
      else UpgradeAccept ((if backend_protocol = ''https:'' then ''wss:'' else ''ws:'')
             @ ''//'' @ backend_host @ ''/api/'' @ path))"

section \<open>The relay\<close>

datatype sock_state = SConnecting | SOpen | SClosing | SClosed

text \<open>
  Messages are numbers here. The logs record what each socket's \<open>message\<close> events delivered and
  what was sent on the other socket; \<open>client_code\<close> and \<open>backend_code\<close> are the codes the proxy
  closed a socket with.
\<close>

record relay_state =
  client_sock :: sock_state
  backend_sock :: sock_state
  pending :: "nat list"
  from_client :: "nat list"
  to_backend :: "nat list"
  from_backend :: "nat list"
  to_client :: "nat list"
  client_code :: "nat option"
  backend_code :: "nat option"

text \<open>The state once the client's socket has opened and \<open>new WebSocket\<close> has returned.\<close>

definition relay_init :: relay_state where
  "relay_init =
     \<lparr>client_sock = SOpen, backend_sock = SConnecting, pending = [], from_client = [], to_backend = [],
      from_backend = [], to_client = [], client_code = None, backend_code = None\<rparr>"

text \<open>
  \<open>WebSocket.close(code)\<close> throws unless the code is 1000 or in 3000 to 4999; the handlers
  swallow the exception, and the socket stays as it is.
\<close>

definition closable_code :: "nat \<Rightarrow> bool" where
  "closable_code code \<longleftrightarrow> code = 1000 \<or> (3000 \<le> code \<and> code \<le> 4999)"

definition relayed_code :: "nat \<Rightarrow> nat" where
  "relayed_code code = (if 1000 \<le> code \<and> code \<le> 4999 \<and> code \<noteq> 1006 then code else 1000)"

definition close_client :: "nat \<Rightarrow> relay_state \<Rightarrow> relay_state" where
  "close_client code s =
     (if client_sock s = SOpen \<and> closable_code code
      then s\<lparr>client_sock := SClosing, client_code := Some code\<rparr> else s)"

definition close_backend :: "nat \<Rightarrow> relay_state \<Rightarrow> relay_state" where
  "close_backend code s =
     (if backend_sock s = SOpen \<and> closable_code code
      then s\<lparr>backend_sock := SClosing, backend_code := Some code\<rparr> else s)"

datatype relay_event =
    ClientMessage nat
  | BackendOpen
  | BackendMessage nat
  | ClientHandshake
  | BackendHandshake
  | ClientClose nat
  | BackendClose nat
  | ClientFailed
  | BackendFailed

text \<open>
  \<open>ClientHandshake\<close> and \<open>BackendHandshake\<close>: the peer started to close, no handler runs yet.
  The code 1011 of \<open>backendSocket.onerror\<close> is not closable; \<open>clientSocket.onerror\<close> closes
  without a code.
\<close>

fun relay_step :: "relay_state \<Rightarrow> relay_event \<Rightarrow> relay_state option" where
  "relay_step s (ClientMessage m) =
     (if client_sock s \<noteq> SOpen then None
      else (let s1 = s\<lparr>from_client := from_client s @ [m]\<rparr>
            in Some (if backend_sock s1 = SOpen then s1\<lparr>to_backend := to_backend s1 @ [m]\<rparr>
                     else s1\<lparr>pending := pending s1 @ [m]\<rparr>)))"
| "relay_step s BackendOpen =
     (if backend_sock s \<noteq> SConnecting then None
      else Some (s\<lparr>backend_sock := SOpen, to_backend := to_backend s @ pending s, pending := []\<rparr>))"
| "relay_step s (BackendMessage m) =
     (if backend_sock s \<noteq> SOpen then None
      else (let s1 = s\<lparr>from_backend := from_backend s @ [m]\<rparr>
            in Some (if client_sock s1 = SOpen then s1\<lparr>to_client := to_client s1 @ [m]\<rparr> else s1)))"
| "relay_step s ClientHandshake =
     (if client_sock s = SOpen then Some (s\<lparr>client_sock := SClosing\<rparr>) else None)"
| "relay_step s BackendHandshake =
     (if backend_sock s = SOpen then Some (s\<lparr>backend_sock := SClosing\<rparr>) else None)"
| "relay_step s (BackendClose code) =
     (if backend_sock s = SClosed then None
      else Some (close_client (relayed_code code) (s\<lparr>backend_sock := SClosed\<rparr>)))"
| "relay_step s BackendFailed =
     (if backend_sock s = SClosed then None else Some (close_client 1011 s))"
| "relay_step s (ClientClose code) =
     (if client_sock s = SClosed then None
      else Some (close_backend (relayed_code code) (s\<lparr>client_sock := SClosed\<rparr>)))"
| "relay_step s ClientFailed =
     (if client_sock s = SClosed then None
      else Some (if backend_sock s = SOpen then s\<lparr>backend_sock := SClosing\<rparr> else s))"

section \<open>Properties\<close>

text \<open>
  Messages to the backend wait in order; once the backend has opened none waits while it is open,
  and the client gets the backend's messages in order, all of them while it is open.
\<close>

definition relay_inv :: "relay_state \<Rightarrow> bool" where
  "relay_inv s \<longleftrightarrow>
     from_client s = to_backend s @ pending s
     \<and> (backend_sock s = SOpen \<longrightarrow> pending s = [])
     \<and> (backend_sock s = SConnecting \<longrightarrow> to_backend s = [] \<and> from_backend s = [])
     \<and> (\<exists>late. from_backend s = to_client s @ late \<and> (client_sock s = SOpen \<longrightarrow> late = []))"

lemma relay_inv_init: "relay_inv relay_init"
  by (simp add: relay_inv_def relay_init_def)

lemma close_relay_inv:
  "relay_inv s \<Longrightarrow> relay_inv (close_client c s)"
  "relay_inv s \<Longrightarrow> relay_inv (close_backend c s)"
  by (auto simp: relay_inv_def close_client_def close_backend_def)

lemma relay_inv_sockets:
  "relay_inv s \<Longrightarrow> relay_inv (s\<lparr>backend_sock := SClosed\<rparr>)"
  "relay_inv s \<Longrightarrow> relay_inv (s\<lparr>backend_sock := SClosing\<rparr>)"
  "relay_inv s \<Longrightarrow> relay_inv (s\<lparr>client_sock := SClosed\<rparr>)"
  "relay_inv s \<Longrightarrow> relay_inv (s\<lparr>client_sock := SClosing\<rparr>)"
  by (auto simp: relay_inv_def)

lemma relay_step_inv:
  assumes inv: "relay_inv s" and st: "relay_step s e = Some t"
  shows "relay_inv t"
proof (cases e)
  case (ClientMessage m)
  then show ?thesis using inv st by (auto simp: relay_inv_def Let_def split: if_splits)
next
  case (BackendMessage m)
  then show ?thesis using inv st by (auto simp: relay_inv_def Let_def split: if_splits)
next
  case BackendOpen
  then show ?thesis using inv st by (auto simp: relay_inv_def split: if_splits)
qed (use inv st in \<open>auto simp: close_relay_inv relay_inv_sockets split: if_splits\<close>)

interpretation relay: free_machine relay_step relay_inv
  by unfold_locales (rule relay_step_inv)

text \<open>C39: The relay loses, duplicates and reorders nothing on the way to the backend: what the client
  has sent is what was sent on the backend socket followed by what still waits, and nothing waits
  while the backend socket is open; and the client has received a prefix of what the backend sent,
  all of it as long as the client's socket is open.\<close>

theorem relay_fifo:
  assumes "run_events relay_step relay_init es = Some s"
  shows "from_client s = to_backend s @ pending s
    \<and> (backend_sock s = SOpen \<longrightarrow> from_client s = to_backend s)
    \<and> (\<exists>late. from_backend s = to_client s @ late)
    \<and> (client_sock s = SOpen \<longrightarrow> from_backend s = to_client s)"
  using relay.runs_inv [OF relay_inv_init assms] by (auto simp: relay_inv_def)

definition demo_relay_run :: "relay_event list" where
  "demo_relay_run = [ClientMessage 1, ClientMessage 2, BackendOpen, BackendMessage 9, ClientMessage 3]"

lemma relay_fifo_witness:
  "\<exists>s. run_events relay_step relay_init demo_relay_run = Some s \<and> from_client s = [1, 2, 3]
     \<and> to_backend s = [1, 2, 3] \<and> to_client s = [9]"
proof -
  have "case run_events relay_step relay_init demo_relay_run of None \<Rightarrow> False
    | Some s \<Rightarrow> from_client s = [1, 2, 3] \<and> from_backend s = [9] \<and> backend_sock s = SOpen
        \<and> client_sock s = SOpen" by code_simp
  then obtain s where s: "run_events relay_step relay_init demo_relay_run = Some s"
    "from_client s = [1, 2, 3]" "from_backend s = [9]" "backend_sock s = SOpen" "client_sock s = SOpen"
    by (auto split: option.splits)
  then show ?thesis using relay_fifo [OF s(1)] by auto
qed

text \<open>A close is passed on with its code: when the client's socket closes with 1000, 1006 or an
  application code while the backend is open, the backend is closed with that code (1000 for
  1006); any other code, such as the 1001 of a page that navigates away or the 1005 of a close
  without a code, leaves the backend socket open. The same holds from the backend to the client.\<close>

theorem close_propagation:
  "(client_sock s \<noteq> SClosed \<and> backend_sock s = SOpen \<longrightarrow>
     (\<exists>t. relay_step s (ClientClose code) = Some t
        \<and> (if code \<in> {1000, 1006} \<or> code < 1000 \<or> 3000 \<le> code
           then backend_sock t = SClosing
             \<and> backend_code t = Some (if 3000 \<le> code \<and> code \<le> 4999 then code else 1000)
           else backend_sock t = SOpen \<and> backend_code t = backend_code s)))
    \<and> (backend_sock s \<noteq> SClosed \<and> client_sock s = SOpen \<longrightarrow>
     (\<exists>t. relay_step s (BackendClose code) = Some t
        \<and> (if code \<in> {1000, 1006} \<or> code < 1000 \<or> 3000 \<le> code
           then client_sock t = SClosing
             \<and> client_code t = Some (if 3000 \<le> code \<and> code \<le> 4999 then code else 1000)
           else client_sock t = SOpen \<and> client_code t = client_code s)))"
  by (intro conjI; auto simp: close_backend_def close_client_def relayed_code_def closable_code_def)

lemma close_propagation_witness:
  "\<exists>t. relay_step (relay_init\<lparr>backend_sock := SOpen\<rparr>) (ClientClose 1001) = Some t
     \<and> client_sock t = SClosed \<and> backend_sock t = SOpen"
  using close_propagation [of "relay_init\<lparr>backend_sock := SOpen\<rparr>" 1001, THEN conjunct1]
  by (auto simp: relay_init_def close_backend_def)

text \<open>
  A client that leaves while the backend still connects is not passed on at all: the backend socket
  opens afterwards, gets the queued messages and stays open.
\<close>

definition early_close_run :: "relay_event list" where
  "early_close_run = [ClientMessage 1, ClientClose 1000, BackendOpen]"

lemma early_close_leaks:
  "\<exists>s. run_events relay_step relay_init early_close_run = Some s
     \<and> client_sock s = SClosed \<and> backend_sock s = SOpen \<and> to_backend s = [1]"
proof -
  have "case run_events relay_step relay_init early_close_run of
      None \<Rightarrow> False
    | Some s \<Rightarrow> client_sock s = SClosed \<and> backend_sock s = SOpen \<and> to_backend s = [1]" by code_simp
  then show ?thesis by (auto split: option.splits)
qed

text \<open>The proxy opens a backend socket only for the six known endpoints: an accepted upgrade has the
  path of a fixed endpoint or of a log or exec session with three non-empty segments, on the
  backend's own host and with TLS exactly when the backend's URL has it.\<close>

theorem ws_upgrade_paths:
  assumes "ws_handler proto host p upgrade = UpgradeAccept url"
  shows "(url = (if proto = ''https:'' then ''wss:'' else ''ws:'') @ ''//'' @ host @ ''/api/'' @ p)
    \<and> (p \<in> set [''v1/ws/resources'', ''v1/ws/alerts'', ''v1/ws/flows'', ''v1/ws/logs-search'']
      \<or> (\<exists>k x y z. k \<in> set [''logs'', ''exec''] \<and> p = ''v1/ws/'' @ k @ ''/'' @ x @ ''/'' @ y @ ''/'' @ z
           \<and> x \<noteq> [] \<and> y \<noteq> [] \<and> z \<noteq> [] \<and> CHR ''/'' \<notin> set (x @ y @ z)))
    \<and> (map_option to_lower upgrade = Some ''websocket'')"
proof (intro conjI)
  have acc: "valid_path p \<and> allowed_ws_path p \<and> map_option to_lower upgrade = Some ''websocket''
      \<and> url = (if proto = ''https:'' then ''wss:'' else ''ws:'') @ ''//'' @ host @ ''/api/'' @ p"
    using assms unfolding ws_handler_def by (metis ws_upgrade.distinct(1) ws_upgrade.inject(2))
  then show "url = (if proto = ''https:'' then ''wss:'' else ''ws:'') @ ''//'' @ host @ ''/api/'' @ p"
    and "map_option to_lower upgrade = Some ''websocket''" by blast+
  from acc consider c where "js_split CHR ''/'' p = [''v1'', ''ws'', c]"
      "c \<in> set [''resources'', ''alerts'', ''flows'', ''logs-search'']"
    | k x y z where "js_split CHR ''/'' p = [''v1'', ''ws'', k, x, y, z]" "k \<in> set [''logs'', ''exec'']"
      "x \<noteq> []" "y \<noteq> []" "z \<noteq> []"
    by (auto simp: allowed_ws_path_def split: list.splits)
  then show "p \<in> set [''v1/ws/resources'', ''v1/ws/alerts'', ''v1/ws/flows'', ''v1/ws/logs-search'']
      \<or> (\<exists>k x y z. k \<in> set [''logs'', ''exec''] \<and> p = ''v1/ws/'' @ k @ ''/'' @ x @ ''/'' @ y @ ''/'' @ z
           \<and> x \<noteq> [] \<and> y \<noteq> [] \<and> z \<noteq> [] \<and> CHR ''/'' \<notin> set (x @ y @ z))"
  proof cases
    case 1
    then have "p = ''v1/ws/'' @ c" using js_join_split [of "CHR ''/''" p] by simp
    then show ?thesis using 1(2) by auto
  next
    case 2
    have "p = ''v1/ws/'' @ k @ ''/'' @ x @ ''/'' @ y @ ''/'' @ z"
      using js_join_split [of "CHR ''/''" p] 2(1) by simp
    moreover have "CHR ''/'' \<notin> set w" if "w \<in> {x, y, z}" for w
      using that 2(1) by (intro js_split_no_sep [of _ _ p]) auto
    ultimately have "k \<in> set [''logs'', ''exec''] \<and> p = ''v1/ws/'' @ k @ ''/'' @ x @ ''/'' @ y @ ''/'' @ z
        \<and> x \<noteq> [] \<and> y \<noteq> [] \<and> z \<noteq> [] \<and> CHR ''/'' \<notin> set (x @ y @ z)"
      using 2(2-5) by (simp del: append.simps)
    then show ?thesis by blast
  qed
qed

lemma ws_upgrade_paths_witness:
  "\<exists>url. ws_handler ''http:'' ''api:8080'' ''v1/ws/logs/web/p/c'' (Some ''WebSocket'') = UpgradeAccept url
     \<and> url = ''ws:'' @ ''//'' @ ''api:8080'' @ ''/api/'' @ ''v1/ws/logs/web/p/c''"
proof -
  have "ws_handler ''http:'' ''api:8080'' ''v1/ws/logs/web/p/c'' (Some ''WebSocket'')
      = UpgradeAccept (''ws:'' @ ''//'' @ ''api:8080'' @ ''/api/'' @ ''v1/ws/logs/web/p/c'')"
    by code_simp
  from ws_upgrade_paths [OF this, THEN conjunct1] this show ?thesis by blast
qed

end
