(* ===== verification/K8s_Types.thy ===== *)
theory K8s_Types
  imports Interfaces
begin

text \<open>
  The Kubernetes resource types of \<open>lib/k8s-types.ts\<close> that the interface renders. An interface
  is a record with the fields in their order; a field is an option where the interface marks it
  optional or the code guards it with \<open>?.\<close>; \<open>Record<string, string>\<close> is an association list,
  \<open>unknown\<close> a dynamic value, a number an integer. Object types written in place are records of
  their own; the ones that recur (label selectors, containers, conditions) are shared.
\<close>

type_synonym str_map = "(string \<times> string) list"

datatype int_or_string = IosInt int | IosStr string

section \<open>Metadata\<close>

record owner_reference =
  or_api_version :: string
  or_kind :: string
  or_name :: string
  or_uid :: string
  or_controller :: "bool option"

record k8s_metadata =
  md_name :: string
  md_namespace :: "string option"
  md_uid :: string
  md_creation :: string
  md_labels :: "str_map option"
  md_annotations :: "str_map option"
  md_resource_version :: "string option"
  md_owners :: "owner_reference list option"
  md_finalizers :: "string list option"
  md_deletion :: "string option"
  md_managed :: "js list option"

record label_selector =
  ls_match :: "str_map option"

record condition =
  co_type :: string
  co_status :: string
  co_reason :: "string option"
  co_message :: "string option"
  co_transition :: "string option"

record resource_needs =
  rn_requests :: "str_map option"
  rn_limits :: "str_map option"

record container =
  ct_name :: string
  ct_image :: string
  ct_resources :: "resource_needs option"

section \<open>Workloads\<close>

record container_status =
  cs_name :: string
  cs_ready :: bool
  cs_restarts :: int
  cs_state :: "(string \<times> js) list"

record pod_status =
  ps_phase :: string
  ps_conditions :: "condition list option"
  ps_containers :: "container_status list option"

record pod_spec =
  pp_node :: "string option"
  pp_containers :: "container list option"
  pp_init :: "(string \<times> string) list option"
  pp_restart :: "string option"

record pod =
  po_meta :: k8s_metadata
  po_spec :: "pod_spec option"
  po_status :: "pod_status option"

text \<open>\<open>template?: { spec?: { containers? } }\<close>.\<close>

record template_spec =
  ts_containers :: "container list option"

record pod_template =
  pt_spec :: "template_spec option"

record deployment_spec =
  dp_replicas :: "int option"
  dp_selector :: label_selector
  dp_template :: "pod_template option"
  dp_strategy_type :: "string option"
  dp_max_unavailable :: js
  dp_max_surge :: js

record deployment_status =
  dt_replicas :: "int option"
  dt_ready :: "int option"
  dt_available :: "int option"
  dt_updated :: "int option"
  dt_conditions :: "condition list option"

record deployment =
  de_meta :: k8s_metadata
  de_spec :: "deployment_spec option"
  de_status :: "deployment_status option"

record statefulset_spec =
  sp_replicas :: "int option"
  sp_service_name :: string
  sp_selector :: label_selector
  sp_template :: "pod_template option"
  sp_update_type :: "string option"
  sp_partition :: "int option"

record statefulset_status =
  st_replicas :: "int option"
  st_ready :: "int option"
  st_current :: "int option"
  st_updated :: "int option"

record statefulset =
  ss_meta :: k8s_metadata
  ss_spec :: "statefulset_spec option"
  ss_status :: "statefulset_status option"

record daemonset_spec =
  dsp_selector :: label_selector
  dsp_template :: "pod_template option"

record daemonset_status =
  dst_desired :: "int option"
  dst_current :: "int option"
  dst_ready :: "int option"
  dst_available :: "int option"

record daemonset =
  das_meta :: k8s_metadata
  das_spec :: "daemonset_spec option"
  das_status :: "daemonset_status option"

record replicaset_spec =
  rp_replicas :: "int option"
  rp_selector :: label_selector

record replicaset_status =
  rst_replicas :: "int option"
  rst_labeled :: "int option"
  rst_ready :: "int option"
  rst_available :: "int option"

record replicaset =
  rs_meta :: k8s_metadata
  rs_spec :: "replicaset_spec option"
  rs_rstatus :: "replicaset_status option"

record job_spec =
  jp_completions :: "int option"
  jp_parallelism :: "int option"
  jp_backoff :: "int option"
  jp_suspend :: "bool option"

record job_status =
  jt_active :: "int option"
  jt_succeeded :: "int option"
  jt_failed :: "int option"
  jt_start :: "string option"
  jt_completion :: "string option"
  jt_conditions :: "condition list option"

record job =
  jo_meta :: k8s_metadata
  jo_spec :: "job_spec option"
  jo_status :: "job_status option"

record cronjob_spec =
  cj_schedule :: "string option"
  cj_suspend :: "bool option"
  cj_policy :: "string option"
  cj_template :: js

record cronjob_status =
  ck_last :: "string option"
  ck_active :: "string list option"

record cronjob =
  cr_meta :: k8s_metadata
  cr_spec :: "cronjob_spec option"
  cr_status :: "cronjob_status option"

section \<open>Networking\<close>

record service_port =
  sv_port :: int
  sv_target :: "int_or_string option"
  sv_protocol :: "string option"
  sv_name :: "string option"

record service_spec =
  svp_type :: "string option"
  svp_cluster_ip :: "string option"
  svp_ports :: "service_port list option"
  svp_selector :: "str_map option"

record service =
  se_meta :: k8s_metadata
  se_spec :: "service_spec option"

record ingress_rule =
  ir_host :: "string option"
  ir_paths :: "(string option \<times> js) list option"

record ingress_tls =
  it_hosts :: "string list option"
  it_secret :: "string option"

record ingress_spec =
  ip_rules :: "ingress_rule list option"
  ip_tls :: "ingress_tls list option"

record lb_ingress =
  lb_ip :: "string option"
  lb_hostname :: "string option"

record load_balancer =
  lo_ingress :: "lb_ingress list option"

record ingress_status =
  is_lb :: "load_balancer option"

record ingress =
  in_meta :: k8s_metadata
  in_spec :: "ingress_spec option"
  in_status :: "ingress_status option"

record np_port =
  npp_port :: "int_or_string option"
  npp_protocol :: "string option"
  npp_end :: "int option"

record np_peer =
  npe_pods :: "label_selector option"
  npe_namespaces :: "label_selector option"
  npe_block :: "(string \<times> string list option) option"

record np_rule =
  npr_ports :: "np_port list option"
  npr_from :: "np_peer list option"
  npr_to :: "np_peer list option"

record np_spec =
  nps_selector :: "label_selector option"
  nps_types :: "string list option"
  nps_ingress :: "np_rule list option"
  nps_egress :: "np_rule list option"

record network_policy =
  np_meta :: k8s_metadata
  np_spec :: "np_spec option"

record endpoint_address =
  ea_ip :: string
  ea_hostname :: "string option"
  ea_node :: "string option"

record endpoint_subset =
  es_addresses :: "endpoint_address list option"
  es_not_ready :: "endpoint_address list option"
  es_ports :: "(string option \<times> int \<times> string option) list option"

record endpoints =
  ep_meta :: k8s_metadata
  ep_subsets :: "endpoint_subset list option"

record endpoint_conditions =
  ec_ready :: "bool option"
  ec_serving :: "bool option"
  ec_terminating :: "bool option"

record slice_endpoint =
  sl_addresses :: "string list"
  sl_conditions :: "endpoint_conditions option"
  sl_hostname :: "string option"
  sl_node :: "string option"

record slice_port =
  slp_name :: "string option"
  slp_port :: "int option"
  slp_protocol :: "string option"

record endpoint_slice =
  sli_meta :: k8s_metadata
  sli_address_type :: "string option"
  sli_endpoints :: "slice_endpoint list option"
  sli_ports :: "slice_port list option"

section \<open>Configuration, storage and cluster\<close>

record config_map =
  cm_meta :: k8s_metadata
  cm_data :: "str_map option"

record secret =
  sc_meta :: k8s_metadata
  sc_type :: "string option"
  sc_data :: "str_map option"

record namespace_res =
  ns_meta :: k8s_metadata
  ns_phase :: "string option"

record node_info =
  nf_kubelet :: string
  nf_os :: string
  nf_arch :: string
  nf_runtime :: string

record node_status =
  nt_conditions :: "condition list option"
  nt_info :: "node_info option"
  nt_addresses :: "(string \<times> string) list option"
  nt_capacity :: "str_map option"
  nt_allocatable :: "str_map option"

record node_res =
  no_meta :: k8s_metadata
  no_unschedulable :: "bool option"
  no_taints :: "(string \<times> string option \<times> string) list option"
  no_status :: "node_status option"

record pvc_spec =
  vc_modes :: "string list option"
  vc_class :: "string option"
  vc_volume :: "string option"
  vc_requests :: "str_map option"

record pvc_status =
  vs_phase :: "string option"
  vs_capacity :: "str_map option"

record pvc =
  pc_meta :: k8s_metadata
  pc_spec :: "pvc_spec option"
  pc_status :: "pvc_status option"

record claim_ref =
  cf_namespace :: string
  cf_name :: string

record pv_spec =
  pv_capacity :: "str_map option"
  pv_modes :: "string list option"
  pv_reclaim :: "string option"
  pv_class :: "string option"
  pv_claim :: "claim_ref option"
  pv_mode :: "string option"

record pv =
  pe_meta :: k8s_metadata
  pe_spec :: "pv_spec option"
  pe_phase :: "string option"

record storage_class =
  sg_meta :: k8s_metadata
  sg_provisioner :: "string option"
  sg_reclaim :: "string option"
  sg_binding :: "string option"
  sg_expansion :: "bool option"
  sg_parameters :: "str_map option"

record resource_quota =
  rq_meta :: k8s_metadata
  rq_hard :: "str_map option"
  rq_scopes :: "string list option"
  rq_status_hard :: "str_map option"
  rq_used :: "str_map option"

record limit_item =
  li_type :: string
  li_max :: "str_map option"
  li_min :: "str_map option"
  li_default :: "str_map option"
  li_default_request :: "str_map option"

record limit_range =
  lr_meta :: k8s_metadata
  lr_limits :: "limit_item list option"

record service_account =
  sa_meta :: k8s_metadata
  sa_secrets :: "string list option"
  sa_automount :: "bool option"

section \<open>Access, scaling and events\<close>

record role_rule =
  ru_groups :: "string list option"
  ru_resources :: "string list option"
  ru_verbs :: "string list option"

record role_res =
  ro_meta :: k8s_metadata
  ro_rules :: "role_rule list option"

record role_ref =
  rf_kind :: string
  rf_name :: string
  rf_group :: string

record role_binding =
  rbi_meta :: k8s_metadata
  rbi_subjects :: "(string \<times> string \<times> string option) list option"
  rbi_role :: role_ref

record hpa_target =
  ht_name :: string
  ht_type :: string
  ht_utilization :: "int option"

record hpa_metric =
  hm_type :: string
  hm_resource :: "hpa_target option"

record hpa_current =
  hc_type :: string
  hc_resource :: "(string \<times> int option \<times> string option) option"

record hpa_spec =
  hp_target :: "string \<times> string \<times> string"
  hp_min :: "int option"
  hp_max :: "int option"
  hp_metrics :: "hpa_metric list option"

record hpa_status =
  hs_current :: "int option"
  hs_desired :: "int option"
  hs_metrics :: "hpa_current list option"
  hs_conditions :: "condition list option"

record hpa =
  hpa_meta :: k8s_metadata
  hpa_spec :: "hpa_spec option"
  hpa_status :: "hpa_status option"

record pdb_spec =
  pb_min :: "int_or_string option"
  pb_max :: "int_or_string option"
  pb_selector :: "label_selector option"

record pdb_status =
  pk_current :: "int option"
  pk_desired :: "int option"
  pk_allowed :: "int option"
  pk_expected :: "int option"

record pdb =
  pd_meta :: k8s_metadata
  pd_spec :: "pdb_spec option"
  pd_status :: "pdb_status option"

record involved_object =
  io_kind :: string
  io_name :: string
  io_namespace :: "string option"

record k8s_event =
  ev_meta :: k8s_metadata
  ev_type :: "string option"
  ev_reason :: "string option"
  ev_message :: "string option"
  ev_object :: "involved_object option"
  ev_count :: "int option"
  ev_first :: "string option"
  ev_last :: "string option"
  ev_component :: "string option"

end
