(* ===== verification/Columns.thy ===== *)
theory Columns
  imports K8s_Types
begin

text \<open>
  The resource tables: \<open>lib/resource-columns.ts\<close> with the status colours of
  \<open>lib/status-colors.ts\<close> and \<open>age\<close> of \<open>lib/format.ts\<close>. \<open>h(tag, props, children)\<close> is
  a \<open>vnode\<close>; a column renders a resource of its kind to one. \<open>ag\<close> is the text of a timestamp's
  age, which depends on the clock; the date parser is an argument of \<open>age\<close>.
\<close>

section \<open>Status colours and ages\<close>

datatype variant = VSuccess | VWarning | VDanger | VInfo | VNeutral

fun VARIANT_CLASSES :: "variant \<Rightarrow> string" where
  "VARIANT_CLASSES VSuccess = ''bg-success/10 text-success ring-success/20''"
| "VARIANT_CLASSES VWarning = ''bg-warning/10 text-warning ring-warning/20''"
| "VARIANT_CLASSES VDanger = ''bg-danger/10 text-danger ring-danger/20''"
| "VARIANT_CLASSES VInfo = ''bg-accent/10 text-accent ring-accent/20''"
| "VARIANT_CLASSES VNeutral = ''bg-elevated text-text-muted ring-border-primary/20''"

definition SUCCESS_STATUSES :: "string list" where
  "SUCCESS_STATUSES =
     [''running'', ''active'', ''bound'', ''ready'', ''healthy'', ''available'', ''complete'',
      ''succeeded'', ''true'']"

definition WARNING_STATUSES :: "string list" where
  "WARNING_STATUSES = [''pending'', ''waiting'', ''creating'', ''terminating'', ''warning'']"

definition DANGER_STATUSES :: "string list" where
  "DANGER_STATUSES =
     [''failed'', ''error'', ''crashloopbackoff'', ''imagepullbackoff'', ''evicted'', ''oomkilled'',
      ''lost'', ''false'']"

definition NEUTRAL_STATUSES :: "string list" where
  "NEUTRAL_STATUSES = [''unknown'', ''not ready'']"

definition status_variant :: "string option \<Rightarrow> variant" where
  "status_variant status =
     (if \<not> has_text status then VNeutral
      else (let s = to_lower (the status)
            in if s \<in> set SUCCESS_STATUSES then VSuccess
               else if s \<in> set WARNING_STATUSES then VWarning
               else if s \<in> set DANGER_STATUSES then VDanger
               else if s \<in> set NEUTRAL_STATUSES then VNeutral
               else VInfo))"

definition status_color :: "string option \<Rightarrow> string" where
  "status_color status = VARIANT_CLASSES (status_variant status)"

fun status_style_of :: "variant \<Rightarrow> (string \<times> string) list" where
  "status_style_of VSuccess = [(''background'', ''var(--success-dim)''), (''color'', ''var(--success)'')]"
| "status_style_of VWarning = [(''background'', ''var(--warning-dim)''), (''color'', ''var(--warning)'')]"
| "status_style_of VDanger = [(''background'', ''var(--error-dim)''), (''color'', ''var(--error)'')]"
| "status_style_of VInfo = [(''background'', ''var(--accent-dim)''), (''color'', ''var(--accent)'')]"
| "status_style_of VNeutral = [(''background'', ''var(--bg-elevated)''), (''color'', ''var(--text-muted)'')]"

definition status_style :: "string option \<Rightarrow> (string \<times> string) list" where
  "status_style status = status_style_of (status_variant status)"

text \<open>\<open>age\<close>: \<open>parse_ms\<close> is the date parser (\<open>None\<close> for an invalid date), \<open>now\<close> the clock.\<close>

definition age :: "int \<Rightarrow> (string \<Rightarrow> int option) \<Rightarrow> string \<Rightarrow> string" where
  "age now parse_ms timestamp =
     (case parse_ms timestamp of
        None \<Rightarrow> ''NaNd''
      | Some t \<Rightarrow>
          (let secs = (now - t) div 1000
           in if secs < 60 then string_of_int secs @ ''s''
              else (let mins = secs div 60
                    in if mins < 60 then string_of_int mins @ ''m''
                       else (let hours = mins div 60
                             in if hours < 24 then string_of_int hours @ ''h''
                                else string_of_int (hours div 24) @ ''d''))))"

section \<open>Nodes and columns\<close>

datatype tone = ToneSuccess | ToneWarning | ToneError | ToneInfo | ToneNeutral

datatype vnode =
    VText string
  | VDot tone nat
  | VNode string "string option" "(string \<times> string) list" "vnode list"

record 'r column =
  col_key :: string
  col_label :: string
  col_sortable :: bool
  col_class :: "string option"
  col_render :: "'r \<Rightarrow> vnode"

definition column :: "string \<Rightarrow> string \<Rightarrow> bool \<Rightarrow> ('r \<Rightarrow> vnode) \<Rightarrow> 'r column" where
  "column key label sortable render =
     \<lparr>col_key = key, col_label = label, col_sortable = sortable, col_class = None, col_render = render\<rparr>"

definition or_else :: "'a option \<Rightarrow> 'a \<Rightarrow> 'a" where
  "or_else o1 d = (case o1 of None \<Rightarrow> d | Some x \<Rightarrow> x)"

definition chain :: "'a option \<Rightarrow> ('a \<Rightarrow> 'b option) \<Rightarrow> 'b option" where
  "chain o1 f = (case o1 of None \<Rightarrow> None | Some x \<Rightarrow> f x)"

lemma or_else_simps [simp]: "or_else None d = d" "or_else (Some x) d = x"
  by (simp_all add: or_else_def)

lemma chain_simps [simp]: "chain None f = None" "chain (Some x) f = f x"
  by (simp_all add: chain_def)

definition list_len :: "'a list option \<Rightarrow> int" where
  "list_len o1 = (case o1 of None \<Rightarrow> 0 | Some xs \<Rightarrow> int (length xs))"

definition count_text :: "int \<Rightarrow> vnode" where
  "count_text n = VText (string_of_int n)"

definition badge :: "string \<Rightarrow> vnode" where
  "badge text1 =
     VNode ''span''
       (Some (''inline-flex items-center rounded-full px-2 py-0.5 text-xs font-medium ring-1 ring-inset ''
          @ status_color (Some text1))) [] [VText text1]"

definition mono_font :: "string \<times> string" where
  "mono_font = (''fontFamily'', ''var(--font-mono, monospace)'')"

definition styled_name :: "string \<Rightarrow> tone \<Rightarrow> vnode" where
  "styled_name name status =
     VNode ''span'' None [(''display'', ''inline-flex''), (''alignItems'', ''center''), (''gap'', ''7px'')]
       [VDot status 6,
        VNode ''span'' None
          [(''color'', ''var(--accent)''), mono_font, (''fontWeight'', ''500''), (''fontSize'', ''13px'')]
          [VText name]]"

definition styled_namespace :: "string \<Rightarrow> vnode" where
  "styled_namespace ns =
     VNode ''span'' None
       [mono_font, (''fontSize'', ''11px''), (''padding'', ''2px 6px''), (''background'', ''var(--bg-base)''),
        (''borderRadius'', ''4px''), (''color'', ''var(--text-secondary)'')] [VText ns]"

definition styled_age :: "(string \<Rightarrow> string) \<Rightarrow> string \<Rightarrow> vnode" where
  "styled_age ag timestamp =
     VNode ''span'' None
       [mono_font, (''fontSize'', ''12px''), (''color'', ''var(--text-secondary)'')] [VText (ag timestamp)]"

text \<open>The colour table of \<open>styledBadge\<close>: dot, background and text. A badge is never neutral.\<close>

fun badge_colors :: "tone \<Rightarrow> string \<times> string \<times> string" where
  "badge_colors ToneSuccess = (''var(--success)'', ''var(--success-dim)'', ''var(--success)'')"
| "badge_colors ToneWarning = (''var(--warning)'', ''var(--warning-dim)'', ''var(--warning)'')"
| "badge_colors ToneError = (''var(--error)'', ''var(--error-dim)'', ''var(--error)'')"
| "badge_colors ToneInfo = (''var(--accent)'', ''var(--accent-dim)'', ''var(--accent)'')"
| "badge_colors ToneNeutral = ([], [], [])"

definition styled_badge :: "string \<Rightarrow> tone \<Rightarrow> vnode" where
  "styled_badge text1 status =
     (case badge_colors status of (dot, bg, fg) \<Rightarrow>
        VNode ''span'' None
          [(''display'', ''inline-flex''), (''alignItems'', ''center''), (''gap'', ''5px''),
           (''padding'', ''3px 10px''), (''borderRadius'', ''12px''), (''fontSize'', ''11px''),
           (''fontWeight'', ''500''), (''background'', bg), (''color'', fg)]
          [VNode ''span'' None
             [(''width'', ''6px''), (''height'', ''6px''), (''borderRadius'', ''50%''), (''background'', dot)] [],
           VText text1])"

definition dot_color :: "int \<Rightarrow> int option \<Rightarrow> int \<Rightarrow> string" where
  "dot_color ready available i =
     (if i < ready then ''var(--success)''
      else if available \<noteq> None \<and> i < the available then ''var(--warning)'' else ''var(--error)'')"

definition replica_dot :: "int \<Rightarrow> int option \<Rightarrow> int \<Rightarrow> vnode" where
  "replica_dot ready available i =
     VNode ''div'' None
       [(''width'', ''8px''), (''height'', ''8px''), (''borderRadius'', ''2px''),
        (''background'', dot_color ready available i)] []"

definition styled_replica_dots :: "int \<Rightarrow> int \<Rightarrow> int option \<Rightarrow> vnode" where
  "styled_replica_dots ready desired available =
     VNode ''div'' None [(''display'', ''flex''), (''alignItems'', ''center''), (''gap'', ''6px'')]
       [VNode ''div'' None [(''display'', ''flex''), (''gap'', ''3px'')]
          (map (\<lambda>i. replica_dot ready available (int i)) [0..<nat desired]),
        VNode ''span'' None
          [(''fontSize'', ''12px''), mono_font, (''color'', ''var(--text-secondary)'')]
          [VText (string_of_int ready @ ''/'' @ string_of_int desired)]]"

definition styled_image :: "string \<Rightarrow> vnode" where
  "styled_image img =
     VNode ''span'' None
       [mono_font, (''fontSize'', ''11px''), (''color'', ''var(--text-muted)''), (''maxWidth'', ''200px''),
        (''overflow'', ''hidden''), (''textOverflow'', ''ellipsis''), (''whiteSpace'', ''nowrap''),
        (''display'', ''block'')] [VText img]"

definition styled_mono :: "string \<Rightarrow> vnode" where
  "styled_mono text1 =
     VNode ''span'' None
       [mono_font, (''fontSize'', ''12px''), (''color'', ''var(--text-secondary)'')] [VText text1]"

section \<open>Shared columns\<close>

text \<open>
  \<open>nameCol\<close>, \<open>namespaceCol\<close> and \<open>ageCol\<close>, for the accessor of a kind's metadata; then the
  styled columns that the column sets write out in place.
\<close>

definition name_col :: "('r \<Rightarrow> k8s_metadata) \<Rightarrow> 'r column" where
  "name_col meta = column ''name'' ''Name'' True (\<lambda>r. styled_name (md_name (meta r)) ToneNeutral)"

definition namespace_col :: "('r \<Rightarrow> k8s_metadata) \<Rightarrow> 'r column" where
  "namespace_col meta =
     column ''namespace'' ''Namespace'' True (\<lambda>r. VText (or_else (md_namespace (meta r)) ''-''))"

definition age_col :: "(string \<Rightarrow> string) \<Rightarrow> ('r \<Rightarrow> k8s_metadata) \<Rightarrow> 'r column" where
  "age_col ag meta = column ''age'' ''Age'' True (\<lambda>r. VText (ag (md_creation (meta r))))"

definition status_name_col :: "('r \<Rightarrow> k8s_metadata) \<Rightarrow> ('r \<Rightarrow> tone) \<Rightarrow> 'r column" where
  "status_name_col meta tone1 =
     column ''name'' ''Name'' True (\<lambda>r. styled_name (md_name (meta r)) (tone1 r))"

definition styled_namespace_col :: "('r \<Rightarrow> k8s_metadata) \<Rightarrow> 'r column" where
  "styled_namespace_col meta =
     column ''namespace'' ''Namespace'' True
       (\<lambda>r. styled_namespace (or_else (md_namespace (meta r)) ''-''))"

definition styled_age_col :: "(string \<Rightarrow> string) \<Rightarrow> ('r \<Rightarrow> k8s_metadata) \<Rightarrow> 'r column" where
  "styled_age_col ag meta = column ''age'' ''Age'' True (\<lambda>r. styled_age ag (md_creation (meta r)))"

section \<open>Workload columns\<close>

definition pod_phase :: "pod \<Rightarrow> string" where
  "pod_phase r = (case po_status r of None \<Rightarrow> ''Unknown'' | Some s \<Rightarrow> ps_phase s)"

definition pod_name_tone :: "pod \<Rightarrow> tone" where
  "pod_name_tone r =
     (let phase = pod_phase r
      in if phase = ''Running'' \<or> phase = ''Succeeded'' then ToneSuccess
         else if phase = ''Pending'' then ToneWarning else ToneError)"

definition pod_status_cell :: "pod \<Rightarrow> vnode" where
  "pod_status_cell r =
     (let phase = pod_phase r
      in if phase = ''Running'' \<or> phase = ''Succeeded'' then styled_badge phase ToneSuccess
         else if phase = ''Pending'' then styled_badge phase ToneWarning
         else styled_badge phase ToneError)"

definition pod_containers :: "pod \<Rightarrow> container_status list" where
  "pod_containers r = or_else (chain (po_status r) ps_containers) []"

definition pod_ready_cell :: "pod \<Rightarrow> vnode" where
  "pod_ready_cell r =
     (let containers = pod_containers r;
          ready_count = int (length (filter cs_ready containers));
          total = (if containers \<noteq> [] then int (length containers)
                   else list_len (chain (po_spec r) pp_containers))
      in styled_replica_dots ready_count total None)"

definition pod_restarts_cell :: "pod \<Rightarrow> vnode" where
  "pod_restarts_cell r =
     styled_mono (string_of_int (foldl (\<lambda>acc c. acc + cs_restarts c) 0 (pod_containers r)))"

definition podColumns :: "(string \<Rightarrow> string) \<Rightarrow> pod column list" where
  "podColumns ag =
     [status_name_col po_meta pod_name_tone, styled_namespace_col po_meta,
      column ''status'' ''Status'' True pod_status_cell,
      column ''ready'' ''Ready'' False pod_ready_cell,
      column ''restarts'' ''Restarts'' True pod_restarts_cell,
      column ''node'' ''Node'' False (\<lambda>r. styled_mono (or_else (chain (po_spec r) pp_node) ''-'')),
      styled_age_col ag po_meta]"

text \<open>The tone and the badge that the replica-based kinds compute from ready and desired counts.\<close>

definition replica_tone :: "int \<Rightarrow> int \<Rightarrow> tone" where
  "replica_tone ready desired =
     (if ready = 0 \<and> desired > 0 then ToneError
      else if ready < desired then ToneWarning else ToneSuccess)"

definition replica_badge :: "int \<Rightarrow> int \<Rightarrow> vnode" where
  "replica_badge ready desired =
     (if ready = 0 \<and> desired > 0 then styled_badge ''Failed'' ToneError
      else if ready < desired then styled_badge ''Progressing'' ToneWarning
      else styled_badge ''Running'' ToneSuccess)"

definition first_image :: "pod_template option \<Rightarrow> string" where
  "first_image template =
     (case chain (chain template pt_spec) ts_containers of
        Some (c # _) \<Rightarrow> ct_image c | _ \<Rightarrow> ''-'')"

definition dep_available :: "deployment \<Rightarrow> int" where
  "dep_available r = or_else (chain (de_status r) dt_available) 0"

definition dep_replicas :: "deployment \<Rightarrow> int" where
  "dep_replicas r = or_else (chain (de_spec r) dp_replicas) 0"

definition deploymentColumns :: "(string \<Rightarrow> string) \<Rightarrow> deployment column list" where
  "deploymentColumns ag =
     [status_name_col de_meta (\<lambda>r. replica_tone (dep_available r) (dep_replicas r)),
      styled_namespace_col de_meta,
      column ''status'' ''Status'' True (\<lambda>r. replica_badge (dep_available r) (dep_replicas r)),
      column ''replicas'' ''Replicas'' False
        (\<lambda>r. styled_replica_dots (or_else (chain (de_status r) dt_ready) 0) (dep_replicas r)
               (Some (dep_available r))),
      column ''image'' ''Image'' False (\<lambda>r. styled_image (first_image (chain (de_spec r) dp_template))),
      styled_age_col ag de_meta]"

definition sts_ready :: "statefulset \<Rightarrow> int" where
  "sts_ready r = or_else (chain (ss_status r) st_ready) 0"

definition sts_replicas :: "statefulset \<Rightarrow> int" where
  "sts_replicas r = or_else (chain (ss_spec r) sp_replicas) 0"

definition statefulsetColumns :: "(string \<Rightarrow> string) \<Rightarrow> statefulset column list" where
  "statefulsetColumns ag =
     [status_name_col ss_meta (\<lambda>r. replica_tone (sts_ready r) (sts_replicas r)),
      styled_namespace_col ss_meta,
      column ''status'' ''Status'' True (\<lambda>r. replica_badge (sts_ready r) (sts_replicas r)),
      column ''replicas'' ''Replicas'' False
        (\<lambda>r. styled_replica_dots (sts_ready r) (sts_replicas r) None),
      column ''image'' ''Image'' False (\<lambda>r. styled_image (first_image (chain (ss_spec r) sp_template))),
      styled_age_col ag ss_meta]"

definition ds_ready :: "daemonset \<Rightarrow> int" where
  "ds_ready r = or_else (chain (das_status r) dst_ready) 0"

definition ds_desired :: "daemonset \<Rightarrow> int" where
  "ds_desired r = or_else (chain (das_status r) dst_desired) 0"

definition daemonsetColumns :: "(string \<Rightarrow> string) \<Rightarrow> daemonset column list" where
  "daemonsetColumns ag =
     [status_name_col das_meta (\<lambda>r. replica_tone (ds_ready r) (ds_desired r)),
      styled_namespace_col das_meta,
      column ''status'' ''Status'' True (\<lambda>r. replica_badge (ds_ready r) (ds_desired r)),
      column ''replicas'' ''Nodes Ready'' False
        (\<lambda>r. styled_replica_dots (ds_ready r) (ds_desired r)
               (Some (or_else (chain (das_status r) dst_available) 0))),
      column ''image'' ''Image'' False (\<lambda>r. styled_image (first_image (chain (das_spec r) dsp_template))),
      styled_age_col ag das_meta]"

definition rs_ready :: "replicaset \<Rightarrow> int" where
  "rs_ready r = or_else (chain (rs_rstatus r) rst_ready) 0"

definition rs_replicas :: "replicaset \<Rightarrow> int" where
  "rs_replicas r = or_else (chain (rs_spec r) rp_replicas) 0"

definition replicasetColumns :: "(string \<Rightarrow> string) \<Rightarrow> replicaset column list" where
  "replicasetColumns ag =
     [status_name_col rs_meta (\<lambda>r. replica_tone (rs_ready r) (rs_replicas r)),
      styled_namespace_col rs_meta,
      column ''status'' ''Status'' False (\<lambda>r. replica_badge (rs_ready r) (rs_replicas r)),
      column ''replicas'' ''Replicas'' False
        (\<lambda>r. styled_replica_dots (rs_ready r) (rs_replicas r) None),
      styled_age_col ag rs_meta]"

definition job_done :: "job \<Rightarrow> bool" where
  "job_done r = has_text (chain (jo_status r) jt_completion)"

definition job_failed :: "job \<Rightarrow> int" where
  "job_failed r = or_else (chain (jo_status r) jt_failed) 0"

definition job_active :: "job \<Rightarrow> int" where
  "job_active r = or_else (chain (jo_status r) jt_active) 0"

definition job_name_tone :: "job \<Rightarrow> tone" where
  "job_name_tone r =
     (if job_done r then ToneSuccess else if job_failed r > 0 then ToneError
      else if job_active r > 0 then ToneInfo else ToneWarning)"

definition job_status_cell :: "job \<Rightarrow> vnode" where
  "job_status_cell r =
     (if job_done r then styled_badge ''Complete'' ToneSuccess
      else if job_failed r > 0 then styled_badge ''Failed'' ToneError
      else if job_active r > 0 then styled_badge ''Running'' ToneInfo
      else styled_badge ''Pending'' ToneWarning)"

definition jobColumns :: "(string \<Rightarrow> string) \<Rightarrow> job column list" where
  "jobColumns ag =
     [status_name_col jo_meta job_name_tone, styled_namespace_col jo_meta,
      column ''status'' ''Status'' False job_status_cell,
      column ''completions'' ''Completions'' False
        (\<lambda>r. styled_replica_dots (or_else (chain (jo_status r) jt_succeeded) 0)
               (or_else (chain (jo_spec r) jp_completions) 1) None),
      styled_age_col ag jo_meta]"

definition cron_suspended :: "cronjob \<Rightarrow> bool" where
  "cron_suspended r = (chain (cr_spec r) cj_suspend = Some True)"

definition cronjobColumns :: "(string \<Rightarrow> string) \<Rightarrow> cronjob column list" where
  "cronjobColumns ag =
     [status_name_col cr_meta (\<lambda>r. if cron_suspended r then ToneWarning else ToneSuccess),
      styled_namespace_col cr_meta,
      column ''schedule'' ''Schedule'' False
        (\<lambda>r. styled_mono (or_else (chain (cr_spec r) cj_schedule) ''-'')),
      column ''suspend'' ''Suspend'' False
        (\<lambda>r. if cron_suspended r then styled_badge ''Suspended'' ToneWarning
              else styled_badge ''Active'' ToneSuccess),
      column ''lastSchedule'' ''Last Schedule'' False
        (\<lambda>r. let t = chain (cr_status r) ck_last
              in if has_text t then styled_age ag (the t) else styled_mono ''-''),
      styled_age_col ag cr_meta]"

section \<open>Networking columns\<close>

definition service_type_cell :: "service \<Rightarrow> vnode" where
  "service_type_cell r =
     (let t = or_else (chain (se_spec r) svp_type) ''ClusterIP''
      in if t = ''ClusterIP'' then styled_badge t ToneInfo
         else if t = ''NodePort'' then styled_badge t ToneSuccess
         else if t = ''LoadBalancer'' then styled_badge t ToneInfo
         else styled_badge t ToneWarning)"

definition service_ports_cell :: "service \<Rightarrow> vnode" where
  "service_ports_cell r =
     (case chain (se_spec r) svp_ports of
        Some (p # ps) \<Rightarrow>
          styled_mono (js_join '', '' (map (\<lambda>q. string_of_int (sv_port q) @ ''/''
            @ or_else (sv_protocol q) ''TCP'') (p # ps)))
      | _ \<Rightarrow> styled_mono ''-'')"

definition serviceColumns :: "(string \<Rightarrow> string) \<Rightarrow> service column list" where
  "serviceColumns ag =
     [status_name_col se_meta (\<lambda>_. ToneSuccess), styled_namespace_col se_meta,
      column ''type'' ''Type'' True service_type_cell,
      column ''clusterIP'' ''Cluster IP'' False
        (\<lambda>r. styled_mono (or_else (chain (se_spec r) svp_cluster_ip) ''-'')),
      column ''ports'' ''Ports'' False service_ports_cell,
      styled_age_col ag se_meta]"

definition ingress_lb :: "ingress \<Rightarrow> lb_ingress list option" where
  "ingress_lb r = chain (chain (in_status r) is_lb) lo_ingress"

definition ingress_hosts_cell :: "ingress \<Rightarrow> vnode" where
  "ingress_hosts_cell r =
     (case chain (in_spec r) ip_rules of
        Some (x # xs) \<Rightarrow> styled_mono (js_join '', '' (map (\<lambda>q. or_else (ir_host q) ''*'') (x # xs)))
      | _ \<Rightarrow> styled_mono ''-'')"

definition ingress_address_cell :: "ingress \<Rightarrow> vnode" where
  "ingress_address_cell r =
     (case ingress_lb r of
        Some (x # xs) \<Rightarrow>
          styled_mono (js_join '', '' (map (\<lambda>q. or_else (lb_ip q) (or_else (lb_hostname q) [])) (x # xs)))
      | _ \<Rightarrow> styled_mono ''-'')"

definition ingressColumns :: "(string \<Rightarrow> string) \<Rightarrow> ingress column list" where
  "ingressColumns ag =
     [status_name_col in_meta (\<lambda>r. if list_len (ingress_lb r) > 0 then ToneSuccess else ToneWarning),
      styled_namespace_col in_meta,
      column ''hosts'' ''Hosts'' False ingress_hosts_cell,
      column ''address'' ''Address'' False ingress_address_cell,
      styled_age_col ag in_meta]"

definition label_text :: "str_map \<Rightarrow> string" where
  "label_text labels = js_join '', '' (map (\<lambda>(k, v). k @ ''='' @ v) labels)"

definition np_selector_cell :: "network_policy \<Rightarrow> vnode" where
  "np_selector_cell r =
     (case chain (chain (np_spec r) nps_selector) ls_match of
        Some (l # ls) \<Rightarrow>
          VNode ''span'' None
            [mono_font, (''fontSize'', ''12px''), (''color'', ''var(--text-secondary)''),
             (''maxWidth'', ''200px''), (''overflow'', ''hidden''), (''textOverflow'', ''ellipsis''),
             (''whiteSpace'', ''nowrap''), (''display'', ''block'')] [VText (label_text (l # ls))]
      | _ \<Rightarrow> styled_mono ''All pods'')"

definition np_types_cell :: "network_policy \<Rightarrow> vnode" where
  "np_types_cell r =
     VNode ''span'' None [(''display'', ''flex''), (''gap'', ''4px'')]
       (map (\<lambda>t. styled_badge t (if t = ''Ingress'' then ToneInfo else ToneWarning))
         (or_else (chain (np_spec r) nps_types) [''Ingress'']))"

definition networkpolicyColumns :: "(string \<Rightarrow> string) \<Rightarrow> network_policy column list" where
  "networkpolicyColumns ag =
     [status_name_col np_meta (\<lambda>_. ToneNeutral), styled_namespace_col np_meta,
      column ''podSelector'' ''Applies To'' False np_selector_cell,
      column ''policyTypes'' ''Policy Types'' False np_types_cell,
      column ''rules'' ''Rules'' False
        (\<lambda>r. styled_mono (string_of_int
           (list_len (chain (np_spec r) nps_ingress) + list_len (chain (np_spec r) nps_egress)))),
      styled_age_col ag np_meta]"

text \<open>\<open>reduce\<close> over the subsets.\<close>

definition subset_count :: "(endpoint_subset \<Rightarrow> endpoint_address list option) \<Rightarrow> endpoints \<Rightarrow> int" where
  "subset_count f r =
     (case ep_subsets r of None \<Rightarrow> 0 | Some subs \<Rightarrow> foldl (\<lambda>acc x. acc + list_len (f x)) 0 subs)"

definition endpoints_tone :: "endpoints \<Rightarrow> tone" where
  "endpoints_tone r =
     (let ready_count = subset_count es_addresses r; not_ready = subset_count es_not_ready r
      in if ready_count = 0 \<and> not_ready > 0 then ToneError
         else if not_ready > 0 then ToneWarning else ToneSuccess)"

definition endpointColumns :: "(string \<Rightarrow> string) \<Rightarrow> endpoints column list" where
  "endpointColumns ag =
     [status_name_col ep_meta endpoints_tone, styled_namespace_col ep_meta,
      column ''addresses'' ''Addresses'' False
        (\<lambda>r. styled_mono (string_of_int (subset_count es_addresses r))),
      styled_age_col ag ep_meta]"

definition slice_tone :: "endpoint_slice \<Rightarrow> tone" where
  "slice_tone r =
     (let eps = or_else (sli_endpoints r) [];
          all_ready = (eps \<noteq> [] \<and> list_all (\<lambda>e. chain (sl_conditions e) ec_ready \<noteq> Some False) eps)
      in if eps = [] then ToneNeutral else if all_ready then ToneSuccess else ToneWarning)"

definition slice_ports_cell :: "endpoint_slice \<Rightarrow> vnode" where
  "slice_ports_cell r =
     (case sli_ports r of
        Some (p # ps) \<Rightarrow>
          styled_mono (js_join '', '' (map (\<lambda>q.
            (case slp_port q of None \<Rightarrow> [] | Some n \<Rightarrow> string_of_int n) @ ''/''
            @ or_else (slp_protocol q) ''TCP'') (p # ps)))
      | _ \<Rightarrow> styled_mono ''-'')"

definition endpointsliceColumns :: "(string \<Rightarrow> string) \<Rightarrow> endpoint_slice column list" where
  "endpointsliceColumns ag =
     [status_name_col sli_meta slice_tone, styled_namespace_col sli_meta,
      column ''addressType'' ''Address Type'' False
        (\<lambda>r. styled_badge (or_else (sli_address_type r) ''-'') ToneInfo),
      column ''ports'' ''Ports'' False slice_ports_cell,
      column ''endpoints'' ''Endpoints'' False
        (\<lambda>r. styled_mono (string_of_int (list_len (sli_endpoints r)))),
      styled_age_col ag sli_meta]"

text \<open>A Cilium policy is a dynamic resource: its metadata is typed, the rest is JSON.\<close>

record dyn_resource =
  dy_meta :: k8s_metadata
  dy_body :: js

definition js_len :: "js \<Rightarrow> int" where
  "js_len v = (case v of JArr xs \<Rightarrow> int (length xs) | _ \<Rightarrow> 0)"

definition cilium_selector_cell :: "dyn_resource \<Rightarrow> vnode" where
  "cilium_selector_cell r =
     (case js_get (js_get (js_get (dy_body r) ''spec'') ''endpointSelector'') ''matchLabels'' of
        JObj (l # ls) \<Rightarrow> VText (label_text (map (\<lambda>(k, v). (k, js_text v)) (l # ls)))
      | _ \<Rightarrow> VText ''All'')"

definition cilium_rules_cell :: "dyn_resource \<Rightarrow> vnode" where
  "cilium_rules_cell r =
     (let spec = js_get (dy_body r) ''spec''
      in count_text (js_len (js_get spec ''ingress'') + js_len (js_get spec ''ingressDeny'')
           + js_len (js_get spec ''egress'') + js_len (js_get spec ''egressDeny'')))"

definition ciliumnetworkpolicyColumns :: "(string \<Rightarrow> string) \<Rightarrow> dyn_resource column list" where
  "ciliumnetworkpolicyColumns ag =
     [status_name_col dy_meta (\<lambda>_. ToneNeutral), namespace_col dy_meta,
      (column ''endpointSelector'' ''Endpoint Selector'' False cilium_selector_cell)
        \<lparr>col_class := Some ''max-w-xs truncate''\<rparr>,
      column ''rules'' ''Rules'' False cilium_rules_cell,
      age_col ag dy_meta]"

section \<open>Configuration, storage and cluster columns\<close>

definition configmapColumns :: "(string \<Rightarrow> string) \<Rightarrow> config_map column list" where
  "configmapColumns ag =
     [status_name_col cm_meta (\<lambda>_. ToneNeutral), styled_namespace_col cm_meta,
      column ''keys'' ''Keys'' False (\<lambda>r. styled_mono (string_of_int (list_len (cm_data r)))),
      styled_age_col ag cm_meta]"

definition secret_type_cell :: "secret \<Rightarrow> vnode" where
  "secret_type_cell r =
     (let t = or_else (sc_type r) ''Opaque''
      in styled_badge t (if t = ''kubernetes.io/tls'' then ToneSuccess else ToneInfo))"

definition secretColumns :: "(string \<Rightarrow> string) \<Rightarrow> secret column list" where
  "secretColumns ag =
     [status_name_col sc_meta (\<lambda>_. ToneNeutral), styled_namespace_col sc_meta,
      column ''type'' ''Type'' True secret_type_cell,
      column ''keys'' ''Keys'' False (\<lambda>r. styled_mono (string_of_int (list_len (sc_data r)))),
      styled_age_col ag sc_meta]"

definition namespaceColumns :: "(string \<Rightarrow> string) \<Rightarrow> namespace_res column list" where
  "namespaceColumns ag =
     [name_col ns_meta,
      column ''status'' ''Status'' True (\<lambda>r. badge (or_else (ns_phase r) ''Active'')),
      age_col ag ns_meta]"

definition node_ready :: "node_res \<Rightarrow> bool" where
  "node_ready r =
     (chain (find (\<lambda>c. co_type c = ''Ready'') (or_else (chain (no_status r) nt_conditions) []))
        (\<lambda>c. Some (co_status c)) = Some ''True'')"

definition role_prefix :: string where
  "role_prefix = ''node-role.kubernetes.io/''"

definition node_roles_cell :: "node_res \<Rightarrow> vnode" where
  "node_roles_cell r =
     (let labels = or_else (md_labels (no_meta r)) [];
          roles = map (drop (length role_prefix)) (filter (\<lambda>k. starts_with k role_prefix) (map fst labels))
      in VText (if roles \<noteq> [] then js_join '', '' roles else ''<none>''))"

definition nodeColumns :: "(string \<Rightarrow> string) \<Rightarrow> node_res column list" where
  "nodeColumns ag =
     [name_col no_meta,
      column ''status'' ''Status'' False (\<lambda>r. badge (if node_ready r then ''Ready'' else ''Not Ready'')),
      column ''roles'' ''Roles'' False node_roles_cell,
      column ''version'' ''Version'' False
        (\<lambda>r. VText (case chain (no_status r) nt_info of None \<Rightarrow> ''-'' | Some i \<Rightarrow> nf_kubelet i)),
      age_col ag no_meta]"

definition pvc_phase :: "pvc \<Rightarrow> string" where
  "pvc_phase r = or_else (chain (pc_status r) vs_phase) ''Pending''"

definition pvc_name_tone :: "pvc \<Rightarrow> tone" where
  "pvc_name_tone r =
     (if pvc_phase r = ''Bound'' then ToneSuccess
      else if pvc_phase r = ''Pending'' then ToneWarning else ToneError)"

definition pvc_status_cell :: "pvc \<Rightarrow> vnode" where
  "pvc_status_cell r =
     (if pvc_phase r = ''Bound'' then styled_badge (pvc_phase r) ToneSuccess
      else if pvc_phase r = ''Pending'' then styled_badge (pvc_phase r) ToneWarning
      else styled_badge (pvc_phase r) ToneError)"

definition map_get :: "str_map option \<Rightarrow> string \<Rightarrow> string option" where
  "map_get m k = chain m (\<lambda>r. rec_get r k)"

definition pvcColumns :: "(string \<Rightarrow> string) \<Rightarrow> pvc column list" where
  "pvcColumns ag =
     [status_name_col pc_meta pvc_name_tone, styled_namespace_col pc_meta,
      column ''status'' ''Status'' True pvc_status_cell,
      column ''capacity'' ''Capacity'' False
        (\<lambda>r. styled_mono (or_else (map_get (chain (pc_status r) vs_capacity) ''storage'') ''-'')),
      column ''storageClass'' ''Storage Class'' False
        (\<lambda>r. styled_mono (or_else (chain (pc_spec r) vc_class) ''-'')),
      styled_age_col ag pc_meta]"

definition pv_phase_text :: "pv \<Rightarrow> string" where
  "pv_phase_text r = or_else (pe_phase r) ''Available''"

definition pv_name_tone :: "pv \<Rightarrow> tone" where
  "pv_name_tone r =
     (let phase = pv_phase_text r
      in if phase = ''Available'' \<or> phase = ''Bound'' then ToneSuccess
         else if phase = ''Released'' then ToneWarning else ToneError)"

definition pv_status_cell :: "pv \<Rightarrow> vnode" where
  "pv_status_cell r =
     (let phase = pv_phase_text r
      in if phase = ''Available'' \<or> phase = ''Bound'' then styled_badge phase ToneSuccess
         else if phase = ''Released'' then styled_badge phase ToneWarning
         else styled_badge phase ToneError)"

definition pvColumns :: "(string \<Rightarrow> string) \<Rightarrow> pv column list" where
  "pvColumns ag =
     [status_name_col pe_meta pv_name_tone,
      column ''capacity'' ''Capacity'' False
        (\<lambda>r. styled_mono (or_else (map_get (chain (pe_spec r) pv_capacity) ''storage'') ''-'')),
      column ''accessModes'' ''Access Modes'' False
        (\<lambda>r. styled_mono (case chain (pe_spec r) pv_modes of None \<Rightarrow> ''-'' | Some ms \<Rightarrow> js_join '', '' ms)),
      column ''reclaimPolicy'' ''Reclaim Policy'' False
        (\<lambda>r. styled_mono (or_else (chain (pe_spec r) pv_reclaim) ''-'')),
      column ''status'' ''Status'' True pv_status_cell,
      column ''storageClass'' ''Storage Class'' False
        (\<lambda>r. styled_mono (or_else (chain (pe_spec r) pv_class) ''-'')),
      column ''claim'' ''Claim'' False
        (\<lambda>r. styled_mono (case chain (pe_spec r) pv_claim of None \<Rightarrow> ''-''
               | Some ref \<Rightarrow> cf_namespace ref @ ''/'' @ cf_name ref)),
      styled_age_col ag pe_meta]"

definition reclaim_cell :: "storage_class \<Rightarrow> vnode" where
  "reclaim_cell r =
     (let policy = or_else (sg_reclaim r) ''-''
      in if policy = ''Delete'' then styled_badge policy ToneWarning
         else if policy = ''Retain'' then styled_badge policy ToneSuccess
         else styled_mono policy)"

definition storageclassColumns :: "(string \<Rightarrow> string) \<Rightarrow> storage_class column list" where
  "storageclassColumns ag =
     [status_name_col sg_meta (\<lambda>_. ToneNeutral),
      column ''provisioner'' ''Provisioner'' False (\<lambda>r. styled_mono (or_else (sg_provisioner r) ''-'')),
      column ''reclaimPolicy'' ''Reclaim Policy'' False reclaim_cell,
      column ''volumeBindingMode'' ''Volume Binding Mode'' False
        (\<lambda>r. styled_mono (or_else (sg_binding r) ''-'')),
      styled_age_col ag sg_meta]"

definition resourcequotaColumns :: "(string \<Rightarrow> string) \<Rightarrow> resource_quota column list" where
  "resourcequotaColumns ag =
     [status_name_col rq_meta (\<lambda>_. ToneNeutral), styled_namespace_col rq_meta, styled_age_col ag rq_meta]"

definition limitrangeColumns :: "(string \<Rightarrow> string) \<Rightarrow> limit_range column list" where
  "limitrangeColumns ag =
     [status_name_col lr_meta (\<lambda>_. ToneNeutral), styled_namespace_col lr_meta, styled_age_col ag lr_meta]"

definition serviceaccountColumns :: "(string \<Rightarrow> string) \<Rightarrow> service_account column list" where
  "serviceaccountColumns ag =
     [status_name_col sa_meta (\<lambda>_. ToneNeutral), styled_namespace_col sa_meta,
      column ''secrets'' ''Secrets'' False (\<lambda>r. styled_mono (string_of_int (list_len (sa_secrets r)))),
      styled_age_col ag sa_meta]"

section \<open>Access, scaling and event columns\<close>

definition roleColumns :: "(string \<Rightarrow> string) \<Rightarrow> role_res column list" where
  "roleColumns ag =
     [name_col ro_meta, namespace_col ro_meta,
      column ''rules'' ''Rules'' False (\<lambda>r. count_text (list_len (ro_rules r))), age_col ag ro_meta]"

definition clusterroleColumns :: "(string \<Rightarrow> string) \<Rightarrow> role_res column list" where
  "clusterroleColumns ag =
     [name_col ro_meta,
      column ''rules'' ''Rules'' False (\<lambda>r. count_text (list_len (ro_rules r))), age_col ag ro_meta]"

definition role_ref_cell :: "role_binding \<Rightarrow> vnode" where
  "role_ref_cell r = VText (rf_kind (rbi_role r) @ ''/'' @ rf_name (rbi_role r))"

definition rolebindingColumns :: "(string \<Rightarrow> string) \<Rightarrow> role_binding column list" where
  "rolebindingColumns ag =
     [name_col rbi_meta, namespace_col rbi_meta,
      column ''roleRef'' ''Role'' False role_ref_cell,
      column ''subjects'' ''Subjects'' False (\<lambda>r. count_text (list_len (rbi_subjects r))),
      age_col ag rbi_meta]"

definition clusterrolebindingColumns :: "(string \<Rightarrow> string) \<Rightarrow> role_binding column list" where
  "clusterrolebindingColumns ag =
     [name_col rbi_meta,
      column ''roleRef'' ''Role'' False role_ref_cell,
      column ''subjects'' ''Subjects'' False (\<lambda>r. count_text (list_len (rbi_subjects r))),
      age_col ag rbi_meta]"

definition event_object_cell :: "k8s_event \<Rightarrow> vnode" where
  "event_object_cell r =
     VText (case ev_object r of None \<Rightarrow> ''-'' | Some x \<Rightarrow> io_kind x @ ''/'' @ io_name x)"

definition eventColumns :: "(string \<Rightarrow> string) \<Rightarrow> k8s_event column list" where
  "eventColumns ag =
     [column ''type'' ''Type'' True (\<lambda>r. badge (or_else (ev_type r) ''Normal'')),
      column ''reason'' ''Reason'' True (\<lambda>r. VText (or_else (ev_reason r) ''-'')),
      column ''object'' ''Object'' False event_object_cell,
      (column ''message'' ''Message'' False (\<lambda>r. VText (or_else (ev_message r) ''-'')))
        \<lparr>col_class := Some ''max-w-md truncate''\<rparr>,
      column ''count'' ''Count'' False (\<lambda>r. count_text (or_else (ev_count r) 1)),
      column ''lastSeen'' ''Last Seen'' True
        (\<lambda>r. VText (if has_text (ev_last r) then ag (the (ev_last r)) else ''-''))]"

definition webhook_cell :: "dyn_resource \<Rightarrow> vnode" where
  "webhook_cell r = count_text (js_len (js_get (dy_body r) ''webhooks''))"

definition validatingWebhookColumns :: "(string \<Rightarrow> string) \<Rightarrow> dyn_resource column list" where
  "validatingWebhookColumns ag =
     [name_col dy_meta, column ''webhooks'' ''Webhooks'' False webhook_cell, age_col ag dy_meta]"

definition mutatingWebhookColumns :: "(string \<Rightarrow> string) \<Rightarrow> dyn_resource column list" where
  "mutatingWebhookColumns ag =
     [name_col dy_meta, column ''webhooks'' ''Webhooks'' False webhook_cell, age_col ag dy_meta]"

text \<open>
  One metric of the targets cell; a utilization of 0 is falsy, so such a metric shows its type.
\<close>

definition metric_text :: "hpa \<Rightarrow> hpa_metric \<Rightarrow> string" where
  "metric_text r m =
     (case chain (hm_resource m) ht_utilization of
        None \<Rightarrow> hm_type m
      | Some target \<Rightarrow>
          if target = 0 then hm_type m
          else
            (let current = find (\<lambda>cm. chain (hc_resource cm) (\<lambda>x. Some (fst x))
                                       = chain (hm_resource m) (\<lambda>x. Some (ht_name x)))
                             (or_else (chain (hpa_status r) hs_metrics) []);
                 val = chain (chain current hc_resource) (\<lambda>x. fst (snd x))
             in (case val of None \<Rightarrow> ''<unknown>'' | Some n \<Rightarrow> string_of_int n)
                @ ''%/'' @ string_of_int target @ ''%''))"

definition hpa_targets_cell :: "hpa \<Rightarrow> vnode" where
  "hpa_targets_cell r =
     (case chain (hpa_spec r) hp_metrics of
        Some (m # ms) \<Rightarrow> VText (js_join '', '' (map (metric_text r) (m # ms)))
      | _ \<Rightarrow> VText ''-'')"

definition hpaColumns :: "(string \<Rightarrow> string) \<Rightarrow> hpa column list" where
  "hpaColumns ag =
     [name_col hpa_meta, namespace_col hpa_meta,
      column ''targets'' ''Targets'' False hpa_targets_cell,
      column ''minReplicas'' ''Min'' False (\<lambda>r. count_text (or_else (chain (hpa_spec r) hp_min) 1)),
      column ''maxReplicas'' ''Max'' False (\<lambda>r. count_text (or_else (chain (hpa_spec r) hp_max) 0)),
      column ''currentReplicas'' ''Replicas'' False
        (\<lambda>r. count_text (or_else (chain (hpa_status r) hs_current) 0)),
      age_col ag hpa_meta]"

fun ios_text :: "int_or_string option \<Rightarrow> string" where
  "ios_text None = ''-''"
| "ios_text (Some (IosInt n)) = string_of_int n"
| "ios_text (Some (IosStr s)) = s"

definition pdbColumns :: "(string \<Rightarrow> string) \<Rightarrow> pdb column list" where
  "pdbColumns ag =
     [name_col pd_meta, namespace_col pd_meta,
      column ''minAvailable'' ''Min Available'' False (\<lambda>r. VText (ios_text (chain (pd_spec r) pb_min))),
      column ''maxUnavailable'' ''Max Unavailable'' False
        (\<lambda>r. VText (ios_text (chain (pd_spec r) pb_max))),
      column ''currentHealthy'' ''Current Healthy'' False
        (\<lambda>r. count_text (or_else (chain (pd_status r) pk_current) 0)),
      column ''desiredHealthy'' ''Desired Healthy'' False
        (\<lambda>r. count_text (or_else (chain (pd_status r) pk_desired) 0)),
      age_col ag pd_meta]"

section \<open>The table of column sets\<close>

text \<open>
  \<open>K8sResource\<close> as the sum of the kinds; the cast \<open>r as Pod\<close> is a projection. A column set lifted
  to the sum renders nothing for a resource of another kind, which the tables never pass.
\<close>

datatype k8s_resource =
    RPod pod | RDeployment deployment | RStatefulSet statefulset | RDaemonSet daemonset
  | RService service | RIngress ingress | RConfigMap config_map | RSecret secret
  | RNamespace namespace_res | RNode node_res | RPvc pvc | RJob job | RCronJob cronjob
  | RNetworkPolicy network_policy | RRole role_res | RRoleBinding role_binding
  | RReplicaSet replicaset | REndpoints endpoints | RHpa hpa | RPv pv | RStorageClass storage_class
  | RResourceQuota resource_quota | RLimitRange limit_range | RServiceAccount service_account
  | RPdb pdb | REndpointSlice endpoint_slice | REvent k8s_event | RDynamic dyn_resource

definition lift_columns :: "(k8s_resource \<Rightarrow> 'r option) \<Rightarrow> 'r column list \<Rightarrow> k8s_resource column list" where
  "lift_columns pick cols =
     map (\<lambda>c. \<lparr>col_key = col_key c, col_label = col_label c, col_sortable = col_sortable c,
                col_class = col_class c,
                col_render = (\<lambda>r. case pick r of None \<Rightarrow> VText [] | Some x \<Rightarrow> col_render c x)\<rparr>) cols"

definition RESOURCE_COLUMNS :: "(string \<Rightarrow> string) \<Rightarrow> (string \<times> k8s_resource column list) list" where
  "RESOURCE_COLUMNS ag =
     [(''pods'', lift_columns (\<lambda>r. case r of RPod x \<Rightarrow> Some x | _ \<Rightarrow> None) (podColumns ag)),
      (''deployments'', lift_columns (\<lambda>r. case r of RDeployment x \<Rightarrow> Some x | _ \<Rightarrow> None) (deploymentColumns ag)),
      (''statefulsets'', lift_columns (\<lambda>r. case r of RStatefulSet x \<Rightarrow> Some x | _ \<Rightarrow> None) (statefulsetColumns ag)),
      (''daemonsets'', lift_columns (\<lambda>r. case r of RDaemonSet x \<Rightarrow> Some x | _ \<Rightarrow> None) (daemonsetColumns ag)),
      (''services'', lift_columns (\<lambda>r. case r of RService x \<Rightarrow> Some x | _ \<Rightarrow> None) (serviceColumns ag)),
      (''ingresses'', lift_columns (\<lambda>r. case r of RIngress x \<Rightarrow> Some x | _ \<Rightarrow> None) (ingressColumns ag)),
      (''configmaps'', lift_columns (\<lambda>r. case r of RConfigMap x \<Rightarrow> Some x | _ \<Rightarrow> None) (configmapColumns ag)),
      (''secrets'', lift_columns (\<lambda>r. case r of RSecret x \<Rightarrow> Some x | _ \<Rightarrow> None) (secretColumns ag)),
      (''namespaces'', lift_columns (\<lambda>r. case r of RNamespace x \<Rightarrow> Some x | _ \<Rightarrow> None) (namespaceColumns ag)),
      (''nodes'', lift_columns (\<lambda>r. case r of RNode x \<Rightarrow> Some x | _ \<Rightarrow> None) (nodeColumns ag)),
      (''pvcs'', lift_columns (\<lambda>r. case r of RPvc x \<Rightarrow> Some x | _ \<Rightarrow> None) (pvcColumns ag)),
      (''jobs'', lift_columns (\<lambda>r. case r of RJob x \<Rightarrow> Some x | _ \<Rightarrow> None) (jobColumns ag)),
      (''cronjobs'', lift_columns (\<lambda>r. case r of RCronJob x \<Rightarrow> Some x | _ \<Rightarrow> None) (cronjobColumns ag)),
      (''networkpolicies'', lift_columns (\<lambda>r. case r of RNetworkPolicy x \<Rightarrow> Some x | _ \<Rightarrow> None) (networkpolicyColumns ag)),
      (''roles'', lift_columns (\<lambda>r. case r of RRole x \<Rightarrow> Some x | _ \<Rightarrow> None) (roleColumns ag)),
      (''clusterroles'', lift_columns (\<lambda>r. case r of RRole x \<Rightarrow> Some x | _ \<Rightarrow> None) (clusterroleColumns ag)),
      (''rolebindings'', lift_columns (\<lambda>r. case r of RRoleBinding x \<Rightarrow> Some x | _ \<Rightarrow> None) (rolebindingColumns ag)),
      (''clusterrolebindings'', lift_columns (\<lambda>r. case r of RRoleBinding x \<Rightarrow> Some x | _ \<Rightarrow> None) (clusterrolebindingColumns ag)),
      (''replicasets'', lift_columns (\<lambda>r. case r of RReplicaSet x \<Rightarrow> Some x | _ \<Rightarrow> None) (replicasetColumns ag)),
      (''endpoints'', lift_columns (\<lambda>r. case r of REndpoints x \<Rightarrow> Some x | _ \<Rightarrow> None) (endpointColumns ag)),
      (''hpas'', lift_columns (\<lambda>r. case r of RHpa x \<Rightarrow> Some x | _ \<Rightarrow> None) (hpaColumns ag)),
      (''pvs'', lift_columns (\<lambda>r. case r of RPv x \<Rightarrow> Some x | _ \<Rightarrow> None) (pvColumns ag)),
      (''storageclasses'', lift_columns (\<lambda>r. case r of RStorageClass x \<Rightarrow> Some x | _ \<Rightarrow> None) (storageclassColumns ag)),
      (''resourcequotas'', lift_columns (\<lambda>r. case r of RResourceQuota x \<Rightarrow> Some x | _ \<Rightarrow> None) (resourcequotaColumns ag)),
      (''limitranges'', lift_columns (\<lambda>r. case r of RLimitRange x \<Rightarrow> Some x | _ \<Rightarrow> None) (limitrangeColumns ag)),
      (''serviceaccounts'', lift_columns (\<lambda>r. case r of RServiceAccount x \<Rightarrow> Some x | _ \<Rightarrow> None) (serviceaccountColumns ag)),
      (''pdbs'', lift_columns (\<lambda>r. case r of RPdb x \<Rightarrow> Some x | _ \<Rightarrow> None) (pdbColumns ag)),
      (''endpointslices'', lift_columns (\<lambda>r. case r of REndpointSlice x \<Rightarrow> Some x | _ \<Rightarrow> None) (endpointsliceColumns ag)),
      (''events'', lift_columns (\<lambda>r. case r of REvent x \<Rightarrow> Some x | _ \<Rightarrow> None) (eventColumns ag)),
      (''validatingwebhookconfigurations'', lift_columns (\<lambda>r. case r of RDynamic x \<Rightarrow> Some x | _ \<Rightarrow> None) (validatingWebhookColumns ag)),
      (''mutatingwebhookconfigurations'', lift_columns (\<lambda>r. case r of RDynamic x \<Rightarrow> Some x | _ \<Rightarrow> None) (mutatingWebhookColumns ag)),
      (''ciliumnetworkpolicies'', lift_columns (\<lambda>r. case r of RDynamic x \<Rightarrow> Some x | _ \<Rightarrow> None) (ciliumnetworkpolicyColumns ag))]"

section \<open>The tables are consistent\<close>

text \<open>The colour of a \<open>StatusDot\<close> (\<open>components/ui/StatusDot.tsx\<close>).\<close>

fun STATUS_COLORS :: "tone \<Rightarrow> string" where
  "STATUS_COLORS ToneSuccess = ''var(--success)''"
| "STATUS_COLORS ToneWarning = ''var(--warning)''"
| "STATUS_COLORS ToneError = ''var(--error)''"
| "STATUS_COLORS ToneInfo = ''var(--accent)''"
| "STATUS_COLORS ToneNeutral = ''var(--text-muted)''"

definition cell :: "string \<Rightarrow> 'r column list \<Rightarrow> 'r \<Rightarrow> vnode option" where
  "cell key cols r = map_option (\<lambda>c. col_render c r) (find (\<lambda>c. col_key c = key) cols)"

text \<open>The colour of the dot before a name, and of the dot in a badge.\<close>

fun name_color :: "vnode option \<Rightarrow> string option" where
  "name_color (Some (VNode t c st (VDot tone1 n # ks))) = Some (STATUS_COLORS tone1)"
| "name_color v = None"

fun badge_color :: "vnode option \<Rightarrow> string option" where
  "badge_color (Some (VNode t c st (VNode t' c' st' [] # ks))) = rec_get st' ''background''"
| "badge_color v = None"

lemma styled_name_color [simp]: "name_color (Some (styled_name n t)) = Some (STATUS_COLORS t)"
  by (simp add: styled_name_def)

lemma styled_badge_color [simp]:
  "t \<noteq> ToneNeutral \<Longrightarrow> badge_color (Some (styled_badge x t)) = Some (STATUS_COLORS t)"
  by (cases t) (simp_all add: styled_badge_def)

lemma column_sel [simp]:
  "col_key (column k l s f) = k" "col_label (column k l s f) = l" "col_sortable (column k l s f) = s"
  "col_render (column k l s f) = f"
  by (simp_all add: column_def)

lemma shared_keys [simp]:
  "col_key (status_name_col meta tn) = ''name''" "col_key (styled_namespace_col meta) = ''namespace''"
  "col_key (styled_age_col ag meta) = ''age''" "col_key (name_col meta) = ''name''"
  "col_key (namespace_col meta) = ''namespace''" "col_key (age_col ag meta) = ''age''"
  "col_sortable (status_name_col meta tn)" "col_sortable (styled_age_col ag meta)"
  "col_sortable (name_col meta)" "col_sortable (age_col ag meta)"
  "col_render (status_name_col meta tn) r = styled_name (md_name (meta r)) (tn r)"
  by (simp_all add: status_name_col_def styled_namespace_col_def styled_age_col_def name_col_def
      namespace_col_def age_col_def)

lemma replica_agree:
  "badge_color (Some (replica_badge a b)) = Some (STATUS_COLORS (replica_tone a b))"
  by (simp add: replica_badge_def replica_tone_def)

lemmas other_column_sets = serviceColumns_def ingressColumns_def configmapColumns_def secretColumns_def
  namespaceColumns_def nodeColumns_def networkpolicyColumns_def roleColumns_def clusterroleColumns_def
  rolebindingColumns_def clusterrolebindingColumns_def endpointColumns_def hpaColumns_def
  storageclassColumns_def resourcequotaColumns_def limitrangeColumns_def serviceaccountColumns_def
  pdbColumns_def endpointsliceColumns_def eventColumns_def validatingWebhookColumns_def
  mutatingWebhookColumns_def ciliumnetworkpolicyColumns_def

lemmas column_sets = podColumns_def deploymentColumns_def statefulsetColumns_def daemonsetColumns_def
  replicasetColumns_def jobColumns_def cronjobColumns_def pvcColumns_def pvColumns_def

text \<open>In the table of every workload, claim and volume, whatever the resource holds, the dot
  before the name has the colour of the dot in the status badge of the same row.\<close>

theorem name_dot_matches_badge:
  "(name_color (cell ''name'' (podColumns ag) p) = badge_color (cell ''status'' (podColumns ag) p))
    \<and> (name_color (cell ''name'' (deploymentColumns ag) d) = badge_color (cell ''status'' (deploymentColumns ag) d))
    \<and> (name_color (cell ''name'' (statefulsetColumns ag) s) = badge_color (cell ''status'' (statefulsetColumns ag) s))
    \<and> (name_color (cell ''name'' (daemonsetColumns ag) e) = badge_color (cell ''status'' (daemonsetColumns ag) e))
    \<and> (name_color (cell ''name'' (replicasetColumns ag) q) = badge_color (cell ''status'' (replicasetColumns ag) q))
    \<and> (name_color (cell ''name'' (jobColumns ag) j) = badge_color (cell ''status'' (jobColumns ag) j))
    \<and> (name_color (cell ''name'' (cronjobColumns ag) c) = badge_color (cell ''suspend'' (cronjobColumns ag) c))
    \<and> (name_color (cell ''name'' (pvcColumns ag) v) = badge_color (cell ''status'' (pvcColumns ag) v))
    \<and> (name_color (cell ''name'' (pvColumns ag) w) = badge_color (cell ''status'' (pvColumns ag) w))"
  by (intro conjI; simp add: cell_def column_sets replica_agree pod_name_tone_def pod_status_cell_def
      job_name_tone_def job_status_cell_def pvc_name_tone_def pvc_status_cell_def pv_name_tone_def
      pv_status_cell_def Let_def)

text \<open>The colours of the replica dots.\<close>

fun dot_colors :: "vnode \<Rightarrow> string list" where
  "dot_colors (VNode t c st (VNode t' c' st' dots # ks)) =
     concat (map (\<lambda>d. case d of VNode _ _ ds _ \<Rightarrow> (case rec_get ds ''background'' of None \<Rightarrow> [] | Some x \<Rightarrow> [x])
                      | _ \<Rightarrow> []) dots)"
| "dot_colors v = []"

lemma dot_colors_eq:
  "dot_colors (styled_replica_dots ready desired avail) =
     map (\<lambda>i. dot_color ready avail (int i)) [0..<nat desired]"
  by (simp add: styled_replica_dots_def replica_dot_def comp_def)

lemma map_upt_split:
  assumes "\<And>i. i < a \<Longrightarrow> f i = x" "\<And>i. a \<le> i \<Longrightarrow> i < b \<Longrightarrow> f i = y" "\<And>i. b \<le> i \<Longrightarrow> f i = z" "a \<le> b" "b \<le> n"
  shows "map f [0..<n] = replicate a x @ replicate (b - a) y @ replicate (n - b) z"
proof -
  have "[0..<n] = [0..<a] @ [a..<b] @ [b..<n]"
    using assms(4,5) by (metis append.assoc le_add_diff_inverse upt_add_eq_append zero_le)
  moreover have "map f [0..<a] = replicate a x"
    using assms(1) by (intro nth_equalityI) auto
  moreover have "map f [a..<b] = replicate (b - a) y"
    using assms(2) by (intro nth_equalityI) auto
  moreover have "map f [b..<n] = replicate (n - b) z"
    using assms(3) by (intro nth_equalityI) auto
  ultimately show ?thesis by simp
qed

text \<open>The replica dots: as many dots as desired replicas, green for the ready ones first, then
  amber for those available but not ready, then red; so for a count of ready replicas that is not
  negative, the status is healthy exactly when all dots are green and failed exactly when there are
  dots and none is green.\<close>

theorem replica_dots:
  assumes "0 \<le> ready"
  shows "(dot_colors (styled_replica_dots ready desired avail) =
      replicate (nat (min ready desired)) ''var(--success)''
      @ replicate (nat (min (max ready (or_else avail ready)) desired) - nat (min ready desired)) ''var(--warning)''
      @ replicate (nat desired - nat (min (max ready (or_else avail ready)) desired)) ''var(--error)'')
    \<and> ((replica_tone ready desired = ToneSuccess) =
      list_all (\<lambda>c. c = ''var(--success)'') (dot_colors (styled_replica_dots ready desired avail)))
    \<and> ((replica_tone ready desired = ToneError) =
      (dot_colors (styled_replica_dots ready desired avail) \<noteq> []
       \<and> ''var(--success)'' \<notin> set (dot_colors (styled_replica_dots ready desired avail))))"
proof (intro conjI)
  have split: "dot_colors (styled_replica_dots ready desired avail) =
      replicate (nat (min ready desired)) ''var(--success)''
      @ replicate (nat (min (max ready (or_else avail ready)) desired) - nat (min ready desired)) ''var(--warning)''
      @ replicate (nat desired - nat (min (max ready (or_else avail ready)) desired)) ''var(--error)''"
  proof (cases "0 \<le> desired")
    case True
    have "map (\<lambda>i. if i < nat desired then dot_color ready avail (int i) else ''var(--error)'') [0..<nat desired] =
      replicate (nat (min ready desired)) ''var(--success)''
      @ replicate (nat (min (max ready (or_else avail ready)) desired) - nat (min ready desired)) ''var(--warning)''
      @ replicate (nat desired - nat (min (max ready (or_else avail ready)) desired)) ''var(--error)''"
      using assms True
      by (intro map_upt_split) (auto simp: dot_color_def or_else_def split: option.splits)
    moreover have "map (\<lambda>i. if i < nat desired then dot_color ready avail (int i) else ''var(--error)'') [0..<nat desired]
        = map (\<lambda>i. dot_color ready avail (int i)) [0..<nat desired]" by (rule map_cong) auto
    ultimately show ?thesis by (simp only: dot_colors_eq)
  qed (use assms in \<open>simp add: dot_colors_eq\<close>)
  then show "dot_colors (styled_replica_dots ready desired avail) =
      replicate (nat (min ready desired)) ''var(--success)''
      @ replicate (nat (min (max ready (or_else avail ready)) desired) - nat (min ready desired)) ''var(--warning)''
      @ replicate (nat desired - nat (min (max ready (or_else avail ready)) desired)) ''var(--error)''" .
  define a b c where "a = nat (min ready desired)"
    and "b = nat (min (max ready (or_else avail ready)) desired) - nat (min ready desired)"
    and "c = nat desired - nat (min (max ready (or_else avail ready)) desired)"
  have dots: "dot_colors (styled_replica_dots ready desired avail) =
      replicate a ''var(--success)'' @ replicate b ''var(--warning)'' @ replicate c ''var(--error)''"
    unfolding split a_def b_def c_def ..
  have bc: "b + c = nat desired - nat (min ready desired)" using assms unfolding b_def c_def by auto
  have green: "list_all (\<lambda>c. c = ''var(--success)'') (dot_colors (styled_replica_dots ready desired avail)) = (b + c = 0)"
    unfolding dots by (cases b; cases c) (auto simp: list_all_iff)
  show "(replica_tone ready desired = ToneSuccess) =
      list_all (\<lambda>c. c = ''var(--success)'') (dot_colors (styled_replica_dots ready desired avail))"
    using assms unfolding green bc by (auto simp: replica_tone_def)
  have none: "(dot_colors (styled_replica_dots ready desired avail) \<noteq> []
       \<and> ''var(--success)'' \<notin> set (dot_colors (styled_replica_dots ready desired avail))) = (a = 0 \<and> b + c \<noteq> 0)"
    unfolding dots by (cases a; cases b; cases c) auto
  show "(replica_tone ready desired = ToneError) =
      (dot_colors (styled_replica_dots ready desired avail) \<noteq> []
       \<and> ''var(--success)'' \<notin> set (dot_colors (styled_replica_dots ready desired avail)))"
    using assms unfolding none bc by (auto simp: replica_tone_def a_def)
qed

lemma replica_dots_witness:
  "dot_colors (styled_replica_dots 1 3 (Some 2)) = [''var(--success)'', ''var(--warning)'', ''var(--error)'']
   \<and> replica_tone 1 3 = ToneWarning"
  using replica_dots [of 1 3 "Some 2", THEN conjunct1] by (simp add: replica_tone_def)

lemma lift_columns_sel:
  "map col_key (lift_columns pick cols) = map col_key cols"
  "cols \<noteq> [] \<Longrightarrow> col_key (hd (lift_columns pick cols)) = col_key (hd cols)"
  "cols \<noteq> [] \<Longrightarrow> col_key (last (lift_columns pick cols)) = col_key (last cols)"
  "cols \<noteq> [] \<Longrightarrow> col_sortable (hd (lift_columns pick cols)) = col_sortable (hd cols)"
  "cols \<noteq> [] \<Longrightarrow> col_sortable (last (lift_columns pick cols)) = col_sortable (last cols)"
  by (simp_all add: lift_columns_def hd_map last_map comp_def)

text \<open>The table of column sets: every kind has one, the column keys within a set are distinct (the
  sort and the cells are keyed by them), and every set starts with the name and ends with the age,
  both sortable, but for the events, which start with their type and end with the last sighting.\<close>

theorem column_sets_well_formed:
  "(distinct (map fst (RESOURCE_COLUMNS ag)))
    \<and> (list_all (\<lambda>(kind, cols). distinct (map col_key cols)
     \<and> col_sortable (hd cols) \<and> col_sortable (last cols)
     \<and> (col_key (hd cols), col_key (last cols)) =
         (if kind = ''events'' then (''type'', ''lastSeen'') else (''name'', ''age''))) (RESOURCE_COLUMNS ag))"
proof (intro conjI)
  show "distinct (map fst (RESOURCE_COLUMNS ag))"
    by (simp add: RESOURCE_COLUMNS_def)
  show "list_all (\<lambda>(kind, cols). distinct (map col_key cols)
     \<and> col_sortable (hd cols) \<and> col_sortable (last cols)
     \<and> (col_key (hd cols), col_key (last cols)) =
         (if kind = ''events'' then (''type'', ''lastSeen'') else (''name'', ''age''))) (RESOURCE_COLUMNS ag)"
    by (simp add: RESOURCE_COLUMNS_def lift_columns_sel column_sets other_column_sets)
qed

section \<open>Ages\<close>

lemma div_bounds: "0 < k \<Longrightarrow> x div k * k \<le> x" "0 < k \<Longrightarrow> x < x div k * k + k" for k x :: int
  using div_mult_mod_eq [of x k] pos_mod_bound [of k x] pos_mod_sign [of k x] by linarith+

text \<open>The unit and the count of an age text: the largest unit that has elapsed once.\<close>

definition unit_seconds :: "char \<Rightarrow> int" where
  "unit_seconds u =
     (if u = CHR ''s'' then 1 else if u = CHR ''m'' then 60 else if u = CHR ''h'' then 3600 else 86400)"

text \<open>An age reads as a whole number of one unit that has fully elapsed: the count times the unit is
  at most the elapsed seconds, one more would exceed them, and minutes, hours and days are used from
  the first one on and never beyond the next unit.\<close>

theorem age_text_exact:
  assumes "parse_ms ts = Some t"
  shows "\<exists>n u. age now parse_ms ts = string_of_int n @ [u]
    \<and> n * unit_seconds u \<le> (now - t) div 1000 \<and> (now - t) div 1000 < (n + 1) * unit_seconds u
    \<and> (u = CHR ''s'' \<longrightarrow> n < 60) \<and> (u = CHR ''m'' \<longrightarrow> 1 \<le> n \<and> n < 60)
    \<and> (u = CHR ''h'' \<longrightarrow> 1 \<le> n \<and> n < 24) \<and> (u = CHR ''d'' \<longrightarrow> 1 \<le> n)"
proof -
  define secs where "secs = (now - t) div 1000"
  have a: "age now parse_ms ts =
      (if secs < 60 then string_of_int secs @ ''s''
       else if secs div 60 < 60 then string_of_int (secs div 60) @ ''m''
       else if secs div 60 div 60 < 24 then string_of_int (secs div 60 div 60) @ ''h''
       else string_of_int (secs div 60 div 60 div 24) @ ''d'')"
    by (simp add: age_def assms Let_def secs_def)
  have dd: "secs div 60 div 60 = secs div 3600" "secs div 60 div 60 div 24 = secs div 86400"
      "secs div 3600 div 24 = secs div 86400"
    by (simp_all add: zdiv_zmult2_eq [symmetric])
  note bounds = div_bounds [of 60 secs] div_bounds [of 3600 secs] div_bounds [of 86400 secs]
  show ?thesis unfolding secs_def [symmetric]
  proof (cases "secs < 60")
    case True then show "\<exists>n u. age now parse_ms ts = string_of_int n @ [u]
      \<and> n * unit_seconds u \<le> secs \<and> secs < (n + 1) * unit_seconds u
      \<and> (u = CHR ''s'' \<longrightarrow> n < 60) \<and> (u = CHR ''m'' \<longrightarrow> 1 \<le> n \<and> n < 60)
      \<and> (u = CHR ''h'' \<longrightarrow> 1 \<le> n \<and> n < 24) \<and> (u = CHR ''d'' \<longrightarrow> 1 \<le> n)"
      by (intro exI [of _ secs] exI [of _ "CHR ''s''"]) (simp add: a unit_seconds_def)
  next
    case s: False
    show "\<exists>n u. age now parse_ms ts = string_of_int n @ [u]
      \<and> n * unit_seconds u \<le> secs \<and> secs < (n + 1) * unit_seconds u
      \<and> (u = CHR ''s'' \<longrightarrow> n < 60) \<and> (u = CHR ''m'' \<longrightarrow> 1 \<le> n \<and> n < 60)
      \<and> (u = CHR ''h'' \<longrightarrow> 1 \<le> n \<and> n < 24) \<and> (u = CHR ''d'' \<longrightarrow> 1 \<le> n)"
    proof (cases "secs div 60 < 60")
      case True then show ?thesis using s
        by (intro exI [of _ "secs div 60"] exI [of _ "CHR ''m''"]) (use bounds in \<open>simp add: a unit_seconds_def\<close>)
    next
      case m: False
      show ?thesis
      proof (cases "secs div 60 div 60 < 24")
        case True then show ?thesis using s m
          by (intro exI [of _ "secs div 60 div 60"] exI [of _ "CHR ''h''"])
            (use bounds in \<open>simp add: a unit_seconds_def dd\<close>)
      next
        case False then show ?thesis using s m
          by (intro exI [of _ "secs div 60 div 60 div 24"] exI [of _ "CHR ''d''"])
            (use bounds in \<open>simp add: a unit_seconds_def dd\<close>)
      qed
    qed
  qed
qed

lemma age_text_exact_witness:
  "age 7300000 (\<lambda>_. Some 0) ''t'' = ''2h''
   \<and> (\<exists>n u. age 7300000 (\<lambda>_. Some 0) ''t'' = string_of_int n @ [u]
        \<and> n * unit_seconds u \<le> 7300 \<and> 7300 < (n + 1) * unit_seconds u)"
proof -
  have "age 7300000 (\<lambda>_. Some 0) ''t'' = ''2h''" by code_simp
  moreover have "(7300000 - 0) div 1000 = (7300 :: int)" by simp
  ultimately show ?thesis
    using age_text_exact [of "\<lambda>_. Some 0" "''t''" 0 7300000] by metis
qed

end
