(* ===== verification/Compliance.thy ===== *)
theory Compliance
  imports Interfaces
begin

text \<open>
\<open>lib/compliance-violations.ts\<close>: the derivations of the compliance dashboard, a list of
  violations cut to the worst ones and a summary with one row per policy. The properties rest on
  the interfaces \<open>ordered_dict\<close> (the \<open>Map\<close> that groups the violations) and \<open>sort_order\<close> (the
  comparators).
\<close>

section \<open>Violations\<close>

record violation =
  nv_policy :: string
  nv_rule :: "string option"
  nv_severity :: string
  nv_action :: string
  nv_message :: string
  nv_namespace :: "string option"
  nv_kind :: string
  nv_name :: string
  nv_timestamp :: "string option"
  nv_engine :: string
  nv_blocking :: bool

definition SEVERITY_ORDER :: "string list" where
  "SEVERITY_ORDER = [''critical'', ''high'', ''medium'', ''low'']"

text \<open>\<open>indexOf\<close>: the position of the first occurrence, \<open>-1\<close> when there is none.\<close>

fun index_of :: "'a list \<Rightarrow> 'a \<Rightarrow> int" where
  "index_of [] y = -1"
| "index_of (x # xs) y = (if x = y then 0 else let i = index_of xs y in if i = -1 then -1 else i + 1)"

definition severityRank :: "string \<Rightarrow> int" where
  "severityRank severity =
     (let i = index_of SEVERITY_ORDER severity in if i = -1 then int (length SEVERITY_ORDER) else i)"

definition scopeViolations :: "violation list \<Rightarrow> string \<Rightarrow> violation list" where
  "scopeViolations violations ns =
     (if ns = [] \<or> ns = ''all'' then violations else filter (\<lambda>v. nv_namespace v = Some ns) violations)"

section \<open>Rows of the summary\<close>

record policy_group =
  pg_policy :: string
  pg_severity :: string
  pg_engine :: string
  pg_blocking :: bool
  pg_count :: int

text \<open>The loop body: the entry of the \<open>Map\<close> after one more violation of its policy.\<close>

definition add_violation :: "violation \<Rightarrow> policy_group option \<Rightarrow> policy_group" where
  "add_violation v existing =
     (case existing of
        Some g \<Rightarrow>
          g\<lparr>pg_count := pg_count g + 1, pg_blocking := pg_blocking g \<or> nv_blocking v,
            pg_severity := (if severityRank (nv_severity v) < severityRank (pg_severity g)
                            then nv_severity v else pg_severity g)\<rparr>
      | None \<Rightarrow>
          \<lparr>pg_policy = nv_policy v, pg_severity = nv_severity v, pg_engine = nv_engine v,
           pg_blocking = nv_blocking v, pg_count = 1\<rparr>)"

definition policy_groups :: "violation list \<Rightarrow> (string \<times> policy_group) list" where
  "policy_groups violations =
     fold (\<lambda>v m. rec_set m (nv_policy v) (add_violation v (rec_get m (nv_policy v)))) violations []"

text \<open>
  The comparators: \<open>a || b\<close> on numbers, \<open>Number(b)\<close> of a truth value. \<open>locale_compare\<close> is the
  collation of the browser's locale.
\<close>

definition js_or :: "int \<Rightarrow> int \<Rightarrow> int" where
  "js_or a b = (if a \<noteq> 0 then a else b)"

definition num_of :: "bool \<Rightarrow> int" where
  "num_of b = (if b then 1 else 0)"

definition compare_groups :: "(string \<Rightarrow> string \<Rightarrow> int) \<Rightarrow> policy_group \<Rightarrow> policy_group \<Rightarrow> int" where
  "compare_groups locale_compare a b =
     js_or (num_of (pg_blocking b) - num_of (pg_blocking a))
       (js_or (pg_count b - pg_count a) (locale_compare (pg_policy a) (pg_policy b)))"

definition compare_violations :: "violation \<Rightarrow> violation \<Rightarrow> int" where
  "compare_violations a b =
     js_or (severityRank (nv_severity a) - severityRank (nv_severity b))
       (num_of (nv_blocking b) - num_of (nv_blocking a))"

text \<open>\<open>xs.slice(0, limit)\<close>: a negative limit counts from the end.\<close>

definition slice0 :: "int \<Rightarrow> 'a list \<Rightarrow> 'a list" where
  "slice0 limit xs =
     (if 0 \<le> limit then take (nat limit) xs else take (length xs - nat (- limit)) xs)"

definition failingPolicies ::
    "(string \<Rightarrow> string \<Rightarrow> int) \<Rightarrow> violation list \<Rightarrow> int \<Rightarrow> policy_group list" where
  "failingPolicies locale_compare violations limit =
     slice0 limit (js_sort (compare_groups locale_compare) (map snd (policy_groups violations)))"

definition worstResources :: "violation list \<Rightarrow> int \<Rightarrow> violation list" where
  "worstResources violations limit = slice0 limit (js_sort compare_violations violations)"

section \<open>The orders\<close>

lemma js_or_nonpos: "js_or a b \<le> 0 \<longleftrightarrow> a < 0 \<or> a = 0 \<and> b \<le> 0"
  by (auto simp: js_or_def)

interpretation severity_order: sort_order compare_violations
proof unfold_locales
  fix x y z :: violation
  show "compare_violations x y \<le> 0 \<or> compare_violations y x \<le> 0"
    by (auto simp: compare_violations_def js_or_nonpos)
  show "compare_violations x y \<le> 0 \<Longrightarrow> compare_violations y z \<le> 0 \<Longrightarrow> compare_violations x z \<le> 0"
    unfolding compare_violations_def js_or_nonpos by linarith
qed

text \<open>A collation that is a sort order makes the order of the rows one.\<close>

lemma group_order:
  assumes "sort_order lc"
  shows "sort_order (compare_groups lc)"
proof
  fix x y z :: policy_group
  show "compare_groups lc x y \<le> 0 \<or> compare_groups lc y x \<le> 0"
    using sort_order.total [OF assms, of "pg_policy x" "pg_policy y"] by (auto simp: compare_groups_def js_or_nonpos)
  show "compare_groups lc x y \<le> 0 \<Longrightarrow> compare_groups lc y z \<le> 0 \<Longrightarrow> compare_groups lc x z \<le> 0"
    using sort_order.trans [OF assms, of "pg_policy x" "pg_policy y" "pg_policy z"]
    unfolding compare_groups_def js_or_nonpos by linarith
qed


text \<open>Cutting the sorted list: what is shown, what is hidden, and which equals come first.\<close>

lemma slice0_nonneg: "0 \<le> limit \<Longrightarrow> slice0 limit xs = take (nat limit) xs"
  by (simp add: slice0_def)

lemma filter_take_prefix: "\<exists>rest. filter P xs = filter P (take n xs) @ rest"
  by (metis append_take_drop_id filter_append)

text \<open>The order of the preview, in words: more severe first, enforced first among equals.\<close>

definition at_least_as_bad :: "violation \<Rightarrow> violation \<Rightarrow> bool" where
  "at_least_as_bad x y \<longleftrightarrow>
     severityRank (nv_severity x) < severityRank (nv_severity y)
     \<or> severityRank (nv_severity x) = severityRank (nv_severity y) \<and> (nv_blocking y \<longrightarrow> nv_blocking x)"

lemma compare_violations_iff: "compare_violations x y \<le> 0 \<longleftrightarrow> at_least_as_bad x y"
  by (auto simp: compare_violations_def js_or_nonpos at_least_as_bad_def num_of_def)

text \<open>The worst resources: for a limit that is not negative the preview holds as many violations as
  fit, worst first (more severe, then enforced), nothing left out is worse than anything shown, no
  violation is lost or invented, and among equally bad ones the first listed are shown first.\<close>

theorem worst_resources_top:
  assumes "0 \<le> limit"
  shows "\<exists>hidden. mset violations = mset (worstResources violations limit) + mset hidden
      \<and> length (worstResources violations limit) = min (nat limit) (length violations)
      \<and> sorted_wrt at_least_as_bad (worstResources violations limit)
      \<and> list_all (\<lambda>x. list_all (at_least_as_bad x) hidden) (worstResources violations limit)
      \<and> (\<exists>rest. filter (\<lambda>v. at_least_as_bad v x \<and> at_least_as_bad x v) violations =
            filter (\<lambda>v. at_least_as_bad v x \<and> at_least_as_bad x v) (worstResources violations limit) @ rest)"
proof (intro exI conjI)
  let ?all = "js_sort compare_violations violations"
  let ?P = "\<lambda>v. at_least_as_bad v x \<and> at_least_as_bad x v"
  have w: "worstResources violations limit = take (nat limit) ?all"
    by (simp add: worstResources_def slice0_nonneg [OF assms])
  show "mset violations = mset (worstResources violations limit) + mset (drop (nat limit) ?all)"
    unfolding w by (metis append_take_drop_id mset_append mset_js_sort)
  show "length (worstResources violations limit) = min (nat limit) (length violations)"
    by (simp add: w)
  have le: "(\<lambda>x y. compare_violations x y \<le> 0) = at_least_as_bad"
    by (intro ext) (rule compare_violations_iff)
  show "sorted_wrt at_least_as_bad (worstResources violations limit)"
    unfolding w using severity_order.sorted_sort [of violations, unfolded le] by (rule sorted_wrt_take)
  show "list_all (\<lambda>x. list_all (at_least_as_bad x) (drop (nat limit) ?all)) (worstResources violations limit)"
    unfolding w list_all_iff using severity_order.take_best compare_violations_iff by blast
  have "filter ?P ?all = filter ?P violations"
    by (rule severity_order.sort_stable) (use severity_order.trans compare_violations_iff in blast)
  then show "filter ?P violations = filter ?P (worstResources violations limit)
      @ filter ?P (drop (nat limit) ?all)"
    unfolding w by (metis append_take_drop_id filter_append)
qed

definition demo_violation :: "string \<Rightarrow> string \<Rightarrow> string \<Rightarrow> bool \<Rightarrow> violation" where
  "demo_violation policy name severity blocking =
     \<lparr>nv_policy = policy, nv_rule = None, nv_severity = severity, nv_action = ''denied'', nv_message = [],
      nv_namespace = None, nv_kind = ''Pod'', nv_name = name, nv_timestamp = None,
      nv_engine = ''kyverno'', nv_blocking = blocking\<rparr>"

definition demo_violations :: "violation list" where
  "demo_violations =
     [demo_violation ''p'' ''low'' ''low'' True, demo_violation ''q'' ''crit'' ''critical'' False,
      demo_violation ''p'' ''med'' ''medium'' False]"

lemma worst_resources_top_witness:
  "map nv_name (worstResources demo_violations 2) = [''crit'', ''med'']
   \<and> sorted_wrt at_least_as_bad (worstResources demo_violations 2)"
proof -
  have "map nv_name (worstResources demo_violations 2) = [''crit'', ''med'']" by code_simp
  then show ?thesis using worst_resources_top [of 2 demo_violations] by auto
qed

section \<open>The summary\<close>

text \<open>
  What the row of a policy should say, read off the list of its violations: how many there are,
  whether one is enforced, the first of the most severe severities, and the engine of the first.
\<close>

definition most_severe :: "string list \<Rightarrow> string" where
  "most_severe sevs = hd (filter (\<lambda>s. list_all (\<lambda>t. severityRank s \<le> severityRank t) sevs) sevs)"

definition policy_row :: "violation list \<Rightarrow> string \<Rightarrow> policy_group" where
  "policy_row violations p =
     (let vs = filter (\<lambda>v. nv_policy v = p) violations
      in \<lparr>pg_policy = p, pg_severity = most_severe (map nv_severity vs), pg_engine = nv_engine (hd vs),
          pg_blocking = list_ex nv_blocking vs, pg_count = int (length vs)\<rparr>)"

text \<open>The policies in the order of their first violation.\<close>

fun first_seen :: "'a list \<Rightarrow> 'a list" where
  "first_seen [] = []"
| "first_seen (x # xs) = x # filter (\<lambda>y. y \<noteq> x) (first_seen xs)"


lemma first_seen_snoc:
  "first_seen (xs @ [x]) = (if x \<in> set xs then first_seen xs else first_seen xs @ [x])"
  by (induction xs) auto

lemma set_first_seen [simp]: "set (first_seen xs) = set xs"
  by (induction xs) auto

lemma distinct_first_seen: "distinct (first_seen xs)"
  by (induction xs) auto

lemma most_severe_snoc:
  assumes "sevs \<noteq> []"
  shows "most_severe (sevs @ [s]) =
      (if severityRank s < severityRank (most_severe sevs) then s else most_severe sevs)"
    and "most_severe sevs \<in> set sevs \<and> list_all (\<lambda>t. severityRank (most_severe sevs) \<le> severityRank t) sevs"
proof -
  let ?best = "\<lambda>s. list_all (\<lambda>t. severityRank s \<le> severityRank t) sevs"
  have "Min (severityRank ` set sevs) \<in> severityRank ` set sevs" using assms by (intro Min_in) auto
  then obtain b where "b \<in> set sevs" "severityRank b = Min (severityRank ` set sevs)" by auto
  then have "b \<in> set sevs" "?best b" by (simp_all add: list_all_iff)
  then have "\<exists>s \<in> set sevs. ?best s" by blast
  then have ne: "filter ?best sevs \<noteq> []" by (auto simp: filter_empty_conv)
  then have hd: "most_severe sevs \<in> set (filter ?best sevs)"
    unfolding most_severe_def by (rule hd_in_set)
  then show best: "most_severe sevs \<in> set sevs \<and> ?best (most_severe sevs)" by simp
  show "most_severe (sevs @ [s]) =
      (if severityRank s < severityRank (most_severe sevs) then s else most_severe sevs)"
  proof (cases "severityRank s < severityRank (most_severe sevs)")
    case True
    then have "filter (\<lambda>x. list_all (\<lambda>t. severityRank x \<le> severityRank t) (sevs @ [s])) sevs = []"
      using best by (auto simp: filter_empty_conv list_all_iff)
    moreover have "list_all (\<lambda>t. severityRank s \<le> severityRank t) (sevs @ [s])"
      using True best by (auto simp: list_all_iff)
    ultimately show ?thesis using True by (simp add: most_severe_def)
  next
    case False
    have "filter (\<lambda>x. list_all (\<lambda>t. severityRank x \<le> severityRank t) (sevs @ [s])) sevs = filter ?best sevs"
      using False best by (intro filter_cong) (auto simp: list_all_iff)
    then show ?thesis using False ne by (simp add: most_severe_def)
  qed
qed

text \<open>The entry of a policy after the loop, by induction on the violations from the left.\<close>

lemma group_entry:
  "fold (\<lambda>v o1. Some (add_violation v o1)) vs None =
     (if vs = [] then None
      else Some \<lparr>pg_policy = nv_policy (hd vs), pg_severity = most_severe (map nv_severity vs),
                 pg_engine = nv_engine (hd vs), pg_blocking = list_ex nv_blocking vs,
                 pg_count = int (length vs)\<rparr>)"
proof (induction vs rule: rev_induct)
  case (snoc v vs)
  show ?case
  proof (cases "vs = []")
    case True then show ?thesis by (simp add: add_violation_def most_severe_def)
  next
    case False
    then show ?thesis using snoc
      by (simp add: add_violation_def most_severe_snoc(1) hd_append)
  qed
qed simp

lemma policy_groups_get:
  "rec_get (policy_groups vs) p = (if p \<in> nv_policy ` set vs then Some (policy_row vs p) else None)"
proof -
  have "rec_get (policy_groups vs) p =
      fold (\<lambda>v o1. Some (add_violation v o1)) (filter (\<lambda>v. nv_policy v = p) vs) None"
    unfolding policy_groups_def by (simp add: js_map.fold_upsert_get)
  moreover have "filter (\<lambda>v. nv_policy v = p) vs = [] \<longleftrightarrow> p \<notin> nv_policy ` set vs"
    by (auto simp: filter_empty_conv)
  moreover have "nv_policy (hd (filter (\<lambda>v. nv_policy v = p) vs)) = p"
    if "filter (\<lambda>v. nv_policy v = p) vs \<noteq> []"
    using hd_in_set [OF that] by simp
  ultimately show ?thesis by (auto simp: group_entry policy_row_def Let_def)
qed

lemma policy_groups_keys: "map fst (policy_groups vs) = first_seen (map nv_policy vs)"
proof (induction vs rule: rev_induct)
  case (snoc v vs)
  have "set (map fst (policy_groups vs)) = set (map nv_policy vs)" by (simp only: snoc set_first_seen)
  then have keys: "fst ` set (policy_groups vs) = nv_policy ` set vs" by simp
  have "map fst (policy_groups (vs @ [v])) =
      map fst (rec_set (policy_groups vs) (nv_policy v) (add_violation v (rec_get (policy_groups vs) (nv_policy v))))"
    by (simp add: policy_groups_def)
  also have "\<dots> = first_seen (map nv_policy (vs @ [v]))"
    unfolding rec_keys_set snoc keys by (simp add: first_seen_snoc)
  finally show ?case .
qed (simp add: policy_groups_def)

lemma policy_groups_rows: "map snd (policy_groups vs) = map (policy_row vs) (first_seen (map nv_policy vs))"
proof -
  have "snd e = policy_row vs (fst e)" if "e \<in> set (policy_groups vs)" for e
  proof -
    have "distinct (map fst (policy_groups vs))"
      unfolding policy_groups_keys by (rule distinct_first_seen)
    then have "rec_get (policy_groups vs) (fst e) = Some (snd e)"
      using that by (intro rec_get_in) auto
    then show ?thesis unfolding policy_groups_get by (auto split: if_splits)
  qed
  then have "map snd (policy_groups vs) = map (policy_row vs) (map fst (policy_groups vs))" by simp
  then show ?thesis unfolding policy_groups_keys .
qed


text \<open>The failing policies: the summary is the first rows, in the order of the comparator, of one
  row per policy that occurs, and each row states the number of its violations, whether one of
  them is enforced, the most severe severity among them and the engine of the first. For a
  collation that is a consistent order the rows are sorted by it (enforced first, then by count)
  and no row left out belongs before one that is shown.\<close>

theorem failing_policies_rows:
  assumes "sort_order locale_compare" and "0 \<le> limit"
  shows "\<exists>hidden. mset (failingPolicies locale_compare violations limit) + mset hidden
        = mset (map (policy_row violations) (first_seen (map nv_policy violations)))
      \<and> length (failingPolicies locale_compare violations limit)
        = min (nat limit) (card (nv_policy ` set violations))
      \<and> sorted_wrt (\<lambda>g h. compare_groups locale_compare g h \<le> 0) (failingPolicies locale_compare violations limit)
      \<and> list_all (\<lambda>g. list_all (\<lambda>h. compare_groups locale_compare g h \<le> 0) hidden)
          (failingPolicies locale_compare violations limit)"
proof (intro exI conjI)
  let ?rows = "map (policy_row violations) (first_seen (map nv_policy violations))"
  let ?all = "js_sort (compare_groups locale_compare) ?rows"
  note order = group_order [OF assms(1)]
  have f: "failingPolicies locale_compare violations limit = take (nat limit) ?all"
    by (simp add: failingPolicies_def slice0_nonneg [OF assms(2)] policy_groups_rows)
  show "mset (failingPolicies locale_compare violations limit) + mset (drop (nat limit) ?all) = mset ?rows"
    unfolding f by (metis append_take_drop_id mset_append mset_js_sort)
  have "length (first_seen (map nv_policy violations)) = card (nv_policy ` set violations)"
    using distinct_card [OF distinct_first_seen, of "map nv_policy violations"] by simp
  then show "length (failingPolicies locale_compare violations limit)
      = min (nat limit) (card (nv_policy ` set violations))" by (simp add: f)
  show "sorted_wrt (\<lambda>g h. compare_groups locale_compare g h \<le> 0) (failingPolicies locale_compare violations limit)"
    unfolding f by (intro sorted_wrt_take sort_order.sorted_sort [OF order])
  show "list_all (\<lambda>g. list_all (\<lambda>h. compare_groups locale_compare g h \<le> 0) (drop (nat limit) ?all))
      (failingPolicies locale_compare violations limit)"
    unfolding f list_all_iff using sort_order.take_best [OF order] by blast
qed

text \<open>Comparison by code points is such a collation.\<close>

definition code_compare :: "string \<Rightarrow> string \<Rightarrow> int" where
  "code_compare a b = (if a < b then -1 else if a = b then 0 else 1)"

interpretation code_order: sort_order code_compare
  by unfold_locales (auto simp: code_compare_def split: if_splits)

lemma failing_policies_rows_witness:
  "map (\<lambda>g. (pg_policy g, pg_count g, pg_severity g)) (failingPolicies code_compare demo_violations 1)
     = [(''p'', 2, ''medium'')]
   \<and> sorted_wrt (\<lambda>g h. compare_groups code_compare g h \<le> 0) (failingPolicies code_compare demo_violations 1)"
proof -
  have "map (\<lambda>g. (pg_policy g, pg_count g, pg_severity g)) (failingPolicies code_compare demo_violations 1)
     = [(''p'', 2, ''medium'')]" by code_simp
  then show ?thesis
    using failing_policies_rows [OF code_order.sort_order_axioms, of 1 demo_violations] by auto
qed

end
