(* ===== verification/Form_Yaml.thy ===== *)
theory Form_Yaml
  imports Interfaces
begin

text \<open>
\<open>lib/schema-to-yaml.ts\<close>, the serializer: the YAML text that the schema-driven form previews and
  submits. The first section is the code; the second is a reader for the fragment of block YAML it
  writes (lines with an indentation, mappings, sequences with the first key on the line of the dash,
  scalars), independent of the serializer; the last proves that reading gives the form back.
\<close>

section \<open>The serializer\<close>

abbreviation nl :: char where "nl \<equiv> CHR 0x0A"
abbreviation dq :: char where "dq \<equiv> CHR 0x22"
abbreviation bs :: char where "bs \<equiv> CHR 0x5C"

text \<open>\<open>NEEDS_QUOTE\<close>: its character class and, ignoring case, its words.\<close>

definition quote_chars :: "nat list" where
  "quote_chars = [58, 35, 123, 125, 91, 93, 44, 38, 42, 63, 124, 62, 33, 37, 64, 96, 34, 39, 10, 13, 9]"

definition quote_words :: "string list" where
  "quote_words = [''true'', ''false'', ''null'', ''yes'', ''no'', ''on'', ''off'']"

definition needs_quote :: "string \<Rightarrow> bool" where
  "needs_quote s \<longleftrightarrow> list_ex (\<lambda>c. char_code c \<in> set quote_chars) s \<or> to_lower s \<in> set quote_words"

text \<open>\<open>s.replace(/c/g, w)\<close> for a single character.\<close>

definition replace_char :: "char \<Rightarrow> string \<Rightarrow> string \<Rightarrow> string" where
  "replace_char c w s = concat (map (\<lambda>x. if x = c then w else [x]) s)"

definition escapeHtml :: "string \<Rightarrow> string" where
  "escapeHtml s =
     replace_char dq ''&quot;'' (replace_char CHR ''>'' ''&gt;''
       (replace_char CHR ''<'' ''&lt;'' (replace_char CHR ''&'' ''&amp;'' s)))"

definition quoteString :: "string \<Rightarrow> string" where
  "quoteString val =
     (if val = [] then [dq, dq]
      else if needs_quote val
      then dq # replace_char dq [bs, dq] (replace_char bs [bs, bs] val) @ [dq]
      else val)"

definition isEmptyValue :: "js \<Rightarrow> bool" where
  "isEmptyValue val \<longleftrightarrow> val \<in> {JUndef, JNull, JStr [], JArr [], JObj []}"

definition pad :: "nat \<Rightarrow> string" where
  "pad indent = replicate (2 * indent) CHR '' ''"

definition entry_line :: "nat \<Rightarrow> string \<Rightarrow> string \<Rightarrow> string" where
  "entry_line indent key serialized =
     (if starts_with serialized [nl] then pad indent @ quoteString key @ '':'' @ serialized
      else pad indent @ quoteString key @ '': '' @ serialized)"

text \<open>The lines of an array item that is an object: the first key goes on the line of the dash.\<close>

definition object_item :: "nat \<Rightarrow> string list \<Rightarrow> string list" where
  "object_item indent objLines =
     (case objLines of
        [] \<Rightarrow> [pad indent @ ''- {}'']
      | l # ls \<Rightarrow> (pad indent @ ''- '' @ trim_start l) # map (\<lambda>x. pad indent @ ''  '' @ trim_start x) ls)"

fun serializeValue :: "js \<Rightarrow> nat \<Rightarrow> string"
  and serializeObject :: "(string \<times> js) list \<Rightarrow> nat \<Rightarrow> string list" where
  "serializeValue JUndef indent = ''null''"
| "serializeValue JNull indent = ''null''"
| "serializeValue (JBool b) indent = (if b then ''true'' else ''false'')"
| "serializeValue (JNum n) indent = string_of_int n"
| "serializeValue (JStr s) indent = quoteString s"
| "serializeValue (JArr items) indent =
     (if items = [] then ''[]''
      else nl # js_join [nl] (concat (map (\<lambda>item.
             case item of
               JObj obj \<Rightarrow> object_item indent (serializeObject obj (indent + 1))
             | _ \<Rightarrow> [pad indent @ ''- '' @ serializeValue item (indent + 1)]) items)))"
| "serializeValue (JObj obj) indent =
     (if obj = [] then ''{}'' else nl # js_join [nl] (serializeObject obj indent))"
| "serializeObject obj indent =
     concat (map (\<lambda>(key, val). if isEmptyValue val then []
                               else [entry_line indent key (serializeValue val (indent + 1))]) obj)"

text \<open>\<open>formStateToYaml\<close>.\<close>

record form_metadata =
  fm_name :: string
  fm_namespace :: "string option"
  fm_labels :: "(string \<times> string) list option"
  fm_annotations :: "(string \<times> string) list option"

definition pair_lines :: "string \<Rightarrow> (string \<times> string) list option \<Rightarrow> string list" where
  "pair_lines title ps =
     (case ps of
        None \<Rightarrow> []
      | Some r \<Rightarrow>
          if r = [] then []
          else (''  '' @ title @ '':'')
            # concat (map (\<lambda>(k, v). if k = [] then []
                            else [''    '' @ quoteString k @ '': '' @ quoteString v]) r))"

definition formStateToYaml :: "string \<Rightarrow> string \<Rightarrow> form_metadata \<Rightarrow> (string \<times> js) list \<Rightarrow> string" where
  "formStateToYaml apiVersion kind metadata spec =
     js_join [nl]
       ([''apiVersion: '' @ quoteString apiVersion, ''kind: '' @ quoteString kind, ''metadata:'',
         ''  name: '' @ quoteString (fm_name metadata)]
        @ (if has_text (fm_namespace metadata)
           then [''  namespace: '' @ quoteString (the (fm_namespace metadata))] else [])
        @ pair_lines ''labels'' (fm_labels metadata)
        @ pair_lines ''annotations'' (fm_annotations metadata)
        @ (if isEmptyValue (JObj spec) then [] else ''spec:'' # serializeObject spec 1)) @ [nl]"

section \<open>A reader for block YAML\<close>

text \<open>
  The reference: the meaning of the fragment of YAML that the serializer writes. A line is its
  indentation and its content; blank lines do not count.
\<close>

definition split_indent :: "string \<Rightarrow> nat \<times> string" where
  "split_indent l = (length (takeWhile (\<lambda>c. c = CHR '' '') l), dropWhile (\<lambda>c. c = CHR '' '') l)"

definition yaml_lines :: "string \<Rightarrow> (nat \<times> string) list" where
  "yaml_lines t = filter (\<lambda>p. snd p \<noteq> []) (map split_indent (js_split nl t))"

text \<open>The body of a double-quoted scalar, up to its closing quote.\<close>

fun read_quoted :: "string \<Rightarrow> (string \<times> string) option" where
  "read_quoted [] = None"
| "read_quoted (c # s) =
     (if c = dq then Some ([], s)
      else if c = bs then
        (case s of
           [] \<Rightarrow> None
         | d # s' \<Rightarrow> if d = dq \<or> d = bs then map_option (\<lambda>(w, r). (d # w, r)) (read_quoted s') else None)
      else map_option (\<lambda>(w, r). (c # w, r)) (read_quoted s))"

text \<open>
  Plain scalars. A plain scalar that could be a number, a date or a special float in one of the
  schemas is left unspecified unless it is a decimal integer in canonical form, and so is one with
  an indicator character or outer blanks.
\<close>

definition is_digit :: "char \<Rightarrow> bool" where
  "is_digit c \<longleftrightarrow> 48 \<le> char_code c \<and> char_code c \<le> 57"

definition number_like :: "string \<Rightarrow> bool" where
  "number_like s \<longleftrightarrow>
     s \<noteq> [] \<and> (is_digit (hd s) \<or> hd s \<in> set ''+-.'')
     \<and> list_all (\<lambda>c. is_digit c \<or> c \<in> set ''+-._abcdefABCDEFxXoOiInNtTzZ '') s"

definition plain_text_ok :: "string \<Rightarrow> bool" where
  "plain_text_ok s \<longleftrightarrow>
     s \<noteq> [] \<and> \<not> needs_quote s \<and> \<not> is_space (hd s) \<and> \<not> is_space (last s) \<and> s \<noteq> ''~'' \<and> s \<noteq> ''-''
     \<and> \<not> starts_with s ''- '' \<and> \<not> number_like s"

definition read_int :: "string \<Rightarrow> int option" where
  "read_int s =
     (let ds = (if starts_with s ''-'' then tl s else s);
          n = int (nat_of_digits 0 ds);
          i = (if starts_with s ''-'' then - n else n)
      in if ds \<noteq> [] \<and> list_all is_digit ds \<and> string_of_int i = s then Some i else None)"

definition read_plain :: "string \<Rightarrow> js option" where
  "read_plain s =
     (if s = ''null'' then Some JNull
      else if s = ''true'' then Some (JBool True)
      else if s = ''false'' then Some (JBool False)
      else if plain_text_ok s then Some (JStr s)
      else map_option JNum (read_int s))"

definition read_scalar :: "string \<Rightarrow> js option" where
  "read_scalar s =
     (if s = ''[]'' then Some (JArr [])
      else if s = ''{}'' then Some (JObj [])
      else if starts_with s [dq] then
        (case read_quoted (tl s) of Some (w, []) \<Rightarrow> Some (JStr w) | _ \<Rightarrow> None)
      else read_plain s)"

text \<open>The key of a line and what follows its colon; \<open>None\<close> when the line is no mapping entry.\<close>

definition read_key :: "string \<Rightarrow> (string \<times> string) option" where
  "read_key c =
     (if starts_with c [dq] then
        (case read_quoted (tl c) of
           Some (w, r # rest) \<Rightarrow> if r = CHR '':'' then Some (w, rest) else None
         | _ \<Rightarrow> None)
      else if CHR '':'' \<in> set c then
        (let k = takeWhile (\<lambda>x. x \<noteq> CHR '':'') c
         in if plain_text_ok k then Some (k, tl (dropWhile (\<lambda>x. x \<noteq> CHR '':'') c)) else None)
      else None)"

text \<open>
  The entries of a block: each starts on a line with the block's indentation and owns the deeper
  lines below it.
\<close>

lemma length_dropWhile_Suc [termination_simp]: "length (dropWhile P ls) < Suc (length ls)"
  by (simp add: length_dropWhile_le le_imp_less_Suc)

fun chunks :: "nat \<Rightarrow> (nat \<times> string) list \<Rightarrow> (nat \<times> string \<times> (nat \<times> string) list) list" where
  "chunks n [] = []"
| "chunks n ((m, c) # ls) =
     (m, c, takeWhile (\<lambda>p. n < fst p) ls) # chunks n (dropWhile (\<lambda>p. n < fst p) ls)"

definition lines_size :: "(nat \<times> string) list \<Rightarrow> nat" where
  "lines_size ls = sum_list (map (\<lambda>p. 1 + length (snd p)) ls)"

lemma lines_size_simps [simp]:
  "lines_size [] = 0" "lines_size (p # ls) = 1 + length (snd p) + lines_size ls"
  by (simp_all add: lines_size_def)

lemma lines_size_while:
  "lines_size (takeWhile P ls) + lines_size (dropWhile P ls) = lines_size ls"
  by (induction ls) auto

lemma chunks_size:
  "(m, c, nested) \<in> set (chunks n ls) \<Longrightarrow> 1 + length c + lines_size nested \<le> lines_size ls"
proof (induction n ls rule: chunks.induct)
  case (2 n m' c' ls)
  then show ?case using lines_size_while [of "\<lambda>p. n < fst p" ls] by auto
qed simp

text \<open>An item's block: what follows the dash is a line of its own, two columns further.\<close>

definition item_block :: "nat \<Rightarrow> string \<Rightarrow> (nat \<times> string) list \<Rightarrow> (nat \<times> string) list" where
  "item_block n c nested = (if drop 2 c = [] then nested else (n + 2, drop 2 c) # nested)"

definition dash :: "string \<Rightarrow> bool" where
  "dash c \<longleftrightarrow> starts_with c ''- ''"

lemma item_block_size: "dash d \<Longrightarrow> lines_size (item_block n d nested) < 1 + length d + lines_size nested"
  by (auto simp: item_block_def dash_def starts_with_iff)

text \<open>All results of a list, when there are.\<close>

fun all_some :: "'a option list \<Rightarrow> 'a list option" where
  "all_some [] = Some []"
| "all_some (None # xs) = None"
| "all_some (Some x # xs) = map_option (\<lambda>ys. x # ys) (all_some xs)"

function read_block :: "(nat \<times> string) list \<Rightarrow> js option" where
  "read_block [] = Some JNull"
| "read_block ((n, c) # ls) =
     (if dash c then
        map_option JArr (all_some (map (\<lambda>(m, d, nested).
          if m = n \<and> dash d then read_block (item_block n d nested) else None) (chunks n ((n, c) # ls))))
      else if read_key c = None then (if ls = [] then read_scalar c else None)
      else
        map_option JObj (all_some (map (\<lambda>(m, d, nested).
          if m \<noteq> n then None
          else case read_key d of
            None \<Rightarrow> None
          | Some (k, rest) \<Rightarrow>
              if rest = [] then map_option (\<lambda>v. (k, v)) (read_block nested)
              else if nested = [] \<and> starts_with rest '' ''
              then map_option (\<lambda>v. (k, v)) (read_scalar (tl rest)) else None)
          (chunks n ((n, c) # ls)))))"
  by pat_completeness auto
termination
proof (relation "measure lines_size")
  show "wf (measure lines_size)" by simp
next
  fix n c ls x m y d nested
  assume "x \<in> set (chunks n ((n, c) # ls))" "(m, y) = x" "(d, nested) = y" "m = n \<and> dash d"
  then have "(m, d, nested) \<in> set (chunks n ((n, c) # ls))" "dash d" by (simp_all del: chunks.simps)
  from chunks_size [OF this(1)] item_block_size [OF this(2), of n nested]
  show "(item_block n d nested, (n, c) # ls) \<in> measure lines_size"
    unfolding in_measure by linarith
next
  fix n c ls x m y d nested
  assume "x \<in> set (chunks n ((n, c) # ls))" "(m, y) = x" "(d, nested) = y"
  then have "(m, d, nested) \<in> set (chunks n ((n, c) # ls))" by (simp del: chunks.simps)
  from chunks_size [OF this] show "(nested, (n, c) # ls) \<in> measure lines_size"
    unfolding in_measure by linarith
qed

definition read_yaml :: "string \<Rightarrow> js option" where
  "read_yaml t = read_block (yaml_lines t)"

section \<open>What the text says\<close>

text \<open>
  What a reader gets back for a form value: empty members are gone, an object all of whose members
  are empty reads as null after a key and as an empty object after a dash.
\<close>

fun view_value :: "js \<Rightarrow> js" and view_item :: "js \<Rightarrow> js" and view_entries :: "(string \<times> js) list \<Rightarrow> (string \<times> js) list" where
  "view_value JUndef = JNull"
| "view_value JNull = JNull"
| "view_value (JBool b) = JBool b"
| "view_value (JNum n) = JNum n"
| "view_value (JStr s) = JStr s"
| "view_value (JArr items) = JArr (map view_item items)"
| "view_value (JObj obj) =
     (if obj = [] then JObj [] else if view_entries obj = [] then JNull else JObj (view_entries obj))"
| "view_item (JObj obj) = JObj (view_entries obj)"
| "view_item (JArr items) = JArr (map view_item items)"
| "view_item JUndef = JNull"
| "view_item JNull = JNull"
| "view_item (JBool b) = JBool b"
| "view_item (JNum n) = JNum n"
| "view_item (JStr s) = JStr s"
| "view_entries obj = concat (map (\<lambda>(k, v). if isEmptyValue v then [] else [(k, view_value v)]) obj)"

text \<open>The strings that survive: no line break, and quoted or plain in every schema.\<close>

definition yaml_text :: "string \<Rightarrow> bool" where
  "yaml_text s \<longleftrightarrow> nl \<notin> set s \<and> CHR 0x0D \<notin> set s \<and> (s = [] \<or> needs_quote s \<or> plain_text_ok s)"

fun yaml_ok :: "js \<Rightarrow> bool" where
  "yaml_ok (JStr s) = yaml_text s"
| "yaml_ok (JArr items) = list_all yaml_ok items"
| "yaml_ok (JObj obj) = list_all (\<lambda>(k, v). yaml_text k \<and> yaml_ok v) obj"
| "yaml_ok _ = True"

subsection \<open>Scalars\<close>

lemma char_code_lits [simp]:
  "char_code nl = 10" "char_code dq = 34" "char_code bs = 92" "char_code (CHR '' '') = 32"
  "char_code (CHR '':'') = 58" "char_code (CHR ''-'') = 45" "char_code (CHR 0x5B) = 91" "char_code (CHR 0x7B) = 123"
  by (simp_all add: char_code_def)

lemma replace_char_simps [simp]:
  "replace_char c w [] = []"
  "replace_char c w (x # s) = (if x = c then w else [x]) @ replace_char c w s"
  by (simp_all add: replace_char_def)

definition escape_dq :: "string \<Rightarrow> string" where
  "escape_dq s = replace_char dq [bs, dq] (replace_char bs [bs, bs] s)"

lemma read_quoted_escape: "read_quoted (escape_dq s @ dq # r) = Some (s, r)"
  by (induction s) (auto simp: escape_dq_def)

lemma escape_set: "set (escape_dq s) \<subseteq> set s \<union> {dq, bs}"
  by (induction s) (auto simp: escape_dq_def)

lemma quoted_eq: "quoteString s = (if s = [] \<or> needs_quote s then dq # escape_dq s @ [dq] else s)"
  by (auto simp: quoteString_def escape_dq_def)

lemma plain_no_special: "plain_text_ok s \<Longrightarrow> c \<in> set s \<Longrightarrow> char_code c \<notin> set quote_chars"
  by (auto simp: plain_text_ok_def needs_quote_def list_ex_iff)

lemma plain_codes:
  assumes "plain_text_ok s"
  shows "CHR '':'' \<notin> set s" "dq \<notin> set s" "nl \<notin> set s" "CHR 0x7B \<notin> set s" "CHR 0x5B \<notin> set s"
proof -
  have no: "char_code c \<in> set quote_chars \<Longrightarrow> c \<notin> set s" for c
    using plain_no_special [OF assms] by blast
  have q: "char_code (CHR '':'') \<in> set quote_chars" "char_code dq \<in> set quote_chars"
    "char_code nl \<in> set quote_chars" "char_code (CHR 0x7B) \<in> set quote_chars"
    "char_code (CHR 0x5B) \<in> set quote_chars"
    by (simp_all add: quote_chars_def)
  show "CHR '':'' \<notin> set s" "dq \<notin> set s" "nl \<notin> set s" "CHR 0x7B \<notin> set s" "CHR 0x5B \<notin> set s"
    by (rule no [OF q(1)] no [OF q(2)] no [OF q(3)] no [OF q(4)] no [OF q(5)])+
qed

lemma plain_hd:
  assumes "plain_text_ok s"
  shows "\<not> starts_with s [dq]" "s \<noteq> []" "\<not> is_space (hd s)" "\<not> starts_with s ''- ''"
    "\<not> starts_with s [CHR '' '']" "s \<noteq> ''[]''" "s \<noteq> ''{}''"
proof -
  show p: "s \<noteq> []" "\<not> is_space (hd s)" "\<not> starts_with s ''- ''" using assms by (auto simp: plain_text_ok_def)
  show "\<not> starts_with s [dq]" using plain_codes(2) [OF assms] by (auto simp: starts_with_iff)
  show "\<not> starts_with s [CHR '' '']" using p(2) by (auto simp: starts_with_iff is_space_def char_code_def)
  show "s \<noteq> ''[]''" "s \<noteq> ''{}''" using plain_codes(4,5) [OF assms] by auto
qed

lemma text_cases:
  assumes "yaml_text s"
  obtains "quoteString s = dq # escape_dq s @ [dq]" | "quoteString s = s" "plain_text_ok s"
proof (cases "s = [] \<or> needs_quote s")
  case True then show ?thesis using that(1) by (auto simp: quoted_eq)
next
  case False then show ?thesis using that(2) assms by (auto simp: yaml_text_def quoted_eq)
qed

lemma quote_no_nl: "yaml_text s \<Longrightarrow> nl \<notin> set (quoteString s)"
  using escape_set [of s] by (auto simp: yaml_text_def quoted_eq)

lemma quote_hd:
  assumes "yaml_text s"
  shows "quoteString s \<noteq> []" "\<not> is_space (hd (quoteString s))" "\<not> starts_with (quoteString s) ''- ''"
  using assms plain_hd by (auto elim!: text_cases simp: is_space_def)

lemma words_not_plain: "\<not> plain_text_ok ''null''" "\<not> plain_text_ok ''true''" "\<not> plain_text_ok ''false''"
  by (simp_all add: plain_text_ok_def needs_quote_def, code_simp+)

lemma read_plain_text: "plain_text_ok s \<Longrightarrow> read_plain s = Some (JStr s)"
  using words_not_plain by (auto simp: read_plain_def)

lemma read_scalar_text: "yaml_text s \<Longrightarrow> read_scalar (quoteString s) = Some (JStr s)"
  by (erule text_cases)
    (auto simp: read_scalar_def read_quoted_escape read_plain_text plain_hd)

lemma digits_of_nat: "c \<in> set (string_of_nat n) \<Longrightarrow> is_digit c"
  using string_of_nat_digits [of n] by (auto simp: dec_digits_def is_digit_def)

lemma read_int_of: "read_int (string_of_int i) = Some i"
proof -
  have nd: "\<not> starts_with (string_of_nat n) ''-''" for n
    using digits_of_nat [of "CHR ''-''" n] by (auto simp: starts_with_iff is_digit_def char_code_def)
  have al: "list_all is_digit (string_of_nat n)" for n
    using digits_of_nat by (auto simp: list_all_iff)
  show ?thesis
    using nat_of_string_of_nat [of "nat i"] nat_of_string_of_nat [of "nat (- i)"] nd al
    by (auto simp: read_int_def string_of_int_def Let_def)
qed

lemma int_not_plain: "\<not> plain_text_ok (string_of_int i)"
proof -
  have "list_all (\<lambda>c. is_digit c \<or> c = CHR ''-'') (string_of_int i)" "string_of_int i \<noteq> []"
    using digits_of_nat by (auto simp: list_all_iff string_of_int_def)
  then have "number_like (string_of_int i)"
    unfolding number_like_def list_all_iff by (metis hd_in_set insert_iff list.simps(15))
  then show ?thesis by (simp add: plain_text_ok_def)
qed


lemma int_chars: "c \<in> set (string_of_int n) \<Longrightarrow> c = CHR ''-'' \<or> is_digit c"
  using digits_of_nat by (auto simp: string_of_int_def split: if_splits)

lemma not_in_int: "c \<noteq> CHR ''-'' \<Longrightarrow> \<not> is_digit c \<Longrightarrow> c \<notin> set (string_of_int n)"
  using int_chars by blast

lemma digit_lits:
  "\<not> is_digit CHR 0x5B" "\<not> is_digit CHR 0x7B" "\<not> is_digit CHR ''n''" "\<not> is_digit CHR ''t''" "\<not> is_digit CHR ''f''"
  "\<not> is_digit CHR '' ''" "\<not> is_digit CHR '':''" "\<not> is_digit nl" "\<not> is_digit dq"
  by (simp_all add: is_digit_def) (simp_all add: char_code_def)

lemma int_no:
  "CHR 0x5B \<notin> set (string_of_int n)" "CHR 0x7B \<notin> set (string_of_int n)" "CHR ''n'' \<notin> set (string_of_int n)"
  "CHR ''t'' \<notin> set (string_of_int n)" "CHR ''f'' \<notin> set (string_of_int n)" "CHR '' '' \<notin> set (string_of_int n)"
  "CHR '':'' \<notin> set (string_of_int n)" "nl \<notin> set (string_of_int n)" "dq \<notin> set (string_of_int n)"
  by (rule not_in_int; simp add: digit_lits)+

lemma int_ne [simp]: "string_of_int n \<noteq> []"
  by (simp add: string_of_int_def)

text \<open>Scalars other than strings, and the empty collections.\<close>

definition inline :: "js \<Rightarrow> bool" where
  "inline v \<longleftrightarrow> (case v of JArr xs \<Rightarrow> xs = [] | JObj o1 \<Rightarrow> o1 = [] | _ \<Rightarrow> True)"

lemma inline_indent: "inline v \<Longrightarrow> serializeValue v i = serializeValue v 0"
  by (cases v) (auto simp: inline_def)

lemma read_inline: "inline v \<Longrightarrow> yaml_ok v \<Longrightarrow> read_scalar (serializeValue v i) = Some (view_value v)"
proof (cases v)
  case (JNum n)
  have "string_of_int n \<notin> {''[]'', ''{}'', ''null'', ''true'', ''false''}" "\<not> starts_with (string_of_int n) [dq]"
    using int_no [of n] by (auto simp: starts_with_iff)
  then show ?thesis using JNum int_not_plain read_int_of by (auto simp: read_scalar_def read_plain_def)
qed (auto simp: inline_def read_scalar_text, auto simp: read_scalar_def read_plain_def)

lemma inline_text:
  assumes "inline v" "yaml_ok v"
  shows "nl \<notin> set (serializeValue v i)" "serializeValue v i \<noteq> []" "\<not> starts_with (serializeValue v i) [nl]"
    "\<not> dash (serializeValue v i)" "\<not> is_space (hd (serializeValue v i))"
proof -
  have num3: "\<not> is_space c" if "c \<in> set (string_of_int n)" for c n
    using int_chars [OF that] by (auto simp: is_digit_def is_space_def)
  show n: "nl \<notin> set (serializeValue v i)"
    using assms quote_no_nl int_no(8) by (cases v) (auto simp: inline_def)
  show e: "serializeValue v i \<noteq> []"
    using assms quote_hd by (cases v) (auto simp: inline_def)
  show "\<not> starts_with (serializeValue v i) [nl]" using n by (auto simp: starts_with_iff)
  show "\<not> dash (serializeValue v i)"
  proof (cases v)
    case (JNum n) then show ?thesis using int_no(6) [of n] by (auto simp: dash_def starts_with_iff)
  qed (use assms quote_hd in \<open>auto simp: inline_def dash_def\<close>)
  show "\<not> is_space (hd (serializeValue v i))"
  proof (cases v)
    case (JNum n) then show ?thesis using num3 [OF hd_in_set [OF int_ne]] by simp
  qed (use assms quote_hd in \<open>auto simp: inline_def is_space_def char_code_def\<close>)
qed

lemma read_key_inline:
  assumes "inline v" "yaml_ok v"
  shows "read_key (serializeValue v i) = None"
proof -
  have num: "CHR '':'' \<notin> set (string_of_int n) \<and> \<not> starts_with (string_of_int n) [dq]" for n
    using int_no [of n] by (auto simp: starts_with_iff)
  show ?thesis
  proof (cases v)
    case (JStr s)
    then have "yaml_text s" using assms by simp
    then show ?thesis
      by (cases rule: text_cases)
        (use JStr in \<open>auto simp: read_key_def read_quoted_escape plain_codes plain_hd\<close>)
  qed (use assms num in \<open>auto simp: inline_def read_key_def\<close>)
qed

lemma read_key_entry:
  assumes "yaml_text k"
  shows "read_key (quoteString k @ '':'' @ r) = Some (k, r)"
  using assms
proof (cases rule: text_cases)
  case 1
  then show ?thesis using read_quoted_escape [of k "'':'' @ r"] by (simp add: read_key_def)
next
  case 2
  have "takeWhile (\<lambda>x. x \<noteq> CHR '':'') (k @ '':'' @ r) = k"
    "dropWhile (\<lambda>x. x \<noteq> CHR '':'') (k @ '':'' @ r) = '':'' @ r"
    using plain_codes(1) [OF 2(2)] by (simp_all add: takeWhile_append dropWhile_append)
  moreover have "\<not> starts_with (k @ '':'' @ r) [dq]"
    using plain_hd(1,2) [OF 2(2)] by (cases k) auto
  ultimately show ?thesis using 2 by (simp add: read_key_def)
qed


subsection \<open>Layout\<close>

text \<open>A line's text after its indentation: not blank, no break, no leading blank.\<close>

definition solid :: "string \<Rightarrow> bool" where
  "solid c \<longleftrightarrow> c \<noteq> [] \<and> nl \<notin> set c \<and> \<not> is_space (hd c)"

lemma solid_append: "solid c \<Longrightarrow> nl \<notin> set d \<Longrightarrow> solid (c @ d)"
  by (auto simp: solid_def)

lemma solid_quote: "yaml_text k \<Longrightarrow> nl \<notin> set d \<Longrightarrow> solid (quoteString k @ d)"
  using quote_hd quote_no_nl by (auto simp: solid_def)

lemma solid_dash: "nl \<notin> set d \<Longrightarrow> solid (CHR ''-'' # d)"
  by (simp add: solid_def is_space_def)

lemma solid_item: "nl \<notin> set d \<Longrightarrow> solid (''- '' @ d)"
  by (simp add: solid_def is_space_def)

lemma split_append: "js_split nl (a @ nl # b) = js_split nl a @ js_split nl b"
  by (induction a) (auto split: list.splits simp: js_split_ne)

lemma yaml_lines_append: "yaml_lines (a @ nl # b) = yaml_lines a @ yaml_lines b"
  by (simp add: yaml_lines_def split_append)

lemma yaml_lines_Nil [simp]: "yaml_lines [] = []"
  by (simp add: yaml_lines_def split_indent_def)

lemma yaml_lines_nl [simp]: "yaml_lines (nl # b) = yaml_lines b"
  using yaml_lines_append [of "[]"] by simp

lemma solid_no_blank: "solid c \<Longrightarrow> takeWhile (\<lambda>x. x = CHR '' '') c = [] \<and> dropWhile (\<lambda>x. x = CHR '' '') c = c"
  by (cases c) (auto simp: solid_def is_space_def)

lemma yaml_line: "solid c \<Longrightarrow> yaml_lines (pad i @ c) = [(2 * i, c)]"
proof -
  assume c: "solid c"
  have "nl \<notin> set (pad i @ c)" using c by (auto simp: pad_def solid_def)
  moreover have "split_indent (pad i @ c) = (2 * i, c)"
    using solid_no_blank [OF c] by (simp add: split_indent_def pad_def takeWhile_append dropWhile_append)
  ultimately show ?thesis using c by (simp add: yaml_lines_def js_split_atom solid_def)
qed

lemma yaml_line_rest:
  assumes "solid c" "r = [] \<or> (\<exists>b. r = nl # b)"
  shows "yaml_lines (pad i @ c @ r) = (2 * i, c) # yaml_lines r"
  using assms(2)
proof
  assume "\<exists>b. r = nl # b"
  then obtain b where r: "r = nl # b" by blast
  have "yaml_lines ((pad i @ c) @ nl # b) = yaml_lines (pad i @ c) @ yaml_lines b" by (rule yaml_lines_append)
  then show ?thesis using r yaml_line [OF assms(1)] by simp
qed (use yaml_line [OF assms(1)] in simp)

lemma yaml_lines_join: "yaml_lines (js_join [nl] ls) = concat (map yaml_lines ls)"
  by (induction ls) (auto simp: js_join_Cons yaml_lines_append)

text \<open>The lines of a block, as the reader sees them.\<close>

definition entry_of :: "nat \<Rightarrow> string \<Rightarrow> js \<Rightarrow> (nat \<times> string) list \<Rightarrow> (nat \<times> string) list" where
  "entry_of i k v below =
     (if inline v then [(2 * i, quoteString k @ '': '' @ serializeValue v 0)]
      else (2 * i, quoteString k @ '':'') # below)"

definition item_of :: "nat \<Rightarrow> js \<Rightarrow> (nat \<times> string) list \<Rightarrow> (nat \<times> string) list" where
  "item_of i v below =
     (case v of
        JObj _ \<Rightarrow> (case below of [] \<Rightarrow> [(2 * i, ''- {}'')] | (m, l) # ls \<Rightarrow> (2 * i, ''- '' @ l) # ls)
      | _ \<Rightarrow> if inline v then [(2 * i, ''- '' @ serializeValue v 0)] else (2 * i, ''- '') # below)"

fun block_lines :: "nat \<Rightarrow> js \<Rightarrow> (nat \<times> string) list" where
  "block_lines i (JArr items) = concat (map (\<lambda>v. item_of i v (block_lines (i + 1) v)) items)"
| "block_lines i (JObj obj) =
     concat (map (\<lambda>(k, v). if isEmptyValue v then [] else entry_of i k v (block_lines (i + 1) v)) obj)"
| "block_lines i _ = []"

fun text_lines :: "nat \<Rightarrow> js \<Rightarrow> string list" where
  "text_lines i (JArr items) = concat (map (\<lambda>item.
     case item of
       JObj obj \<Rightarrow> object_item i (serializeObject obj (i + 1))
     | _ \<Rightarrow> [pad i @ ''- '' @ serializeValue item (i + 1)]) items)"
| "text_lines i (JObj obj) = serializeObject obj i"
| "text_lines i _ = []"

lemma serialize_block: "\<not> inline v \<Longrightarrow> serializeValue v i = nl # js_join [nl] (text_lines i v)"
  by (cases v) (auto simp: inline_def)

lemma entry_shape:
  assumes "l \<in> set (serializeObject obj i)" "yaml_ok (JObj obj)"
  shows "\<exists>c r. l = pad i @ c @ r \<and> solid c \<and> (r = [] \<or> (\<exists>b. r = nl # b))"
proof -
  from assms(1) obtain k v where kv: "(k, v) \<in> set obj" "l = entry_line i k (serializeValue v (i + 1))"
    by (auto split: if_splits)
  then have ok: "yaml_text k" "yaml_ok v" using assms(2) by (auto simp: list_all_iff)
  show ?thesis
  proof (cases "inline v")
    case True
    let ?c = "quoteString k @ '': '' @ serializeValue v (i + 1)"
    have "l = pad i @ ?c @ []" using kv(2) inline_text(3) [OF True ok(2)] by (simp add: entry_line_def)
    moreover have "solid ?c" using inline_text(1) [OF True ok(2)] by (intro solid_quote [OF ok(1)]) auto
    ultimately show ?thesis by blast
  next
    case False
    let ?c = "quoteString k @ '':''" and ?r = "nl # js_join [nl] (text_lines (i + 1) v)"
    have "l = pad i @ ?c @ ?r" using kv(2) serialize_block [OF False] by (simp add: entry_line_def)
    moreover have "solid ?c" by (intro solid_quote [OF ok(1)]) auto
    ultimately show ?thesis by blast
  qed
qed


declare serializeObject.simps [simp del]

lemma pad_Suc: "pad (Suc i) = pad i @ ''  ''"
  by (simp add: pad_def replicate_app_Cons_same)

lemma trim_pad: "solid c \<Longrightarrow> trim_start (pad i @ c @ r) = c @ r"
proof -
  assume c: "solid c"
  have "is_space CHR '' ''" by (simp add: is_space_def)
  then have "dropWhile is_space (replicate n CHR '' '' @ w) = dropWhile is_space w" for n w
    by (induction n) simp_all
  then have "dropWhile is_space (pad i @ w) = dropWhile is_space w" for w by (simp add: pad_def)
  then show ?thesis using c by (cases c) (auto simp: trim_start_def solid_def)
qed

lemma object_item_lines:
  assumes "yaml_ok (JObj obj)" "concat (map yaml_lines (serializeObject obj (Suc i))) = below"
  shows "concat (map yaml_lines (object_item i (serializeObject obj (Suc i)))) = item_of i (JObj obj) below"
proof (cases "serializeObject obj (Suc i)")
  case Nil
  have "yaml_lines (pad i @ ''- {}'') = [(2 * i, ''- {}'')]" by (intro yaml_line solid_dash) simp
  then show ?thesis using Nil assms(2) by (simp add: object_item_def item_of_def)
next
  case (Cons l ls)
  note shape = entry_shape [OF _ assms(1), of _ "Suc i"]
  have "pad i @ ''  '' @ trim_start x = x" if "x \<in> set ls" for x
  proof -
    from shape [of x] that Cons obtain c r where "x = pad (Suc i) @ c @ r" "solid c" by auto
    then show ?thesis using trim_pad [of c "Suc i" r] by (simp add: pad_Suc)
  qed
  then have ls: "map (\<lambda>x. pad i @ ''  '' @ trim_start x) ls = ls" by (simp add: map_idI)
  from shape [of l] Cons obtain c r where
    l: "l = pad (Suc i) @ c @ r" "solid c" "r = [] \<or> (\<exists>b. r = nl # b)" by auto
  have "solid (''- '' @ c)" using l(2) by (intro solid_item) (auto simp: solid_def)
  from yaml_line_rest [OF this l(3), of i]
  have "yaml_lines (pad i @ ''- '' @ trim_start l) = (2 * i, ''- '' @ c) # yaml_lines r"
    using trim_pad [OF l(2), of "Suc i" r] l(1) by simp
  moreover have "yaml_lines l = (2 * Suc i, c) # yaml_lines r"
    using yaml_line_rest [OF l(2,3)] l(1) by simp
  ultimately show ?thesis
    using ls assms(2) Cons by (auto simp: object_item_def item_of_def)
qed

lemma layout: "yaml_ok v \<Longrightarrow> concat (map yaml_lines (text_lines i v)) = block_lines i v"
proof (induction v arbitrary: i)
  case (JArr items)
  have item: "concat (map yaml_lines (text_lines i (JArr [v]))) = item_of i v (block_lines (i + 1) v)"
    if v: "v \<in> set items" for v
  proof -
    have ok: "yaml_ok v" using JArr.prems v by (simp add: list_all_iff)
    note IH = JArr.IH [OF v ok]
    show ?thesis
    proof (cases "\<exists>obj. v = JObj obj")
      case True
      then obtain obj where obj: "v = JObj obj" by blast
      then show ?thesis using object_item_lines [of obj i] ok IH [of "Suc i"]
        by (simp del: yaml_ok.simps(3) block_lines.simps)
    next
      case no: False
      then have t: "text_lines i (JArr [v]) = [pad i @ ''- '' @ serializeValue v (i + 1)]" by (cases v) auto
      show ?thesis
      proof (cases "inline v")
        case True
        have "yaml_lines (pad i @ ''- '' @ serializeValue v 0) = [(2 * i, ''- '' @ serializeValue v 0)]"
          using inline_text(1) [OF True ok] by (intro yaml_line solid_item) simp
        then show ?thesis using no inline_indent [OF True, of "i + 1"] True
          unfolding t by (cases v) (auto simp: item_of_def)
      next
        case False
        have "yaml_lines (pad i @ ''- '' @ nl # js_join [nl] (text_lines (i + 1) v))
            = (2 * i, ''- '') # block_lines (i + 1) v"
          using yaml_line_rest [OF solid_dash, of "'' ''" "nl # js_join [nl] (text_lines (i + 1) v)" i]
            IH [of "i + 1"] by (simp add: yaml_lines_join)
        then show ?thesis using no serialize_block [OF False, of "i + 1"] False
          unfolding t by (cases v) (auto simp: item_of_def)
      qed
    qed
  qed
  have "concat (map yaml_lines (text_lines i (JArr items)))
      = concat (map (\<lambda>v. concat (map yaml_lines (text_lines i (JArr [v])))) items)"
    by (induction items) simp_all
  also have "\<dots> = concat (map (\<lambda>v. item_of i v (block_lines (i + 1) v)) items)"
    using item by (intro arg_cong [where f = concat] map_cong) auto
  finally show ?case by simp
next
  case (JObj obj)
  have entry: "yaml_lines (entry_line i k (serializeValue v (i + 1))) = entry_of i k v (block_lines (i + 1) v)"
    if kv: "(k, v) \<in> set obj" for k v
  proof -
    have ok: "yaml_text k" "yaml_ok v" using JObj.prems kv by (auto simp: list_all_iff)
    show ?thesis
    proof (cases "inline v")
      case True
      have "yaml_lines (pad i @ quoteString k @ '': '' @ serializeValue v 0)
          = [(2 * i, quoteString k @ '': '' @ serializeValue v 0)]"
        using inline_text(1) [OF True ok(2)] by (intro yaml_line solid_quote [OF ok(1)]) auto
      then show ?thesis using True inline_indent [OF True, of "i + 1"] inline_text(3) [OF True ok(2)]
        by (simp add: entry_line_def entry_of_def)
    next
      case False
      have "yaml_lines (pad i @ (quoteString k @ '':'') @ nl # js_join [nl] (text_lines (i + 1) v))
          = (2 * i, quoteString k @ '':'') # yaml_lines (nl # js_join [nl] (text_lines (i + 1) v))"
        by (intro yaml_line_rest solid_quote [OF ok(1)]) auto
      moreover have "concat (map yaml_lines (text_lines (i + 1) v)) = block_lines (i + 1) v"
        using JObj.IH [OF kv _ ok(2)] by simp
      ultimately show ?thesis using False serialize_block [OF False, of "i + 1"]
        by (simp add: entry_line_def entry_of_def yaml_lines_join)
    qed
  qed
  have "concat (map yaml_lines (text_lines i (JObj obj))) =
      concat (map (\<lambda>(k, v). if isEmptyValue v then []
        else yaml_lines (entry_line i k (serializeValue v (i + 1)))) obj)"
    unfolding text_lines.simps serializeObject.simps by (induction obj) auto
  also have "\<dots> = concat (map (\<lambda>(k, v). if isEmptyValue v then []
        else entry_of i k v (block_lines (i + 1) v)) obj)"
    using entry by (intro arg_cong [where f = concat] map_cong) auto
  finally show ?case by simp
qed simp_all


subsection \<open>Reading\<close>

definition block_at :: "nat \<Rightarrow> (nat \<times> string) list \<Rightarrow> bool" where
  "block_at n b \<longleftrightarrow> (\<exists>c nested. b = (n, c) # nested \<and> (\<forall>p \<in> set nested. n < fst p))"

lemma chunks_concat:
  "(\<And>b. b \<in> set blks \<Longrightarrow> block_at n b) \<Longrightarrow> chunks n (concat blks) = map (\<lambda>b. (n, snd (hd b), tl b)) blks"
proof (induction blks)
  case (Cons b blks)
  have "block_at n b" by (rule Cons.prems) simp
  then obtain c nested where b: "b = (n, c) # nested" "\<forall>p \<in> set nested. n < fst p"
    unfolding block_at_def by blast
  have rest: "takeWhile (\<lambda>p. n < fst p) (concat blks) = [] \<and> dropWhile (\<lambda>p. n < fst p) (concat blks) = concat blks"
  proof (cases blks)
    case (Cons b' blks')
    then obtain c' nested' where "b' = (n, c') # nested'" using Cons.prems [of b'] by (auto simp: block_at_def)
    then show ?thesis using Cons by simp
  qed simp
  have "takeWhile (\<lambda>p. n < fst p) (nested @ concat blks) = nested"
    "dropWhile (\<lambda>p. n < fst p) (nested @ concat blks) = concat blks"
    using b(2) rest by (simp_all add: takeWhile_append2 dropWhile_append2)
  then show ?case using b Cons by simp
qed simp

lemma all_some_map: "(\<And>x. x \<in> set xs \<Longrightarrow> f x = Some (g x)) \<Longrightarrow> all_some (map f xs) = Some (map g xs)"
  by (induction xs) auto

definition live :: "(string \<times> js) list \<Rightarrow> (string \<times> js) list" where
  "live obj = filter (\<lambda>(k, v). \<not> isEmptyValue v) obj"

lemma live_blocks:
  "block_lines i (JObj obj) = concat (map (\<lambda>(k, v). entry_of i k v (block_lines (i + 1) v)) (live obj))"
  unfolding block_lines.simps live_def by (induction obj) auto

lemma live_view: "view_entries obj = map (\<lambda>(k, v). (k, view_value v)) (live obj)"
  unfolding view_entries.simps live_def by (induction obj) auto

lemma live_empty: "block_lines i (JObj obj) = [] \<longleftrightarrow> live obj = []"
  unfolding live_blocks by (cases "live obj") (auto simp: entry_of_def split: if_splits)

lemma item_indent:
  assumes "\<And>q. q \<in> set below \<Longrightarrow> 2 * (i + 1) \<le> fst q" "p \<in> set (item_of i v below)"
  shows "2 * i \<le> fst p"
proof -
  have below: "2 * i \<le> fst q" if "q \<in> set below" for q using assms(1) [OF that] by simp
  have "p \<in> insert (2 * i, snd p) (set below)"
  proof (cases v)
    case (JObj obj)
    then show ?thesis using assms(2) by (cases below) (auto simp: item_of_def)
  qed (use assms(2) in \<open>auto simp: item_of_def split: if_splits\<close>)
  then show ?thesis using below by (metis fst_conv insertE order_refl)
qed

lemma indents: "p \<in> set (block_lines i v) \<Longrightarrow> 2 * i \<le> fst p"
proof (induction v arbitrary: i p)
  case (JArr items)
  then obtain v where v: "v \<in> set items" "p \<in> set (item_of i v (block_lines (i + 1) v))" by auto
  have "2 * (i + 1) \<le> fst q" if "q \<in> set (block_lines (i + 1) v)" for q using JArr.IH [OF v(1) that] .
  then show ?case using v(2) by (rule item_indent)
next
  case (JObj obj)
  then obtain k v where v: "(k, v) \<in> set obj" "p \<in> set (entry_of i k v (block_lines (i + 1) v))"
    by (auto split: if_splits)
  have "2 * (i + 1) \<le> fst q" if "q \<in> set (block_lines (i + 1) v)" for q
    using JObj.IH [OF v(1) _ that] by simp
  then show ?case using v(2) by (fastforce simp: entry_of_def split: if_splits)
qed simp_all

lemma deeper: "p \<in> set (block_lines (i + 1) v) \<Longrightarrow> 2 * i < fst p"
  using indents [of p "i + 1" v] by simp

lemma entry_block: "block_at (2 * i) (entry_of i k v (block_lines (i + 1) v))"
  using deeper by (auto simp: block_at_def entry_of_def)

lemma item_head: "block_at (2 * i) (item_of i v (block_lines (i + 1) v))"
proof (cases v)
  case (JObj obj)
  then show ?thesis using deeper [of _ i v]
    by (auto simp: block_at_def item_of_def simp del: block_lines.simps split: list.splits)
qed (use deeper [of _ i v] in \<open>auto simp: block_at_def item_of_def simp del: block_lines.simps\<close>)

lemma read_single:
  "inline v \<Longrightarrow> yaml_ok v \<Longrightarrow> read_block [(n, serializeValue v 0)] = Some (view_value v)"
  using inline_text(4) read_key_inline read_inline by simp

lemma view_item_eq: "\<not> (\<exists>obj. v = JObj obj) \<Longrightarrow> view_item v = view_value v"
  by (cases v) auto

text \<open>The reader takes an item's block apart as the serializer built it.\<close>

lemma read_item:
  assumes ok: "yaml_ok v"
    and IH: "\<not> inline v \<Longrightarrow> read_block (block_lines (i + 1) v) = Some (view_value v)"
  shows "(let b = item_of i v (block_lines (i + 1) v); d = snd (hd b)
          in if dash d then read_block (item_block (2 * i) d (tl b)) else None) = Some (view_item v)"
proof (cases "\<exists>obj. v = JObj obj")
  case True
  then obtain obj where obj: "v = JObj obj" by blast
  show ?thesis
  proof (cases "block_lines (i + 1) v")
    case Nil
    then have "view_entries obj = []" unfolding obj live_empty live_view by simp
    moreover have "read_block [(2 * i + 2, ''{}'')] = Some (JObj [])"
      using read_single [of "JObj []"] by (simp add: inline_def)
    ultimately show ?thesis using Nil
      by (simp add: obj item_of_def item_block_def dash_def del: view_entries.simps block_lines.simps read_block.simps)
  next
    case (Cons p ls)
    obtain m l where p: "p = (m, l)" by (cases p)
    have ne: "view_entries obj \<noteq> []" using Cons live_empty [of "i + 1" obj] unfolding obj live_view by auto
    then have ni: "\<not> inline v" "view_value v = JObj (view_entries obj)"
      by (auto simp: obj inline_def simp del: view_entries.simps) (simp_all add: view_entries.simps)
    obtain k u rest where lv: "live obj = (k, u) # rest" using ne unfolding live_view by (cases "live obj") auto
    have "l \<noteq> []" "m = 2 * (i + 1)" using Cons unfolding obj live_blocks lv p
      by (auto simp: entry_of_def split: if_splits)
    then have "item_block (2 * i) (''- '' @ l) ls = block_lines (i + 1) v" using Cons p
      by (simp add: item_block_def)
    then show ?thesis using Cons p IH [OF ni(1)] ni(2)
      by (simp add: obj item_of_def dash_def del: view_entries.simps block_lines.simps read_block.simps)
  qed
next
  case False
  note v = view_item_eq [OF False]
  show ?thesis
  proof (cases "inline v")
    case True
    then have "item_of i v (block_lines (i + 1) v) = [(2 * i, ''- '' @ serializeValue v 0)]"
      using False by (cases v) (auto simp: item_of_def)
    then show ?thesis using v read_single [OF True ok] inline_text(2) [OF True ok]
      by (simp add: item_block_def dash_def del: read_block.simps)
  next
    case no: False
    then have "item_of i v (block_lines (i + 1) v) = (2 * i, ''- '') # block_lines (i + 1) v"
      using False by (cases v) (auto simp: item_of_def)
    then show ?thesis using v IH [OF no] by (simp add: item_block_def dash_def del: read_block.simps)
  qed
qed


text \<open>
  An entry in general: a key with a scalar on its line, or with a deeper block below it, and the
  value the reader finds there.
\<close>

definition ent :: "nat \<Rightarrow> string \<times> (string + (nat \<times> string) list) \<times> js \<Rightarrow> (nat \<times> string) list" where
  "ent i e = (case e of (k, x, _) \<Rightarrow>
     (case x of Inl t \<Rightarrow> [(2 * i, quoteString k @ '': '' @ t)]
      | Inr below \<Rightarrow> (2 * i, quoteString k @ '':'') # below))"

definition ent_ok :: "nat \<Rightarrow> string \<times> (string + (nat \<times> string) list) \<times> js \<Rightarrow> bool" where
  "ent_ok i e \<longleftrightarrow> (case e of (k, x, u) \<Rightarrow> yaml_text k \<and>
     (case x of Inl t \<Rightarrow> read_scalar t = Some u
      | Inr below \<Rightarrow> read_block below = Some u \<and> (\<forall>p \<in> set below. 2 * i < fst p)))"

definition read_pair :: "string \<Rightarrow> (nat \<times> string) list \<Rightarrow> (string \<times> js) option" where
  "read_pair d nested = (case read_key d of
     None \<Rightarrow> None
   | Some (k, rest) \<Rightarrow>
       if rest = [] then map_option (\<lambda>v. (k, v)) (read_block nested)
       else if nested = [] \<and> starts_with rest '' ''
       then map_option (\<lambda>v. (k, v)) (read_scalar (tl rest)) else None)"

lemma ent_head: "ent_ok i e \<Longrightarrow> block_at (2 * i) (ent i e)"
  by (cases e) (auto simp: ent_def ent_ok_def block_at_def split: sum.splits)

lemma ent_read:
  assumes "ent_ok i (k, x, u)"
  shows "read_pair (snd (hd (ent i (k, x, u)))) (tl (ent i (k, x, u))) = Some (k, u)"
proof (cases x)
  case (Inl t)
  then show ?thesis using assms read_key_entry [of k "'' '' @ t"] by (simp add: ent_def ent_ok_def read_pair_def)
next
  case (Inr below)
  then show ?thesis using assms read_key_entry [of k "[]"] by (simp add: ent_def ent_ok_def read_pair_def)
qed

lemma key_not_dash:
  assumes "yaml_text k"
  shows "\<not> dash (quoteString k @ '':'' @ r)"
proof
  assume d: "dash (quoteString k @ '':'' @ r)"
  show False using assms
  proof (cases rule: text_cases)
    case 1 then show False using d by (simp add: dash_def)
  next
    case 2
    then obtain a k' where k: "k = a # k'" using plain_hd(2) by (cases k) auto
    have "k \<noteq> ''-''" "\<not> starts_with k ''- ''" using 2(2) by (auto simp: plain_text_ok_def)
    then show False using d 2(1) k by (cases k') (auto simp: dash_def)
  qed
qed

lemma ent_line:
  assumes "ent_ok i e"
  shows "\<not> dash (snd (hd (ent i e)))" "read_key (snd (hd (ent i e))) \<noteq> None"
proof -
  obtain k x u where e: "e = (k, x, u)" by (cases e)
  have k: "yaml_text k" using assms by (simp add: e ent_ok_def)
  show "\<not> dash (snd (hd (ent i e)))"
    using key_not_dash [OF k, of "[]"] key_not_dash [OF k, of "'' '' @ t" for t]
    by (cases x) (simp_all add: e ent_def)
  show "read_key (snd (hd (ent i e))) \<noteq> None"
    using read_key_entry [OF k, of "[]"] read_key_entry [OF k, of "'' '' @ t" for t]
    by (cases x) (simp_all add: e ent_def)
qed

lemma read_ents:
  assumes "es \<noteq> []" and ok: "\<And>e. e \<in> set es \<Longrightarrow> ent_ok i e"
  shows "read_block (concat (map (ent i) es)) = Some (JObj (map (\<lambda>(k, x, u). (k, u)) es))"
proof -
  let ?f = "\<lambda>(m, d, nested). if m \<noteq> 2 * i then None else read_pair d nested"
  obtain e0 es' where es: "es = e0 # es'" using assms(1) by (cases es) auto
  obtain c0 n0 where b0: "ent i e0 = (2 * i, c0) # n0"
    using ent_head [OF ok, of e0] es by (auto simp: block_at_def)
  have h: "\<not> dash c0" "read_key c0 \<noteq> None"
    using ent_line [OF ok, of e0] es b0 by simp_all
  have lines: "concat (map (ent i) es) = (2 * i, c0) # n0 @ concat (map (ent i) es')"
    using es b0 by simp
  have "chunks (2 * i) (concat (map (ent i) es)) = map (\<lambda>b. (2 * i, snd (hd b), tl b)) (map (ent i) es)"
    by (rule chunks_concat) (use ok ent_head in auto)
  then have ch: "chunks (2 * i) ((2 * i, c0) # n0 @ concat (map (ent i) es'))
      = map (\<lambda>e. (2 * i, snd (hd (ent i e)), tl (ent i e))) es"
    unfolding lines by (simp add: comp_def del: chunks.simps)
  have "read_block (concat (map (ent i) es)) = map_option JObj (all_some (map ?f
      (chunks (2 * i) ((2 * i, c0) # n0 @ concat (map (ent i) es')))))"
    unfolding lines read_block.simps read_pair_def by (simp only: h if_False)
  also have "\<dots> = map_option JObj (all_some (map (\<lambda>e. read_pair (snd (hd (ent i e))) (tl (ent i e))) es))"
    unfolding ch by (simp add: comp_def)
  also have "all_some (map (\<lambda>e. read_pair (snd (hd (ent i e))) (tl (ent i e))) es) =
      Some (map (\<lambda>(k, x, u). (k, u)) es)"
    by (rule all_some_map) (use ok ent_read in fastforce)
  finally show ?thesis by simp
qed

lemma read_blocks: "yaml_ok v \<Longrightarrow> \<not> inline v \<Longrightarrow> read_block (block_lines i v) = Some (view_value v)"
proof (induction v arbitrary: i)
  case (JArr items)
  let ?b = "\<lambda>v. item_of i v (block_lines (i + 1) v)"
  let ?f = "\<lambda>(m, d, nested). if m = 2 * i \<and> dash d then read_block (item_block (2 * i) d nested) else None"
  obtain v0 vs where items: "items = v0 # vs" using JArr.prems by (cases items) (auto simp: inline_def)
  obtain c0 n0 where b0: "?b v0 = (2 * i, c0) # n0" using item_head [of i v0] by (auto simp: block_at_def)
  have all: "?f (2 * i, snd (hd (?b v)), tl (?b v)) = Some (view_item v)" if "v \<in> set items" for v
  proof -
    have "yaml_ok v" using JArr.prems(1) that by (simp add: list_all_iff)
    then show ?thesis using read_item [of v i] JArr.IH [OF that, of "i + 1"] by (simp add: Let_def)
  qed
  from all [of v0] have d0: "dash c0" using items b0 by (simp split: if_splits)
  have bl: "block_lines i (JArr items) = (2 * i, c0) # n0 @ concat (map ?b vs)"
    using b0 by (simp add: items)
  have "chunks (2 * i) (concat (map ?b items)) = map (\<lambda>b. (2 * i, snd (hd b), tl b)) (map ?b items)"
    by (rule chunks_concat) (auto simp: item_head [simplified])
  then have ch: "chunks (2 * i) ((2 * i, c0) # n0 @ concat (map ?b vs))
      = map (\<lambda>v. (2 * i, snd (hd (?b v)), tl (?b v))) items"
    using bl by (simp add: comp_def del: chunks.simps)
  have "read_block (block_lines i (JArr items)) = map_option JArr (all_some (map ?f
      (chunks (2 * i) ((2 * i, c0) # n0 @ concat (map ?b vs)))))"
    unfolding bl read_block.simps using d0 by simp
  also have "\<dots> = map_option JArr (all_some (map (\<lambda>v. ?f (2 * i, snd (hd (?b v)), tl (?b v))) items))"
    unfolding ch by (simp add: comp_def)
  also have "\<dots> = Some (view_value (JArr items))"
    using all_some_map [OF all] by simp
  finally show ?case .
next
  case (JObj obj)
  let ?e = "\<lambda>(k, v). (k, if inline v then Inl (serializeValue v 0) else Inr (block_lines (i + 1) v), view_value v)"
  show ?case
  proof (cases "live obj = []")
    case True
    then show ?thesis using JObj.prems live_empty [of i obj] live_view [of obj]
      by (simp add: inline_def del: view_entries.simps block_lines.simps)
  next
    case False
    have "ent_ok i (?e (k, v))" if "(k, v) \<in> set (live obj)" for k v
    proof -
      have kv: "(k, v) \<in> set obj" "yaml_text k" "yaml_ok v"
        using that JObj.prems(1) by (auto simp: live_def list_all_iff)
      then show ?thesis
        using JObj.IH [OF kv(1), of v "i + 1"] read_inline [of v 0] deeper [of _ i v]
        by (auto simp: ent_ok_def simp del: block_lines.simps)
    qed
    then have "read_block (concat (map (ent i) (map ?e (live obj)))) =
        Some (JObj (map (\<lambda>(k, x, u). (k, u)) (map ?e (live obj))))"
      using False by (intro read_ents) auto
    moreover have "map (\<lambda>(k, x, u). (k, u)) (map ?e (live obj)) = view_entries obj"
      unfolding live_view by (simp add: comp_def case_prod_beta)
    moreover have "concat (map (ent i) (map ?e (live obj))) = block_lines i (JObj obj)"
      unfolding live_blocks map_map
      by (intro arg_cong [where f = concat] map_cong) (auto simp: ent_def entry_of_def)
    ultimately show ?thesis
      using False JObj.prems live_view [of obj]
      by (simp add: inline_def del: view_entries.simps block_lines.simps)
  qed
qed (simp_all add: inline_def)

section \<open>The round trip\<close>

text \<open>The block of an object, at any indentation.\<close>

lemma object_round_trip:
  assumes "yaml_ok (JObj obj)"
  shows "read_yaml (js_join [nl] (serializeObject obj i))
      = Some (if view_entries obj = [] then JNull else JObj (view_entries obj))"
proof (cases "view_entries obj = []")
  case True
  then have "block_lines i (JObj obj) = []" unfolding live_empty live_view by simp
  then have "yaml_lines (js_join [nl] (serializeObject obj i)) = []"
    using layout [OF assms, of i] unfolding yaml_lines_join by (metis text_lines.simps(2))
  then show ?thesis using True by (simp add: read_yaml_def del: view_entries.simps)
next
  case False
  then have ni: "\<not> inline (JObj obj)" by (auto simp: inline_def)
  have "yaml_lines (js_join [nl] (serializeObject obj i)) = block_lines i (JObj obj)"
    using layout [OF assms, of i] by (simp add: yaml_lines_join del: block_lines.simps)
  moreover have "view_value (JObj obj) = JObj (view_entries obj)" using False by auto
  ultimately show ?thesis using read_blocks [OF assms ni, of i] False
    by (simp add: read_yaml_def del: view_entries.simps)
qed

text \<open>What the document of \<open>formStateToYaml\<close> says, and the forms whose strings survive.\<close>

definition pairs_view :: "string \<Rightarrow> (string \<times> string) list option \<Rightarrow> (string \<times> js) list" where
  "pairs_view title ps =
     (case ps of
        None \<Rightarrow> []
      | Some r \<Rightarrow>
          if r = [] then []
          else (let named = filter (\<lambda>(k, v). k \<noteq> []) r
                in [(title, if named = [] then JNull else JObj (map (\<lambda>(k, v). (k, JStr v)) named))]))"

definition form_view :: "string \<Rightarrow> string \<Rightarrow> form_metadata \<Rightarrow> (string \<times> js) list \<Rightarrow> js" where
  "form_view apiVersion kind metadata spec =
     JObj ([(''apiVersion'', JStr apiVersion), (''kind'', JStr kind),
            (''metadata'', JObj ((''name'', JStr (fm_name metadata))
               # (if has_text (fm_namespace metadata)
                  then [(''namespace'', JStr (the (fm_namespace metadata)))] else [])
               @ pairs_view ''labels'' (fm_labels metadata)
               @ pairs_view ''annotations'' (fm_annotations metadata)))]
           @ (if spec = [] then [] else [(''spec'', view_value (JObj spec))]))"

definition pairs_ok :: "(string \<times> string) list option \<Rightarrow> bool" where
  "pairs_ok ps \<longleftrightarrow> (case ps of None \<Rightarrow> True | Some r \<Rightarrow> list_all (\<lambda>(k, v). yaml_text k \<and> yaml_text v) r)"

definition form_ok :: "string \<Rightarrow> string \<Rightarrow> form_metadata \<Rightarrow> (string \<times> js) list \<Rightarrow> bool" where
  "form_ok apiVersion kind metadata spec \<longleftrightarrow>
     yaml_text apiVersion \<and> yaml_text kind \<and> yaml_text (fm_name metadata)
     \<and> (case fm_namespace metadata of None \<Rightarrow> True | Some ns \<Rightarrow> yaml_text ns)
     \<and> pairs_ok (fm_labels metadata) \<and> pairs_ok (fm_annotations metadata) \<and> yaml_ok (JObj spec)"

text \<open>The document as entries: each part of the text has the lines of its entries.\<close>

definition text_ent :: "string \<Rightarrow> string \<Rightarrow> string \<times> (string + (nat \<times> string) list) \<times> js" where
  "text_ent k v = (k, Inl (quoteString v), JStr v)"

definition pairs_ents :: "string \<Rightarrow> (string \<times> string) list option \<Rightarrow> (string \<times> (string + (nat \<times> string) list) \<times> js) list" where
  "pairs_ents title ps =
     (case ps of
        None \<Rightarrow> []
      | Some r \<Rightarrow>
          if r = [] then []
          else (let named = filter (\<lambda>(k, v). k \<noteq> []) r
                in [(title, Inr (concat (map (ent 2) (map (\<lambda>(k, v). text_ent k v) named))),
                     if named = [] then JNull else JObj (map (\<lambda>(k, v). (k, JStr v)) named))]))"

lemma key_names:
  "quoteString ''apiVersion'' = ''apiVersion''" "quoteString ''kind'' = ''kind''"
  "quoteString ''metadata'' = ''metadata''" "quoteString ''name'' = ''name''"
  "quoteString ''namespace'' = ''namespace''" "quoteString ''labels'' = ''labels''"
  "quoteString ''annotations'' = ''annotations''" "quoteString ''spec'' = ''spec''"
  by code_simp+

lemma key_names_ok:
  "yaml_text ''apiVersion''" "yaml_text ''kind''" "yaml_text ''metadata''" "yaml_text ''name''"
  "yaml_text ''namespace''" "yaml_text ''labels''" "yaml_text ''annotations''" "yaml_text ''spec''"
  by code_simp+

lemma text_ent_ok: "yaml_text k \<Longrightarrow> yaml_text v \<Longrightarrow> ent_ok i (text_ent k v)"
  by (simp add: ent_ok_def text_ent_def read_scalar_text)

lemma text_line:
  assumes "yaml_text k" "yaml_text v"
  shows "yaml_lines (pad i @ quoteString k @ '': '' @ quoteString v) = ent i (text_ent k v)"
proof -
  have "solid (quoteString k @ '': '' @ quoteString v)"
    using quote_no_nl [OF assms(2)] by (intro solid_quote [OF assms(1)]) simp
  then show ?thesis by (simp only: yaml_line ent_def text_ent_def prod.case sum.case)
qed

lemma ent_deeper: "(\<And>e. e \<in> set es \<Longrightarrow> ent_ok i e) \<Longrightarrow> p \<in> set (concat (map (ent i) es)) \<Longrightarrow> 2 * i \<le> fst p"
  using ent_head by (fastforce simp: block_at_def)

lemma read_ents_or_null:
  assumes "\<And>e. e \<in> set es \<Longrightarrow> ent_ok i e"
  shows "read_block (concat (map (ent i) es))
    = Some (if es = [] then JNull else JObj (map (\<lambda>(k, x, u). (k, u)) es))"
  using read_ents [of es i] assms by (cases "es = []") auto

lemma pairs_ents_ok:
  assumes "pairs_ok ps" "yaml_text title" "e \<in> set (pairs_ents title ps)"
  shows "ent_ok 1 e"
proof -
  from assms(3) obtain r where r: "ps = Some r" by (auto simp: pairs_ents_def split: option.splits)
  let ?es = "map (\<lambda>(k, v). text_ent k v) (filter (\<lambda>(k, v). k \<noteq> []) r)"
  have ok: "ent_ok 2 e'" if "e' \<in> set ?es" for e'
    using that assms(1) r by (auto simp: pairs_ok_def list_all_iff intro!: text_ent_ok)
  have "read_block (concat (map (ent 2) ?es)) = Some (if ?es = [] then JNull
      else JObj (map (\<lambda>(k, x, u). (k, u)) ?es))"
    by (rule read_ents_or_null) (rule ok)
  moreover have "map (\<lambda>(k, x, u). (k, u)) ?es = map (\<lambda>(k, v). (k, JStr v)) (filter (\<lambda>(k, v). k \<noteq> []) r)"
    by (simp add: text_ent_def comp_def case_prod_beta)
  moreover have "2 * 1 < fst p" if "p \<in> set (concat (map (ent 2) ?es))" for p
    using ent_deeper [OF ok that] by simp
  ultimately show ?thesis using assms(2,3) r
    by (auto simp: pairs_ents_def ent_ok_def Let_def split: if_splits)
qed

lemma pairs_lines:
  assumes "pairs_ok ps" "quoteString title = title" "yaml_text title"
  shows "concat (map yaml_lines (pair_lines title ps)) = concat (map (ent 1) (pairs_ents title ps))"
proof (cases "ps = None \<or> ps = Some []")
  case False
  then obtain r where r: "ps = Some r" "r \<noteq> []" by auto
  have "solid (title @ '':'')" using solid_quote [OF assms(3), of "'':''"] assms(2) by simp
  from yaml_line [OF this, of 1] have t: "yaml_lines (''  '' @ title @ '':'') = [(2, title @ '':'')]"
    by (simp add: pad_def numeral_2_eq_2)
  have "concat (map yaml_lines (concat (map (\<lambda>(k, v). if k = [] then []
        else [''    '' @ quoteString k @ '': '' @ quoteString v]) r')))
      = concat (map (ent 2) (map (\<lambda>(k, v). text_ent k v) (filter (\<lambda>(k, v). k \<noteq> []) r')))"
    if "list_all (\<lambda>(k, v). yaml_text k \<and> yaml_text v) r'" for r'
    using that
  proof (induction r')
    case (Cons kv r')
    obtain k v where kv: "kv = (k, v)" by (cases kv)
    have "pad 2 = ''    ''" by (simp add: pad_def numeral_eq_Suc)
    then have "yaml_lines (''    '' @ quoteString k @ '': '' @ quoteString v) = ent 2 (text_ent k v)"
      using text_line [of k v 2] Cons.prems by (simp add: kv)
    then show ?case using Cons by (simp add: kv)
  qed simp
  from this [of r] show ?thesis using r t assms(1,2)
    by (simp add: pair_lines_def pairs_ents_def pairs_ok_def ent_def Let_def)
qed (auto simp: pair_lines_def pairs_ents_def)

lemma pairs_ents_view: "map (\<lambda>(k, x, u). (k, u)) (pairs_ents title ps) = pairs_view title ps"
  by (auto simp: pairs_ents_def pairs_view_def Let_def split: option.splits)

definition metadata_ents :: "form_metadata \<Rightarrow> (string \<times> (string + (nat \<times> string) list) \<times> js) list" where
  "metadata_ents metadata =
     text_ent ''name'' (fm_name metadata)
     # (if has_text (fm_namespace metadata) then [text_ent ''namespace'' (the (fm_namespace metadata))] else [])
     @ pairs_ents ''labels'' (fm_labels metadata) @ pairs_ents ''annotations'' (fm_annotations metadata)"

definition form_ents :: "string \<Rightarrow> string \<Rightarrow> form_metadata \<Rightarrow> (string \<times> js) list \<Rightarrow>
    (string \<times> (string + (nat \<times> string) list) \<times> js) list" where
  "form_ents apiVersion kind metadata spec =
     [text_ent ''apiVersion'' apiVersion, text_ent ''kind'' kind,
      (''metadata'', Inr (concat (map (ent 1) (metadata_ents metadata))),
       JObj (map (\<lambda>(k, x, u). (k, u)) (metadata_ents metadata)))]
     @ (if spec = [] then [] else [(''spec'', Inr (block_lines 1 (JObj spec)), view_value (JObj spec))])"

lemma metadata_ents_ok:
  assumes ok: "form_ok apiVersion kind metadata spec" and e: "e \<in> set (metadata_ents metadata)"
  shows "ent_ok 1 e"
proof -
  consider "e = text_ent ''name'' (fm_name metadata)"
    | ns where "fm_namespace metadata = Some ns" "e = text_ent ''namespace'' ns"
    | "e \<in> set (pairs_ents ''labels'' (fm_labels metadata))"
    | "e \<in> set (pairs_ents ''annotations'' (fm_annotations metadata))"
    using e unfolding metadata_ents_def by (auto simp: has_text_iff split: if_splits)
  then show ?thesis
  proof cases
    case 1 then show ?thesis using ok key_names_ok(4) by (simp add: form_ok_def text_ent_ok)
  next
    case 2 then show ?thesis using ok key_names_ok(5) by (simp add: form_ok_def text_ent_ok)
  next
    case 3 then show ?thesis using ok key_names_ok(6) by (intro pairs_ents_ok) (auto simp: form_ok_def)
  next
    case 4 then show ?thesis using ok key_names_ok(7) by (intro pairs_ents_ok) (auto simp: form_ok_def)
  qed
qed

lemma form_ents_ok:
  assumes ok: "form_ok apiVersion kind metadata spec" and e: "e \<in> set (form_ents apiVersion kind metadata spec)"
  shows "ent_ok 0 e"
proof -
  have "read_block (concat (map (ent 1) (metadata_ents metadata)))
      = Some (JObj (map (\<lambda>(k, x, u). (k, u)) (metadata_ents metadata)))"
    by (rule read_ents) (use metadata_ents_ok [OF ok] in \<open>auto simp: metadata_ents_def\<close>)
  moreover have "2 * 0 < fst p" if "p \<in> set (concat (map (ent 1) (metadata_ents metadata)))" for p
    using ent_deeper [OF metadata_ents_ok [OF ok] that] by simp
  ultimately have md: "ent_ok 0 (''metadata'', Inr (concat (map (ent 1) (metadata_ents metadata))),
      JObj (map (\<lambda>(k, x, u). (k, u)) (metadata_ents metadata)))"
    using key_names_ok by (simp add: ent_ok_def)
  have "ent_ok 0 (''spec'', Inr (block_lines 1 (JObj spec)), view_value (JObj spec))" if "spec \<noteq> []"
    using that ok read_blocks [of "JObj spec" 1] deeper [of _ 0 "JObj spec"] key_names_ok
    by (auto simp: ent_ok_def form_ok_def inline_def simp del: block_lines.simps view_value.simps)
  then show ?thesis using e md ok key_names_ok
    by (auto simp: form_ents_def form_ok_def simp del: block_lines.simps view_value.simps
        intro!: text_ent_ok split: if_splits)
qed

lemma doc_lines:
  "yaml_lines (js_join [nl] ([a, b, c, d] @ x @ l @ n @ s) @ [nl]) =
     yaml_lines a @ yaml_lines b @ (yaml_lines c @ yaml_lines d @ concat (map yaml_lines x)
       @ concat (map yaml_lines l) @ concat (map yaml_lines n)) @ concat (map yaml_lines s)"
  using yaml_lines_append [of "js_join [nl] ([a, b, c, d] @ x @ l @ n @ s)" "[]"]
  by (simp add: yaml_lines_join del: js_join.simps)

lemma form_lines:
  assumes ok: "form_ok apiVersion kind metadata spec"
  shows "yaml_lines (formStateToYaml apiVersion kind metadata spec)
    = concat (map (ent 0) (form_ents apiVersion kind metadata spec))"
proof -
  have p: "pad 0 = []" "pad (Suc 0) = ''  ''" by (simp_all add: pad_def numeral_2_eq_2)
  have av: "yaml_lines (''apiVersion: '' @ quoteString apiVersion) = ent 0 (text_ent ''apiVersion'' apiVersion)"
    and ki: "yaml_lines (''kind: '' @ quoteString kind) = ent 0 (text_ent ''kind'' kind)"
    and na: "yaml_lines (''  name: '' @ quoteString (fm_name metadata)) = ent 1 (text_ent ''name'' (fm_name metadata))"
    and ns: "\<And>ns. yaml_text ns \<Longrightarrow>
      yaml_lines (''  namespace: '' @ quoteString ns) = ent 1 (text_ent ''namespace'' ns)"
    using text_line [OF key_names_ok(1), of apiVersion 0] text_line [OF key_names_ok(2), of kind 0]
      text_line [OF key_names_ok(4), of "fm_name metadata" 1] text_line [OF key_names_ok(5), of _ 1] ok
    by (simp_all add: p key_names form_ok_def)
  have heads: "yaml_lines ''metadata:'' = [(0, ''metadata:'')]" "yaml_lines ''spec:'' = [(0, ''spec:'')]"
    by code_simp+
  have md: "[(0, ''metadata:'')] @ ent 1 (text_ent ''name'' (fm_name metadata))
      @ concat (map yaml_lines (if has_text (fm_namespace metadata)
          then [''  namespace: '' @ quoteString (the (fm_namespace metadata))] else []))
      @ concat (map yaml_lines (pair_lines ''labels'' (fm_labels metadata)))
      @ concat (map yaml_lines (pair_lines ''annotations'' (fm_annotations metadata)))
    = ent 0 (''metadata'', Inr (concat (map (ent 1) (metadata_ents metadata))), u)" for u
    using ok ns pairs_lines key_names key_names_ok
    by (auto simp: metadata_ents_def ent_def [of 0] form_ok_def has_text_iff)
  have sp: "concat (map yaml_lines (serializeObject spec 1)) = block_lines 1 (JObj spec)"
    using layout [of "JObj spec" 1] ok by (simp add: form_ok_def del: block_lines.simps)
  have sp2: "concat (map yaml_lines (if isEmptyValue (JObj spec) then [] else ''spec:'' # serializeObject spec 1))
      = (if spec = [] then [] else (0, ''spec:'') # block_lines 1 (JObj spec))"
    by (simp only: isEmptyValue_def list.map concat.simps heads sp insert_iff empty_iff js.distinct js.inject if_distrib
        append.simps split: if_splits) simp
  have "yaml_lines (formStateToYaml apiVersion kind metadata spec) =
      ent 0 (text_ent ''apiVersion'' apiVersion) @ ent 0 (text_ent ''kind'' kind)
      @ ([(0, ''metadata:'')] @ ent 1 (text_ent ''name'' (fm_name metadata))
        @ concat (map yaml_lines (if has_text (fm_namespace metadata)
            then [''  namespace: '' @ quoteString (the (fm_namespace metadata))] else []))
        @ concat (map yaml_lines (pair_lines ''labels'' (fm_labels metadata)))
        @ concat (map yaml_lines (pair_lines ''annotations'' (fm_annotations metadata))))
      @ (if spec = [] then [] else (0, ''spec:'') # block_lines 1 (JObj spec))"
    unfolding formStateToYaml_def doc_lines av ki na heads(1) sp2 ..
  also have "\<dots> = concat (map (ent 0) (form_ents apiVersion kind metadata spec))"
    unfolding md [of "JObj (map (\<lambda>(k, x, u). (k, u)) (metadata_ents metadata))"]
    by (simp add: form_ents_def ent_def [of 0 "(''spec'', _)"] key_names del: block_lines.simps)
  finally show ?thesis .
qed

lemma read_form:
  assumes "form_ok apiVersion kind metadata spec"
  shows "read_yaml (formStateToYaml apiVersion kind metadata spec) = Some (form_view apiVersion kind metadata spec)"
proof -
  let ?es = "form_ents apiVersion kind metadata spec"
  have "read_block (concat (map (ent 0) ?es)) = Some (JObj (map (\<lambda>(k, x, u). (k, u)) ?es))"
    by (rule read_ents) (use form_ents_ok [OF assms] in \<open>auto simp: form_ents_def\<close>)
  moreover have "JObj (map (\<lambda>(k, x, u). (k, u)) ?es) = form_view apiVersion kind metadata spec"
    by (simp add: form_ents_def form_view_def metadata_ents_def text_ent_def pairs_ents_view
        del: view_value.simps)
  ultimately show ?thesis unfolding read_yaml_def form_lines [OF assms] by simp
qed


definition demo_metadata :: form_metadata where
  "demo_metadata = \<lparr>fm_name = ''web'', fm_namespace = Some ''prod'',
     fm_labels = Some [(''app.kubernetes.io/name'', ''web''), ([], ''x'')], fm_annotations = None\<rparr>"

definition demo_spec :: "(string \<times> js) list" where
  "demo_spec =
     [(''replicas'', JNum 3), (''note'', JStr []), (''host'', JStr ''a:b''), (''on'', JStr ''no''),
      (''list'', JArr [JObj [(''name'', JStr ''web''), (''ports'', JArr [JNum 80, JArr [JStr ''x'']])], JObj []]),
      (''empty'', JObj [(''k'', JNull)])]"


text \<open>
  Why the strings are restricted: a number-like string comes out as a number, a tilde as an
  unquoted null of the schema, and a line break is written raw between the quotes.
\<close>

lemma number_string_unquoted:
  "quoteString ''8080'' = ''8080''" "quoteString ''~'' = ''~''"
  "quoteString [CHR ''a'', nl, CHR ''b''] = [dq, CHR ''a'', nl, CHR ''b'', dq]"
  by code_simp+

lemma digit_not_quoted: "is_digit c \<or> c = CHR ''-'' \<Longrightarrow> char_code c \<notin> set quote_chars \<and> lower_char c = c"
  by (auto simp: is_digit_def quote_chars_def lower_char_def Let_def)

text \<open>The string of a number and the number are the same text.\<close>

lemma number_string_ambiguous: "serializeValue (JStr (string_of_int n)) i = serializeValue (JNum n) i"
proof -
  have d: "char_code c \<notin> set quote_chars \<and> lower_char c = c" if "c \<in> set (string_of_int n)" for c
    using digit_not_quoted int_chars [OF that] by blast
  then have "to_lower (string_of_int n) = string_of_int n" by (simp add: to_lower_def map_idI)
  moreover have "string_of_int n \<notin> set quote_words"
  proof
    assume "string_of_int n \<in> set quote_words"
    then have "hd (string_of_int n) \<in> set ''tfnyo''" by (auto simp: quote_words_def)
    moreover have "hd (string_of_int n) = CHR ''-'' \<or> is_digit (hd (string_of_int n))"
      by (rule int_chars [OF hd_in_set]) simp
    ultimately show False by (auto simp: is_digit_def char_code_def)
  qed
  ultimately have "\<not> needs_quote (string_of_int n)" using d by (auto simp: needs_quote_def list_ex_iff)
  then show ?thesis by (simp add: quoteString_def)
qed

end
