(* ===== verification/Deep_Set.thy ===== *)
theory Deep_Set
  imports Interfaces
begin

text \<open>
\<open>safeDeepSet\<close> of \<open>lib/schema-to-yaml.ts\<close>: setting a value at a dotted path of a form's object.
  The code copies the top level only and walks through references from there, so the model has
  an explicit store. The properties: the members that \<open>Object.prototype\<close> could be reached
  through are never written, and along a path of plain segments the result reads back the value
  while everything off the path stays. The examples at the end show what is shared with the
  object passed in.
\<close>

section \<open>The store\<close>

text \<open>
  A value is a primitive or a reference; an object or array is its own enumerable members in order.
  A member that is not there reads as \<open>undefined\<close>: what \<open>Object.prototype\<close> and
  \<open>Array.prototype\<close> hold besides \<open>__proto__\<close> and \<open>constructor\<close>, which the code refuses, are
  functions, and those the code treats like a missing member.
\<close>

datatype val = VUndef | VNull | VBool bool | VNum int | VStr string | VRef nat

record hobj =
  is_array :: bool
  members :: "(string \<times> val) list"

record store =
  heap :: "nat \<Rightarrow> hobj option"
  next_addr :: nat

definition member :: "store \<Rightarrow> nat \<Rightarrow> string \<Rightarrow> val option" where
  "member s a k = (case heap s a of None \<Rightarrow> None | Some ob \<Rightarrow> rec_get (members ob) k)"

definition alloc :: "hobj \<Rightarrow> store \<Rightarrow> store \<times> nat" where
  "alloc ob s = (s\<lparr>heap := (heap s)(next_addr s \<mapsto> ob), next_addr := next_addr s + 1\<rparr>, next_addr s)"

definition put :: "nat \<Rightarrow> string \<Rightarrow> val \<Rightarrow> store \<Rightarrow> store" where
  "put a k v s =
     (case heap s a of None \<Rightarrow> s
      | Some ob \<Rightarrow> s\<lparr>heap := (heap s)(a \<mapsto> ob\<lparr>members := rec_set (members ob) k v\<rparr>)\<rparr>)"

definition remove :: "nat \<Rightarrow> string \<Rightarrow> store \<Rightarrow> store" where
  "remove a k s =
     (case heap s a of None \<Rightarrow> s
      | Some ob \<Rightarrow> s\<lparr>heap := (heap s)(a \<mapsto> ob\<lparr>members := rec_del (members ob) k\<rparr>)\<rparr>)"

section \<open>The code\<close>

definition dangerous :: "string \<Rightarrow> bool" where
  "dangerous k \<longleftrightarrow> k \<in> {''__proto__'', ''constructor'', ''prototype''}"

text \<open>\<open>/^\d+$/\<close>.\<close>

definition all_digits :: "string \<Rightarrow> bool" where
  "all_digits s \<longleftrightarrow> s \<noteq> [] \<and> list_all (\<lambda>c. 48 \<le> char_code c \<and> char_code c \<le> 57) s"

text \<open>
  An array's \<open>length\<close> is a member like no other: it is a number, so a path through it replaces it
  with an object, which throws, and assigning it truncates the array. \<open>None\<close> stands for both.
\<close>

definition array_length :: "store \<Rightarrow> nat \<Rightarrow> string \<Rightarrow> bool" where
  "array_length s a k \<longleftrightarrow>
     k = ''length'' \<and> (case heap s a of None \<Rightarrow> False | Some ob \<Rightarrow> is_array ob)"

definition set_last :: "nat \<Rightarrow> string \<Rightarrow> val \<Rightarrow> store \<Rightarrow> store option" where
  "set_last a k v s =
     (if dangerous k then Some s
      else if array_length s a k then None
      else Some (if v = VUndef then remove a k s else put a k v s))"

fun descend :: "nat \<Rightarrow> string list \<Rightarrow> val \<Rightarrow> store \<Rightarrow> store option" where
  "descend a [] v s = Some s"
| "descend a [k] v s = set_last a k v s"
| "descend a (k # k' # ks) v s =
     (if dangerous k then Some s
      else if array_length s a k then None
      else (case member s a k of
              Some (VRef b) \<Rightarrow> descend b (k' # ks) v s
            | _ \<Rightarrow>
                (let (s1, b) = alloc \<lparr>is_array = all_digits k', members = []\<rparr> s
                 in descend b (k' # ks) v (put a k (VRef b) s1))))"

text \<open>
  \<open>safeDeepSet\<close>: the copy of the top level, then the walk. The code handles a path of one segment
  in a branch of its own. The result is the store and the address of the copy.
\<close>

definition safeDeepSet :: "nat \<Rightarrow> string \<Rightarrow> val \<Rightarrow> store \<Rightarrow> (store \<times> nat) option" where
  "safeDeepSet obj path v s =
     (let parts = js_split CHR ''.'' path;
          (s1, result) = alloc \<lparr>is_array = False,
            members = (case heap s obj of None \<Rightarrow> [] | Some ob \<Rightarrow> members ob)\<rparr> s
      in (case parts of
            [] \<Rightarrow> Some (s1, result)
          | [key] \<Rightarrow> Some (if dangerous key then s1
                          else if v = VUndef then remove result key s1
                          else put result key v s1, result)
          | _ \<Rightarrow> map_option (\<lambda>s2. (s2, result)) (descend result parts v s1)))"

section \<open>Laws of the store\<close>

definition store_wf :: "store \<Rightarrow> bool" where
  "store_wf s \<longleftrightarrow>
     (\<forall>a. heap s a \<noteq> None \<longrightarrow> a < next_addr s)
     \<and> (\<forall>a k b. member s a k = Some (VRef b) \<longrightarrow> heap s b \<noteq> None)"

lemma member_put: "heap s a \<noteq> None \<Longrightarrow> member (put a k v s) a' k' = (if a' = a \<and> k' = k then Some v else member s a' k')"
  by (auto simp: put_def member_def)

lemma member_remove: "member (remove a k s) a' k' = (if a' = a \<and> k' = k then None else member s a' k')"
  by (auto simp: remove_def member_def split: option.splits)

lemma heap_put: "heap (put a k v s) a' = None \<longleftrightarrow> heap s a' = None" "next_addr (put a k v s) = next_addr s"
  by (auto simp: put_def split: option.splits)

lemma heap_remove: "heap (remove a k s) a' = None \<longleftrightarrow> heap s a' = None" "next_addr (remove a k s) = next_addr s"
  by (auto simp: remove_def split: option.splits)

lemma heap_put_other: "a' \<noteq> a \<Longrightarrow> heap (put a k v s) a' = heap s a'"
  by (auto simp: put_def split: option.splits)

lemma heap_remove_other: "a' \<noteq> a \<Longrightarrow> heap (remove a k s) a' = heap s a'"
  by (auto simp: remove_def split: option.splits)

lemma array_put: "array_length (put a k v s) a' k' = array_length s a' k'"
  by (auto simp: array_length_def put_def split: option.splits)

text \<open>One step into a missing member: the fresh object, linked.\<close>

definition grow :: "nat \<Rightarrow> string \<Rightarrow> hobj \<Rightarrow> store \<Rightarrow> store" where
  "grow a k ob s = put a k (VRef (next_addr s)) (fst (alloc ob s))"

lemma descend_step:
  "descend a (k # k' # ks) v s =
     (if dangerous k then Some s
      else if array_length s a k then None
      else case member s a k of
             Some (VRef b) \<Rightarrow> descend b (k' # ks) v s
           | _ \<Rightarrow> descend (next_addr s) (k' # ks) v (grow a k \<lparr>is_array = all_digits k', members = []\<rparr> s))"
  by (auto simp: alloc_def grow_def split: option.splits val.splits)

declare descend.simps(3) [simp del]

lemma grow_facts:
  assumes wf: "store_wf s" and a: "heap s a \<noteq> None" and ob: "members ob = []"
  shows "member (grow a k ob s) a' k' =
      (if a' = a \<and> k' = k then Some (VRef (next_addr s)) else member s a' k')"
    and "heap (grow a k ob s) a' = None \<longleftrightarrow> heap s a' = None \<and> a' \<noteq> next_addr s"
    and "next_addr (grow a k ob s) = next_addr s + 1"
    and "a' \<noteq> a \<Longrightarrow> a' \<noteq> next_addr s \<Longrightarrow> heap (grow a k ob s) a' = heap s a'"
    and "store_wf (grow a k ob s)"
proof -
  have fresh: "heap s (next_addr s) = None" using wf by (auto simp: store_wf_def)
  then have an: "a \<noteq> next_addr s" using a by auto
  show m: "member (grow a k ob s) a' k' =
      (if a' = a \<and> k' = k then Some (VRef (next_addr s)) else member s a' k')" for a' k'
    using a an fresh ob by (auto simp: grow_def put_def alloc_def member_def)
  show h: "heap (grow a k ob s) a' = None \<longleftrightarrow> heap s a' = None \<and> a' \<noteq> next_addr s" for a'
    by (auto simp: grow_def heap_put alloc_def)
  show n: "next_addr (grow a k ob s) = next_addr s + 1" by (simp add: grow_def heap_put alloc_def)
  show "a' \<noteq> a \<Longrightarrow> a' \<noteq> next_addr s \<Longrightarrow> heap (grow a k ob s) a' = heap s a'"
    by (simp add: grow_def heap_put_other alloc_def)
  show "store_wf (grow a k ob s)"
    using wf unfolding store_wf_def m h n by (auto split: if_splits)
qed


section \<open>No prototype pollution\<close>

lemma set_last_dangerous:
  "heap s a \<noteq> None \<Longrightarrow> set_last a k v s = Some s' \<Longrightarrow> dangerous d \<Longrightarrow> member s' b d = member s b d"
  by (auto simp: set_last_def member_put member_remove split: if_splits)

text \<open>The walk by one step: refused, thrown, into an existing object, into a fresh one.\<close>

lemma descend_follow:
  "\<not> dangerous k \<Longrightarrow> \<not> array_length s a k \<Longrightarrow> member s a k = Some (VRef c) \<Longrightarrow>
   descend a (k # k' # ks) v s = descend c (k' # ks) v s"
  by (simp add: descend_step)

lemma descend_grow:
  "\<not> dangerous k \<Longrightarrow> \<not> array_length s a k \<Longrightarrow> \<forall>c. member s a k \<noteq> Some (VRef c) \<Longrightarrow>
   descend a (k # k' # ks) v s =
     descend (next_addr s) (k' # ks) v (grow a k \<lparr>is_array = all_digits k', members = []\<rparr> s)"
  by (auto simp: descend_step split: option.splits val.splits)

lemma descend_refuse: "dangerous k \<Longrightarrow> descend a (k # k' # ks) v s = Some s"
  by (simp add: descend_step)

lemma descend_throw: "\<not> dangerous k \<Longrightarrow> array_length s a k \<Longrightarrow> descend a (k # k' # ks) v s = None"
  by (simp add: descend_step)

lemma wf_target: "store_wf s \<Longrightarrow> member s a k = Some (VRef c) \<Longrightarrow> heap s c \<noteq> None"
  unfolding store_wf_def by blast

lemma wf_fresh: "store_wf s \<Longrightarrow> heap s (next_addr s) = None"
  unfolding store_wf_def by blast

lemma wf_no_alias: "store_wf s \<Longrightarrow> member s a k \<noteq> Some (VRef (next_addr s))"
  using wf_fresh wf_target by blast

lemma descend_dangerous:
  assumes "store_wf s" "heap s a \<noteq> None" "descend a ks v s = Some s'" and d: "dangerous d"
  shows "member s' b d = member s b d"
  using assms(1-3)
proof (induction ks arbitrary: a s rule: induct_list012)
  case 1
  then show ?case by simp
next
  case (2 k)
  then show ?case using set_last_dangerous [OF _ _ d] by simp
next
  case (3 k k' ks)
  consider (refuse) "dangerous k" | (throw) "\<not> dangerous k" "array_length s a k"
    | (follow) c where "\<not> dangerous k" "\<not> array_length s a k" "member s a k = Some (VRef c)"
    | (grow) "\<not> dangerous k" "\<not> array_length s a k" "\<forall>c. member s a k \<noteq> Some (VRef c)"
    by blast
  then show ?case
  proof cases
    case refuse
    then show ?thesis using 3(5) by (simp add: descend_refuse)
  next
    case throw
    then show ?thesis using 3(5) by (simp add: descend_throw)
  next
    case follow
    show ?thesis
      by (rule 3(2) [OF 3(3) wf_target [OF 3(3) follow(3)]]) (use 3(5) descend_follow [OF follow] in simp)
  next
    case grow
    let ?s = "grow a k \<lparr>is_array = all_digits k', members = []\<rparr> s"
    note g = grow_facts [OF 3(3,4), where ob = "\<lparr>is_array = all_digits k', members = []\<rparr>" and k = k, simplified]
    have "member s' b d = member ?s b d"
      by (rule 3(2) [OF g(5)]) (use g(2) 3(5) descend_grow [OF grow] in simp_all)
    moreover have "d \<noteq> k" using d grow(1) by blast
    ultimately show ?thesis using g(1) [of b d] by simp
  qed
qed

text \<open>The copy of the top level.\<close>

definition copied :: "nat \<Rightarrow> store \<Rightarrow> store" where
  "copied obj s = fst (alloc \<lparr>is_array = False,
     members = (case heap s obj of None \<Rightarrow> [] | Some ob \<Rightarrow> members ob)\<rparr> s)"

lemma not_array_length: "heap s a = Some \<lparr>is_array = False, members = m\<rparr> \<Longrightarrow> \<not> array_length s a k"
  by (simp add: array_length_def)

lemma safeDeepSet_descend:
  "safeDeepSet obj path v s =
     map_option (\<lambda>s2. (s2, next_addr s)) (descend (next_addr s) (js_split CHR ''.'' path) v (copied obj s))"
  by (auto simp: safeDeepSet_def copied_def alloc_def set_last_def array_length_def Let_def
      split: list.splits)

lemma copied_facts:
  assumes wf: "store_wf s" and o: "heap s obj \<noteq> None"
  shows "member (copied obj s) a k = (if a = next_addr s then member s obj k else member s a k)"
    and "heap (copied obj s) a = None \<longleftrightarrow> heap s a = None \<and> a \<noteq> next_addr s"
    and "next_addr (copied obj s) = next_addr s + 1"
    and "a \<noteq> next_addr s \<Longrightarrow> heap (copied obj s) a = heap s a"
    and "store_wf (copied obj s)"
proof -
  show m: "member (copied obj s) a k = (if a = next_addr s then member s obj k else member s a k)" for a k
    using o by (auto simp: copied_def alloc_def member_def)
  show h: "heap (copied obj s) a = None \<longleftrightarrow> heap s a = None \<and> a \<noteq> next_addr s" for a
    by (auto simp: copied_def alloc_def)
  show n: "next_addr (copied obj s) = next_addr s + 1" by (simp add: copied_def alloc_def)
  show "a \<noteq> next_addr s \<Longrightarrow> heap (copied obj s) a = heap s a" by (simp add: copied_def alloc_def)
  show "store_wf (copied obj s)"
    using wf wf_fresh [OF wf] unfolding store_wf_def m h n by (auto split: if_splits)
qed

text \<open>C11: No prototype pollution: whatever the path and the value, \<open>safeDeepSet\<close> changes no member
  named \<open>__proto__\<close>, \<open>constructor\<close> or \<open>prototype\<close> of any object, the objects it creates have none,
  and in the result these members are those of the object passed in; the result is a fresh object.\<close>

theorem deep_set_no_pollution:
  assumes "store_wf s" "heap s obj \<noteq> None" "safeDeepSet obj path v s = Some (s', r)" "dangerous d"
  shows "heap s r = None \<and> member s' r d = member s obj d \<and> (\<forall>a. a \<noteq> r \<longrightarrow> member s' a d = member s a d)"
proof -
  note c = copied_facts [OF assms(1,2)]
  have r: "r = next_addr s" and d: "descend r (js_split CHR ''.'' path) v (copied obj s) = Some s'"
    using assms(3) by (auto simp: safeDeepSet_descend)
  have "member s' a d = member (copied obj s) a d" for a
    by (rule descend_dangerous [OF c(5) _ d assms(4)]) (simp add: r c(2))
  then show ?thesis using c(1) [of _ d] r wf_fresh [OF assms(1)] by simp
qed

section \<open>The value is where the path says\<close>

text \<open>Reading along a path, and the objects the walk passes.\<close>

fun get_path :: "store \<Rightarrow> nat \<Rightarrow> string list \<Rightarrow> val" where
  "get_path s a [] = VRef a"
| "get_path s a [k] = (case member s a k of None \<Rightarrow> VUndef | Some v \<Rightarrow> v)"
| "get_path s a (k # k' # ks) =
     (case member s a k of Some (VRef b) \<Rightarrow> get_path s b (k' # ks) | _ \<Rightarrow> VUndef)"

fun trail :: "store \<Rightarrow> nat \<Rightarrow> string list \<Rightarrow> nat list" where
  "trail s a [] = [a]"
| "trail s a [k] = [a]"
| "trail s a (k # k' # ks) =
     a # (case member s a k of Some (VRef b) \<Rightarrow> trail s b (k' # ks) | _ \<Rightarrow> [])"


lemma trail_head: "\<exists>t. trail s a ks = a # t"
  by (cases "(s, a, ks)" rule: trail.cases) auto

lemma trail_stop:
  assumes "\<forall>c. member s a k \<noteq> Some (VRef c)"
  shows "trail s a (k # k' # ks) = [a]"
proof (cases "member s a k")
  case (Some w)
  then show ?thesis using assms by (cases w) auto
qed simp

lemma trail_cong:
  assumes "store_wf s" "\<And>a k. heap s a \<noteq> None \<Longrightarrow> member s' a k = member s a k"
  shows "heap s b \<noteq> None \<Longrightarrow> trail s' b ks = trail s b ks"
proof (induction ks arbitrary: b rule: induct_list012)
  case (3 k k' ks)
  have m: "member s' b k = member s b k" by (rule assms(2) [OF 3(3)])
  show ?case
    using 3(2) [OF wf_target [OF assms(1), of b k]] by (auto simp: m split: option.splits val.splits)
qed auto

lemma trail_old:
  assumes "store_wf s"
  shows "heap s b \<noteq> None \<Longrightarrow> x \<in> set (trail s b ks) \<Longrightarrow> heap s x \<noteq> None"
proof (induction ks arbitrary: b rule: induct_list012)
  case (3 k k' ks)
  show ?case
  proof (cases "\<exists>c. member s b k = Some (VRef c)")
    case True
    then obtain c where c: "member s b k = Some (VRef c)" by blast
    then have "x = b \<or> x \<in> set (trail s c (k' # ks))" using 3(4) by simp
    then show ?thesis using 3(2) [OF wf_target [OF assms c]] 3(3) by blast
  next
    case False
    then have st: "\<forall>c. member s b k \<noteq> Some (VRef c)" by blast
    have "x = b" using 3(4) unfolding trail_stop [OF st] by simp
    then show ?thesis using 3(3) by simp
  qed
qed auto

lemma trail_fresh: "\<forall>k. member s a k = None \<Longrightarrow> trail s a ks = [a]"
  by (cases "(s, a, ks)" rule: trail.cases) auto

lemma member_heap: "heap s' a = heap s a \<Longrightarrow> member s' a k = member s a k"
  by (simp add: member_def)

text \<open>A segment the walk accepts: not refused, and not an array's \<open>length\<close>.\<close>

definition plain_segment :: "string \<Rightarrow> bool" where
  "plain_segment k \<longleftrightarrow> \<not> dangerous k \<and> k \<noteq> ''length''"

lemma plain_step: "plain_segment k \<Longrightarrow> \<not> dangerous k \<and> \<not> array_length s a k"
  by (simp add: plain_segment_def array_length_def)

text \<open>What the walk along \<open>ks\<close> from \<open>a\<close> has done when it ends.\<close>

definition stored :: "store \<Rightarrow> nat \<Rightarrow> string list \<Rightarrow> val \<Rightarrow> store \<Rightarrow> bool" where
  "stored s a ks v s' \<longleftrightarrow>
     get_path s' a ks = v
     \<and> (\<forall>b. heap s b \<noteq> None \<longrightarrow> b \<notin> set (trail s a ks) \<longrightarrow> heap s' b = heap s b)
     \<and> (\<forall>k. k \<noteq> hd ks \<longrightarrow> member s' a k = member s a k)"

lemma set_last_stored:
  assumes "heap s a \<noteq> None" "plain_segment k"
  shows "\<exists>s'. set_last a k v s = Some s' \<and> stored s a [k] v s'"
proof -
  have e: "set_last a k v s = Some (if v = VUndef then remove a k s else put a k v s)"
    using plain_step [OF assms(2)] by (simp add: set_last_def)
  show ?thesis unfolding e
    by (simp add: stored_def member_put [OF assms(1)] member_remove heap_put_other heap_remove_other)
qed

lemma descend_stored:
  assumes "store_wf s" "heap s a \<noteq> None" "distinct (trail s a ks)" "list_all plain_segment ks" "ks \<noteq> []"
  shows "\<exists>s'. descend a ks v s = Some s' \<and> stored s a ks v s'"
  using assms
proof (induction ks arbitrary: a s rule: induct_list012)
  case (2 k)
  then show ?case using set_last_stored [of s a k v] by simp
next
  case (3 k k' ks)
  note wf = 3(3) and a = 3(4)
  have p: "\<not> dangerous k" "\<not> array_length s a k" using 3(6) plain_step by simp_all
  show ?case
  proof (cases "\<exists>c. member s a k = Some (VRef c)")
    case True
    then obtain c where c: "member s a k = Some (VRef c)" by blast
    have t: "trail s a (k # k' # ks) = a # trail s c (k' # ks)" using c by simp
    obtain s' where d: "descend c (k' # ks) v s = Some s'" and r: "stored s c (k' # ks) v s'"
      using 3(2) [OF wf wf_target [OF wf c]] 3(5,6) t by auto
    have "a \<notin> set (trail s c (k' # ks))" using 3(5) unfolding t by simp
    then have "heap s' a = heap s a" using r a unfolding stored_def by blast
    then have ma: "member s' a x = member s a x" for x by (rule member_heap)
    have "stored s a (k # k' # ks) v s'" using r unfolding stored_def t by (simp add: ma c)
    then show ?thesis using d descend_follow [OF p c] by metis
  next
    case False
    let ?ob = "\<lparr>is_array = all_digits k', members = []\<rparr>"
    let ?s = "grow a k ?ob s" and ?n = "next_addr s"
    note g = grow_facts [OF wf a, where ob = ?ob and k = k, simplified]
    have nn: "a \<noteq> ?n" using a wf_fresh [OF wf] by auto
    have "member s ?n x = None" for x using wf_fresh [OF wf] by (simp add: member_def)
    then have tn: "trail ?s ?n (k' # ks) = [?n]" by (intro trail_fresh) (use nn g(1) in auto)
    obtain s' where d: "descend ?n (k' # ks) v ?s = Some s'" and r: "stored ?s ?n (k' # ks) v s'"
      using 3(2) [OF g(5), of ?n] g(2) [of ?n] 3(6) tn by auto
    have "heap s' a = heap ?s a" using r nn g(2) [of a] a unfolding stored_def tn by simp
    then have ma: "member s' a x = member ?s a x" for x by (rule member_heap)
    have t: "trail s a (k # k' # ks) = [a]" by (rule trail_stop) (use False in blast)
    have "heap s' b = heap s b" if "heap s b \<noteq> None" "b \<noteq> a" for b
      using r that g(2) [of b] g(4) [of b] wf_fresh [OF wf] unfolding stored_def tn by (cases "b = ?n") auto
    then have "stored s a (k # k' # ks) v s'"
      using r unfolding stored_def t by (simp add: ma g(1))
    then show ?thesis using d descend_grow [OF p] False by metis
  qed
qed simp


text \<open>C10: \<open>safeDeepSet\<close> does what it says: along a path of plain segments that passes no object
  twice it returns a fresh object from which the path reads the value (nothing, for
  \<open>undefined\<close>), every other member of the top level is the one of the object passed in, and
  that object itself and every object off the path are as they were.\<close>

theorem deep_set_get:
  assumes wf: "store_wf s" and o: "heap s obj \<noteq> None"
    and tree: "distinct (trail s obj (js_split CHR ''.'' path))"
    and plain: "list_all plain_segment (js_split CHR ''.'' path)"
  shows "\<exists>s' r. safeDeepSet obj path v s = Some (s', r) \<and> heap s r = None
    \<and> get_path s' r (js_split CHR ''.'' path) = v
    \<and> (\<forall>k. k \<noteq> hd (js_split CHR ''.'' path) \<longrightarrow> member s' r k = member s obj k)
    \<and> heap s' obj = heap s obj
    \<and> (\<forall>b. heap s b \<noteq> None \<longrightarrow> b \<notin> set (trail s obj (js_split CHR ''.'' path)) \<longrightarrow> heap s' b = heap s b)"
proof -
  let ?ks = "js_split CHR ''.'' path" and ?n = "next_addr s" and ?s = "copied obj s"
  note c = copied_facts [OF wf o]
  have n: "heap s ?n = None" by (rule wf_fresh [OF wf])
  have on: "obj \<noteq> ?n" using o n by metis
  have same: "member ?s a k = member s a k" if "heap s a \<noteq> None" for a k using c(1) [of a k] that n by auto
  obtain t where t: "trail s obj ?ks = obj # t" "trail ?s ?n ?ks = ?n # t"
    and old: "\<forall>x\<in>set t. heap s x \<noteq> None"
  proof (cases "\<exists>k k' ks b. ?ks = k # k' # ks \<and> member s obj k = Some (VRef b)")
    case True
    then obtain k k' ks b where ks: "?ks = k # k' # ks" and b: "member s obj k = Some (VRef b)" by blast
    have hb: "heap s b \<noteq> None" by (rule wf_target [OF wf b])
    have "trail ?s b (k' # ks) = trail s b (k' # ks)" by (rule trail_cong [OF wf same hb])
    then show ?thesis using that [of "trail s b (k' # ks)"] trail_old [OF wf hb] b c(1) [of ?n k]
      unfolding ks by simp
  next
    case False
    then have "trail s' a ?ks = [a]" if "\<forall>k. member s' a k = member s obj k" for s' a
      using that trail_stop [of s' a] by (cases "(s', a, ?ks)" rule: trail.cases) auto
    then show ?thesis using that [of "[]"] c(1) [of ?n] by simp
  qed
  have "distinct (trail ?s ?n ?ks)" using tree old n unfolding t by auto
  then obtain s' where d: "descend ?n ?ks v ?s = Some s'" and r: "stored ?s ?n ?ks v s'"
    using descend_stored [OF c(5) _ _ plain js_split_ne, of ?n v] c(2) [of ?n] by blast
  have off: "heap s' b = heap s b" if "heap s b \<noteq> None" "b \<notin> set t" for b
  proof -
    have "b \<noteq> ?n" using that(1) n by auto
    then show ?thesis using r that c(2) [of b] c(4) [of b] unfolding stored_def t(2) by auto
  qed
  have "heap s' obj = heap s obj" by (rule off [OF o]) (use tree t(1) in simp)
  moreover have "member s' ?n k = member s obj k" if "k \<noteq> hd ?ks" for k
    using r that c(1) [of ?n k] unfolding stored_def by simp
  ultimately show ?thesis
    using d r n off unfolding stored_def t(1) by (auto simp: safeDeepSet_descend)
qed


section \<open>Examples\<close>

text \<open>A form with one nested object: \<open>{ spec: { replicas: 3 } }\<close>.\<close>

definition form_store :: store where
  "form_store =
     \<lparr>heap = [0 \<mapsto> \<lparr>is_array = False, members = [(''spec'', VRef 1)]\<rparr>,
              1 \<mapsto> \<lparr>is_array = False, members = [(''replicas'', VNum 3)]\<rparr>],
      next_addr = 2\<rparr>"

lemma form_store_wf: "store_wf form_store"
  by (auto simp: form_store_def store_wf_def member_def split: if_splits)

lemma form_store_heap: "heap form_store 0 \<noteq> None"
  by (simp add: form_store_def)

theorem deep_set_get_witness:
  "\<exists>s' r. safeDeepSet 0 ''spec.replicas'' (VNum 5) form_store = Some (s', r)
     \<and> get_path s' r [''spec'', ''replicas''] = VNum 5"
proof -
  have p: "js_split CHR ''.'' ''spec.replicas'' = [''spec'', ''replicas'']" by code_simp
  have "distinct (trail form_store 0 [''spec'', ''replicas''])"
    by (simp add: form_store_def member_def)
  moreover have "list_all plain_segment [''spec'', ''replicas'']"
    by (simp add: plain_segment_def dangerous_def)
  ultimately show ?thesis
    using deep_set_get [OF form_store_wf form_store_heap, of "''spec.replicas''" "VNum 5", unfolded p] by blast
qed

theorem deep_set_no_pollution_witness:
  "\<exists>s' r. safeDeepSet 0 ''a.__proto__.admin'' (VBool True) form_store = Some (s', r)
     \<and> (\<forall>a. member s' a ''__proto__'' = None)"
proof -
  have p: "js_split CHR ''.'' ''a.__proto__.admin'' = [''a'', ''__proto__'', ''admin'']" by code_simp
  obtain s' r where e: "safeDeepSet 0 ''a.__proto__.admin'' (VBool True) form_store = Some (s', r)"
    by (simp add: safeDeepSet_descend p copied_def alloc_def form_store_def descend_step dangerous_def
        array_length_def member_def grow_def put_def)
  have "member form_store a ''__proto__'' = None" for a by (simp add: form_store_def member_def)
  then show ?thesis
    using deep_set_no_pollution [OF form_store_wf form_store_heap e, of "''__proto__''"] e
    by (metis dangerous_def insertCI)
qed

text \<open>
  Only the top level is copied: the nested object is the one of the object passed in, so that
  object changes too.
\<close>

lemma nested_object_shared:
  "\<exists>s' r. safeDeepSet 0 ''spec.replicas'' (VNum 5) form_store = Some (s', r)
     \<and> get_path s' 0 [''spec'', ''replicas''] = VNum 5"
proof -
  have p: "js_split CHR ''.'' ''spec.replicas'' = [''spec'', ''replicas'']" by code_simp
  show ?thesis
    by (simp add: safeDeepSet_descend p copied_def alloc_def form_store_def descend_step dangerous_def
        array_length_def member_def put_def set_last_def)
qed

text \<open>
  The refusal of a dangerous segment does not undo the objects created before it.
\<close>

lemma refusal_leaves_object:
  "\<exists>s' r. safeDeepSet 0 ''a.__proto__.admin'' (VBool True) form_store = Some (s', r)
     \<and> member s' r ''a'' \<noteq> None \<and> member form_store 0 ''a'' = None"
proof -
  have p: "js_split CHR ''.'' ''a.__proto__.admin'' = [''a'', ''__proto__'', ''admin'']" by code_simp
  show ?thesis
    by (simp add: safeDeepSet_descend p copied_def alloc_def form_store_def descend_step dangerous_def
        array_length_def member_def grow_def put_def)
qed

end
