(* ===== verification/Yaml_Apply.thy ===== *)
theory Yaml_Apply
  imports Endpoints
begin

text \<open>
\<open>lib/yaml-apply.ts\<close>: the hook behind the YAML editors, with its two handlers as machine steps
  around their \<open>await\<close>, and \<open>lib/secretstore-template-nav.ts\<close>: the link the template editor
  follows after an apply. The invariant says that the busy flags mirror the one request in flight.
\<close>

section \<open>Responses\<close>

record apply_result =
  ar_index :: int
  ar_kind :: string
  ar_name :: string
  ar_namespace :: "string option"
  ar_action :: string
  ar_error :: "string option"

record apply_summary =
  su_total :: int
  su_created :: int
  su_configured :: int
  su_unchanged :: int
  su_failed :: int

record apply_response =
  results :: "apply_result list"
  summary :: apply_summary

text \<open>What a \<open>catch\<close> receives: an \<open>Error\<close> with its message, or anything else.\<close>

datatype thrown = ThrownError string | ThrownOther

text \<open>
  How an awaited \<open>apiPostRaw\<close> settles: \<open>Resolved\<close> with the \<open>data\<close> of the envelope (\<open>None\<close> is
  \<open>undefined\<close>, as for a 204), or \<open>Rejected\<close>.
\<close>

datatype outcome = Resolved "apply_response option" | Rejected thrown

text \<open>
  The options of the hook: \<open>onApplySuccess\<close>, when given, is the caller's code; all the hook sees
  of it is whether it throws.
\<close>

type_synonym success_callback = "(apply_response option \<Rightarrow> thrown option) option"

section \<open>The hook\<close>

datatype job = Validating | Applying

text \<open>
  \<open>pending\<close> holds the handlers that await a reply, \<open>posted\<close> every request so far, \<open>notified\<close>
  the responses handed to the callback. \<open>force_conflicts\<close> is the value of the option's signal,
  \<open>None\<close> when the option is not set.
\<close>

record yaml_state =
  yaml_content :: string
  applying :: bool
  validating :: bool
  apply_error :: "string option"
  apply_result_signal :: "apply_response option"
  force_conflicts :: "bool option"
  pending :: "job list"
  posted :: "endpoint list"
  notified :: "apply_response option list"

definition use_yaml_apply :: "string \<Rightarrow> bool option \<Rightarrow> yaml_state" where
  "use_yaml_apply initial_yaml force =
     \<lparr>yaml_content = initial_yaml, applying = False, validating = False, apply_error = None,
      apply_result_signal = None, force_conflicts = force, pending = [], posted = [], notified = []\<rparr>"

definition error_text :: "thrown \<Rightarrow> string \<Rightarrow> string" where
  "error_text e fallback = (case e of ThrownError m \<Rightarrow> m | ThrownOther \<Rightarrow> fallback)"

text \<open>\<open>handleValidate\<close> up to its \<open>await\<close>, and from there.\<close>

definition handle_validate :: "yaml_state \<Rightarrow> yaml_state" where
  "handle_validate s =
     (if applying s \<or> validating s then s
      else s\<lparr>validating := True, apply_error := None, apply_result_signal := None,
             pending := pending s @ [Validating],
             posted := posted s @ [api_post_raw ''/v1/yaml/validate'' (yaml_content s) ''text/yaml'']\<rparr>)"

definition validate_settled :: "outcome \<Rightarrow> yaml_state \<Rightarrow> yaml_state" where
  "validate_settled r s =
     (let s1 = (case r of
          Resolved d \<Rightarrow> s\<lparr>apply_result_signal := d\<rparr>
        | Rejected e \<Rightarrow> s\<lparr>apply_error := Some (error_text e ''Validation failed'')\<rparr>)
      in s1\<lparr>validating := False\<rparr>)"

text \<open>\<open>handleApply\<close> up to its \<open>await\<close>, and from there.\<close>

definition handle_apply :: "yaml_state \<Rightarrow> yaml_state" where
  "handle_apply s =
     (if applying s \<or> validating s then s
      else s\<lparr>applying := True, apply_error := None, apply_result_signal := None,
             pending := pending s @ [Applying],
             posted := posted s @
               [api_post_raw (''/v1/yaml/apply'' @ (if force_conflicts s = Some True then ''?force=true'' else []))
                  (yaml_content s) ''text/yaml'']\<rparr>)"

definition apply_settled :: "success_callback \<Rightarrow> outcome \<Rightarrow> yaml_state \<Rightarrow> yaml_state" where
  "apply_settled on_success r s =
     (let fail = (\<lambda>e s. s\<lparr>apply_error := Some (error_text e ''Apply failed'')\<rparr>);
          s1 = (case r of
            Resolved d \<Rightarrow>
              (let s0 = s\<lparr>apply_result_signal := d\<rparr>
               in (case on_success of
                     None \<Rightarrow> s0
                   | Some f \<Rightarrow>
                       (let s2 = s0\<lparr>notified := notified s @ [d]\<rparr>
                        in (case f d of None \<Rightarrow> s2 | Some e \<Rightarrow> fail e s2))))
          | Rejected e \<Rightarrow> fail e s)
      in s1\<lparr>applying := False\<rparr>)"

text \<open>The user edits, toggles the option or presses a button; a reply arrives.\<close>

datatype yaml_event = Edit string | SetForce bool | ClickValidate | ClickApply | Reply job outcome

fun yaml_step :: "success_callback \<Rightarrow> yaml_state \<Rightarrow> yaml_event \<Rightarrow> yaml_state option" where
  "yaml_step f s (Edit c) = Some (s\<lparr>yaml_content := c\<rparr>)"
| "yaml_step f s (SetForce b) = Some (s\<lparr>force_conflicts := map_option (\<lambda>_. b) (force_conflicts s)\<rparr>)"
| "yaml_step f s ClickValidate = Some (handle_validate s)"
| "yaml_step f s ClickApply = Some (handle_apply s)"
| "yaml_step f s (Reply j r) =
     (if j \<in> set (pending s)
      then let s1 = s\<lparr>pending := remove1 j (pending s)\<rparr>
           in Some (case j of Validating \<Rightarrow> validate_settled r s1 | Applying \<Rightarrow> apply_settled f r s1)
      else None)"

section \<open>The invariant\<close>

definition callback_failed :: "success_callback \<Rightarrow> apply_response option \<Rightarrow> bool" where
  "callback_failed f d \<longleftrightarrow> (case f of None \<Rightarrow> False | Some g \<Rightarrow> g d \<noteq> None)"

text \<open>
  The flags mirror the one request in flight; while it flies there is neither an error nor a
  result, and both are there only when the callback threw.
\<close>

definition yaml_inv :: "success_callback \<Rightarrow> yaml_state \<Rightarrow> bool" where
  "yaml_inv f s \<longleftrightarrow>
     pending s = (if validating s then [Validating] else []) @ (if applying s then [Applying] else [])
     \<and> \<not> (validating s \<and> applying s)
     \<and> (pending s \<noteq> [] \<longrightarrow> apply_error s = None \<and> apply_result_signal s = None)
     \<and> (apply_error s \<noteq> None \<and> apply_result_signal s \<noteq> None \<longrightarrow> callback_failed f (apply_result_signal s))"

lemma yaml_init_inv: "yaml_inv f (use_yaml_apply c b)"
  by (simp add: yaml_inv_def use_yaml_apply_def)

lemma yaml_inv_frame:
  "yaml_inv f s \<Longrightarrow> applying t = applying s \<Longrightarrow> validating t = validating s \<Longrightarrow>
   apply_error t = apply_error s \<Longrightarrow> apply_result_signal t = apply_result_signal s \<Longrightarrow>
   pending t = pending s \<Longrightarrow> yaml_inv f t"
  unfolding yaml_inv_def by simp

lemma handle_validate_inv: "yaml_inv f s \<Longrightarrow> yaml_inv f (handle_validate s)"
  by (cases "applying s \<or> validating s") (simp_all add: handle_validate_def yaml_inv_def)

lemma handle_apply_inv: "yaml_inv f s \<Longrightarrow> yaml_inv f (handle_apply s)"
  by (cases "applying s \<or> validating s") (simp_all add: handle_apply_def yaml_inv_def)

lemma yaml_step_inv:
  assumes inv: "yaml_inv f s" and st: "yaml_step f s e = Some t"
  shows "yaml_inv f t"
proof (cases e)
  case (Reply j r)
  show ?thesis
  proof (cases j)
    case Validating
    then show ?thesis using inv st
      by (auto simp: Reply yaml_inv_def validate_settled_def Let_def split: if_splits outcome.splits)
  next
    case Applying
    then show ?thesis using inv st
      by (auto simp: Reply yaml_inv_def apply_settled_def callback_failed_def Let_def
          split: if_splits outcome.splits option.splits)
  qed
next
  case (Edit c)
  then show ?thesis using st yaml_inv_frame [OF inv] by auto
next
  case (SetForce b)
  then show ?thesis using st yaml_inv_frame [OF inv] by auto
next
  case ClickValidate
  then show ?thesis using st handle_validate_inv [OF inv] by simp
next
  case ClickApply
  then show ?thesis using st handle_apply_inv [OF inv] by simp
qed

interpretation yaml: free_machine "yaml_step f" "yaml_inv f" for f
  by unfold_locales (rule yaml_step_inv)

text \<open>How a reply leaves the signals.\<close>

lemma reply_result:
  assumes "yaml_inv f s" "yaml_step f s (Reply j r) = Some t"
  shows "\<not> applying t \<and> \<not> validating t \<and>
    (case r of
       Resolved d \<Rightarrow> apply_result_signal t = d \<and> (apply_error t \<noteq> None \<longleftrightarrow> j = Applying \<and> callback_failed f d)
     | Rejected e \<Rightarrow> apply_result_signal t = None
         \<and> apply_error t = Some (error_text e (case j of Validating \<Rightarrow> ''Validation failed'' | Applying \<Rightarrow> ''Apply failed'')))"
proof (cases j)
  case Validating
  then show ?thesis using assms
    by (auto simp: yaml_inv_def validate_settled_def Let_def split: if_splits outcome.splits)
next
  case Applying
  then show ?thesis using assms
    by (auto simp: yaml_inv_def apply_settled_def callback_failed_def Let_def
        split: if_splits outcome.splits option.splits)
qed

text \<open>C38: Validate and apply exclude each other: in every run of the hook at most one request is
  in flight, the busy flags say which, and a click while one is set sends nothing; when the reply
  arrives both flags drop, and a response is shown or the message of what was thrown, both only
  when the caller's success callback itself threw.\<close>

theorem yaml_apply_exclusive:
  assumes "run_events (yaml_step f) (use_yaml_apply c b) es = Some s"
  shows "length (pending s) \<le> 1
    \<and> (validating s \<longleftrightarrow> Validating \<in> set (pending s)) \<and> (applying s \<longleftrightarrow> Applying \<in> set (pending s))
    \<and> (pending s \<noteq> [] \<longrightarrow> handle_apply s = s \<and> handle_validate s = s)
    \<and> (\<forall>j r t. yaml_step f s (Reply j r) = Some t \<longrightarrow>
         \<not> applying t \<and> \<not> validating t \<and>
         (case r of
            Resolved d \<Rightarrow> apply_result_signal t = d
              \<and> (apply_error t \<noteq> None \<longleftrightarrow> j = Applying \<and> callback_failed f d)
          | Rejected e \<Rightarrow> apply_result_signal t = None \<and> apply_error t \<noteq> None))"
proof -
  have inv: "yaml_inv f s" by (rule yaml.runs_inv [OF yaml_init_inv assms])
  show ?thesis
  proof (intro conjI allI impI)
    fix j r t assume st: "yaml_step f s (Reply j r) = Some t"
    show "\<not> applying t" "\<not> validating t" using reply_result [OF inv st] by simp_all
    show "case r of
        Resolved d \<Rightarrow> apply_result_signal t = d
          \<and> (apply_error t \<noteq> None \<longleftrightarrow> j = Applying \<and> callback_failed f d)
      | Rejected e \<Rightarrow> apply_result_signal t = None \<and> apply_error t \<noteq> None"
      using reply_result [OF inv st] by (cases r) auto
  qed (use inv in \<open>auto simp: yaml_inv_def handle_apply_def handle_validate_def\<close>)
qed

text \<open>An apply whose success callback throws: response and error are both shown.\<close>

definition demo_response :: apply_response where
  "demo_response =
     \<lparr>results = [\<lparr>ar_index = 0, ar_kind = ''SecretStore'', ar_name = ''vault'', ar_namespace = Some ''prod'',
                 ar_action = ''created'', ar_error = None\<rparr>],
      summary = \<lparr>su_total = 1, su_created = 1, su_configured = 0, su_unchanged = 0, su_failed = 0\<rparr>\<rparr>"

theorem yaml_apply_exclusive_witness:
  "\<exists>s t. run_events (yaml_step (Some (\<lambda>_. Some ThrownOther))) (use_yaml_apply ''a: 1'' (Some False))
       [SetForce True, ClickApply, ClickValidate] = Some s
     \<and> yaml_step (Some (\<lambda>_. Some ThrownOther)) s (Reply Applying (Resolved (Some demo_response))) = Some t
     \<and> length (pending s) \<le> 1 \<and> apply_error t \<noteq> None \<and> \<not> applying t"
proof -
  let ?f = "Some (\<lambda>_. Some ThrownOther) :: success_callback"
  obtain s where s: "run_events (yaml_step ?f) (use_yaml_apply ''a: 1'' (Some False))
      [SetForce True, ClickApply, ClickValidate] = Some s" by simp
  moreover from s obtain t
    where t: "yaml_step ?f s (Reply Applying (Resolved (Some demo_response))) = Some t"
    by (auto simp: use_yaml_apply_def handle_apply_def handle_validate_def Let_def)
  ultimately show ?thesis using yaml_apply_exclusive [OF s]
    by (fastforce simp: callback_failed_def)
qed

section \<open>Where an apply leads\<close>

definition NAVIGABLE_ACTIONS :: "string list" where
  "NAVIGABLE_ACTIONS = [''created'', ''configured'', ''unchanged'']"

text \<open>
  \<open>singleSecretStoreHref\<close>; the code reads the first result after checking that there is exactly
  one.
\<close>

definition singleSecretStoreHref :: "apply_response \<Rightarrow> string option" where
  "singleSecretStoreHref res =
     (if su_failed (summary res) \<noteq> 0 \<or> su_total (summary res) \<noteq> 1 \<or> length (results res) \<noteq> 1 then None
      else let finished = results res ! 0
           in if ar_action finished \<notin> set NAVIGABLE_ACTIONS \<or> ar_kind finished \<noteq> ''SecretStore''
                 \<or> \<not> has_text (ar_namespace finished) \<or> ar_name finished = []
              then None
              else Some (''/external-secrets/stores/'' @ the (ar_namespace finished) @ ''/'' @ ar_name finished))"

text \<open>A link is given exactly for one clean SecretStore.\<close>

lemma singleSecretStoreHref_iff:
  "singleSecretStoreHref res = Some h \<longleftrightarrow>
     (\<exists>r ns. results res = [r] \<and> su_total (summary res) = 1 \<and> su_failed (summary res) = 0
       \<and> ar_action r \<in> {''created'', ''configured'', ''unchanged''} \<and> ar_kind r = ''SecretStore''
       \<and> ar_namespace r = Some ns \<and> ns \<noteq> [] \<and> ar_name r \<noteq> []
       \<and> h = ''/external-secrets/stores/'' @ ns @ ''/'' @ ar_name r)"
proof (cases "results res")
  case (Cons r rs)
  then show ?thesis
    by (cases rs; cases "ar_namespace r")
       (auto simp: singleSecretStoreHref_def NAVIGABLE_ACTIONS_def Let_def has_text_def)
qed (simp add: singleSecretStoreHref_def)

end
