(* ===== verification/Resource_Counts.thy ===== *)
theory Resource_Counts
  imports Endpoints
begin

text \<open>
\<open>lib/resource-counts.ts\<close>: the counts of the navigation, refetched when the selected namespace
  or cluster changes. Timers and abort controllers are explicit: a step changes a signal, fires an
  armed timer, settles a call or tears the module down. The invariant: what can still store counts
  was sent for the current selection.
\<close>

section \<open>The store\<close>

type_synonym counts = "(string \<times> int) list"

text \<open>
  A fetch: the request sent, and (for the statements only) the namespace and cluster it was made
  for.
\<close>

record counts_fetch =
  cf_request :: endpoint
  cf_ns :: string
  cf_cluster :: string

text \<open>
  \<open>timers\<close> are the armed timers with the namespace their callback captured; \<open>debounce_timer\<close> is the
  module variable, which keeps the id after the timer has fired. \<open>fetches\<close> are the calls of
  \<open>api()\<close> that have not settled, by the id of their abort controller; \<open>aborted\<close> are the
  controllers aborted so far. \<open>subscribed\<close> says whether the effect is installed.
\<close>

record counts_state =
  resource_counts :: "counts option"
  counts_loading :: bool
  sel_namespace :: string
  sel_cluster :: string
  last_ns :: string
  last_cluster :: string
  abort_controller :: "nat option"
  debounce_timer :: "nat option"
  subscribed :: bool
  timers :: "(nat \<times> string) list"
  fetches :: "(nat \<times> counts_fetch) list"
  aborted :: "nat list"
  next_id :: nat

definition resource_counts_total :: "counts_state \<Rightarrow> int" where
  "resource_counts_total s =
     (case resource_counts s of None \<Rightarrow> 0 | Some c \<Rightarrow> sum_list (map snd c))"

definition getCount :: "counts_state \<Rightarrow> string \<Rightarrow> int option" where
  "getCount s kind =
     (case resource_counts s of None \<Rightarrow> None
      | Some c \<Rightarrow> Some (case rec_get c kind of None \<Rightarrow> 0 | Some n \<Rightarrow> n))"

section \<open>Operations\<close>

definition clear_timeout :: "counts_state \<Rightarrow> counts_state" where
  "clear_timeout s =
     (case debounce_timer s of None \<Rightarrow> s | Some i \<Rightarrow> s\<lparr>timers := rec_del (timers s) i\<rparr>)"

definition abort_current :: "counts_state \<Rightarrow> counts_state" where
  "abort_current s =
     (case abort_controller s of None \<Rightarrow> s | Some i \<Rightarrow> s\<lparr>aborted := aborted s @ [i]\<rparr>)"

definition schedule_counts_fetch :: "string \<Rightarrow> counts_state \<Rightarrow> counts_state" where
  "schedule_counts_fetch ns s =
     (let s1 = abort_current (clear_timeout s)
      in s1\<lparr>timers := timers s1 @ [(next_id s1, ns)], debounce_timer := Some (next_id s1),
            next_id := next_id s1 + 1\<rparr>)"

definition counts_path :: "string \<Rightarrow> string" where
  "counts_path ns =
     ''/v1/resources/counts'' @
     (if ns \<noteq> [] \<and> ns \<noteq> ''all'' then ''?namespace='' @ encode_uri_component ns else [])"

text \<open>The timer's callback; \<open>api()\<close> sends the selected cluster of that moment.\<close>

definition timer_fired :: "string \<Rightarrow> counts_state \<Rightarrow> counts_state" where
  "timer_fired ns s =
     s\<lparr>abort_controller := Some (next_id s), counts_loading := True,
       fetches := fetches s @
         [(next_id s, \<lparr>cf_request = api_get (counts_path ns), cf_ns = ns, cf_cluster = sel_cluster s\<rparr>)],
       next_id := next_id s + 1\<rparr>"

text \<open>The module-level effect, run when it is installed and when a signal it reads changes.\<close>

definition selection_effect :: "counts_state \<Rightarrow> counts_state" where
  "selection_effect s =
     (if \<not> subscribed s \<or> (sel_namespace s = last_ns s \<and> sel_cluster s = last_cluster s) then s
      else schedule_counts_fetch (sel_namespace s)
             (s\<lparr>last_ns := sel_namespace s, last_cluster := sel_cluster s\<rparr>))"

definition counts_init :: "string \<Rightarrow> string \<Rightarrow> counts_state" where
  "counts_init ns cl = selection_effect
     \<lparr>resource_counts = None, counts_loading = False, sel_namespace = ns, sel_cluster = cl,
      last_ns = [], last_cluster = [], abort_controller = None, debounce_timer = None,
      subscribed = True, timers = [], fetches = [], aborted = [], next_id = 0\<rparr>"

definition teardown_counts :: "counts_state \<Rightarrow> counts_state" where
  "teardown_counts s =
     (let s1 = (clear_timeout s)\<lparr>debounce_timer := None\<rparr>
      in (abort_current s1)\<lparr>abort_controller := None, subscribed := False\<rparr>)"

text \<open>\<open>then\<close>, \<open>catch\<close> and \<open>finally\<close> of a settled call; \<open>Some (Some c)\<close> is a reply with data \<open>c\<close>.\<close>

definition fetch_settled :: "counts option option \<Rightarrow> counts_state \<Rightarrow> counts_state" where
  "fetch_settled r s =
     (case r of
        Some (Some c) \<Rightarrow> s\<lparr>resource_counts := Some c\<rparr>
      | Some None \<Rightarrow> s\<lparr>resource_counts := Some []\<rparr>
      | None \<Rightarrow> s)\<lparr>counts_loading := False\<rparr>"

text \<open>
  A call with an aborted signal can only reject: \<open>fetch\<close> and the reading of the body reject with
  an \<open>AbortError\<close>.
\<close>

datatype counts_event = SelectNamespace string | SelectCluster string | TimerFires nat
  | FetchSettles nat "counts option option" | Teardown

fun counts_step :: "counts_state \<Rightarrow> counts_event \<Rightarrow> counts_state option" where
  "counts_step s (SelectNamespace ns) = Some (selection_effect (s\<lparr>sel_namespace := ns\<rparr>))"
| "counts_step s (SelectCluster cl) = Some (selection_effect (s\<lparr>sel_cluster := cl\<rparr>))"
| "counts_step s (TimerFires i) =
     (case rec_get (timers s) i of None \<Rightarrow> None
      | Some ns \<Rightarrow> Some (timer_fired ns (s\<lparr>timers := rec_del (timers s) i\<rparr>)))"
| "counts_step s (FetchSettles i r) =
     (if rec_get (fetches s) i = None \<or> (i \<in> set (aborted s) \<and> r \<noteq> None) then None
      else Some (fetch_settled r (s\<lparr>fetches := rec_del (fetches s) i\<rparr>)))"
| "counts_step s Teardown = Some (teardown_counts s)"

section \<open>The invariant\<close>

lemma rec_get_snoc [simp]:
  "rec_get (r @ [(a, b)]) k = (case rec_get r k of None \<Rightarrow> if a = k then Some b else None | Some v \<Rightarrow> Some v)"
  by (simp add: rec_get_def map_add_def split: option.split)

text \<open>Ids are given out once.\<close>

definition ids_ok :: "counts_state \<Rightarrow> bool" where
  "ids_ok s \<longleftrightarrow>
     (\<forall>i x. rec_get (timers s) i = Some x \<longrightarrow> i < next_id s)
     \<and> (\<forall>i x. rec_get (fetches s) i = Some x \<longrightarrow> i < next_id s)
     \<and> (\<forall>i. abort_controller s = Some i \<longrightarrow> i < next_id s)
     \<and> (\<forall>i \<in> set (aborted s). i < next_id s)"

text \<open>The effect has seen the selection; an armed timer is the variable's, for this selection.\<close>

definition armed_ok :: "counts_state \<Rightarrow> bool" where
  "armed_ok s \<longleftrightarrow>
     (subscribed s \<longrightarrow> sel_namespace s = last_ns s \<and> sel_cluster s = last_cluster s)
     \<and> (\<forall>i ns. rec_get (timers s) i = Some ns \<longrightarrow>
          subscribed s \<and> debounce_timer s = Some i \<and> ns = last_ns s
          \<and> (\<forall>j. abort_controller s = Some j \<longrightarrow> j \<in> set (aborted s)))"

text \<open>A fetch that is not aborted is the controller's, for this selection.\<close>

definition fetch_current :: "counts_state \<Rightarrow> nat \<Rightarrow> counts_fetch \<Rightarrow> bool" where
  "fetch_current s i f \<longleftrightarrow>
     subscribed s \<and> abort_controller s = Some i \<and> cf_ns f = last_ns s \<and> cf_cluster f = last_cluster s
     \<and> cf_request f = api_get (counts_path (last_ns s))"

definition live_ok :: "counts_state \<Rightarrow> bool" where
  "live_ok s \<longleftrightarrow>
     (\<forall>i f. rec_get (fetches s) i = Some f \<longrightarrow> i \<in> set (aborted s) \<or> fetch_current s i f)"

definition counts_inv :: "counts_state \<Rightarrow> bool" where
  "counts_inv s \<longleftrightarrow> ids_ok s \<and> armed_ok s \<and> live_ok s"

lemma clear_timeout_frame [simp]:
  "fetches (clear_timeout s) = fetches s" "aborted (clear_timeout s) = aborted s"
  "abort_controller (clear_timeout s) = abort_controller s" "next_id (clear_timeout s) = next_id s"
  "sel_namespace (clear_timeout s) = sel_namespace s" "sel_cluster (clear_timeout s) = sel_cluster s"
  "last_ns (clear_timeout s) = last_ns s" "last_cluster (clear_timeout s) = last_cluster s"
  "subscribed (clear_timeout s) = subscribed s" "debounce_timer (clear_timeout s) = debounce_timer s"
  by (simp_all add: clear_timeout_def split: option.split)

lemma abort_current_frame [simp]:
  "fetches (abort_current s) = fetches s" "timers (abort_current s) = timers s"
  "abort_controller (abort_current s) = abort_controller s" "next_id (abort_current s) = next_id s"
  "sel_namespace (abort_current s) = sel_namespace s" "sel_cluster (abort_current s) = sel_cluster s"
  "last_ns (abort_current s) = last_ns s" "last_cluster (abort_current s) = last_cluster s"
  "subscribed (abort_current s) = subscribed s" "debounce_timer (abort_current s) = debounce_timer s"
  "set (aborted (abort_current s)) = set (aborted s) \<union> set_option (abort_controller s)"
  by (simp_all add: abort_current_def split: option.split)

lemma clear_none:
  "\<forall>i ns. rec_get (timers s) i = Some ns \<longrightarrow> debounce_timer s = Some i \<Longrightarrow>
   rec_get (timers (clear_timeout s)) i = None"
  by (cases "debounce_timer s"; cases "rec_get (timers s) i") (auto simp: clear_timeout_def)

text \<open>Stopping what is scheduled or in flight: no timer is left, and every fetch is aborted.\<close>

lemma counts_inv_timers: "counts_inv s \<Longrightarrow> \<forall>i ns. rec_get (timers s) i = Some ns \<longrightarrow> debounce_timer s = Some i"
  by (auto simp: counts_inv_def armed_ok_def)

lemma counts_inv_abort:
  "counts_inv s \<Longrightarrow> rec_get (fetches s) i = Some f \<Longrightarrow> i \<in> set (aborted s) \<or> abort_controller s = Some i"
  by (auto simp: counts_inv_def live_ok_def fetch_current_def)

lemma counts_inv_ids: "counts_inv s \<Longrightarrow> ids_ok s"
  by (simp add: counts_inv_def)

lemma schedule_inv:
  assumes inv: "counts_inv s" and sub: "subscribed s"
    and t: "t = schedule_counts_fetch ns (s\<lparr>sel_namespace := ns, sel_cluster := cl, last_ns := ns, last_cluster := cl\<rparr>)"
  shows "counts_inv t"
proof -
  let ?s = "s\<lparr>sel_namespace := ns, sel_cluster := cl, last_ns := ns, last_cluster := cl\<rparr>"
  have none: "rec_get (timers (clear_timeout ?s)) i = None" for i
    by (rule clear_none) (use counts_inv_timers [OF inv] in simp)
  note d = t [unfolded schedule_counts_fetch_def Let_def]
  have "ids_ok t" using counts_inv_ids [OF inv] none by (auto simp: d ids_ok_def less_Suc_eq)
  moreover have "armed_ok t" using sub none by (auto simp: d armed_ok_def)
  moreover have "live_ok t" using counts_inv_abort [OF inv] by (fastforce simp: d live_ok_def)
  ultimately show ?thesis by (simp add: counts_inv_def)
qed

lemma selection_inv:
  assumes inv: "counts_inv s"
  shows "counts_inv (selection_effect (s\<lparr>sel_namespace := ns, sel_cluster := cl\<rparr>))"
proof (cases "\<not> subscribed s \<or> (ns = last_ns s \<and> cl = last_cluster s)")
  case True
  then show ?thesis using inv
    by (auto simp: selection_effect_def counts_inv_def ids_ok_def armed_ok_def live_ok_def fetch_current_def)
next
  case False
  then show ?thesis by (intro schedule_inv [OF inv]) (auto simp: selection_effect_def)
qed

lemma timer_inv:
  assumes inv: "counts_inv s" and i: "rec_get (timers s) i = Some ns"
  shows "counts_inv (timer_fired ns (s\<lparr>timers := rec_del (timers s) i\<rparr>))" (is "counts_inv ?t")
proof -
  have a: "subscribed s" "debounce_timer s = Some i" "ns = last_ns s" "sel_namespace s = last_ns s" "sel_cluster s = last_cluster s"
    "\<forall>j. abort_controller s = Some j \<longrightarrow> j \<in> set (aborted s)"
    using inv i by (auto simp: counts_inv_def armed_ok_def)
  have none: "rec_get (rec_del (timers s) i) j = None" for j
    using counts_inv_timers [OF inv] a(2) by (cases "rec_get (timers s) j") auto
  have "ids_ok ?t" using counts_inv_ids [OF inv] none
    by (auto simp: timer_fired_def ids_ok_def less_Suc_eq split: option.splits if_splits)
  moreover have "armed_ok ?t" using a none by (auto simp: timer_fired_def armed_ok_def)
  moreover have "live_ok ?t" using counts_inv_abort [OF inv] a
    by (auto simp: timer_fired_def live_ok_def fetch_current_def split: option.splits if_splits)
  ultimately show ?thesis by (simp add: counts_inv_def)
qed

lemma settled_inv:
  assumes inv: "counts_inv s"
  shows "counts_inv (fetch_settled r (s\<lparr>fetches := rec_del (fetches s) i\<rparr>))" (is "counts_inv ?t")
proof -
  have f: "fetches ?t = rec_del (fetches s) i" "timers ?t = timers s" "aborted ?t = aborted s"
    "abort_controller ?t = abort_controller s" "next_id ?t = next_id s" "sel_namespace ?t = sel_namespace s"
    "sel_cluster ?t = sel_cluster s" "last_ns ?t = last_ns s" "last_cluster ?t = last_cluster s"
    "subscribed ?t = subscribed s" "debounce_timer ?t = debounce_timer s"
    by (simp_all add: fetch_settled_def split: option.splits)
  show ?thesis using inv
    by (simp add: counts_inv_def ids_ok_def armed_ok_def live_ok_def fetch_current_def f)
qed

lemma teardown_inv:
  assumes inv: "counts_inv s"
  shows "counts_inv (teardown_counts s)" (is "counts_inv ?t")
proof -
  have none: "rec_get (timers (clear_timeout s)) i = None" for i
    by (rule clear_none) (use counts_inv_timers [OF inv] in simp)
  have t: "timers ?t = timers (clear_timeout s)" "fetches ?t = fetches s" "subscribed ?t = False"
    "next_id ?t = next_id s" "abort_controller ?t = None"
    "set (aborted ?t) = set (aborted s) \<union> set_option (abort_controller s)"
    by (simp_all add: teardown_counts_def Let_def)
  have "ids_ok ?t" using counts_inv_ids [OF inv] none by (auto simp: ids_ok_def t)
  moreover have "armed_ok ?t" using none by (simp add: armed_ok_def t)
  moreover have "live_ok ?t" using counts_inv_abort [OF inv] by (fastforce simp: live_ok_def t)
  ultimately show ?thesis by (simp add: counts_inv_def)
qed

lemma counts_step_inv:
  assumes inv: "counts_inv s" and st: "counts_step s e = Some t"
  shows "counts_inv t"
proof (cases e)
  case (SelectNamespace ns)
  then show ?thesis using st selection_inv [OF inv, where ns = ns and cl = "sel_cluster s"] by simp
next
  case (SelectCluster cl)
  then show ?thesis using st selection_inv [OF inv, where ns = "sel_namespace s" and cl = cl] by simp
next
  case (TimerFires i)
  then show ?thesis using st timer_inv [OF inv] by (auto split: option.splits)
next
  case (FetchSettles i r)
  then show ?thesis using st settled_inv [OF inv] by (auto split: if_splits)
next
  case Teardown
  then show ?thesis using st teardown_inv [OF inv] by simp
qed

interpretation counts: free_machine counts_step counts_inv
  by unfold_locales (rule counts_step_inv)

lemma counts_init_inv: "counts_inv (counts_init ns cl)"
proof -
  let ?raw = "\<lparr>resource_counts = None, counts_loading = False, sel_namespace = [], sel_cluster = [],
      last_ns = [], last_cluster = [], abort_controller = None, debounce_timer = None,
      subscribed = True, timers = [], fetches = [], aborted = [], next_id = 0\<rparr>"
  have "counts_inv ?raw" by (simp add: counts_inv_def ids_ok_def armed_ok_def live_ok_def)
  from selection_inv [OF this, where ns = ns and cl = cl] show ?thesis by (simp add: counts_init_def)
qed


section \<open>Stored counts belong to the selection\<close>

definition stored_counts :: "counts option \<Rightarrow> counts" where
  "stored_counts d = (case d of None \<Rightarrow> [] | Some c \<Rightarrow> c)"


text \<open>A namespace change while the first fetch is in flight.\<close>

definition demo_counts_run :: "counts_event list" where
  "demo_counts_run = [TimerFires 0, SelectNamespace ''prod'', TimerFires 2]"

definition demo_counts_state :: counts_state where
  "demo_counts_state = the (run_events counts_step (counts_init ''all'' ''local'') demo_counts_run)"

lemma demo_counts_runs:
  "run_events counts_step (counts_init ''all'' ''local'') demo_counts_run = Some demo_counts_state"
  by (simp add: demo_counts_state_def demo_counts_run_def counts_init_def selection_effect_def
      schedule_counts_fetch_def clear_timeout_def abort_current_def timer_fired_def Let_def)


text \<open>
  The \<open>finally\<close> of an aborted call clears the flag of the newer one: a call that was waiting for
  the token refresh rejects after the newer call has started.
\<close>

lemma loading_cleared_early:
  "\<exists>t. counts_step demo_counts_state (FetchSettles 1 None) = Some t
     \<and> rec_get (fetches t) 3 \<noteq> None \<and> 3 \<notin> set (aborted t) \<and> \<not> counts_loading t"
  by (simp add: demo_counts_state_def demo_counts_run_def counts_init_def selection_effect_def
      schedule_counts_fetch_def clear_timeout_def abort_current_def timer_fired_def fetch_settled_def Let_def)

end
