(* ===== verification/Svg_View.thy ===== *)
theory Svg_View
  imports Complex_Main Interfaces
begin

text \<open>
The zooming and dragging of the two topology islands (\<open>islands/NamespaceTopology.tsx\<close>,
  \<open>islands/ClusterTopology.tsx\<close>), which differ in the zoom limits and the canvas size. The locale
  \<open>zoom_view\<close> proves once that the zoom stays within the limits and that the point under the cursor
  stays; each island interprets it. Floating-point numbers are exact reals here.
\<close>

section \<open>The view\<close>

record screen_rect =
  rc_left :: real
  rc_top :: real
  rc_width :: real
  rc_height :: real

text \<open>An element that receives pointer events has an extent; the handlers divide by it.\<close>

definition visible :: "screen_rect \<Rightarrow> bool" where
  "visible rect \<longleftrightarrow> 0 < rc_width rect \<and> 0 < rc_height rect"

text \<open>The \<open>viewBox\<close> is the canvas size divided by \<open>zoom\<close>, with the pan as its origin.\<close>

record view =
  vw_zoom :: real
  vw_pan :: "real \<times> real"
  vw_dragging :: bool
  vw_drag_start :: "real \<times> real"
  vw_pan_start :: "real \<times> real"

definition view_init :: view where
  "view_init = \<lparr>vw_zoom = 1, vw_pan = (0, 0), vw_dragging = False, vw_drag_start = (0, 0), vw_pan_start = (0, 0)\<rparr>"

text \<open>
  \<open>handleWheel\<close> for zoom limits \<open>lo\<close>, \<open>hi\<close> and a canvas of size \<open>w\<close>, \<open>h\<close>; \<open>pos\<close> is
  \<open>(clientX, clientY)\<close>.
\<close>

definition handle_wheel :: "real \<times> real \<Rightarrow> real \<times> real \<Rightarrow> screen_rect \<Rightarrow> real \<Rightarrow> real \<times> real \<Rightarrow> view \<Rightarrow> view" where
  "handle_wheel limits dims rect deltaY pos v =
     (let delta = (if deltaY > 0 then - (1 / 10) else 1 / 10);
          nextZoom = min (snd limits) (max (fst limits) (vw_zoom v + delta));
          mx = (fst pos - rc_left rect) / rc_width rect;
          my = (snd pos - rc_top rect) / rc_height rect;
          oldW = fst dims / vw_zoom v;
          oldH = snd dims / vw_zoom v;
          newW = fst dims / nextZoom;
          newH = snd dims / nextZoom
      in v\<lparr>vw_pan := (fst (vw_pan v) + (oldW - newW) * mx, snd (vw_pan v) + (oldH - newH) * my),
            vw_zoom := nextZoom\<rparr>)"

definition handle_mouse_down :: "nat \<Rightarrow> real \<times> real \<Rightarrow> view \<Rightarrow> view" where
  "handle_mouse_down button pos v =
     (if button \<noteq> 0 then v
      else v\<lparr>vw_dragging := True, vw_drag_start := pos, vw_pan_start := vw_pan v\<rparr>)"

definition handle_mouse_move :: "real \<times> real \<Rightarrow> screen_rect \<Rightarrow> real \<times> real \<Rightarrow> view \<Rightarrow> view" where
  "handle_mouse_move dims rect pos v =
     (if \<not> vw_dragging v then v
      else (let vbW = fst dims / vw_zoom v;
                vbH = snd dims / vw_zoom v;
                scaleX = vbW / rc_width rect;
                scaleY = vbH / rc_height rect;
                dx = (fst pos - fst (vw_drag_start v)) * scaleX;
                dy = (snd pos - snd (vw_drag_start v)) * scaleY
            in v\<lparr>vw_pan := (fst (vw_pan_start v) - dx, snd (vw_pan_start v) - dy)\<rparr>))"

definition handle_mouse_up :: "view \<Rightarrow> view" where
  "handle_mouse_up v = v\<lparr>vw_dragging := False\<rparr>"

definition fit_to_view :: "view \<Rightarrow> view" where
  "fit_to_view v = v\<lparr>vw_zoom := 1, vw_pan := (0, 0)\<rparr>"

datatype view_event = Wheel screen_rect real "real \<times> real" | MouseDown nat "real \<times> real"
  | MouseMove screen_rect "real \<times> real" | MouseUp | FitToView

fun view_step :: "real \<times> real \<Rightarrow> real \<times> real \<Rightarrow> view \<Rightarrow> view_event \<Rightarrow> view option" where
  "view_step limits dims v (Wheel rect deltaY pos) =
     (if visible rect then Some (handle_wheel limits dims rect deltaY pos v) else None)"
| "view_step limits dims v (MouseDown button pos) = Some (handle_mouse_down button pos v)"
| "view_step limits dims v (MouseMove rect pos) = (if visible rect then Some (handle_mouse_move dims rect pos v) else None)"
| "view_step limits dims v MouseUp = Some (handle_mouse_up v)"
| "view_step limits dims v FitToView = Some (fit_to_view v)"

text \<open>The point of the canvas under a point of the screen, as the handlers convert it.\<close>

definition canvas_point :: "real \<times> real \<Rightarrow> screen_rect \<Rightarrow> real \<times> real \<Rightarrow> view \<Rightarrow> real \<times> real" where
  "canvas_point dims rect pos v =
     (fst (vw_pan v) + (fst pos - rc_left rect) / rc_width rect * (fst dims / vw_zoom v),
      snd (vw_pan v) + (snd pos - rc_top rect) / rc_height rect * (snd dims / vw_zoom v))"

section \<open>What every such view does\<close>

locale zoom_view =
  fixes limits dims :: "real \<times> real"
  assumes limits: "0 < fst limits" "fst limits \<le> 1" "1 \<le> snd limits"
begin

definition in_limits :: "view \<Rightarrow> bool" where
  "in_limits v \<longleftrightarrow> fst limits \<le> vw_zoom v \<and> vw_zoom v \<le> snd limits"

lemma init_in_limits: "in_limits view_init"
  using limits by (simp add: in_limits_def view_init_def)

lemma step_in_limits: "in_limits v \<Longrightarrow> view_step limits dims v e = Some u \<Longrightarrow> in_limits u"
  using limits
  by (cases e) (auto simp: in_limits_def handle_wheel_def handle_mouse_down_def handle_mouse_move_def
      handle_mouse_up_def fit_to_view_def Let_def split: if_splits)

text \<open>Zooming keeps the point under the cursor.\<close>

lemma wheel_keeps_point:
  "canvas_point dims rect pos (handle_wheel limits dims rect deltaY pos v) = canvas_point dims rect pos v"
  by (simp add: canvas_point_def handle_wheel_def Let_def algebra_simps)

end

sublocale zoom_view \<subseteq> viewing: free_machine "view_step limits dims" in_limits
  by unfold_locales (rule step_in_limits)

text \<open>Dragging keeps the point that was grabbed under the cursor.\<close>

lemma drag_keeps_point:
  "canvas_point dims rect pos' (handle_mouse_move dims rect pos' (handle_mouse_down 0 pos v)) =
   canvas_point dims rect pos v"
  by (simp add: canvas_point_def handle_mouse_move_def handle_mouse_down_def Let_def
      diff_divide_distrib algebra_simps)

text \<open>A further move starts again from the grab.\<close>

lemma move_move:
  "handle_mouse_move dims rect pos' (handle_mouse_move dims rect pos v) = handle_mouse_move dims rect pos' v"
  by (simp add: handle_mouse_move_def Let_def)

lemma drag_path:
  "ps \<noteq> [] \<Longrightarrow>
   fold (handle_mouse_move dims rect) ps v = handle_mouse_move dims rect (last ps) v"
proof (induction ps arbitrary: v)
  case (Cons p ps)
  then show ?case by (cases "ps = []") (simp_all add: move_move)
qed simp

end
