(* ===== verification/Namespace_Topology.thy ===== *)
theory Namespace_Topology
  imports Svg_View Nav
begin

text \<open>
\<open>islands/NamespaceTopology.tsx\<close>: what the namespace graph shows and where. The focused subgraph
  is proved to be the connected component, the layered layout to place every node once without
  overlap and, without cycles, every target to the right of its sources; zooming keeps the point
  under the cursor. Coordinates of the layout are whole numbers; zoom and pan are exact reals where
  the code has floating point.
\<close>

section \<open>Graphs\<close>

text \<open>The backend's topology graph.\<close>

datatype topo_health = Healthy | Degraded | Failing | UnknownHealth

datatype edge_type = Owner | Selector | Mount | IngressEdge | MeshVs | MeshSp | EsoAuth | EsoSync | EsoConsumer

record topo_node =
  tn_id :: string
  tn_kind :: string
  tn_name :: string
  tn_namespace :: string
  tn_health :: topo_health
  tn_summary :: string

record topo_edge =
  te_source :: string
  te_target :: string
  te_type :: edge_type

datatype overlay_result = OverlayMesh | OverlayEsoChain | OverlayUnavailable

record topo_graph =
  tg_nodes :: "topo_node list"
  tg_edges :: "topo_edge list"
  tg_truncated :: "bool option"
  tg_edges_truncated :: "bool option"
  tg_overlay :: "overlay_result option"
  tg_errors :: "(string \<times> string) list option"
  tg_computed_at :: string

definition is_mesh_edge :: "edge_type \<Rightarrow> bool" where
  "is_mesh_edge t \<longleftrightarrow> t = MeshVs \<or> t = MeshSp"

definition is_overlay_edge :: "edge_type \<Rightarrow> bool" where
  "is_overlay_edge t \<longleftrightarrow> is_mesh_edge t \<or> t = EsoAuth \<or> t = EsoSync \<or> t = EsoConsumer"

section \<open>The focused subgraph\<close>

text \<open>\<open>m.get(k)!.push(v)\<close> on a \<open>Map\<close> of arrays.\<close>

definition map_push :: "(string \<times> string list) list \<Rightarrow> string \<Rightarrow> string \<Rightarrow> (string \<times> string list) list" where
  "map_push m k v = (case rec_get m k of None \<Rightarrow> m | Some l \<Rightarrow> rec_set m k (l @ [v]))"

definition empty_lists :: "topo_node list \<Rightarrow> (string \<times> string list) list" where
  "empty_lists ns = fold (\<lambda>n m. rec_set m (tn_id n) []) ns []"

definition node_ids :: "topo_graph \<Rightarrow> string set" where
  "node_ids g = set (map tn_id (tg_nodes g))"

definition adjacency :: "topo_graph \<Rightarrow> (string \<times> string list) list" where
  "adjacency g = fold (\<lambda>e m.
       if te_source e \<notin> node_ids g \<or> te_target e \<notin> node_ids g then m
       else map_push (map_push m (te_source e) (te_target e)) (te_target e) (te_source e))
     (tg_edges g) (empty_lists (tg_nodes g))"

definition list_at :: "(string \<times> string list) list \<Rightarrow> string \<Rightarrow> string list" where
  "list_at m k = (case rec_get m k of None \<Rightarrow> [] | Some l \<Rightarrow> l)"

text \<open>
  The breadth-first loop: \<open>keep\<close> is a \<open>Set\<close> (in insertion order), \<open>queue\<close> the array the index
  runs over while it grows.
\<close>

definition enqueue :: "string list \<Rightarrow> string list \<times> string list \<Rightarrow> string list \<times> string list" where
  "enqueue nexts kq = fold (\<lambda>next (keep, queue).
       if next \<in> set keep then (keep, queue) else (keep @ [next], queue @ [next])) nexts kq"

lemma enqueue_new:
  "\<exists>d. enqueue ns (k, q) = (k @ d, q @ d) \<and> distinct d \<and> set d = set ns - set k"
proof (induction ns arbitrary: k q)
  case (Cons n ns)
  show ?case
  proof (cases "n \<in> set k")
    case True
    then show ?thesis using Cons.IH [of k q] by (auto simp: enqueue_def)
  next
    case False
    obtain d where "enqueue ns (k @ [n], q @ [n]) = ((k @ [n]) @ d, (q @ [n]) @ d)" "distinct d"
      "set d = set ns - set (k @ [n])"
      using Cons.IH [of "k @ [n]" "q @ [n]"] by blast
    then show ?thesis using False by (intro exI [of _ "n # d"]) (auto simp: enqueue_def)
  qed
qed (simp add: enqueue_def)

lemma list_at_range: "set (list_at m k) \<subseteq> (\<Union>x \<in> set m. set (snd x))"
proof (cases "rec_get m k")
  case (Some l)
  then have "(k, l) \<in> set m" by (simp add: rec_get_def map_of_SomeD)
  then show ?thesis using Some by (force simp: list_at_def)
qed (simp add: list_at_def)

function bfs :: "(string \<times> string list) list \<Rightarrow> nat \<Rightarrow> string list \<times> string list \<Rightarrow> string list" where
  "bfs adjacent i (keep, queue) =
     (if i < length queue then bfs adjacent (i + 1) (enqueue (list_at adjacent (queue ! i)) (keep, queue))
      else keep)"
  by pat_completeness auto

termination
proof (relation "measure (\<lambda>(m, i, k, q). card ((\<Union>x \<in> set m. set (snd x)) - set k) + (length q - i))")
  fix m i k q
  assume i: "i < length (q :: string list)"
  let ?U = "\<Union>x \<in> set m. set (snd x)" and ?ns = "list_at m (q ! i)"
  obtain d where d: "enqueue ?ns (k, q) = (k @ d, q @ d)" "distinct d" "set d = set ?ns - set k"
    using enqueue_new by blast
  have sub: "set d \<subseteq> ?U - set k" using d(3) list_at_range [of m "q ! i"] by blast
  have "?U - set (k @ d) = (?U - set k) - set d" by auto
  then have "card (?U - set (k @ d)) = card (?U - set k) - length d"
    using card_Diff_subset [OF finite_set sub] d(2) by (simp add: distinct_card)
  moreover have "length d \<le> card (?U - set k)"
    using card_mono [OF _ sub] d(2) by (simp add: distinct_card)
  ultimately show "((m, i + 1, enqueue ?ns (k, q)), (m, i, k, q))
      \<in> measure (\<lambda>(m, i, k, q). card ((\<Union>x \<in> set m. set (snd x)) - set k) + (length q - i))"
    using i by (simp add: d(1))
qed auto

declare bfs.simps [simp del]

definition focusedSubgraph :: "topo_graph \<Rightarrow> string option \<Rightarrow> topo_graph" where
  "focusedSubgraph graph focused =
     (case focused of
        None \<Rightarrow> graph
      | Some f \<Rightarrow>
          if f = [] then graph
          else if f \<notin> node_ids graph then graph\<lparr>tg_nodes := [], tg_edges := []\<rparr>
          else (let keep = bfs (adjacency graph) 0 ([f], [f]);
                    edges = filter (\<lambda>e. te_source e \<in> set keep \<and> te_target e \<in> set keep) (tg_edges graph)
                in if edges = [] then graph\<lparr>tg_nodes := [], tg_edges := []\<rparr>
                   else graph\<lparr>tg_nodes := filter (\<lambda>n. tn_id n \<in> set keep) (tg_nodes graph),
                              tg_edges := edges\<rparr>))"

section \<open>It is the connected component\<close>

text \<open>Two nodes are linked when an edge of the graph joins them, in either direction.\<close>

definition linked :: "topo_graph \<Rightarrow> (string \<times> string) set" where
  "linked g = {(a, b). a \<in> node_ids g \<and> b \<in> node_ids g
     \<and> (\<exists>e \<in> set (tg_edges g). (te_source e = a \<and> te_target e = b) \<or> (te_source e = b \<and> te_target e = a))}"

lemma empty_lists_get: "rec_get (empty_lists ns) k = (if k \<in> set (map tn_id ns) then Some [] else None)"
proof -
  have "rec_get (fold (\<lambda>n m. rec_set m (tn_id n) []) ns m) k =
      (if k \<in> set (map tn_id ns) then Some [] else rec_get m k)" for m :: "(string \<times> string list) list"
    by (induction ns arbitrary: m) auto
  from this [of "[]"] show ?thesis by (simp add: empty_lists_def)
qed

lemma map_push_get:
  "rec_get (map_push m k v) k' =
     (case rec_get m k' of None \<Rightarrow> None | Some l \<Rightarrow> Some (if k' = k then l @ [v] else l))"
  by (auto simp: map_push_def split: option.splits)

lemma list_at_push:
  "rec_get m k \<noteq> None \<Longrightarrow> set (list_at (map_push m k v) k') = set (list_at m k') \<union> (if k' = k then {v} else {})"
  by (auto simp: list_at_def map_push_get split: option.splits)

lemma adjacency_linked: "set (list_at (adjacency g) a) = {b. (a, b) \<in> linked g}"
proof -
  let ?f = "\<lambda>e m. if te_source e \<notin> node_ids g \<or> te_target e \<notin> node_ids g then m
       else map_push (map_push m (te_source e) (te_target e)) (te_target e) (te_source e)"
  have dom: "(rec_get (?f e m) k \<noteq> None) = (rec_get m k \<noteq> None)" for e m k
    by (auto simp: map_push_get split: option.splits)
  have "set (list_at (fold ?f es m) a) = set (list_at m a) \<union>
      {b. a \<in> node_ids g \<and> b \<in> node_ids g \<and>
        (\<exists>e \<in> set es. (te_source e = a \<and> te_target e = b) \<or> (te_source e = b \<and> te_target e = a))}"
    if "\<forall>k \<in> node_ids g. rec_get m k \<noteq> None" for es m
    using that
  proof (induction es arbitrary: m)
    case (Cons e es)
    have "\<forall>k \<in> node_ids g. rec_get (?f e m) k \<noteq> None" using Cons.prems dom [of e m] by blast
    from Cons.IH [OF this] have "set (list_at (fold ?f (e # es) m) a) = set (list_at (?f e m) a) \<union>
      {b. a \<in> node_ids g \<and> b \<in> node_ids g \<and>
        (\<exists>e \<in> set es. (te_source e = a \<and> te_target e = b) \<or> (te_source e = b \<and> te_target e = a))}"
      by simp
    moreover have "set (list_at (?f e m) a) = set (list_at m a) \<union>
      {b. a \<in> node_ids g \<and> b \<in> node_ids g \<and>
        ((te_source e = a \<and> te_target e = b) \<or> (te_source e = b \<and> te_target e = a))}"
    proof (cases "te_source e \<in> node_ids g \<and> te_target e \<in> node_ids g")
      case True
      then have "rec_get m (te_source e) \<noteq> None" "rec_get (map_push m (te_source e) (te_target e)) (te_target e) \<noteq> None"
        using Cons.prems by (auto simp: map_push_get split: option.splits)
      then show ?thesis using True by (auto simp: list_at_push)
    qed auto
    ultimately show ?case by auto
  qed simp
  from this [of "empty_lists (tg_nodes g)" "tg_edges g"] show ?thesis
    by (auto simp: adjacency_def linked_def empty_lists_get node_ids_def list_at_def)
qed

text \<open>The loop's invariant: what is kept is reachable, and the neighbours of what has been visited are kept.\<close>

lemma bfs_reaches:
  assumes "set keep = set queue" "set queue \<subseteq> R\<^sup>* `` {f}" "f \<in> set queue" "i \<le> length queue"
    "\<forall>j < i. \<forall>b. (queue ! j, b) \<in> R \<longrightarrow> b \<in> set queue"
    and adj: "\<forall>a. set (list_at adjacent a) = {b. (a, b) \<in> R}"
  shows "set (bfs adjacent i (keep, queue)) = R\<^sup>* `` {f}"
  using assms
proof (induction adjacent i "(keep, queue)" arbitrary: keep queue rule: bfs.induct)
  case (1 adjacent i keep queue)
  note same = 1(2) and reach = 1(3) and f = 1(4) and le = 1(5) and closed = 1(6) and adj = 1(7)
  show ?case
  proof (cases "i < length queue")
    case True
    let ?ns = "list_at adjacent (queue ! i)"
    obtain d where d: "enqueue ?ns (keep, queue) = (keep @ d, queue @ d)" "set d = set ?ns - set keep"
      using enqueue_new by blast
    have ns: "set ?ns = {b. (queue ! i, b) \<in> R}" using adj by blast
    have "queue ! i \<in> R\<^sup>* `` {f}" using reach True nth_mem by blast
    then have "set d \<subseteq> R\<^sup>* `` {f}" using d(2) ns by (auto intro: rtrancl_into_rtrancl)
    moreover have "\<forall>j < i + 1. \<forall>b. ((queue @ d) ! j, b) \<in> R \<longrightarrow> b \<in> set (queue @ d)"
    proof (intro allI impI)
      fix j b assume j: "j < i + 1" and b: "((queue @ d) ! j, b) \<in> R"
      have q: "(queue @ d) ! j = queue ! j" using j True by (simp add: nth_append)
      show "b \<in> set (queue @ d)"
      proof (cases "j = i")
        case True
        then show ?thesis using b q ns d(2) same by auto
      next
        case False
        then have "j < i" using j by linarith
        then show ?thesis using b q closed by auto
      qed
    qed
    ultimately have "set (bfs adjacent (i + 1) (keep @ d, queue @ d)) = R\<^sup>* `` {f}"
      using 1(1) [OF True, of "keep @ d" "queue @ d"] same reach f le True adj d(1) by auto
    then show ?thesis using True by (simp add: bfs.simps d(1))
  next
    case False
    have "x \<in> set queue" if "(f, x) \<in> R\<^sup>*" for x
      using that
    proof (induction rule: rtrancl_induct)
      case (step y z)
      then obtain j where "j < length queue" "queue ! j = y" by (auto simp: in_set_conv_nth)
      moreover from this(1) have "j < i" using False by linarith
      ultimately show ?case using closed step(2) by blast
    qed (rule f)
    then have "set queue = R\<^sup>* `` {f}" using reach by auto
    then show ?thesis using False same by (simp add: bfs.simps)
  qed
qed

definition component :: "topo_graph \<Rightarrow> string \<Rightarrow> string set" where
  "component g f = (linked g)\<^sup>* `` {f}"

text \<open>C35: Focusing a topology shows exactly the connected component: for a focused node of the graph
  the loop ends and the result keeps, in their order, the nodes that edges of the graph connect to
  it in any number of steps and the edges among them, or nothing when the node has no edge; for
  an unknown node it is empty, and everything else of the graph is kept.\<close>

theorem focus_is_component:
  assumes "f \<noteq> []"
  shows "focusedSubgraph g (Some f) =
    (if f \<in> node_ids g \<and> (\<exists>e \<in> set (tg_edges g). te_source e \<in> component g f \<and> te_target e \<in> component g f)
     then g\<lparr>tg_nodes := filter (\<lambda>n. tn_id n \<in> component g f) (tg_nodes g),
            tg_edges := filter (\<lambda>e. te_source e \<in> component g f \<and> te_target e \<in> component g f) (tg_edges g)\<rparr>
     else g\<lparr>tg_nodes := [], tg_edges := []\<rparr>)"
proof -
  have "set (bfs (adjacency g) 0 ([f], [f])) = component g f" unfolding component_def
    by (rule bfs_reaches) (auto simp: adjacency_linked)
  then show ?thesis using assms by (auto simp: focusedSubgraph_def Let_def filter_empty_conv)
qed

definition demo_node :: "string \<Rightarrow> topo_node" where
  "demo_node i = \<lparr>tn_id = i, tn_kind = ''Pod'', tn_name = i, tn_namespace = ''default'', tn_health = Healthy, tn_summary = []\<rparr>"

definition demo_edge :: "string \<Rightarrow> string \<Rightarrow> topo_edge" where
  "demo_edge a b = \<lparr>te_source = a, te_target = b, te_type = Owner\<rparr>"

definition demo_graph :: topo_graph where
  "demo_graph =
     \<lparr>tg_nodes = map demo_node [''a'', ''b'', ''c'', ''d''],
      tg_edges = [demo_edge ''a'' ''b'', demo_edge ''c'' ''b'', demo_edge ''d'' ''x''],
      tg_truncated = None, tg_edges_truncated = None, tg_overlay = None, tg_errors = None, tg_computed_at = []\<rparr>"

lemma demo_adjacency:
  "adjacency demo_graph = [(''a'', [''b'']), (''b'', [''a'', ''c'']), (''c'', [''b'']), (''d'', [])]"
  by (simp add: demo_graph_def demo_node_def demo_edge_def node_ids_def adjacency_def
      empty_lists_def map_push_def)

lemma demo_bfs:
  "bfs [(''a'', [''b'']), (''b'', [''a'', ''c'']), (''c'', [''b'']), (''d'', [])] 0 ([''a''], [''a'']) = [''a'', ''b'', ''c'']"
  by (simp add: bfs.simps enqueue_def list_at_def)

lemma demo_focus:
  "map tn_id (tg_nodes (focusedSubgraph demo_graph (Some ''a''))) = [''a'', ''b'', ''c'']"
proof -
  have "''a'' \<in> node_ids demo_graph" by (simp add: node_ids_def demo_graph_def demo_node_def)
  then show ?thesis
    by (simp add: focusedSubgraph_def demo_adjacency demo_bfs Let_def)
       (simp add: demo_graph_def demo_node_def demo_edge_def)
qed

theorem focus_is_component_witness:
  "map tn_id (tg_nodes (focusedSubgraph demo_graph (Some ''a''))) = [''a'', ''b'', ''c'']
     \<and> tn_id ` set (tg_nodes (focusedSubgraph demo_graph (Some ''a''))) \<subseteq> component demo_graph ''a''"
proof
  have ne: "''a'' \<noteq> []" by simp
  show "tn_id ` set (tg_nodes (focusedSubgraph demo_graph (Some ''a''))) \<subseteq> component demo_graph ''a''"
    unfolding focus_is_component [OF ne] by (rule image_subsetI) (simp split: if_splits)
qed (rule demo_focus)

section \<open>Layers\<close>

definition parents_of :: "topo_graph \<Rightarrow> (string \<times> string list) list" where
  "parents_of g = fold (\<lambda>e m.
       if te_source e \<in> node_ids g \<and> te_target e \<in> node_ids g
       then map_push m (te_target e) (te_source e) else m)
     (tg_edges g) (empty_lists (tg_nodes g))"

text \<open>\<open>xs.map(f)\<close> with a callback that changes the closure's variables.\<close>

fun map_state :: "('a \<Rightarrow> 's \<Rightarrow> ('s \<times> 'b) option) \<Rightarrow> 'a list \<Rightarrow> 's \<Rightarrow> ('s \<times> 'b list) option" where
  "map_state f [] s = Some (s, [])"
| "map_state f (x # xs) s =
     (case f x s of None \<Rightarrow> None
      | Some (s1, y) \<Rightarrow>
          (case map_state f xs s1 of None \<Rightarrow> None | Some (s2, ys) \<Rightarrow> Some (s2, y # ys)))"

text \<open>
  \<open>assignLayer\<close> on the variables \<open>layer\<close> and \<open>visited\<close>. The first argument bounds the depth of
  the recursion, \<open>None\<close> is running out of it.
\<close>

type_synonym layer_state = "(string \<times> nat) list \<times> string list"

primrec assign_layer :: "nat \<Rightarrow> (string \<times> string list) list \<Rightarrow> string \<Rightarrow> layer_state \<Rightarrow> (layer_state \<times> nat) option" where
  "assign_layer 0 parents i st = None"
| "assign_layer (Suc n) parents i st =
     (case rec_get (fst st) i of
        Some l \<Rightarrow> Some (st, l)
      | None \<Rightarrow>
          if i \<in> set (snd st) then Some (st, 0)
          else (case map_state (assign_layer n parents) (list_at parents i) (fst st, snd st @ [i]) of
                  None \<Rightarrow> None
                | Some ((layer, visited), ls) \<Rightarrow>
                    (let l = (if ls \<noteq> [] then Max (set ls) + 1 else 0)
                     in Some ((rec_set layer i l, visited), l))))"

text \<open>A node not yet visited is added at every level, so the number of ids is depth enough.\<close>

definition assign_layers :: "topo_graph \<Rightarrow> (string \<times> nat) list" where
  "assign_layers g =
     (case map_state (assign_layer (length (tg_nodes g) + 1) (parents_of g)) (map tn_id (tg_nodes g)) ([], []) of
        None \<Rightarrow> [] | Some ((layer, visited), ls) \<Rightarrow> layer)"

section \<open>The recursion ends and assigns every node\<close>

definition keys :: "('k \<times> 'v) list \<Rightarrow> 'k set" where
  "keys m = {k. rec_get m k \<noteq> None}"

lemma keys_set [simp]: "keys (rec_set m k v) = insert k (keys m)"
  by (auto simp: keys_def)

lemma keys_fst: "keys m = set (map fst m)"
  by (auto simp: keys_def rec_get_None_iff)

definition extends :: "layer_state \<Rightarrow> layer_state \<Rightarrow> bool" where
  "extends st st' \<longleftrightarrow>
     set (snd st) \<subseteq> set (snd st')
     \<and> (\<forall>k v. rec_get (fst st) k = Some v \<longrightarrow> rec_get (fst st') k = Some v)
     \<and> set (snd st') - keys (fst st') = set (snd st) - keys (fst st)
     \<and> (distinct (map fst (fst st)) \<longrightarrow> distinct (map fst (fst st')))"

lemma extends_refl: "extends st st"
  by (simp add: extends_def)

lemma extends_trans: "extends a b \<Longrightarrow> extends b c \<Longrightarrow> extends a c"
  unfolding extends_def by blast

lemma extends_keys: "extends st st' \<Longrightarrow> keys (fst st) \<subseteq> keys (fst st')"
  by (auto simp: extends_def keys_def)

text \<open>A state of the traversal: what has a layer was visited, and only ids are visited.\<close>

definition layer_ok :: "string set \<Rightarrow> layer_state \<Rightarrow> bool" where
  "layer_ok U st \<longleftrightarrow> keys (fst st) \<subseteq> set (snd st) \<and> set (snd st) \<subseteq> U"

lemma map_state_ends:
  assumes step: "\<And>i st. i \<in> U \<Longrightarrow> layer_ok U st \<Longrightarrow> card (U - set (snd st)) < n \<Longrightarrow>
      \<exists>st' l. f i st = Some (st', l) \<and> extends st st' \<and> layer_ok U st' \<and> i \<in> set (snd st')"
    and fin: "finite U"
  shows "set is \<subseteq> U \<Longrightarrow> layer_ok U st \<Longrightarrow> card (U - set (snd st)) < n \<Longrightarrow>
      \<exists>st' ls. map_state f is st = Some (st', ls) \<and> extends st st' \<and> layer_ok U st'
        \<and> set is \<subseteq> set (snd st') \<and> length ls = length is"
proof (induction "is" arbitrary: st)
  case (Cons i "is")
  obtain st1 l where s1: "f i st = Some (st1, l)" "extends st st1" "layer_ok U st1" "i \<in> set (snd st1)"
    using step [of i st] Cons.prems by auto
  have "U - set (snd st1) \<subseteq> U - set (snd st)" using s1(2) by (auto simp: extends_def)
  then have "card (U - set (snd st1)) < n"
    using Cons.prems(3) card_mono [of "U - set (snd st)" "U - set (snd st1)"] fin by simp
  then obtain st2 ls where s2: "map_state f is st1 = Some (st2, ls)" "extends st1 st2" "layer_ok U st2"
      "set is \<subseteq> set (snd st2)" "length ls = length is"
    using Cons.IH [of st1] Cons.prems s1 by auto
  have "i \<in> set (snd st2)" using s1(4) s2(2) by (auto simp: extends_def)
  then show ?case using s1 s2 extends_trans [OF s1(2) s2(2)] by simp
qed (simp add: extends_refl)

lemma assign_ends:
  assumes fin: "finite U" and closed: "\<forall>k \<in> U. set (list_at parents k) \<subseteq> U"
  shows "i \<in> U \<Longrightarrow> layer_ok U st \<Longrightarrow> card (U - set (snd st)) < n \<Longrightarrow>
      \<exists>st' l. assign_layer n parents i st = Some (st', l) \<and> extends st st' \<and> layer_ok U st' \<and> i \<in> set (snd st')"
proof (induction n arbitrary: i st)
  case (Suc n)
  show ?case
  proof (cases "rec_get (fst st) i")
    case (Some l)
    then have "i \<in> set (snd st)" using Suc.prems(2) by (auto simp: layer_ok_def keys_def)
    then show ?thesis using Some Suc.prems(2) extends_refl by simp
  next
    case None
    show ?thesis
    proof (cases "i \<in> set (snd st)")
      case True
      then show ?thesis using None Suc.prems(2) extends_refl by simp
    next
      case False
      let ?st = "(fst st, snd st @ [i])"
      have ok: "layer_ok U ?st" using Suc.prems by (auto simp: layer_ok_def)
      have "i \<in> U - set (snd st)" using Suc.prems(1) False by simp
      then have "card (U - set (snd st) - {i}) < card (U - set (snd st))"
        using fin by (intro card_Diff1_less) auto
      moreover have "U - set (snd ?st) = U - set (snd st) - {i}" by auto
      ultimately have small: "card (U - set (snd ?st)) < n" using Suc.prems(3) by simp
      have sub: "set (list_at parents i) \<subseteq> U" using closed Suc.prems(1) by blast
      obtain st' ls where "map_state (assign_layer n parents) (list_at parents i) ?st = Some (st', ls)"
          "extends ?st st'" "layer_ok U st'"
        using map_state_ends [where f = "assign_layer n parents", OF Suc.IH fin sub ok small] by blast
      moreover obtain layer visited where "st' = (layer, visited)" by (cases st')
      ultimately have r: "map_state (assign_layer n parents) (list_at parents i) ?st = Some ((layer, visited), ls)"
          and e: "extends ?st (layer, visited)" and ok': "layer_ok U (layer, visited)"
        by simp_all
      have i: "i \<in> set visited" "rec_get layer i = None"
        using e None False unfolding extends_def keys_def by auto
      let ?l = "if ls \<noteq> [] then Max (set ls) + 1 else 0"
      have "extends st (rec_set layer i ?l, visited)"
        using e i None False by (auto simp: extends_def distinct_rec_set)
      moreover have "layer_ok U (rec_set layer i ?l, visited)" using ok' i by (simp add: layer_ok_def)
      ultimately show ?thesis using None False r i(1) by (simp add: Let_def)
    qed
  qed
qed simp


section \<open>Without cycles the layers are the longest paths\<close>

definition parent_rel :: "(string \<times> string list) list \<Rightarrow> (string \<times> string) set" where
  "parent_rel parents = {(p, c). p \<in> set (list_at parents c)}"

definition layer_value :: "(string \<times> string list) list \<Rightarrow> (string \<times> nat) list \<Rightarrow> string \<Rightarrow> nat" where
  "layer_value parents layer k =
     (let ls = map (\<lambda>p. the (rec_get layer p)) (list_at parents k)
      in if ls \<noteq> [] then Max (set ls) + 1 else 0)"

text \<open>Every assigned node comes after its parents, which are assigned too.\<close>

definition layered :: "(string \<times> string list) list \<Rightarrow> (string \<times> nat) list \<Rightarrow> bool" where
  "layered parents layer \<longleftrightarrow>
     (\<forall>k v. rec_get layer k = Some v \<longrightarrow>
        set (list_at parents k) \<subseteq> keys layer \<and> v = layer_value parents layer k)"

lemma layer_value_extends:
  assumes "\<forall>k v. rec_get layer k = Some v \<longrightarrow> rec_get layer' k = Some v" "set (list_at parents k) \<subseteq> keys layer"
  shows "layer_value parents layer' k = layer_value parents layer k"
proof -
  have "the (rec_get layer' p) = the (rec_get layer p)" if "p \<in> set (list_at parents k)" for p
    using assms that unfolding keys_def by fastforce
  then have "map (\<lambda>p. the (rec_get layer' p)) (list_at parents k) = map (\<lambda>p. the (rec_get layer p)) (list_at parents k)"
    by simp
  then show ?thesis unfolding layer_value_def by presburger
qed

lemma layered_add:
  assumes l: "layered parents layer" and new: "rec_get layer i = None"
    and p: "set (list_at parents i) \<subseteq> keys layer" and v: "v = layer_value parents layer i"
  shows "layered parents (rec_set layer i v)"
  unfolding layered_def
proof (intro allI impI)
  fix k w assume k: "rec_get (rec_set layer i v) k = Some w"
  have ext: "\<forall>k u. rec_get layer k = Some u \<longrightarrow> rec_get (rec_set layer i v) k = Some u" using new by auto
  have sub: "set (list_at parents k) \<subseteq> keys layer"
    using k p l unfolding layered_def by (cases "k = i") auto
  have "w = layer_value parents layer k" using k v l unfolding layered_def by (cases "k = i") auto
  then show "set (list_at parents k) \<subseteq> keys (rec_set layer i v)
      \<and> w = layer_value parents (rec_set layer i v) k"
    using sub layer_value_extends [OF ext sub] by auto
qed

definition on_stack :: "layer_state \<Rightarrow> string set" where
  "on_stack st = set (snd st) - keys (fst st)"

lemma map_state_layers:
  assumes step: "\<And>i st st' l. i \<in> U \<Longrightarrow> f i st = Some (st', l) \<Longrightarrow> layer_ok U st \<Longrightarrow> layered parents (fst st) \<Longrightarrow>
      \<forall>s \<in> on_stack st. (i, s) \<in> R \<Longrightarrow> extends st st' \<and> layer_ok U st' \<and> layered parents (fst st') \<and> rec_get (fst st') i = Some l"
  shows "set is \<subseteq> U \<Longrightarrow> map_state f is st = Some (st', ls) \<Longrightarrow> layer_ok U st \<Longrightarrow> layered parents (fst st) \<Longrightarrow>
      \<forall>i \<in> set is. \<forall>s \<in> on_stack st. (i, s) \<in> R \<Longrightarrow>
      extends st st' \<and> layer_ok U st' \<and> layered parents (fst st') \<and> set is \<subseteq> keys (fst st')
      \<and> ls = map (\<lambda>i. the (rec_get (fst st') i)) is"
proof (induction "is" arbitrary: st ls)
  case (Cons i "is")
  obtain st1 l ls' where f: "f i st = Some (st1, l)" and m: "map_state f is st1 = Some (st', ls')" and ls: "ls = l # ls'"
    using Cons.prems(2) by (auto split: option.splits)
  have s1: "extends st st1" "layer_ok U st1" "layered parents (fst st1)" "rec_get (fst st1) i = Some l"
    using step [OF _ f Cons.prems(3,4)] Cons.prems(1,5) by auto
  have "on_stack st1 = on_stack st" using s1(1) by (auto simp: extends_def on_stack_def)
  then have s2: "extends st1 st'" "layer_ok U st'" "layered parents (fst st')" "set is \<subseteq> keys (fst st')"
      "ls' = map (\<lambda>i. the (rec_get (fst st') i)) is"
    using Cons.IH [OF _ m s1(2,3)] Cons.prems(1,5) by auto
  have "rec_get (fst st') i = Some l" using s1(4) s2(1) by (auto simp: extends_def)
  then show ?case using s2 extends_trans [OF s1(1) s2(1)] ls by (auto simp: keys_def)
qed (simp add: extends_refl)

lemma assign_layered:
  assumes ac: "acyclic (parent_rel parents)" and closed: "\<forall>k \<in> U. set (list_at parents k) \<subseteq> U"
  shows "i \<in> U \<Longrightarrow> assign_layer n parents i st = Some (st', l) \<Longrightarrow> layer_ok U st \<Longrightarrow> layered parents (fst st) \<Longrightarrow>
      \<forall>s \<in> on_stack st. (i, s) \<in> (parent_rel parents)\<^sup>+ \<Longrightarrow>
      extends st st' \<and> layer_ok U st' \<and> layered parents (fst st') \<and> rec_get (fst st') i = Some l"
proof (induction n arbitrary: i st st' l)
  case (Suc n)
  show ?case
  proof (cases "rec_get (fst st) i")
    case (Some w)
    then show ?thesis using Suc.prems extends_refl by simp
  next
    case None
    have new: "i \<notin> set (snd st)"
    proof
      assume "i \<in> set (snd st)"
      then have "(i, i) \<in> (parent_rel parents)\<^sup>+" using None Suc.prems(5) by (simp add: on_stack_def keys_def)
      then show False using ac by (simp add: acyclic_def)
    qed
    let ?st = "(fst st, snd st @ [i])"
    obtain layer visited ls
      where m: "map_state (assign_layer n parents) (list_at parents i) ?st = Some ((layer, visited), ls)"
        and r: "st' = (rec_set layer i l, visited)" "l = (if ls \<noteq> [] then Max (set ls) + 1 else 0)"
      using Suc.prems(2) None new by (auto simp: Let_def split: option.splits)
    have ok: "layer_ok U ?st" using Suc.prems(1,3) by (auto simp: layer_ok_def)
    have stack: "\<forall>p \<in> set (list_at parents i). \<forall>s \<in> on_stack ?st. (p, s) \<in> (parent_rel parents)\<^sup>+"
    proof (intro ballI)
      fix p s assume p: "p \<in> set (list_at parents i)" and s: "s \<in> on_stack ?st"
      have pi: "(p, i) \<in> parent_rel parents" using p by (simp add: parent_rel_def)
      have "s = i \<or> s \<in> on_stack st" using s by (auto simp: on_stack_def)
      then show "(p, s) \<in> (parent_rel parents)\<^sup>+"
        using Suc.prems(5) pi by (auto intro: trancl_into_trancl2)
    qed
    have sub: "set (list_at parents i) \<subseteq> U" using closed Suc.prems(1) by blast
    have "layered parents (fst ?st)" using Suc.prems(4) by simp
    note z = map_state_layers [where f = "assign_layer n parents" and parents = parents and U = U
        and R = "(parent_rel parents)\<^sup>+", OF Suc.IH sub m ok this stack, unfolded fst_conv]
    have e: "extends ?st (layer, visited)" "layer_ok U (layer, visited)" "layered parents layer"
        "set (list_at parents i) \<subseteq> keys layer" "ls = map (\<lambda>i. the (rec_get layer i)) (list_at parents i)"
      using z by blast+
    have i: "i \<in> set visited" "rec_get layer i = None"
      using e(1) None new unfolding extends_def keys_def by auto
    have "l = layer_value parents layer i" using r(2) e(5) by (simp add: layer_value_def Let_def)
    then have "layered parents (rec_set layer i l)" using layered_add [OF e(3) i(2) e(4)] by blast
    moreover have "extends st (rec_set layer i l, visited)"
      using e(1) i None new by (auto simp: extends_def distinct_rec_set)
    moreover have "layer_ok U (rec_set layer i l, visited)" using e(2) i by (simp add: layer_ok_def)
    ultimately show ?thesis using r(1) by simp
  qed
qed simp

section \<open>The layout\<close>

text \<open>An edge whose ends are both nodes of the graph.\<close>

definition child_of :: "topo_graph \<Rightarrow> (string \<times> string) set" where
  "child_of g = {(p, c). p \<in> node_ids g \<and> c \<in> node_ids g
     \<and> (\<exists>e \<in> set (tg_edges g). te_source e = p \<and> te_target e = c)}"

lemma parents_child: "parent_rel (parents_of g) = child_of g"
proof -
  let ?f = "\<lambda>e m. if te_source e \<in> node_ids g \<and> te_target e \<in> node_ids g
       then map_push m (te_target e) (te_source e) else m"
  have dom: "(rec_get (?f e m) k \<noteq> None) = (rec_get m k \<noteq> None)" for e m k
    by (auto simp: map_push_get split: option.splits)
  have "set (list_at (fold ?f es m) c) = set (list_at m c) \<union>
      {p. p \<in> node_ids g \<and> c \<in> node_ids g \<and> (\<exists>e \<in> set es. te_source e = p \<and> te_target e = c)}"
    if "\<forall>k \<in> node_ids g. rec_get m k \<noteq> None" for es m c
    using that
  proof (induction es arbitrary: m)
    case (Cons e es)
    have "\<forall>k \<in> node_ids g. rec_get (?f e m) k \<noteq> None" using Cons.prems dom [of e m] by blast
    from Cons.IH [OF this] have "set (list_at (fold ?f (e # es) m) c) = set (list_at (?f e m) c) \<union>
      {p. p \<in> node_ids g \<and> c \<in> node_ids g \<and> (\<exists>e \<in> set es. te_source e = p \<and> te_target e = c)}"
      by simp
    moreover have "set (list_at (?f e m) c) = set (list_at m c) \<union>
      {p. p \<in> node_ids g \<and> c \<in> node_ids g \<and> te_source e = p \<and> te_target e = c}"
      using Cons.prems by (auto simp: list_at_push)
    ultimately show ?case by auto
  qed simp
  from this [of "empty_lists (tg_nodes g)" "tg_edges g"] show ?thesis
    by (auto simp: parents_of_def child_of_def parent_rel_def empty_lists_get node_ids_def list_at_def)
qed

lemma parents_closed: "\<forall>k \<in> node_ids g. set (list_at (parents_of g) k) \<subseteq> node_ids g"
proof (intro ballI subsetI)
  fix k p assume "p \<in> set (list_at (parents_of g) k)"
  then have "(p, k) \<in> child_of g" by (simp add: parents_child [symmetric] parent_rel_def)
  then show "p \<in> node_ids g" by (simp add: child_of_def)
qed

lemma assign_layers_run:
  obtains visited ls where
    "map_state (assign_layer (length (tg_nodes g) + 1) (parents_of g)) (map tn_id (tg_nodes g)) ([], []) =
       Some ((assign_layers g, visited), ls)"
    "keys (assign_layers g) = node_ids g" "distinct (map fst (assign_layers g))"
proof -
  let ?n = "length (tg_nodes g) + 1"
  have fin: "finite (node_ids g)" by (simp add: node_ids_def)
  have "card (node_ids g) \<le> length (map tn_id (tg_nodes g))" unfolding node_ids_def by (rule card_length)
  then have n: "card (node_ids g - set (snd ([], []) :: string list)) < ?n" by simp
  have ok: "layer_ok (node_ids g) ([], [])" by (simp add: layer_ok_def keys_def)
  have sub: "set (map tn_id (tg_nodes g)) \<subseteq> node_ids g" by (simp add: node_ids_def)
  obtain st ls where m: "map_state (assign_layer ?n (parents_of g)) (map tn_id (tg_nodes g)) ([], []) = Some (st, ls)"
    and e: "extends ([], []) st" "layer_ok (node_ids g) st" "set (map tn_id (tg_nodes g)) \<subseteq> set (snd st)"
    using map_state_ends [where f = "assign_layer ?n (parents_of g)", OF assign_ends [OF fin parents_closed] fin sub ok n]
    by blast
  obtain layer visited where st: "st = (layer, visited)" by (cases st)
  have l: "assign_layers g = layer" using m st by (simp add: assign_layers_def)
  have "set visited - keys layer = {}" "distinct (map fst layer)" using e(1) by (simp_all add: extends_def st)
  moreover have "node_ids g \<subseteq> set visited" using e(3) by (simp add: st node_ids_def)
  ultimately show ?thesis using that [of visited ls] m e(2) l by (auto simp: st layer_ok_def)
qed

lemma assign_layers_keys: "keys (assign_layers g) = node_ids g" "distinct (map fst (assign_layers g))"
  by (rule assign_layers_run [of g], simp)+

lemma assign_layers_layered:
  assumes ac: "acyclic (child_of g)"
  shows "layered (parents_of g) (assign_layers g)"
proof (rule assign_layers_run [of g])
  fix visited ls
  let ?f = "assign_layer (length (tg_nodes g) + 1) (parents_of g)"
  assume m: "map_state ?f (map tn_id (tg_nodes g)) ([], []) = Some ((assign_layers g, visited), ls)"
  have ac': "acyclic (parent_rel (parents_of g))" using ac by (simp add: parents_child)
  have sub: "set (map tn_id (tg_nodes g)) \<subseteq> node_ids g" by (simp add: node_ids_def)
  have ok: "layer_ok (node_ids g) ([], [])" by (simp add: layer_ok_def keys_def)
  have lay: "layered (parents_of g) (fst ([], []))" by (simp add: layered_def)
  have stack: "\<forall>i \<in> set (map tn_id (tg_nodes g)). \<forall>s \<in> on_stack ([], []). (i, s) \<in> (parent_rel (parents_of g))\<^sup>+"
    by (simp add: on_stack_def)
  show ?thesis
    using map_state_layers [where f = ?f and parents = "parents_of g" and U = "node_ids g"
        and R = "(parent_rel (parents_of g))\<^sup>+", OF assign_layered [OF ac' parents_closed, where n = "length (tg_nodes g) + 1"] sub m ok lay stack,
        unfolded fst_conv]
    by blast
qed

definition NODE_WIDTH :: int where "NODE_WIDTH = 180"
definition NODE_HEIGHT :: int where "NODE_HEIGHT = 56"
definition LAYER_GAP :: int where "LAYER_GAP = 220"
definition NODE_GAP :: int where "NODE_GAP = 80"

text \<open>\<open>layers\<close>: the ids of each layer, layers in the order of their first node.\<close>

definition group_layers :: "(string \<times> nat) list \<Rightarrow> (nat \<times> string list) list" where
  "group_layers layer =
     fold (\<lambda>x m. rec_set m (snd x) ((case rec_get m (snd x) of None \<Rightarrow> [] | Some ids \<Rightarrow> ids) @ [fst x])) layer []"

record layout_node = topo_node +
  ln_x :: int
  ln_y :: int

text \<open>\<open>new Map(nodes.map(n => [n.id, n]))\<close>: the last node of an id.\<close>

definition node_map :: "topo_graph \<Rightarrow> (string \<times> topo_node) list" where
  "node_map g = fold (\<lambda>n m. rec_set m (tn_id n) n) (tg_nodes g) []"

definition place :: "topo_node \<Rightarrow> int \<Rightarrow> int \<Rightarrow> layout_node" where
  "place n x y = topo_node.extend n \<lparr>ln_x = x, ln_y = y\<rparr>"

text \<open>
  The nodes of one layer; \<open>totalHeight\<close> is a multiple of \<open>8\<close>, so that halving it is exact.
\<close>

definition layer_row :: "topo_graph \<Rightarrow> nat \<times> string list \<Rightarrow> layout_node list" where
  "layer_row g row = (case row of (l, ids) \<Rightarrow>
     (let totalHeight = int (length ids) * (NODE_HEIGHT + NODE_GAP) - NODE_GAP;
          startY = - (totalHeight div 2)
      in map (\<lambda>(i, nid). place (the (rec_get (node_map g) nid))
                (int l * LAYER_GAP + NODE_WIDTH div 2 + 40)
                (startY + int i * (NODE_HEIGHT + NODE_GAP) + NODE_HEIGHT div 2))
           (enumerate 0 ids)))"

definition layout_nodes :: "topo_graph option \<Rightarrow> layout_node list" where
  "layout_nodes graph =
     (case graph of
        None \<Rightarrow> []
      | Some g \<Rightarrow>
          if tg_nodes g = [] then [] else concat (map (layer_row g) (group_layers (assign_layers g))))"


lemma group_layers_alt:
  "group_layers layer = fold (\<lambda>x m. rec_set m (snd x)
     ((\<lambda>x o1. (case o1 of None \<Rightarrow> [] | Some ids \<Rightarrow> ids) @ [fst x]) x (rec_get m (snd x)))) layer []"
  by (simp add: group_layers_def)

lemma group_layers_get:
  "rec_get (group_layers layer) l =
     (if filter (\<lambda>x. snd x = l) layer = [] then None else Some (map fst (filter (\<lambda>x. snd x = l) layer)))"
proof -
  let ?up = "\<lambda>x o1. (case o1 of None \<Rightarrow> [] | Some ids \<Rightarrow> ids) @ [fst x]"
  have acc: "fold (\<lambda>x o1. Some (?up x o1)) xs (Some acc) = Some (acc @ map fst xs)"
    for xs :: "(string \<times> nat) list" and acc
    by (induction xs arbitrary: acc) auto
  have nm: "fold (\<lambda>x o1. Some (?up x o1)) xs None = (if xs = [] then None else Some (map fst xs))"
    for xs :: "(string \<times> nat) list"
    using acc [of "tl xs" "[fst (hd xs)]"] by (cases xs) auto
  show ?thesis
    unfolding group_layers_alt by (subst js_map.fold_upsert_get [where key = snd and up = ?up]) (simp add: nm)
qed

lemma group_layers_distinct: "distinct (map fst (group_layers layer))"
  unfolding group_layers_alt
  using js_map.fold_upsert_distinct [where key = snd and m = "[]" and xs = layer
      and up = "\<lambda>x o1. (case o1 of None \<Rightarrow> [] | Some ids \<Rightarrow> ids) @ [fst x]"] by simp

lemma group_layers_in:
  "(l, ids) \<in> set (group_layers layer) \<longleftrightarrow> rec_get (group_layers layer) l = Some ids"
  using group_layers_distinct by (simp add: rec_get_def)

lemma node_map_get:
  assumes "i \<in> node_ids g"
  shows "\<exists>n. rec_get (node_map g) i = Some n \<and> tn_id n = i"
proof -
  have "\<exists>n. rec_get (fold (\<lambda>n m. rec_set m (tn_id n) n) ns m) i = Some n \<and> tn_id n = i"
    if "i \<in> tn_id ` set ns \<or> (\<exists>n. rec_get m i = Some n \<and> tn_id n = i)" for ns m
    using that
  proof (induction ns arbitrary: m)
    case (Cons n ns)
    then show ?case by (cases "i = tn_id n") auto
  qed simp
  from this [of "tg_nodes g" "[]"] show ?thesis using assms by (simp add: node_map_def node_ids_def)
qed

lemma place_simps [simp]: "tn_id (place n x y) = tn_id n" "ln_x (place n x y) = x" "ln_y (place n x y) = y"
  by (simp_all add: place_def topo_node.defs)

text \<open>The rows hold ids of the graph, each in the row of its layer.\<close>

lemma row_ids:
  assumes "(l, ids) \<in> set (group_layers (assign_layers g))"
  shows "ids = map fst (filter (\<lambda>x. snd x = l) (assign_layers g))" "set ids \<subseteq> node_ids g" "distinct ids"
    "i \<in> set ids \<Longrightarrow> rec_get (assign_layers g) i = Some l"
proof -
  show i: "ids = map fst (filter (\<lambda>x. snd x = l) (assign_layers g))"
    using assms by (simp add: group_layers_in group_layers_get split: if_splits)
  show "set ids \<subseteq> node_ids g"
    unfolding i assign_layers_keys(1) [symmetric] by (auto simp: keys_fst)
  show "distinct ids" unfolding i using assign_layers_keys(2) by (rule distinct_map_filter)
  show "i \<in> set ids \<Longrightarrow> rec_get (assign_layers g) i = Some l"
    unfolding i using assign_layers_keys(2) [of g] by (auto simp: rec_get_def)
qed

lemma layer_row_ids:
  assumes "row \<in> set (group_layers (assign_layers g))"
  shows "map tn_id (layer_row g row) = snd row"
proof -
  obtain l ids where r: "row = (l, ids)" by (cases row)
  have "tn_id (the (rec_get (node_map g) i)) = i" if "i \<in> set ids" for i
    using node_map_get [of i g] row_ids(2) [OF assms [unfolded r]] that by fastforce
  then have "map (\<lambda>i. tn_id (the (rec_get (node_map g) i))) (map snd (enumerate 0 ids)) = ids"
    by (simp add: map_idI)
  then have "map (\<lambda>p. tn_id (the (rec_get (node_map g) (snd p)))) (enumerate 0 ids) = ids"
    by (simp only: map_map comp_def)
  then show ?thesis by (simp add: r layer_row_def Let_def comp_def case_prod_beta)
qed


lemma concat_distinct:
  "distinct (map fst gs) \<Longrightarrow> (\<And>l ids. (l, ids) \<in> set gs \<Longrightarrow> distinct ids \<and> (\<forall>i \<in> set ids. f i = l)) \<Longrightarrow>
   distinct (concat (map snd gs))"
proof (induction gs)
  case (Cons x gs)
  obtain l ids where x: "x = (l, ids)" by (cases x)
  have h: "distinct ids" "\<forall>i \<in> set ids. f i = l" using Cons.prems(2) [of l ids] x by auto
  have t: "f i \<noteq> l" if i: "i \<in> set (concat (map snd gs))" for i
  proof -
    obtain y where "y \<in> set gs" "i \<in> set (snd y)" using i unfolding set_concat set_map by blast
    then obtain l' ids' where g: "(l', ids') \<in> set gs" "i \<in> set ids'" by (metis prod.collapse)
    then have "f i = l'" using Cons.prems(2) [of l' ids'] by auto
    moreover have "l' \<noteq> l" using Cons.prems(1) g(1) x by force
    ultimately show ?thesis by simp
  qed
  have "distinct (concat (map snd gs))" by (rule Cons.IH) (use Cons.prems in auto)
  moreover have "set ids \<inter> set (concat (map snd gs)) = {}" using h(2) t by blast
  ultimately show ?case using h(1) x by simp
qed simp

lemma layout_ids:
  "map tn_id (layout_nodes (Some g)) = concat (map snd (group_layers (assign_layers g)))"
proof (cases "tg_nodes g = []")
  case True
  then have "keys (assign_layers g) = {}" using assign_layers_keys(1) [of g] by (simp add: node_ids_def)
  then have "assign_layers g = []" by (simp add: keys_fst)
  then show ?thesis using True by (simp add: layout_nodes_def group_layers_def)
next
  case False
  have "map (map tn_id \<circ> layer_row g) (group_layers (assign_layers g)) = map snd (group_layers (assign_layers g))"
    using layer_row_ids by (intro map_cong) auto
  moreover have "layout_nodes (Some g) = concat (map (layer_row g) (group_layers (assign_layers g)))"
    using False by (simp add: layout_nodes_def)
  ultimately show ?thesis by (simp only: map_concat map_map)
qed

lemma layout_distinct: "distinct (map tn_id (layout_nodes (Some g)))"
  unfolding layout_ids
proof (rule concat_distinct [where f = "\<lambda>i. the (rec_get (assign_layers g) i)", OF group_layers_distinct])
  fix l ids assume "(l, ids) \<in> set (group_layers (assign_layers g))"
  note r = row_ids [OF this]
  show "distinct ids \<and> (\<forall>i \<in> set ids. the (rec_get (assign_layers g) i) = l)" using r(3,4) by simp
qed

lemma layout_set: "set (map tn_id (layout_nodes (Some g))) = node_ids g"
proof -
  have "i \<in> set (concat (map snd (group_layers (assign_layers g))))" if i: "i \<in> node_ids g" for i
  proof -
    obtain l where l: "rec_get (assign_layers g) i = Some l"
      using i assign_layers_keys(1) [of g] by (auto simp: keys_def)
    then have "(i, l) \<in> set (filter (\<lambda>x. snd x = l) (assign_layers g))" by (simp add: rec_get_def map_of_SomeD)
    then have "i \<in> set (map fst (filter (\<lambda>x. snd x = l) (assign_layers g)))" "filter (\<lambda>x. snd x = l) (assign_layers g) \<noteq> []"
      by (force, metis length_pos_if_in_set less_numeral_extra(3) list.size(3))
    then show ?thesis
      using group_layers_in [of l "map fst (filter (\<lambda>x. snd x = l) (assign_layers g))" "assign_layers g"]
      by (force simp: group_layers_get)
  qed
  moreover have "set (concat (map snd (group_layers (assign_layers g)))) \<subseteq> node_ids g"
    using row_ids(2) by fastforce
  ultimately show ?thesis unfolding layout_ids by blast
qed

text \<open>Where a node is.\<close>

lemma layout_position:
  assumes n: "n \<in> set (layout_nodes (Some g))"
  shows "\<exists>l ids i. rec_get (group_layers (assign_layers g)) l = Some ids \<and> i < length ids \<and> tn_id n = ids ! i
    \<and> rec_get (assign_layers g) (tn_id n) = Some l
    \<and> ln_x n = int l * 220 + 130 \<and> ln_y n = 28 - (int (length ids) * 136 - 80) div 2 + int i * 136"
proof -
  obtain l ids where r: "(l, ids) \<in> set (group_layers (assign_layers g))" and m: "n \<in> set (layer_row g (l, ids))"
    using n by (auto simp: layout_nodes_def split: if_splits)
  obtain i where i: "i < length (layer_row g (l, ids))" "n = layer_row g (l, ids) ! i"
    using m by (metis in_set_conv_nth)
  have len: "length (layer_row g (l, ids)) = length ids" by (simp add: layer_row_def Let_def)
  have il: "i < length ids" using i(1) len by simp
  have "tn_id n = map tn_id (layer_row g (l, ids)) ! i" using i by simp
  then have t: "tn_id n = ids ! i" using layer_row_ids [OF r] by simp
  have "ln_x n = int l * 220 + 130" "ln_y n = 28 - (int (length ids) * 136 - 80) div 2 + int i * 136"
    using il i(2) by (simp_all add: layer_row_def Let_def nth_enumerate_eq LAYER_GAP_def NODE_WIDTH_def
        NODE_HEIGHT_def NODE_GAP_def)
  moreover have "rec_get (assign_layers g) (tn_id n) = Some l" using row_ids(4) [OF r] t il by simp
  ultimately show ?thesis using r il t by (auto simp: group_layers_in)
qed

definition overlaps :: "layout_node \<Rightarrow> layout_node \<Rightarrow> bool" where
  "overlaps a b \<longleftrightarrow> \<bar>ln_x a - ln_x b\<bar> < NODE_WIDTH \<and> \<bar>ln_y a - ln_y b\<bar> < NODE_HEIGHT"

lemma positions_apart:
  assumes a: "a \<in> set (layout_nodes (Some g))" and b: "b \<in> set (layout_nodes (Some g))" and ne: "tn_id a \<noteq> tn_id b"
  shows "\<not> overlaps a b"
proof -
  obtain l ids i where pa: "rec_get (group_layers (assign_layers g)) l = Some ids" "tn_id a = ids ! i"
      "ln_x a = int l * 220 + 130" "ln_y a = 28 - (int (length ids) * 136 - 80) div 2 + int i * 136"
    using layout_position [OF a] by blast
  obtain l' ids' j where pb: "rec_get (group_layers (assign_layers g)) l' = Some ids'" "tn_id b = ids' ! j"
      "ln_x b = int l' * 220 + 130" "ln_y b = 28 - (int (length ids') * 136 - 80) div 2 + int j * 136"
    using layout_position [OF b] by blast
  show ?thesis
  proof (cases "l = l'")
    case True
    then have "i \<noteq> j" and ids: "ids' = ids" using pa pb ne by auto
    then have "int i + 1 \<le> int j \<or> int j + 1 \<le> int i" by linarith
    moreover define k where "k = (int (length ids) * 136 - 80) div 2"
    ultimately show ?thesis using pa(4) pb(4) ids by (auto simp: overlaps_def NODE_HEIGHT_def)
  next
    case False
    then have "int l + 1 \<le> int l' \<or> int l' + 1 \<le> int l" by linarith
    then show ?thesis using pa(3) pb(3) by (auto simp: overlaps_def NODE_WIDTH_def)
  qed
qed

text \<open>The layout of any graph, with cycles or not, ends and places every node of the graph exactly
  once, and the boxes of no two nodes overlap.\<close>

theorem layout_places_apart:
  "distinct (map tn_id (layout_nodes (Some g))) \<and> set (map tn_id (layout_nodes (Some g))) = node_ids g
    \<and> sorted_wrt (\<lambda>a b. \<not> overlaps a b) (layout_nodes (Some g))"
proof (intro conjI)
  show "sorted_wrt (\<lambda>a b. \<not> overlaps a b) (layout_nodes (Some g))"
    unfolding sorted_wrt_iff_nth_less
  proof (intro allI impI)
    fix i j assume ij: "i < j" "j < length (layout_nodes (Some g))"
    then have "tn_id (layout_nodes (Some g) ! i) \<noteq> tn_id (layout_nodes (Some g) ! j)"
      using layout_distinct [of g] by (simp add: distinct_conv_nth)
    then show "\<not> overlaps (layout_nodes (Some g) ! i) (layout_nodes (Some g) ! j)"
      using positions_apart [OF nth_mem nth_mem] ij by (meson less_trans)
  qed
qed (rule layout_distinct, rule layout_set)


text \<open>C36: Without cycles the layers are the longest paths: every edge between nodes points at least
  one layer to the right, and a node is in the first layer when nothing points to it and else
  exactly one layer after one of the nodes that do.\<close>

theorem layers_left_to_right:
  assumes ac: "acyclic (child_of g)"
    and a: "a \<in> set (layout_nodes (Some g))" and b: "b \<in> set (layout_nodes (Some g))"
    and e: "(tn_id a, tn_id b) \<in> child_of g"
  shows "ln_x a + LAYER_GAP \<le> ln_x b
    \<and> (\<exists>p \<in> set (layout_nodes (Some g)). (tn_id p, tn_id b) \<in> child_of g \<and> ln_x b = ln_x p + LAYER_GAP)
    \<and> ((\<nexists>p. (p, tn_id a) \<in> child_of g) \<longrightarrow> ln_x a = NODE_WIDTH div 2 + 40)"
proof -
  let ?v = "\<lambda>p. the (rec_get (assign_layers g) p)" and ?ps = "\<lambda>k. list_at (parents_of g) k"
  note lay = assign_layers_layered [OF ac]
  have pos: "ln_x n = int (?v (tn_id n)) * 220 + 130" "rec_get (assign_layers g) (tn_id n) = Some (?v (tn_id n))"
    if "n \<in> set (layout_nodes (Some g))" for n
    using layout_position [OF that] by auto
  have val: "?v k = layer_value (parents_of g) (assign_layers g) k" if "rec_get (assign_layers g) k = Some (?v k)" for k
    using lay that unfolding layered_def by blast
  have par: "p \<in> set (?ps k) \<longleftrightarrow> (p, k) \<in> child_of g" for p k
    by (simp add: parents_child [symmetric] parent_rel_def)
  let ?ls = "map ?v (?ps (tn_id b))"
  have pb: "tn_id a \<in> set (?ps (tn_id b))" using e par by blast
  then have ne: "?ls \<noteq> []" by auto
  have vb: "?v (tn_id b) = Max (set ?ls) + 1"
    using val [OF pos(2) [OF b]] ne by (simp add: layer_value_def Let_def)
  have "?v (tn_id a) \<in> set ?ls" using pb by auto
  then have "?v (tn_id a) \<le> Max (set ?ls)" by (intro Max_ge) auto
  then have right: "ln_x a + 220 \<le> ln_x b" using vb pos(1) [OF a] pos(1) [OF b] by simp
  obtain p where p: "p \<in> set (?ps (tn_id b))" "?v p = Max (set ?ls)"
    using Max_in [of "set ?ls"] ne by (metis (no_types, lifting) List.finite_set imageE list.set_map set_empty)
  have "p \<in> node_ids g" using p(1) par by (auto simp: child_of_def)
  then obtain q where q: "q \<in> set (layout_nodes (Some g))" "tn_id q = p"
    using layout_set [of g] by (metis imageE list.set_map)
  have "ln_x b = ln_x q + 220" using vb p(2) q(2) pos(1) [OF b] pos(1) [OF q(1)] by simp
  then have "\<exists>p \<in> set (layout_nodes (Some g)). (tn_id p, tn_id b) \<in> child_of g \<and> ln_x b = ln_x p + 220"
    using q p(1) par by blast
  moreover have "ln_x a = 130" if "\<nexists>p. (p, tn_id a) \<in> child_of g"
  proof -
    have "?ps (tn_id a) = []" using that par by (metis list.set_intros(1) neq_Nil_conv)
    then have "?v (tn_id a) = 0" using val [OF pos(2) [OF a]] by (simp add: layer_value_def)
    then show ?thesis using pos(1) [OF a] by simp
  qed
  ultimately show ?thesis using right by (simp add: LAYER_GAP_def NODE_WIDTH_def)
qed

lemma acyclic_rank: "(\<And>p c. (p, c) \<in> R \<Longrightarrow> (f p :: nat) < f c) \<Longrightarrow> acyclic R"
  by (rule acyclic_subset [of "measure f"]) (auto intro: wf_acyclic)

theorem layers_left_to_right_witness:
  "\<exists>a b. a \<in> set (layout_nodes (Some demo_graph)) \<and> b \<in> set (layout_nodes (Some demo_graph))
     \<and> tn_id a = ''a'' \<and> tn_id b = ''b'' \<and> ln_x a + 220 \<le> ln_x b"
proof -
  have c: "(p, c) \<in> child_of demo_graph \<longleftrightarrow> (p = ''a'' \<or> p = ''c'') \<and> c = ''b''" for p c
    by (auto simp: child_of_def demo_graph_def node_ids_def demo_node_def demo_edge_def)
  have ac: "acyclic (child_of demo_graph)"
    by (rule acyclic_rank [where f = "\<lambda>k. if k = ''b'' then 1 else 0"]) (auto simp: c)
  have ids: "''a'' \<in> node_ids demo_graph" "''b'' \<in> node_ids demo_graph"
    by (simp_all add: node_ids_def demo_graph_def demo_node_def)
  obtain a where a: "a \<in> set (layout_nodes (Some demo_graph))" "tn_id a = ''a''"
    using ids(1) layout_set [of demo_graph] by (metis imageE list.set_map)
  obtain b where b: "b \<in> set (layout_nodes (Some demo_graph))" "tn_id b = ''b''"
    using ids(2) layout_set [of demo_graph] by (metis imageE list.set_map)
  have "(tn_id a, tn_id b) \<in> child_of demo_graph" by (simp add: a(2) b(2) c)
  from layers_left_to_right [OF ac a(1) b(1) this, THEN conjunct1] show ?thesis
    using a b by (auto simp: LAYER_GAP_def)
qed

text \<open>
  A cycle: the recursion gives a node it re-enters the layer \<open>0\<close> for the moment, so the layout
  depends on the order of the nodes and the edge that closes the cycle points left.
\<close>

definition cyclic_graph :: topo_graph where
  "cyclic_graph = demo_graph\<lparr>tg_nodes := map demo_node [''a'', ''b''],
     tg_edges := [demo_edge ''a'' ''b'', demo_edge ''b'' ''a'']\<rparr>"

lemma cyclic_layers: "assign_layers cyclic_graph = [(''b'', 1), (''a'', 2)]"
proof -
  have "parents_of cyclic_graph = [(''a'', [''b'']), (''b'', [''a''])]"
    by (simp add: cyclic_graph_def demo_graph_def demo_node_def demo_edge_def parents_of_def node_ids_def
        empty_lists_def map_push_def)
  then show ?thesis
    by (simp add: assign_layers_def)
       (simp add: cyclic_graph_def demo_graph_def demo_node_def list_at_def numeral_2_eq_2 Let_def)
qed

section \<open>Zoom and drag\<close>

definition MIN_ZOOM :: real where "MIN_ZOOM = 3 / 10"
definition MAX_ZOOM :: real where "MAX_ZOOM = 3"
definition BASE_WIDTH :: real where "BASE_WIDTH = 1200"
definition BASE_HEIGHT :: real where "BASE_HEIGHT = 800"

definition namespace_view_step :: "view \<Rightarrow> view_event \<Rightarrow> view option" where
  "namespace_view_step = view_step (MIN_ZOOM, MAX_ZOOM) (BASE_WIDTH, BASE_HEIGHT)"

interpretation ns_view: zoom_view "(MIN_ZOOM, MAX_ZOOM)" "(BASE_WIDTH, BASE_HEIGHT)"
  by unfold_locales (simp_all add: MIN_ZOOM_def MAX_ZOOM_def)

text \<open>However the user zooms, drags and resets the namespace graph, the zoom stays between 0.3 and
  3; turning the wheel leaves the canvas point under the cursor where it is, and after a drag,
  whatever way the pointer took, the point that was grabbed is under the cursor.\<close>

theorem namespace_view:
  assumes "run_events namespace_view_step view_init es = Some v" "visible rect"
  shows "MIN_ZOOM \<le> vw_zoom v \<and> vw_zoom v \<le> MAX_ZOOM
    \<and> canvas_point (BASE_WIDTH, BASE_HEIGHT) rect pos
        (handle_wheel (MIN_ZOOM, MAX_ZOOM) (BASE_WIDTH, BASE_HEIGHT) rect deltaY pos v) =
      canvas_point (BASE_WIDTH, BASE_HEIGHT) rect pos v
    \<and> canvas_point (BASE_WIDTH, BASE_HEIGHT) rect pos'
        (fold (handle_mouse_move (BASE_WIDTH, BASE_HEIGHT) rect) (path @ [pos']) (handle_mouse_down 0 pos v)) =
      canvas_point (BASE_WIDTH, BASE_HEIGHT) rect pos v"
proof (intro conjI)
  have "ns_view.in_limits v"
    using ns_view.viewing.runs_inv [OF ns_view.init_in_limits] assms(1) unfolding namespace_view_step_def by blast
  then show "MIN_ZOOM \<le> vw_zoom v" "vw_zoom v \<le> MAX_ZOOM" by (simp_all add: ns_view.in_limits_def)
qed (rule ns_view.wheel_keeps_point, subst drag_path, simp, simp add: drag_keeps_point)

theorem namespace_view_witness:
  "\<exists>v. run_events namespace_view_step view_init
       [Wheel \<lparr>rc_left = 0, rc_top = 0, rc_width = 600, rc_height = 400\<rparr> 1 (300, 200), MouseUp] = Some v
     \<and> 3 / 10 \<le> vw_zoom v \<and> vw_zoom v < 1"
proof -
  obtain v where v: "run_events namespace_view_step view_init
      [Wheel \<lparr>rc_left = 0, rc_top = 0, rc_width = 600, rc_height = 400\<rparr> 1 (300, 200), MouseUp] = Some v"
    by (simp add: namespace_view_step_def visible_def)
  moreover have "visible \<lparr>rc_left = 0, rc_top = 0, rc_width = 600, rc_height = 400\<rparr>" by (simp add: visible_def)
  moreover have "vw_zoom v < 1" using v
    by (auto simp: namespace_view_step_def handle_wheel_def handle_mouse_up_def view_init_def Let_def
        MIN_ZOOM_def MAX_ZOOM_def visible_def)
  ultimately show ?thesis
    using namespace_view [OF v, THEN conjunct1] by (auto simp: MIN_ZOOM_def)
qed

section \<open>Highlighting and labels\<close>

definition set_add :: "'a list \<Rightarrow> 'a \<Rightarrow> 'a list" where
  "set_add s x = (if x \<in> set s then s else s @ [x])"

definition getConnectedIds :: "topo_graph option \<Rightarrow> string \<Rightarrow> string list" where
  "getConnectedIds graph nodeId =
     (case graph of
        None \<Rightarrow> [nodeId]
      | Some g \<Rightarrow> fold (\<lambda>e c.
          let c1 = (if te_source e = nodeId then set_add c (te_target e) else c)
          in if te_target e = nodeId then set_add c1 (te_source e) else c1) (tg_edges g) [nodeId])"

definition nodeOpacity :: "string list option \<Rightarrow> string \<Rightarrow> real" where
  "nodeOpacity connectedSet i =
     (case connectedSet of None \<Rightarrow> 1 | Some c \<Rightarrow> if i \<in> set c then 1 else 15 / 100)"

definition edgeOpacity :: "string list option \<Rightarrow> string \<Rightarrow> string \<Rightarrow> real \<Rightarrow> real" where
  "edgeOpacity connectedSet source target base =
     (case connectedSet of None \<Rightarrow> base
      | Some c \<Rightarrow> if source \<in> set c \<and> target \<in> set c then base else 8 / 100)"

lemma connected_ids:
  "set (getConnectedIds (Some g) i) = insert i {j. \<exists>e \<in> set (tg_edges g).
     (te_source e = i \<and> te_target e = j) \<or> (te_target e = i \<and> te_source e = j)}"
proof -
  have "set (fold (\<lambda>e c. let c1 = (if te_source e = i then set_add c (te_target e) else c)
        in if te_target e = i then set_add c1 (te_source e) else c1) es c) =
      set c \<union> {j. \<exists>e \<in> set es. (te_source e = i \<and> te_target e = j) \<or> (te_target e = i \<and> te_source e = j)}"
    for es :: "topo_edge list" and c
    by (induction es arbitrary: c) (auto simp: set_add_def Let_def)
  then show ?thesis by (simp add: getConnectedIds_def)
qed

definition KIND_ABBREVIATIONS :: "(string \<times> string) list" where
  "KIND_ABBREVIATIONS =
     [(''HorizontalPodAutoscaler'', ''HPA''), (''PodDisruptionBudget'', ''PDB''),
      (''PersistentVolumeClaim'', ''PVC''), (''ReplicaSet'', ''RS''), (''DaemonSet'', ''DS''),
      (''StatefulSet'', ''STS''), (''ConfigMap'', ''CM''), (''NetworkPolicy'', ''NetPol'')]"

definition displayKind :: "string \<Rightarrow> string" where
  "displayKind kind = (case rec_get KIND_ABBREVIATIONS kind of None \<Rightarrow> kind | Some a \<Rightarrow> a)"

record edge_style =
  es_dasharray :: string
  es_opacity :: real
  es_stroke :: "string option"
  es_marker :: "string option"

fun EDGE_STYLES :: "edge_type \<Rightarrow> edge_style" where
  "EDGE_STYLES Owner = \<lparr>es_dasharray = [], es_opacity = 7 / 10, es_stroke = None, es_marker = None\<rparr>"
| "EDGE_STYLES Selector = \<lparr>es_dasharray = ''6,3'', es_opacity = 7 / 10, es_stroke = None, es_marker = None\<rparr>"
| "EDGE_STYLES Mount = \<lparr>es_dasharray = ''2,2'', es_opacity = 4 / 10, es_stroke = None, es_marker = None\<rparr>"
| "EDGE_STYLES IngressEdge = \<lparr>es_dasharray = ''6,3'', es_opacity = 7 / 10, es_stroke = None, es_marker = None\<rparr>"
| "EDGE_STYLES MeshVs = \<lparr>es_dasharray = ''4,2'', es_opacity = 85 / 100, es_stroke = Some ''var(--accent)'', es_marker = Some ''arrow-mesh-vs''\<rparr>"
| "EDGE_STYLES MeshSp = \<lparr>es_dasharray = ''4,2'', es_opacity = 85 / 100, es_stroke = Some ''var(--accent-secondary)'', es_marker = Some ''arrow-mesh-sp''\<rparr>"
| "EDGE_STYLES EsoAuth = \<lparr>es_dasharray = ''2,2'', es_opacity = 8 / 10, es_stroke = Some ''var(--accent)'', es_marker = Some ''arrow-eso-auth''\<rparr>"
| "EDGE_STYLES EsoSync = \<lparr>es_dasharray = ''5,2'', es_opacity = 85 / 100, es_stroke = Some ''var(--accent-secondary)'', es_marker = Some ''arrow-eso-sync''\<rparr>"
| "EDGE_STYLES EsoConsumer = \<lparr>es_dasharray = [], es_opacity = 65 / 100, es_stroke = Some ''var(--text-muted)'', es_marker = Some ''arrow-eso-consumer''\<rparr>"

text \<open>Every type that counts as an overlay has a colour and a marker of its own, and no other has.\<close>

lemma overlay_styles:
  "is_overlay_edge t \<longleftrightarrow> es_stroke (EDGE_STYLES t) \<noteq> None"
  "es_stroke (EDGE_STYLES t) \<noteq> None \<longleftrightarrow> es_marker (EDGE_STYLES t) \<noteq> None"
  by (cases t; simp add: is_overlay_edge_def is_mesh_edge_def)+

section \<open>Links\<close>

text \<open>\<open>kindRoutes\<close>: the path of a kind, and whether the namespace is part of it.\<close>

definition kindRoutes :: "(string \<times> string \<times> bool) list" where
  "kindRoutes =
     [(''Deployment'', ''/workloads/deployments'', True), (''StatefulSet'', ''/workloads/statefulsets'', True),
      (''DaemonSet'', ''/workloads/daemonsets'', True), (''Pod'', ''/workloads/pods'', True),
      (''Service'', ''/networking/services'', True), (''Ingress'', ''/networking/ingresses'', True),
      (''ConfigMap'', ''/config/configmaps'', True), (''Secret'', ''/config/secrets'', True),
      (''ExternalSecret'', ''/external-secrets/externalsecrets'', True),
      (''SecretStore'', ''/external-secrets/stores'', True),
      (''ClusterSecretStore'', ''/external-secrets/cluster-stores'', False),
      (''PersistentVolumeClaim'', ''/storage/pvcs'', True), (''Job'', ''/workloads/jobs'', True),
      (''CronJob'', ''/workloads/cronjobs'', True), (''ReplicaSet'', ''/workloads/replicasets'', True)]"

definition getResourceHref :: "string \<Rightarrow> string \<Rightarrow> string \<Rightarrow> string" where
  "getResourceHref kind ns name =
     (let eNs = encode_uri_component ns; eName = encode_uri_component name
      in case rec_get kindRoutes kind of
           Some (base, namespaced) \<Rightarrow>
             base @ (if namespaced then ''/'' @ eNs @ ''/'' @ eName else ''/'' @ eName)
         | None \<Rightarrow> ''/resources/'' @ encode_uri_component kind @ ''/'' @ eNs @ ''/'' @ eName)"

definition linked_kinds :: "string list" where
  "linked_kinds = filter (\<lambda>k. k \<noteq> ''ExternalSecret'') (map fst kindRoutes)"

lemma kind_pages:
  "list_all (\<lambda>(k, base, namespaced). k = ''ExternalSecret'' \<or> detail_page base (if namespaced then 2 else 1)) kindRoutes"
  by (simp add: kindRoutes_def detail_page_def numeral_2_eq_2 page_eval)

lemma encoded_ne: "s \<noteq> [] \<Longrightarrow> encode_uri_component s \<noteq> []"
  by (simp add: encode_Nil_iff)

text \<open>The segments of a link are those of its base and the encoded arguments.\<close>

lemma link_segments_two:
  assumes "CHR ''?'' \<notin> set base" "a \<noteq> []" "b \<noteq> []"
  shows "link_segments (base @ ''/'' @ encode_uri_component a @ ''/'' @ encode_uri_component b) =
    link_segments base @ [encode_uri_component a, encode_uri_component b]"
proof -
  have "CHR ''?'' \<notin> set (base @ ''/'' @ encode_uri_component a)" using assms(1) by simp
  from link_segments_append [OF _ _ this, of "encode_uri_component b"]
    link_segments_append [OF _ _ assms(1), of "encode_uri_component a"]
  show ?thesis using assms by (simp add: encoded_ne)
qed

lemma no_external_secret_page:
  assumes "ns \<noteq> []" "name \<noteq> []"
  shows "\<not> page_exists (''/external-secrets/externalsecrets/'' @ encode_uri_component ns @ ''/'' @ encode_uri_component name)"
  using link_segments_two [of "''/external-secrets/externalsecrets''" ns name] assms
  by (simp add: page_exists_def) (simp add: page_eval)

lemma no_resources_page:
  assumes "k \<noteq> []" "ns \<noteq> []" "name \<noteq> []"
  shows "\<not> page_exists (''/resources/'' @ encode_uri_component k @ ''/'' @ encode_uri_component ns @ ''/'' @ encode_uri_component name)"
proof -
  have "CHR ''?'' \<notin> set (''/resources/'' @ encode_uri_component k)" by simp
  from link_segments_two [OF this assms(2,3)]
  have "link_segments (''/resources/'' @ encode_uri_component k @ ''/'' @ encode_uri_component ns @ ''/'' @ encode_uri_component name)
      = link_segments (''/resources'' @ ''/'' @ encode_uri_component k) @ [encode_uri_component ns, encode_uri_component name]"
    by simp
  also have "link_segments (''/resources'' @ ''/'' @ encode_uri_component k) = [''resources'', encode_uri_component k]"
    by (subst link_segments_append) (use assms(1) in \<open>simp_all add: encoded_ne link_segments_def\<close>)
  finally show ?thesis by (simp add: page_exists_def pages_under_def)
qed

text \<open>The links of the graph's detail panel: the page of a node exists exactly for the kinds
  of the route table other than ExternalSecret, for every namespace and name, reserved
  characters included.\<close>

theorem topology_links:
  assumes "kind \<noteq> []" "ns \<noteq> []" "name \<noteq> []"
  shows "page_exists (getResourceHref kind ns name) \<longleftrightarrow> kind \<in> set linked_kinds"
proof (cases "rec_get kindRoutes kind")
  case None
  then have "kind \<notin> set (map fst kindRoutes)" by (simp add: rec_get_None_iff)
  then show ?thesis using None no_resources_page [OF assms]
    by (simp add: getResourceHref_def linked_kinds_def Let_def)
next
  case (Some r)
  obtain base namespaced where r: "r = (base, namespaced)" by (cases r)
  have m: "(kind, base, namespaced) \<in> set kindRoutes" using Some r by (simp add: rec_get_Some_in)
  then have k: "kind \<in> set (map fst kindRoutes)" by force
  show ?thesis
  proof (cases "kind = ''ExternalSecret''")
    case True
    then show ?thesis using no_external_secret_page [OF assms(2,3)]
      by (simp add: getResourceHref_def linked_kinds_def kindRoutes_def)
  next
    case False
    then have d: "detail_page base (if namespaced then 2 else 1)"
      using kind_pages m by (fastforce simp: list_all_iff)
    have "page_exists (getResourceHref kind ns name)"
      using detail_page_exists [of base "if namespaced then [ns, name] else [name]"] d assms Some r
      by (auto simp: getResourceHref_def Let_def numeral_2_eq_2)
    then show ?thesis using k False by (simp add: linked_kinds_def)
  qed
qed

theorem topology_links_witness:
  "page_exists (getResourceHref ''Pod'' ''a/b'' ''web'')
     \<and> \<not> page_exists (getResourceHref ''HorizontalPodAutoscaler'' ''prod'' ''web'')"
proof -
  have "''Pod'' \<in> set linked_kinds" "''HorizontalPodAutoscaler'' \<notin> set linked_kinds"
    by (simp_all add: linked_kinds_def kindRoutes_def)
  then show ?thesis
    using topology_links [of "''Pod''" "''a/b''" "''web''"]
      topology_links [of "''HorizontalPodAutoscaler''" "''prod''" "''web''"] by simp
qed

section \<open>Fetching\<close>

datatype overlay_mode = NoOverlay | Mesh | EsoChain

fun overlay_name :: "overlay_mode \<Rightarrow> string" where
  "overlay_name NoOverlay = ''none''"
| "overlay_name Mesh = ''mesh''"
| "overlay_name EsoChain = ''eso-chain''"

text \<open>
  The signals of the component. \<open>tv_namespace\<close> is the namespace it shows, the property or else the
  selected one; \<open>tv_pending\<close> are the requests in flight: their path, and the focused node of the
  render that sent them. A mode is compared with the \<open>overlay\<close> of a reply by name.
\<close>

record topo_view =
  tv_namespace :: string
  tv_focused :: "string option"
  tv_graph :: "topo_graph option"
  tv_loading :: bool
  tv_error :: "string option"
  tv_overlay :: overlay_mode
  tv_unavailable :: "overlay_mode option"
  tv_pending :: "(nat \<times> string \<times> string option) list"
  tv_next :: nat

definition fetchGraph :: "topo_view \<Rightarrow> topo_view" where
  "fetchGraph v =
     (if tv_namespace v = ''all'' then v
      else v\<lparr>tv_loading := True, tv_error := None,
             tv_pending := tv_pending v @ [(tv_next v,
               ''/v1/topology/'' @ tv_namespace v @
               (if tv_overlay v = NoOverlay then [] else ''?overlay='' @ overlay_name (tv_overlay v)),
               tv_focused v)],
             tv_next := tv_next v + 1\<rparr>)"

definition overlay_matches :: "overlay_result option \<Rightarrow> overlay_mode \<Rightarrow> bool" where
  "overlay_matches r m \<longleftrightarrow>
     (r = Some OverlayMesh \<and> m = Mesh) \<or> (r = Some OverlayEsoChain \<and> m = EsoChain)"

text \<open>The effect on \<open>overlayMode\<close>, run when the mode has changed.\<close>

definition set_overlay :: "overlay_mode \<Rightarrow> topo_view \<Rightarrow> topo_view" where
  "set_overlay m v = (if m = tv_overlay v then v else fetchGraph (v\<lparr>tv_overlay := m\<rparr>))"

text \<open>
  The continuation of \<open>fetchGraph\<close> sent with the node \<open>focused\<close>: a reply, or the message of what was thrown. Setting the mode to
  \<open>none\<close> runs its effect after the handler.
\<close>

definition graph_settled :: "string option \<Rightarrow> topo_graph + string \<Rightarrow> topo_view \<Rightarrow> topo_view" where
  "graph_settled focused r v =
     (case r of
        Inl data \<Rightarrow>
          (let v1 = v\<lparr>tv_graph := Some (focusedSubgraph data focused), tv_loading := False\<rparr>
           in if tg_overlay data = Some OverlayUnavailable
              then set_overlay NoOverlay (v1\<lparr>tv_unavailable := Some (tv_overlay v)\<rparr>)
              else if overlay_matches (tg_overlay data) (tv_overlay v) then v1\<lparr>tv_unavailable := None\<rparr>
              else v1)
      | Inr message \<Rightarrow> v\<lparr>tv_error := Some message, tv_graph := None, tv_loading := False\<rparr>)"

text \<open>The effect on the namespace and the focused node.\<close>

definition show_namespace :: "string \<Rightarrow> string option \<Rightarrow> topo_view \<Rightarrow> topo_view" where
  "show_namespace ns focused v =
     (let v1 = v\<lparr>tv_namespace := ns, tv_focused := focused\<rparr>
      in if ns = ''all'' then v1\<lparr>tv_loading := False\<rparr>
         else fetchGraph (v1\<lparr>tv_unavailable := None\<rparr>))"

definition view_start :: "string \<Rightarrow> string option \<Rightarrow> overlay_mode \<Rightarrow> topo_view" where
  "view_start ns focused m =
     fetchGraph (show_namespace ns focused
       \<lparr>tv_namespace = ns, tv_focused = focused, tv_graph = None, tv_loading = True, tv_error = None,
        tv_overlay = m, tv_unavailable = None, tv_pending = [], tv_next = 0\<rparr>)"

datatype topo_event = ShowNamespace string "string option" | PickOverlay overlay_mode | Refresh
  | GraphReply nat "topo_graph + string"

text \<open>A mode that is marked unavailable has its button disabled.\<close>

fun topo_step :: "topo_view \<Rightarrow> topo_event \<Rightarrow> topo_view option" where
  "topo_step v (ShowNamespace ns f) = Some (show_namespace ns f v)"
| "topo_step v (PickOverlay m) = (if tv_unavailable v = Some m then None else Some (set_overlay m v))"
| "topo_step v Refresh = Some (fetchGraph v)"
| "topo_step v (GraphReply i r) =
     (case rec_get (tv_pending v) i of
        None \<Rightarrow> None
      | Some (path, focused) \<Rightarrow> Some (graph_settled focused r (v\<lparr>tv_pending := rec_del (tv_pending v) i\<rparr>)))"

text \<open>Mounting sends two requests, one from each effect.\<close>

lemma mount_fetches_twice:
  "ns \<noteq> ''all'' \<Longrightarrow> length (tv_pending (view_start ns f m)) = 2"
  by (simp add: view_start_def show_namespace_def fetchGraph_def Let_def)

definition reply_unavailable :: topo_graph where
  "reply_unavailable = demo_graph\<lparr>tg_overlay := Some OverlayUnavailable\<rparr>"

text \<open>
  The reply is read with the mode of the moment, not the mode it was asked for: when the user has
  gone back to the base graph before the mesh request answers, the base mode itself is marked
  unavailable and its button disabled.
\<close>

lemma base_mode_disabled:
  "\<exists>v. run_events topo_step (view_start ''prod'' None NoOverlay)
       [PickOverlay Mesh, PickOverlay NoOverlay, GraphReply 2 (Inl reply_unavailable)] = Some v
     \<and> tv_unavailable v = Some NoOverlay \<and> topo_step v (PickOverlay NoOverlay) = None"
  by (simp add: view_start_def show_namespace_def fetchGraph_def set_overlay_def graph_settled_def Let_def
      reply_unavailable_def)

text \<open>
  Nor does a reply know which namespace it was asked for: the graph of a namespace the user has
  left replaces the one shown.
\<close>

lemma stale_graph_shown:
  "\<exists>v. run_events topo_step (view_start ''prod'' None NoOverlay)
       [GraphReply 0 (Inl demo_graph), GraphReply 1 (Inl demo_graph), Refresh, ShowNamespace ''test'' None,
        GraphReply 3 (Inl (demo_graph\<lparr>tg_computed_at := ''test''\<rparr>)),
        GraphReply 2 (Inl (demo_graph\<lparr>tg_computed_at := ''prod''\<rparr>))] = Some v
     \<and> tv_namespace v = ''test'' \<and> map_option tg_computed_at (tv_graph v) = Some ''prod''"
  by (simp add: view_start_def show_namespace_def fetchGraph_def set_overlay_def graph_settled_def Let_def
      focusedSubgraph_def overlay_matches_def demo_graph_def rec_del_def numeral_2_eq_2 numeral_3_eq_3)

end
