(* ===== verification/Wizard_Preview.thy ===== *)
theory Wizard_Preview
  imports Endpoints
begin

text \<open>
What the creation wizards share: the preview request with its generation counter, as every
  \<open>fetchPreview\<close> in \<open>islands/*Wizard.tsx\<close> has it (the lines of \<open>islands/NetworkPolicyWizard.tsx\<close>
  are the ones modelled), and the review step \<open>components/wizard/WizardReviewStep.tsx\<close> with the
  busy flag of \<open>lib/wizard-busy.ts\<close> and the guarded controls of \<open>islands/WizardShell.tsx\<close>.
\<close>

section \<open>The preview of a wizard\<close>

text \<open>
  \<open>previewGen\<close> is a counter; a continuation of \<open>fetchPreview\<close> remembers the value it started
  with. \<open>pv_pending\<close> are the generations whose request is in flight, \<open>pv_posted\<close> all requests so
  far, the last one first.
\<close>

record preview =
  pv_gen :: nat
  pv_yaml :: string
  pv_loading :: bool
  pv_error :: "string option"
  pv_pending :: "nat list"
  pv_posted :: "endpoint list"

definition preview_init :: preview where
  "preview_init = \<lparr>pv_gen = 0, pv_yaml = [], pv_loading = False, pv_error = None, pv_pending = [], pv_posted = []\<rparr>"

text \<open>\<open>fetchPreview\<close> up to its \<open>await\<close>, for the request built from the form.\<close>

definition fetch_preview :: "endpoint \<Rightarrow> preview \<Rightarrow> preview" where
  "fetch_preview request p =
     p\<lparr>pv_gen := pv_gen p + 1, pv_loading := True, pv_error := None,
       pv_pending := pv_pending p @ [pv_gen p + 1], pv_posted := request # pv_posted p\<rparr>"

text \<open>The reply's YAML, or what was thrown: the message of an \<open>Error\<close>, or something else.\<close>

datatype preview_reply = PreviewYaml string | PreviewFailed "string option"

definition preview_settled :: "nat \<Rightarrow> preview_reply \<Rightarrow> preview \<Rightarrow> preview" where
  "preview_settled gen r p =
     (if gen \<noteq> pv_gen p then p
      else (case r of
              PreviewYaml y \<Rightarrow> p\<lparr>pv_yaml := y\<rparr>
            | PreviewFailed m \<Rightarrow>
                p\<lparr>pv_error := Some (case m of Some t \<Rightarrow> t | None \<Rightarrow> ''Failed to generate preview'')\<rparr>)
           \<lparr>pv_loading := False\<rparr>)"

definition edit_preview :: "string \<Rightarrow> preview \<Rightarrow> preview" where
  "edit_preview y p = p\<lparr>pv_yaml := y\<rparr>"

datatype preview_event = FetchPreview endpoint | PreviewSettles nat preview_reply | EditPreview string

fun preview_step :: "preview \<Rightarrow> preview_event \<Rightarrow> preview option" where
  "preview_step p (FetchPreview request) = Some (fetch_preview request p)"
| "preview_step p (PreviewSettles g r) =
     (if g \<notin> set (pv_pending p) then None
      else Some (preview_settled g r (p\<lparr>pv_pending := remove1 g (pv_pending p)\<rparr>)))"
| "preview_step p (EditPreview y) = Some (edit_preview y p)"

definition preview_inv :: "preview \<Rightarrow> bool" where
  "preview_inv p \<longleftrightarrow>
     distinct (pv_pending p) \<and> (\<forall>g \<in> set (pv_pending p). g \<le> pv_gen p)
     \<and> (pv_loading p \<longleftrightarrow> pv_gen p \<in> set (pv_pending p))
     \<and> length (pv_posted p) = pv_gen p"

lemma preview_init_inv: "preview_inv preview_init"
  by (simp add: preview_inv_def preview_init_def)

lemma fetch_preview_inv: "preview_inv p \<Longrightarrow> preview_inv (fetch_preview rq p)"
  by (auto simp: preview_inv_def fetch_preview_def)

lemma settled_preview_inv:
  assumes "preview_inv p" "g \<in> set (pv_pending p)"
  shows "preview_inv (preview_settled g r (p\<lparr>pv_pending := remove1 g (pv_pending p)\<rparr>))"
proof (cases "g = pv_gen p")
  case True
  then show ?thesis using assms by (cases r) (auto simp: preview_inv_def preview_settled_def)
next
  case False
  then show ?thesis using assms by (auto simp: preview_inv_def preview_settled_def)
qed

lemma edit_preview_inv: "preview_inv p \<Longrightarrow> preview_inv (edit_preview y p)"
  by (simp add: preview_inv_def edit_preview_def)

lemma preview_step_inv: "preview_inv p \<Longrightarrow> preview_step p e = Some q \<Longrightarrow> preview_inv q"
  by (cases e) (auto simp: fetch_preview_inv settled_preview_inv edit_preview_inv split: if_splits)

interpretation preview: free_machine preview_step preview_inv
  by unfold_locales (rule preview_step_inv)

text \<open>The preview of a wizard shows the answer to the last request: in any run, with replies in any
  order, the loading flag is up exactly while the last request is in flight, its reply sets the
  YAML or the error and drops the flag, and a reply to an earlier request changes nothing that is
  shown.\<close>

theorem preview_latest_wins:
  assumes "run_events preview_step preview_init es = Some p"
  shows "(pv_loading p \<longleftrightarrow> pv_gen p \<in> set (pv_pending p))
    \<and> (\<forall>g r q. preview_step p (PreviewSettles g r) = Some q \<longrightarrow>
         (if g = pv_gen p
          then \<not> pv_loading q \<and> (case r of
                 PreviewYaml y \<Rightarrow> pv_yaml q = y \<and> pv_error q = pv_error p
               | PreviewFailed m \<Rightarrow> pv_yaml q = pv_yaml p \<and> pv_error q \<noteq> None)
          else pv_yaml q = pv_yaml p \<and> pv_error q = pv_error p \<and> pv_loading q = pv_loading p))"
proof (intro conjI allI impI)
  have inv: "preview_inv p" by (rule preview.runs_inv [OF preview_init_inv assms])
  then show "pv_loading p \<longleftrightarrow> pv_gen p \<in> set (pv_pending p)" by (simp add: preview_inv_def)
  fix g r q assume "preview_step p (PreviewSettles g r) = Some q"
  then have q: "q = preview_settled g r (p\<lparr>pv_pending := remove1 g (pv_pending p)\<rparr>)" by (simp split: if_splits)
  show "if g = pv_gen p
      then \<not> pv_loading q \<and> (case r of
             PreviewYaml y \<Rightarrow> pv_yaml q = y \<and> pv_error q = pv_error p
           | PreviewFailed m \<Rightarrow> pv_yaml q = pv_yaml p \<and> pv_error q \<noteq> None)
      else pv_yaml q = pv_yaml p \<and> pv_error q = pv_error p \<and> pv_loading q = pv_loading p"
    unfolding q by (cases r) (simp_all add: preview_settled_def)
qed

theorem preview_latest_wins_witness:
  "\<exists>p. run_events preview_step preview_init
       [FetchPreview (api_get ''/a''), FetchPreview (api_get ''/b''), PreviewSettles 1 (PreviewYaml ''old'')] = Some p
     \<and> pv_yaml p = [] \<and> pv_loading p"
proof -
  obtain p where p: "run_events preview_step preview_init
      [FetchPreview (api_get ''/a''), FetchPreview (api_get ''/b''), PreviewSettles 1 (PreviewYaml ''old'')] = Some p"
    by (simp add: fetch_preview_def preview_init_def)
  then have "pv_gen p = 2" "pv_pending p = [2]" "pv_yaml p = []"
    by (auto simp: fetch_preview_def preview_init_def preview_settled_def)
  then show ?thesis using preview_latest_wins [OF p, THEN conjunct1] p by auto
qed

section \<open>The review step\<close>

text \<open>
  \<open>WizardReviewStep\<close>: the signals of one mounted instance, the module-level \<open>wizardBusy\<close> and the
  applies in flight, by the instance that sent them.
\<close>

record review_instance =
  rv_applying :: bool
  rv_error :: "string option"
  rv_result :: "js option"
  rv_guard :: bool

record review =
  rw_instance :: "(nat \<times> review_instance) option"
  rw_busy :: bool
  rw_pending :: "nat list"
  rw_next :: nat
  rw_closed :: bool
  rw_posted :: "endpoint list"

definition fresh_instance :: review_instance where
  "fresh_instance = \<lparr>rv_applying = False, rv_error = None, rv_result = None, rv_guard = False\<rparr>"

definition review_init :: review where
  "review_init = \<lparr>rw_instance = None, rw_busy = False, rw_pending = [], rw_next = 0, rw_closed = False, rw_posted = []\<rparr>"

definition mount_review :: "review \<Rightarrow> review" where
  "mount_review w = w\<lparr>rw_instance := Some (rw_next w, fresh_instance), rw_next := rw_next w + 1\<rparr>"

definition unmount_review :: "review \<Rightarrow> review" where
  "unmount_review w = w\<lparr>rw_instance := None, rw_busy := False\<rparr>"

definition review_apply :: "string \<Rightarrow> review \<Rightarrow> review" where
  "review_apply yaml w =
     (case rw_instance w of
        None \<Rightarrow> w
      | Some (i, v) \<Rightarrow>
          if js_trim yaml = [] \<or> rv_guard v then w
          else w\<lparr>rw_instance := Some (i, v\<lparr>rv_guard := True, rv_applying := True, rv_error := None, rv_result := None\<rparr>),
                 rw_busy := True, rw_pending := rw_pending w @ [i],
                 rw_posted := rw_posted w @ [api_post_raw ''/v1/yaml/apply'' yaml ''text/yaml'']\<rparr>)"

text \<open>The continuation of instance \<open>i\<close>: its signals, when it is still mounted, and the global flag.\<close>

definition review_settled :: "nat \<Rightarrow> js + string option \<Rightarrow> review \<Rightarrow> review" where
  "review_settled i r w =
     (case rw_instance w of
        Some (j, v) \<Rightarrow>
          if j = i
          then (let v1 = (case r of
                     Inl data \<Rightarrow> v\<lparr>rv_result := Some data\<rparr>
                   | Inr m \<Rightarrow> v\<lparr>rv_error := Some (case m of Some t \<Rightarrow> t | None \<Rightarrow> ''Failed to apply resource'')\<rparr>)
                in w\<lparr>rw_instance := Some (j, v1\<lparr>rv_applying := False, rv_guard := False\<rparr>)\<rparr>)
          else w
      | None \<Rightarrow> w)\<lparr>rw_busy := False\<rparr>"

text \<open>\<open>guardedCancel\<close> of \<open>WizardShell\<close>.\<close>

definition guarded_cancel :: "review \<Rightarrow> review" where
  "guarded_cancel w = (if rw_busy w then w else (unmount_review w)\<lparr>rw_closed := True\<rparr>)"

datatype review_event = ShowReview | LeaveReview | PressApply string | ApplySettles nat "js + string option" | PressCancel

fun review_step :: "review \<Rightarrow> review_event \<Rightarrow> review option" where
  "review_step w ShowReview = (if rw_instance w = None \<and> \<not> rw_closed w then Some (mount_review w) else None)"
| "review_step w LeaveReview = (if rw_instance w = None then None else Some (unmount_review w))"
| "review_step w (PressApply yaml) = (if rw_instance w = None then None else Some (review_apply yaml w))"
| "review_step w (ApplySettles i r) =
     (if i \<notin> set (rw_pending w) then None
      else Some (review_settled i r (w\<lparr>rw_pending := remove1 i (rw_pending w)\<rparr>)))"
| "review_step w PressCancel = Some (guarded_cancel w)"

text \<open>Leaving the review step while an apply is in flight is what the flag does not cover.\<close>

definition stays :: "review \<Rightarrow> review_event \<Rightarrow> bool" where
  "stays w e \<longleftrightarrow> (e = LeaveReview \<longrightarrow> rw_pending w = [])"

definition review_inv :: "review \<Rightarrow> bool" where
  "review_inv w \<longleftrightarrow>
     (case rw_instance w of
        None \<Rightarrow> rw_pending w = [] \<and> \<not> rw_busy w
      | Some (i, v) \<Rightarrow>
          rw_pending w = (if rw_busy w then [i] else []) \<and> rv_guard v = rw_busy w \<and> rv_applying v = rw_busy w)"

lemma review_init_inv: "review_inv review_init"
  by (simp add: review_inv_def review_init_def)

lemma review_step_inv:
  assumes inv: "review_inv w" and ok: "stays w e" and st: "review_step w e = Some u"
  shows "review_inv u"
proof (cases e)
  case ShowReview
  then show ?thesis using inv st
    by (auto simp: review_inv_def mount_review_def fresh_instance_def split: if_splits)
next
  case LeaveReview
  then show ?thesis using ok st
    by (auto simp: review_inv_def stays_def unmount_review_def split: if_splits)
next
  case (PressApply yaml)
  then show ?thesis using inv st
    by (auto simp: review_inv_def review_apply_def split: if_splits option.splits)
next
  case (ApplySettles i r)
  then show ?thesis using inv st
    by (auto simp: review_inv_def review_settled_def Let_def split: if_splits option.splits sum.splits)
next
  case PressCancel
  then show ?thesis using inv st
    by (auto simp: review_inv_def guarded_cancel_def unmount_review_def split: if_splits option.splits)
qed

interpretation review: machine review_step stays review_inv
  by unfold_locales (rule review_step_inv)

text \<open>C37: A wizard's apply cannot be doubled or walked away from: in every run in which the user does
  not go back from the review step while it is in flight, there is at most one apply in flight,
  the busy flag is up exactly then, and while it is up pressing Apply or Cancel changes nothing.\<close>

theorem review_apply_guarded:
  assumes "run_ok review_step stays review_init es" "run_events review_step review_init es = Some w"
  shows "length (rw_pending w) \<le> 1 \<and> (rw_busy w \<longleftrightarrow> rw_pending w \<noteq> [])
    \<and> (rw_busy w \<longrightarrow> (\<forall>yaml. review_step w (PressApply yaml) = Some w) \<and> review_step w PressCancel = Some w)"
proof -
  have "review_inv w" by (rule review.run_inv [OF review_init_inv assms])
  then show ?thesis
    by (auto simp: review_inv_def review_apply_def guarded_cancel_def split: option.splits if_splits)
qed

theorem review_apply_guarded_witness:
  "\<exists>w. run_events review_step review_init [ShowReview, PressApply ''a: 1''] = Some w
     \<and> rw_busy w \<and> review_step w (PressApply ''b: 2'') = Some w"
proof -
  have t: "js_trim ''a: 1'' \<noteq> []" by code_simp
  let ?es = "[ShowReview, PressApply ''a: 1'']"
  have ok: "run_ok review_step stays review_init ?es"
    by (simp add: stays_def review_init_def mount_review_def)
  obtain w where w: "run_events review_step review_init ?es = Some w"
    by (simp add: review_init_def mount_review_def)
  have "rw_busy w" using w t by (auto simp: review_init_def mount_review_def review_apply_def fresh_instance_def)
  then show ?thesis using review_apply_guarded [OF ok w] w by blast
qed

text \<open>
  Going back to an earlier step is not guarded: the flag drops with the apply still in flight, and
  a second one can be sent from the review step mounted next.
\<close>

lemma back_unguards_apply:
  "\<exists>w. run_events review_step review_init
       [ShowReview, PressApply ''a: 1'', LeaveReview, ShowReview, PressApply ''a: 1'', ApplySettles 0 (Inl JNull)] = Some w
     \<and> rw_pending w = [1] \<and> \<not> rw_busy w"
proof -
  have t: "js_trim ''a: 1'' \<noteq> []" by code_simp
  show ?thesis
    by (simp add: review_init_def mount_review_def review_apply_def fresh_instance_def t unmount_review_def
        review_settled_def)
qed

end
