(* ===== verification/Wizard_Shell.thy ===== *)
theory Wizard_Shell
  imports Wizard_Preview
begin

text \<open>
What the creation wizards under \<open>islands/*Wizard.tsx\<close> share: label rows and indexed lists of form
  state, the constants and regular expressions of \<open>lib/wizard-constants.ts\<close> written out as
  predicates, error maps, and the step machine of \<open>goNext\<close>, \<open>goBack\<close> and the step rail. The locale
  \<open>wizard_contract\<close> states what a wizard's validation and edits must satisfy and proves, once, that
  only validated forms are sent for a preview; each wizard interprets it.
\<close>

section \<open>Form state\<close>

record label_entry =
  le_key :: string
  le_value :: string

definition newLabelEntry :: label_entry where
  "newLabelEntry = \<lparr>le_key = [], le_value = []\<rparr>"

definition blank :: "string \<Rightarrow> bool" where
  "blank s \<longleftrightarrow> js_trim s = []"

text \<open>\<open>Object.fromEntries\<close> of the entries whose key is not blank.\<close>

definition label_object :: "label_entry list \<Rightarrow> js" where
  "label_object ls =
     JObj (fold (\<lambda>l m. rec_set m (le_key l) (JStr (le_value l))) (filter (\<lambda>l. \<not> blank (le_key l)) ls) [])"

text \<open>\<open>xs.filter((_, i) => i !== idx)\<close>, and writing entry \<open>idx\<close> of a copy.\<close>

definition remove_nth :: "nat \<Rightarrow> 'a list \<Rightarrow> 'a list" where
  "remove_nth i xs = take i xs @ drop (i + 1) xs"

definition update_nth :: "nat \<Rightarrow> ('a \<Rightarrow> 'a) \<Rightarrow> 'a list \<Rightarrow> 'a list" where
  "update_nth i u xs = (if i < length xs then xs[i := u (xs ! i)] else xs)"


text \<open>The editor of a list of key and value rows (\<open>components/ui/KeyValueListEditor.tsx\<close>).\<close>

datatype label_edit = AddEntry | RemoveEntry nat | SetKey nat string | SetValue nat string

fun edit_labels :: "label_edit \<Rightarrow> label_entry list \<Rightarrow> label_entry list" where
  "edit_labels AddEntry ls = ls @ [newLabelEntry]"
| "edit_labels (RemoveEntry i) ls = remove_nth i ls"
| "edit_labels (SetKey i v) ls = update_nth i (\<lambda>l. l\<lparr>le_key := v\<rparr>) ls"
| "edit_labels (SetValue i v) ls = update_nth i (\<lambda>l. l\<lparr>le_value := v\<rparr>) ls"

text \<open>The members of an array of the payload.\<close>

fun array_items :: "js \<Rightarrow> js list" where
  "array_items (JArr xs) = xs"
| "array_items _ = []"

lemma remove_nth_set: "x \<in> set (remove_nth i xs) \<Longrightarrow> x \<in> set xs"
  by (auto simp: remove_nth_def dest: in_set_takeD in_set_dropD)

lemma length_remove_nth: "length (remove_nth i xs) = (if i < length xs then length xs - 1 else length xs)"
  by (simp add: remove_nth_def)

lemma length_update_nth [simp]: "length (update_nth i u xs) = length xs"
  by (simp add: update_nth_def)

lemma update_nth_Nil [simp]: "update_nth i u xs = [] \<longleftrightarrow> xs = []"
  by (simp add: update_nth_def)

lemma update_nth_all:
  "\<forall>x \<in> set xs. P x \<Longrightarrow> (\<And>x. P x \<Longrightarrow> P (u x)) \<Longrightarrow> \<forall>x \<in> set (update_nth i u xs). P x"
  by (auto simp: update_nth_def dest!: set_update_subset_insert [THEN subsetD])


section \<open>Validation\<close>

definition lower_alnum :: "char \<Rightarrow> bool" where
  "lower_alnum c \<longleftrightarrow> (97 \<le> char_code c \<and> char_code c \<le> 122) \<or> (48 \<le> char_code c \<and> char_code c \<le> 57)"

text \<open>\<open>/^[a-z0-9]([a-z0-9-]{0,61}[a-z0-9])?$/\<close>.\<close>

definition dns_label :: "string \<Rightarrow> bool" where
  "dns_label s \<longleftrightarrow>
     s \<noteq> [] \<and> length s \<le> 63 \<and> lower_alnum (hd s) \<and> lower_alnum (last s)
     \<and> list_all (\<lambda>c. lower_alnum c \<or> c = CHR ''-'') s"

definition MAX_PORT :: int where "MAX_PORT = 65535"

type_synonym field_errors = "(string \<times> string) list"

definition idx :: "string \<Rightarrow> nat \<Rightarrow> string" where
  "idx s i = s @ ''['' @ string_of_nat i @ '']''"


section \<open>Error maps\<close>

lemma rec_set_ne [simp]: "rec_set m k v \<noteq> []"
  by (induction m k v rule: rec_set.induct) auto

text \<open>A loop over indexed rows that only adds errors ends without one exactly when no row adds one.\<close>

lemma fold_rows_no_errors:
  assumes "\<And>i x e. g i x e = [] \<longleftrightarrow> e = [] \<and> ok x"
  shows "fold (\<lambda>(i, x). g i x) (enumerate n xs) e = [] \<longleftrightarrow> e = [] \<and> (\<forall>x \<in> set xs. ok x)"
  by (induction xs arbitrary: n e) (auto simp: assms)

lemma label_object_empty: "label_object ls = JObj [] \<longleftrightarrow> (\<forall>l \<in> set ls. blank (le_key l))"
proof -
  have "fold (\<lambda>l m. rec_set m (le_key l) (JStr (le_value l))) xs m = [] \<longleftrightarrow> xs = [] \<and> m = []"
    for xs :: "label_entry list" and m
    by (induction xs arbitrary: m) auto
  then show ?thesis by (simp add: label_object_def filter_empty_conv)
qed


section \<open>The steps of a wizard\<close>

record 'f wizard =
  wz_step :: nat
  wz_form :: 'f
  wz_errors :: field_errors
  wz_dirty :: bool
  wz_preview :: preview

definition wizard_init :: "'f \<Rightarrow> 'f wizard" where
  "wizard_init f = \<lparr>wz_step = 0, wz_form = f, wz_errors = [], wz_dirty = False, wz_preview = preview_init\<rparr>"

text \<open>
  \<open>goNext\<close> of a wizard whose last step before the review is \<open>final\<close>: the step is validated, and
  leaving that step fetches the preview.
\<close>

definition goNext :: "(nat \<Rightarrow> 'f \<Rightarrow> field_errors) \<Rightarrow> ('f \<Rightarrow> endpoint) \<Rightarrow> nat \<Rightarrow> 'f wizard \<Rightarrow> 'f wizard" where
  "goNext validate request final w =
     (let errs = validate (wz_step w) (wz_form w); w1 = w\<lparr>wz_errors := errs\<rparr>
      in if errs \<noteq> [] then w1
         else if wz_step w = final
         then w1\<lparr>wz_step := final + 1, wz_preview := fetch_preview (request (wz_form w)) (wz_preview w)\<rparr>
         else w1\<lparr>wz_step := wz_step w + 1\<rparr>)"

definition goBack :: "'f wizard \<Rightarrow> 'f wizard" where
  "goBack w = (if wz_step w > 0 then w\<lparr>wz_step := wz_step w - 1\<rparr> else w)"

definition onStep :: "nat \<Rightarrow> 'f wizard \<Rightarrow> 'f wizard" where
  "onStep i w = (if i < wz_step w then w\<lparr>wz_step := i\<rparr> else w)"

definition edit_form :: "'f \<Rightarrow> 'f wizard \<Rightarrow> 'f wizard" where
  "edit_form f w = w\<lparr>wz_form := f, wz_dirty := True\<rparr>"

lemma edit_form_simps [simp]:
  "wz_step (edit_form g w) = wz_step w" "wz_form (edit_form g w) = g" "wz_preview (edit_form g w) = wz_preview w"
  by (simp_all add: edit_form_def)

datatype 'e wizard_event =
    EditForm 'e | Continue | Back | RailStep nat | PreviewReply nat preview_reply | EditYaml string

text \<open>
  What can happen while the wizard is open: \<open>edit\<close> says which fields are there on which step, the rail has a button for each
  step, and the YAML editor is on the review step. In some wizards (\<open>closes\<close>) the button of the
  review step closes the wizard; in the others its handler is \<open>goNext\<close> as well.
\<close>

fun wizard_step ::
    "(nat \<Rightarrow> 'f \<Rightarrow> field_errors) \<Rightarrow> ('f \<Rightarrow> endpoint) \<Rightarrow> (nat \<Rightarrow> 'e \<Rightarrow> 'f \<Rightarrow> 'f option) \<Rightarrow> nat \<Rightarrow>
     bool \<Rightarrow> 'f wizard \<Rightarrow> 'e wizard_event \<Rightarrow> 'f wizard option" where
  "wizard_step validate request edit final closes w (EditForm e) =
     map_option (\<lambda>f. edit_form f w) (edit (wz_step w) e (wz_form w))"
| "wizard_step validate request edit final closes w Continue =
     (if closes \<and> wz_step w = final + 1 then None else Some (goNext validate request final w))"
| "wizard_step validate request edit final closes w Back = (if wz_step w > 0 then Some (goBack w) else None)"
| "wizard_step validate request edit final closes w (RailStep i) = (if i < final + 2 then Some (onStep i w) else None)"
| "wizard_step validate request edit final closes w (PreviewReply g r) =
     map_option (\<lambda>p. w\<lparr>wz_preview := p\<rparr>) (preview_step (wz_preview w) (PreviewSettles g r))"
| "wizard_step validate request edit final closes w (EditYaml y) =
     (if wz_step w = final + 1 then Some (w\<lparr>wz_preview := edit_preview y (wz_preview w)\<rparr>) else None)"

definition valid_form :: "(nat \<Rightarrow> 'f \<Rightarrow> field_errors) \<Rightarrow> nat \<Rightarrow> 'f \<Rightarrow> bool" where
  "valid_form validate final f \<longleftrightarrow> (\<forall>s \<le> final. validate s f = [])"

lemma valid_form_0: "valid_form v 0 f \<longleftrightarrow> v 0 f = []"
  by (simp add: valid_form_def)

lemma valid_form_Suc: "valid_form v (Suc n) f \<longleftrightarrow> valid_form v n f \<and> v (Suc n) f = []"
  unfolding valid_form_def by (auto simp: le_Suc_eq)

lemma settled_posted [simp]: "pv_posted (preview_settled g r p) = pv_posted p"
  by (cases r) (simp_all add: preview_settled_def)

text \<open>
  The contract: fields are edited before the review only, and no field of a step undoes the
  validation of an earlier one.
\<close>

locale wizard_contract =
  fixes validate :: "nat \<Rightarrow> 'f \<Rightarrow> field_errors"
    and request :: "'f \<Rightarrow> endpoint"
    and edit :: "nat \<Rightarrow> 'e \<Rightarrow> 'f \<Rightarrow> 'f option"
    and final :: nat
    and closes :: bool
  assumes edits_before_review: "edit s e f = Some g \<Longrightarrow> s \<le> final"
    and keeps_earlier: "edit s e f = Some g \<Longrightarrow> k < s \<Longrightarrow> validate k f = [] \<Longrightarrow> validate k g = []"
begin

text \<open>
  Past a step its fields are valid; on the review step the last request is the one of the form
  as it is; and everything ever posted was built from a valid form.
\<close>

definition wizard_inv :: "'f wizard \<Rightarrow> bool" where
  "wizard_inv w \<longleftrightarrow>
     (\<forall>s < wz_step w. s \<le> final \<longrightarrow> validate s (wz_form w) = [])
     \<and> (wz_step w > final \<longrightarrow> (\<exists>rest. pv_posted (wz_preview w) = request (wz_form w) # rest))
     \<and> (\<forall>rq \<in> set (pv_posted (wz_preview w)). \<exists>f. valid_form validate final f \<and> rq = request f)"

lemma init_inv: "wizard_inv (wizard_init f)"
  by (simp add: wizard_inv_def wizard_init_def preview_init_def)

lemma goNext_inv:
  assumes inv: "wizard_inv w" shows "wizard_inv (goNext validate request final w)"
proof (cases "validate (wz_step w) (wz_form w) = []")
  case False
  then show ?thesis using inv by (simp add: wizard_inv_def goNext_def)
next
  case ok: True
  then have v: "\<forall>s \<le> wz_step w. s \<le> final \<longrightarrow> validate s (wz_form w) = []"
    using inv by (auto simp: wizard_inv_def le_less)
  show ?thesis
  proof (cases "wz_step w = final")
    case True
    then have "valid_form validate final (wz_form w)" using v by (simp add: valid_form_def)
    then show ?thesis using inv v ok True by (auto simp: wizard_inv_def goNext_def fetch_preview_def)
  next
    case False
    then show ?thesis using inv v ok by (auto simp: wizard_inv_def goNext_def less_Suc_eq_le)
  qed
qed

lemma step_inv:
  assumes inv: "wizard_inv w" and st: "wizard_step validate request edit final closes w e = Some v"
  shows "wizard_inv v"
proof (cases e)
  case (EditForm x)
  then obtain g where g: "edit (wz_step w) x (wz_form w) = Some g" "v = edit_form g w" using st by auto
  then show ?thesis using inv edits_before_review [OF g(1)] keeps_earlier [OF g(1)]
    by (auto simp: wizard_inv_def edit_form_def)
next
  case Continue
  then show ?thesis using inv st goNext_inv by (auto split: if_splits)
next
  case Back
  then show ?thesis using inv st by (auto simp: wizard_inv_def goBack_def split: if_splits)
next
  case (RailStep i)
  then show ?thesis using inv st by (auto simp: wizard_inv_def onStep_def split: if_splits)
next
  case (PreviewReply g r)
  then show ?thesis using inv st by (auto simp: wizard_inv_def split: if_splits)
next
  case (EditYaml y)
  then show ?thesis using inv st by (auto simp: wizard_inv_def edit_preview_def split: if_splits)
qed

end

sublocale wizard_contract \<subseteq> running: free_machine "wizard_step validate request edit final closes" wizard_inv
  by unfold_locales (rule step_inv)

context wizard_contract begin

lemma sends_validated:
  assumes "run_events (wizard_step validate request edit final closes) (wizard_init f) es = Some w"
  shows "(\<forall>rq \<in> set (pv_posted (wz_preview w)). \<exists>f. valid_form validate final f \<and> rq = request f)
    \<and> (wz_step w > final \<longrightarrow> valid_form validate final (wz_form w)
         \<and> (\<exists>rest. pv_posted (wz_preview w) = request (wz_form w) # rest))"
  using running.runs_inv [OF init_inv assms] by (auto simp: wizard_inv_def valid_form_def)

end

text \<open>A property of the form that every edit keeps holds throughout.\<close>

locale form_invariant =
  fixes validate :: "nat \<Rightarrow> 'f \<Rightarrow> field_errors"
    and request :: "'f \<Rightarrow> endpoint"
    and edit :: "nat \<Rightarrow> 'e \<Rightarrow> 'f \<Rightarrow> 'f option"
    and final :: nat
    and closes :: bool
    and fine :: "'f \<Rightarrow> bool"
  assumes edit_keeps: "fine f \<Longrightarrow> edit s e f = Some g \<Longrightarrow> fine g"
begin

lemma form_step: "fine (wz_form w) \<Longrightarrow> wizard_step validate request edit final closes w e = Some v \<Longrightarrow> fine (wz_form v)"
  by (cases e) (auto simp: edit_form_def goNext_def goBack_def onStep_def Let_def split: if_splits dest: edit_keeps)

end

sublocale form_invariant \<subseteq> forms: free_machine "wizard_step validate request edit final closes" "\<lambda>w. fine (wz_form w)"
  by unfold_locales (rule form_step)

context form_invariant begin

lemma form_stays:
  assumes "fine f" "run_events (wizard_step validate request edit final closes) (wizard_init f) es = Some w"
  shows "fine (wz_form w)"
  by (rule forms.runs_inv [OF _ assms(2)]) (simp add: wizard_init_def assms(1))

end

text \<open>Both together: the forms that are sent have the property as well.\<close>

locale guarded_wizard = wizard_contract validate request edit final closes
    + form_invariant validate request edit final closes fine
  for validate :: "nat \<Rightarrow> 'f \<Rightarrow> field_errors"
    and request :: "'f \<Rightarrow> endpoint"
    and edit :: "nat \<Rightarrow> 'e \<Rightarrow> 'f \<Rightarrow> 'f option"
    and final :: nat
    and closes :: bool
    and fine :: "'f \<Rightarrow> bool"
begin

definition sent_inv :: "'f wizard \<Rightarrow> bool" where
  "sent_inv w \<longleftrightarrow>
     wizard_inv w \<and> fine (wz_form w)
     \<and> (\<forall>rq \<in> set (pv_posted (wz_preview w)). \<exists>f. valid_form validate final f \<and> fine f \<and> rq = request f)"

lemma goNext_posts:
  assumes "wizard_inv w"
  shows "pv_posted (wz_preview (goNext validate request final w)) = pv_posted (wz_preview w)
    \<or> (valid_form validate final (wz_form w)
       \<and> pv_posted (wz_preview (goNext validate request final w)) = request (wz_form w) # pv_posted (wz_preview w))"
  using assms by (auto simp: wizard_inv_def goNext_def fetch_preview_def valid_form_def le_less Let_def)

lemma sent_step:
  assumes inv: "sent_inv w" and st: "wizard_step validate request edit final closes w e = Some v"
  shows "sent_inv v"
proof -
  have w: "wizard_inv w" "fine (wz_form w)"
      "\<forall>rq \<in> set (pv_posted (wz_preview w)). \<exists>f. valid_form validate final f \<and> fine f \<and> rq = request f"
    using inv by (simp_all add: sent_inv_def)
  have "\<forall>rq \<in> set (pv_posted (wz_preview v)). \<exists>f. valid_form validate final f \<and> fine f \<and> rq = request f"
  proof (cases e)
    case Continue
    then show ?thesis using st goNext_posts [OF w(1)] w(2,3) by (auto split: if_splits)
  qed (use st w(3) in \<open>auto simp: goBack_def onStep_def edit_preview_def split: if_splits\<close>)
  then show ?thesis using step_inv [OF w(1) st] form_step [OF w(2) st] by (simp add: sent_inv_def)
qed

end

sublocale guarded_wizard \<subseteq> sending: free_machine "wizard_step validate request edit final closes" sent_inv
  by unfold_locales (rule sent_step)

context guarded_wizard begin

lemma sends_fine:
  assumes "fine f" "run_events (wizard_step validate request edit final closes) (wizard_init f) es = Some w"
  shows "(\<forall>rq \<in> set (pv_posted (wz_preview w)). \<exists>g. valid_form validate final g \<and> fine g \<and> rq = request g)
    \<and> (wz_step w > final \<longrightarrow> (\<exists>rest. pv_posted (wz_preview w) = request (wz_form w) # rest))
    \<and> fine (wz_form w)"
proof -
  have "sent_inv (wizard_init f)"
    using assms(1) init_inv [of f] by (simp add: sent_inv_def) (simp add: wizard_init_def preview_init_def)
  then have "sent_inv w" by (rule sending.runs_inv [OF _ assms(2)])
  then show ?thesis by (auto simp: sent_inv_def wizard_inv_def)
qed

end

text \<open>
  The button of the review step reads Close, but its handler is \<open>goNext\<close> as on every step: where
  nothing is validated it moves to a further step, on which nothing is shown.
\<close>

lemma close_advances:
  "validate (final + 1) (wz_form w) = [] \<Longrightarrow> wz_step w = final + 1 \<Longrightarrow>
   wizard_step validate request edit final False w Continue = Some (w\<lparr>wz_errors := [], wz_step := final + 2\<rparr>)"
  by (simp add: goNext_def)

end
