(* ===== verification/NetworkPolicy_Wizard.thy ===== *)
theory NetworkPolicy_Wizard
  imports Wizard_Shell
begin

text \<open>
The network policy wizard, \<open>islands/NetworkPolicyWizard.tsx\<close>: the form and the callbacks that edit
  it, the live manifest, the validation of each step, the payload of the preview request, and the
  wizard as an instance of \<open>Wizard_Shell\<close>. Regular expressions are
  written out as predicates on strings. The em dash of the peer message is a hyphen here, since
  strings are lists of 8-bit characters.
\<close>

section \<open>The form\<close>

datatype protocol = TCP | UDP | SCTP

fun protocol_name :: "protocol \<Rightarrow> string" where
  "protocol_name TCP = ''TCP''"
| "protocol_name UDP = ''UDP''"
| "protocol_name SCTP = ''SCTP''"

datatype peer_type = PodSelector | NamespaceSelector | IpBlock

record port_row =
  po_port :: int
  po_protocol :: protocol

record peer_row =
  pe_type :: peer_type
  pe_labels :: "label_entry list"
  pe_cidr :: string
  pe_except :: "string list"

record rule_row =
  ru_peers :: "peer_row list"
  ru_ports :: "port_row list"

record np_form =
  nf_name :: string
  nf_namespace :: string
  nf_selector :: "label_entry list"
  nf_types :: "string list"
  nf_ingress :: "rule_row list"
  nf_egress :: "rule_row list"

definition newPort :: port_row where
  "newPort = \<lparr>po_port = 0, po_protocol = TCP\<rparr>"

definition newPeer :: peer_row where
  "newPeer = \<lparr>pe_type = PodSelector, pe_labels = [newLabelEntry], pe_cidr = [], pe_except = []\<rparr>"

definition newRule :: rule_row where
  "newRule = \<lparr>ru_peers = [], ru_ports = []\<rparr>"

definition initialState :: "string \<Rightarrow> np_form" where
  "initialState ns =
     \<lparr>nf_name = [], nf_namespace = ns, nf_selector = [], nf_types = [''Ingress''], nf_ingress = [], nf_egress = []\<rparr>"

section \<open>The payload and the live manifest\<close>

definition buildPeer :: "peer_row \<Rightarrow> js" where
  "buildPeer peer =
     (case pe_type peer of
        IpBlock \<Rightarrow> JObj [(''ipBlock'',
          JObj [(''cidr'', JStr (pe_cidr peer)),
                (''except'', JArr (map JStr (filter (\<lambda>e. \<not> blank e) (pe_except peer))))])]
      | PodSelector \<Rightarrow> JObj [(''podSelector'', label_object (pe_labels peer))]
      | NamespaceSelector \<Rightarrow> JObj [(''namespaceSelector'', label_object (pe_labels peer))])"

definition rule_object :: "string \<Rightarrow> rule_row \<Rightarrow> js" where
  "rule_object peers_key rule =
     JObj [(peers_key, JArr (map buildPeer (ru_peers rule))),
           (''ports'', JArr (map (\<lambda>p. JObj [(''port'', JNum (po_port p)), (''protocol'', JStr (protocol_name (po_protocol p)))])
              (filter (\<lambda>p. po_port p > 0) (ru_ports rule))))]"

definition preview_payload :: "np_form \<Rightarrow> js" where
  "preview_payload f =
     JObj [(''name'', JStr (nf_name f)), (''namespace'', JStr (nf_namespace f)),
           (''podSelector'', label_object (nf_selector f)),
           (''policyTypes'', JArr (map JStr (nf_types f))),
           (''ingress'', JArr (map (rule_object ''from'') (nf_ingress f))),
           (''egress'', JArr (map (rule_object ''to'') (nf_egress f)))]"

definition preview_request :: "np_form \<Rightarrow> endpoint" where
  "preview_request f = api_post ''/v1/wizards/networkpolicy/preview'' (preview_payload f)"

definition buildManifest :: "np_form \<Rightarrow> string" where
  "buildManifest f =
     (let n = [CHR 0x0A];
          selectorLabels = js_join n (map (\<lambda>l. ''      '' @ le_key l @ '': '' @ [CHR 0x22] @ le_value l @ [CHR 0x22])
            (filter (\<lambda>l. \<not> blank (le_key l)) (nf_selector f)));
          y0 = ''apiVersion: networking.k8s.io/v1'' @ n @ ''kind: NetworkPolicy'' @ n @ ''metadata:'' @ n @ ''  name: ''
            @ (if nf_name f = [] then ''<name>'' else nf_name f) @ n @ ''  namespace: '' @ nf_namespace f @ n
            @ ''spec:'' @ n @ ''  podSelector:'';
          y1 = y0 @ (if selectorLabels \<noteq> [] then n @ ''    matchLabels:'' @ n @ selectorLabels
                     else n @ ''    matchLabels: {}'');
          y2 = y1 @ n @ ''  policyTypes:'' @ n @ js_join n (map (\<lambda>t. ''    - '' @ t) (nf_types f));
          y3 = y2 @ (if ''Ingress'' \<in> set (nf_types f) \<and> nf_ingress f \<noteq> [] then n @ ''  ingress:'' @ n @ ''    - {}'' else [])
      in y3 @ (if ''Egress'' \<in> set (nf_types f) \<and> nf_egress f \<noteq> [] then n @ ''  egress:'' @ n @ ''    - {}'' else []))"

section \<open>Validation\<close>

definition digits_between :: "nat \<Rightarrow> nat \<Rightarrow> string \<Rightarrow> bool" where
  "digits_between a b s \<longleftrightarrow>
     a \<le> length s \<and> length s \<le> b \<and> list_all (\<lambda>c. 48 \<le> char_code c \<and> char_code c \<le> 57) s"

text \<open>\<open>/^(\d{1,3}\.){3}\d{1,3}\/\d{1,2}$/\<close>.\<close>

definition cidr_shape :: "string \<Rightarrow> bool" where
  "cidr_shape s \<longleftrightarrow>
     (case js_split CHR ''/'' s of
        [ip, bits] \<Rightarrow>
          digits_between 1 2 bits
          \<and> (let octets = js_split CHR ''.'' ip in length octets = 4 \<and> list_all (digits_between 1 3) octets)
      | _ \<Rightarrow> False)"

definition port_errors :: "string \<Rightarrow> rule_row \<Rightarrow> field_errors \<Rightarrow> field_errors" where
  "port_errors rule_key rule errs =
     fold (\<lambda>(j, p) errs.
         if po_port p \<noteq> 0 \<and> (po_port p < 1 \<or> po_port p > MAX_PORT)
         then rec_set errs (idx (rule_key @ ''.ports'') j @ ''.port'') ''Must be 1-65535'' else errs)
       (enumerate 0 (ru_ports rule)) errs"

definition peer_errors :: "string \<Rightarrow> string \<Rightarrow> nat \<Rightarrow> peer_row \<Rightarrow> field_errors \<Rightarrow> field_errors" where
  "peer_errors rule_key except_key j peer errs =
     (let e1 = (if pe_type peer = IpBlock \<and> (pe_cidr peer = [] \<or> \<not> cidr_shape (pe_cidr peer))
                then rec_set errs (idx (rule_key @ ''.peers'') j @ ''.cidr'') ''Must be a valid CIDR (e.g. 10.0.0.0/8)''
                else errs);
          e2 = fold (\<lambda>(k, exc) errs.
                   if exc \<noteq> [] \<and> \<not> cidr_shape exc
                   then rec_set errs (idx (idx (except_key @ ''.peers'') j @ ''.except'') k) ''Must be a valid CIDR''
                   else errs)
                 (enumerate 0 (pe_except peer)) e1
      in if pe_type peer \<noteq> IpBlock \<and> \<not> list_ex (\<lambda>l. \<not> blank (le_key l)) (pe_labels peer)
         then rec_set e2 (idx (rule_key @ ''.peers'') j @ ''.labels'')
           ((if pe_type peer = PodSelector then ''Pod Selector'' else ''Namespace Selector'')
            @ '' peer must have at least one label key '' @ [CHR ''-'']
            @ '' an empty selector matches ALL pods/namespaces. Add a label or use IP Block instead.'')
         else e2)"

definition validateRules :: "rule_row list \<Rightarrow> string \<Rightarrow> field_errors \<Rightarrow> field_errors" where
  "validateRules rules direction errs =
     fold (\<lambda>(i, rule) errs.
         fold (\<lambda>(j, peer). peer_errors (idx direction i) (idx (direction @ ''Rules'') i) j peer)
           (enumerate 0 (ru_peers rule)) (port_errors (idx direction i) rule errs))
       (enumerate 0 rules) errs"

definition validateStep :: "nat \<Rightarrow> np_form \<Rightarrow> field_errors" where
  "validateStep step f =
     (if step = 0 then
        (let e1 = (if nf_name f = [] \<or> \<not> dns_label (nf_name f)
                   then [(''name'', ''Must be lowercase alphanumeric with hyphens, 1-63 characters'')] else []);
             e2 = (if nf_namespace f = [] then rec_set e1 ''namespace'' ''Required'' else e1)
         in if nf_types f = [] then rec_set e2 ''policyTypes'' ''At least one policy type is required'' else e2)
      else if step = 1 then
        (let e1 = (if ''Ingress'' \<in> set (nf_types f) then validateRules (nf_ingress f) ''ingress'' [] else [])
         in if ''Egress'' \<in> set (nf_types f) then validateRules (nf_egress f) ''egress'' e1 else e1)
      else [])"


section \<open>What validation guarantees\<close>

definition port_ok :: "port_row \<Rightarrow> bool" where
  "port_ok p \<longleftrightarrow> po_port p = 0 \<or> (1 \<le> po_port p \<and> po_port p \<le> MAX_PORT)"

definition peer_ok :: "peer_row \<Rightarrow> bool" where
  "peer_ok peer \<longleftrightarrow>
     (\<forall>exc \<in> set (pe_except peer). exc = [] \<or> cidr_shape exc)
     \<and> (if pe_type peer = IpBlock then cidr_shape (pe_cidr peer)
        else \<exists>l \<in> set (pe_labels peer). \<not> blank (le_key l))"

definition rule_ok :: "rule_row \<Rightarrow> bool" where
  "rule_ok rule \<longleftrightarrow> (\<forall>p \<in> set (ru_ports rule). port_ok p) \<and> (\<forall>p \<in> set (ru_peers rule). peer_ok p)"

lemma cidr_shape_ne: "\<not> cidr_shape []"
  by (simp add: cidr_shape_def)

lemma port_errors_none: "port_errors k rule e = [] \<longleftrightarrow> e = [] \<and> (\<forall>p \<in> set (ru_ports rule). port_ok p)"
  unfolding port_errors_def
  by (rule fold_rows_no_errors) (auto simp: port_ok_def MAX_PORT_def split: if_splits)

lemma peer_errors_none: "peer_errors k k' j peer e = [] \<longleftrightarrow> e = [] \<and> peer_ok peer"
proof -
  have f: "fold (\<lambda>(i, exc) errs. if exc \<noteq> [] \<and> \<not> cidr_shape exc then rec_set errs (key i) v else errs)
      (enumerate 0 xs) e = [] \<longleftrightarrow> e = [] \<and> (\<forall>exc \<in> set xs. exc = [] \<or> cidr_shape exc)"
    for key :: "nat \<Rightarrow> string" and v :: string and xs e
    by (rule fold_rows_no_errors) (auto split: if_splits)
  show ?thesis
    using cidr_shape_ne by (auto simp: peer_errors_def peer_ok_def Let_def f list_ex_iff)
qed

lemma validateRules_none: "validateRules rules d e = [] \<longleftrightarrow> e = [] \<and> (\<forall>r \<in> set rules. rule_ok r)"
proof -
  have peers: "fold (\<lambda>(j, peer). peer_errors k k' j peer) (enumerate 0 ps) e = [] \<longleftrightarrow> e = [] \<and> (\<forall>p \<in> set ps. peer_ok p)"
    for k k' ps e
    by (rule fold_rows_no_errors) (rule peer_errors_none)
  show ?thesis unfolding validateRules_def
    by (rule fold_rows_no_errors) (auto simp: peers port_errors_none rule_ok_def)
qed

text \<open>The rules of the directions that are ticked.\<close>

definition enforced :: "np_form \<Rightarrow> rule_row list" where
  "enforced f =
     (if ''Ingress'' \<in> set (nf_types f) then nf_ingress f else [])
     @ (if ''Egress'' \<in> set (nf_types f) then nf_egress f else [])"

lemma validate_rules: "validateStep 1 f = [] \<longleftrightarrow> (\<forall>r \<in> set (enforced f). rule_ok r)"
  by (auto simp: validateStep_def enforced_def validateRules_none Let_def)

lemma validate_basics:
  "validateStep 0 f = [] \<longleftrightarrow> dns_label (nf_name f) \<and> nf_namespace f \<noteq> [] \<and> nf_types f \<noteq> []"
  by (auto simp: validateStep_def Let_def dns_label_def)

lemma valid_np_form: "valid_form validateStep 1 f \<longleftrightarrow> validateStep 0 f = [] \<and> validateStep 1 f = []"
  using valid_form_Suc [of validateStep 0 f] by (simp add: valid_form_0)

text \<open>An empty selector selects every pod or namespace.\<close>

definition selects_all :: "js \<Rightarrow> bool" where
  "selects_all peer \<longleftrightarrow>
     js_get peer ''podSelector'' = JObj [] \<or> js_get peer ''namespaceSelector'' = JObj []"

lemma peer_ok_selects: "peer_ok peer \<Longrightarrow> \<not> selects_all (buildPeer peer)"
  by (cases "pe_type peer")
     (auto simp: selects_all_def buildPeer_def peer_ok_def label_object_empty)

text \<open>What the server is asked for: the peers and ports of a rule object.\<close>

definition rule_sound :: "string \<Rightarrow> js \<Rightarrow> bool" where
  "rule_sound peers_key r \<longleftrightarrow>
     (\<forall>peer \<in> set (array_items (js_get r peers_key)). \<not> selects_all peer)
     \<and> (\<forall>p \<in> set (array_items (js_get r ''ports'')). \<exists>n. js_get p ''port'' = JNum n \<and> 1 \<le> n \<and> n \<le> MAX_PORT)"

lemma rule_ok_sound: "rule_ok r \<Longrightarrow> k \<noteq> ''ports'' \<Longrightarrow> rule_sound k (rule_object k r)"
  by (auto simp: rule_ok_def rule_sound_def rule_object_def port_ok_def peer_ok_selects)


definition demo_form :: np_form where
  "demo_form =
     \<lparr>nf_name = ''web'', nf_namespace = ''prod'', nf_selector = [], nf_types = [''Ingress''],
      nf_ingress = [\<lparr>ru_peers = [\<lparr>pe_type = PodSelector, pe_labels = [\<lparr>le_key = ''app'', le_value = ''web''\<rparr>],
                                  pe_cidr = [], pe_except = []\<rparr>],
                     ru_ports = [\<lparr>po_port = 80, po_protocol = TCP\<rparr>]\<rparr>],
      nf_egress = []\<rparr>"

lemma demo_form_valid: "validateStep 0 demo_form = []" "validateStep 1 demo_form = []"
proof -
  have "dns_label ''web''" by code_simp
  then show "validateStep 0 demo_form = []" by (simp add: validate_basics demo_form_def)
  have "\<not> blank ''app''" by code_simp
  then show "validateStep 1 demo_form = []"
    by (simp add: validate_rules [simplified] enforced_def rule_ok_def port_ok_def peer_ok_def demo_form_def MAX_PORT_def)
qed


text \<open>The rules of a direction that is not ticked are sent all the same, and not validated.\<close>

lemma unticked_rules_sent:
  "\<exists>f. valid_form validateStep 1 f \<and> (\<exists>r \<in> set (array_items (js_get (preview_payload f) ''ingress'')). \<not> rule_sound ''from'' r)"
proof -
  let ?f = "demo_form\<lparr>nf_types := [''Egress''], nf_ingress := [\<lparr>ru_peers = [newPeer], ru_ports = []\<rparr>]\<rparr>"
  have "dns_label ''web''" by code_simp
  then have "valid_form validateStep 1 ?f"
    unfolding valid_np_form by (simp add: validate_basics validate_rules [simplified] enforced_def) (simp add: demo_form_def)
  moreover have b: "blank []" by code_simp
  have "\<not> rule_sound ''from'' (rule_object ''from'' \<lparr>ru_peers = [newPeer], ru_ports = []\<rparr>)"
    by (simp add: rule_sound_def rule_object_def selects_all_def buildPeer_def newPeer_def newLabelEntry_def
        label_object_empty b)
  ultimately show ?thesis by (intro exI [of _ ?f]) (simp add: preview_payload_def)
qed

text \<open>
  A port row left blank (port 0) is dropped from the payload: a rule whose only port row is blank
  is sent with no port at all, which matches all ports.
\<close>

lemma blank_port_row_dropped:
  "rule_ok \<lparr>ru_peers = [], ru_ports = [newPort]\<rparr>
   \<and> js_get (rule_object ''from'' \<lparr>ru_peers = [], ru_ports = [newPort]\<rparr>) ''ports'' = JArr []"
  by (simp add: rule_ok_def port_ok_def newPort_def rule_object_def)

section \<open>Editing the form\<close>

datatype direction = Ingress | Egress

fun type_name :: "direction \<Rightarrow> string" where
  "type_name Ingress = ''Ingress''"
| "type_name Egress = ''Egress''"

text \<open>The controls of the editors, by the callback they call.\<close>

datatype peer_edit =
    SetPeerType peer_type | AddLabel | RemoveLabel nat | SetLabelKey nat string | SetLabelValue nat string
  | SetCidr string | AddExcept | RemoveExcept nat | SetExcept nat string

fun edit_peer :: "peer_edit \<Rightarrow> peer_row \<Rightarrow> peer_row" where
  "edit_peer (SetPeerType t) p = p\<lparr>pe_type := t, pe_labels := [newLabelEntry], pe_cidr := [], pe_except := []\<rparr>"
| "edit_peer AddLabel p = p\<lparr>pe_labels := pe_labels p @ [newLabelEntry]\<rparr>"
| "edit_peer (RemoveLabel i) p = p\<lparr>pe_labels := remove_nth i (pe_labels p)\<rparr>"
| "edit_peer (SetLabelKey i v) p = p\<lparr>pe_labels := update_nth i (\<lambda>l. l\<lparr>le_key := v\<rparr>) (pe_labels p)\<rparr>"
| "edit_peer (SetLabelValue i v) p = p\<lparr>pe_labels := update_nth i (\<lambda>l. l\<lparr>le_value := v\<rparr>) (pe_labels p)\<rparr>"
| "edit_peer (SetCidr v) p = p\<lparr>pe_cidr := v\<rparr>"
| "edit_peer AddExcept p = p\<lparr>pe_except := pe_except p @ [[]]\<rparr>"
| "edit_peer (RemoveExcept i) p = p\<lparr>pe_except := remove_nth i (pe_except p)\<rparr>"
| "edit_peer (SetExcept i v) p = p\<lparr>pe_except := update_nth i (\<lambda>_. v) (pe_except p)\<rparr>"

datatype rule_edit =
    AddPeer | RemovePeer nat | EditPeer nat peer_edit
  | AddPort | RemovePort nat | SetPort nat int | SetProtocol nat protocol

fun edit_rule :: "rule_edit \<Rightarrow> rule_row \<Rightarrow> rule_row" where
  "edit_rule AddPeer r = r\<lparr>ru_peers := ru_peers r @ [newPeer]\<rparr>"
| "edit_rule (RemovePeer i) r = r\<lparr>ru_peers := remove_nth i (ru_peers r)\<rparr>"
| "edit_rule (EditPeer i e) r = r\<lparr>ru_peers := update_nth i (edit_peer e) (ru_peers r)\<rparr>"
| "edit_rule AddPort r = r\<lparr>ru_ports := ru_ports r @ [newPort]\<rparr>"
| "edit_rule (RemovePort i) r = r\<lparr>ru_ports := remove_nth i (ru_ports r)\<rparr>"
| "edit_rule (SetPort i n) r = r\<lparr>ru_ports := update_nth i (\<lambda>p. p\<lparr>po_port := n\<rparr>) (ru_ports r)\<rparr>"
| "edit_rule (SetProtocol i t) r = r\<lparr>ru_ports := update_nth i (\<lambda>p. p\<lparr>po_protocol := t\<rparr>) (ru_ports r)\<rparr>"

text \<open>The fields of the first step, and the rules of the second.\<close>

datatype basics_edit =
    SetName string | SetNamespace string
  | AddSelector | RemoveSelector nat | SetSelectorKey nat string | SetSelectorValue nat string
  | ToggleType direction bool

fun togglePolicyType :: "string \<Rightarrow> bool \<Rightarrow> np_form \<Rightarrow> np_form" where
  "togglePolicyType t checked f =
     f\<lparr>nf_types := (if checked then nf_types f @ [t] else filter (\<lambda>u. u \<noteq> t) (nf_types f))\<rparr>"

fun edit_basics :: "basics_edit \<Rightarrow> np_form \<Rightarrow> np_form" where
  "edit_basics (SetName v) f = f\<lparr>nf_name := v\<rparr>"
| "edit_basics (SetNamespace v) f = f\<lparr>nf_namespace := v\<rparr>"
| "edit_basics AddSelector f = f\<lparr>nf_selector := nf_selector f @ [newLabelEntry]\<rparr>"
| "edit_basics (RemoveSelector i) f = f\<lparr>nf_selector := remove_nth i (nf_selector f)\<rparr>"
| "edit_basics (SetSelectorKey i v) f = f\<lparr>nf_selector := update_nth i (\<lambda>l. l\<lparr>le_key := v\<rparr>) (nf_selector f)\<rparr>"
| "edit_basics (SetSelectorValue i v) f = f\<lparr>nf_selector := update_nth i (\<lambda>l. l\<lparr>le_value := v\<rparr>) (nf_selector f)\<rparr>"
| "edit_basics (ToggleType d checked) f = togglePolicyType (type_name d) checked f"

datatype rules_edit = AddRule | RemoveRule nat | EditRule nat rule_edit

fun edit_rules :: "rules_edit \<Rightarrow> rule_row list \<Rightarrow> rule_row list" where
  "edit_rules AddRule rs = rs @ [newRule]"
| "edit_rules (RemoveRule i) rs = remove_nth i rs"
| "edit_rules (EditRule i e) rs = update_nth i (edit_rule e) rs"

fun edit_direction :: "direction \<Rightarrow> rules_edit \<Rightarrow> np_form \<Rightarrow> np_form" where
  "edit_direction Ingress e f = f\<lparr>nf_ingress := edit_rules e (nf_ingress f)\<rparr>"
| "edit_direction Egress e f = f\<lparr>nf_egress := edit_rules e (nf_egress f)\<rparr>"

text \<open>The fields of the two steps; the rules of a direction are shown while it is ticked.\<close>

datatype np_edit = EditBasics basics_edit | EditDirection direction rules_edit

fun np_fields :: "nat \<Rightarrow> np_edit \<Rightarrow> np_form \<Rightarrow> np_form option" where
  "np_fields step (EditBasics e) f = (if step = 0 then Some (edit_basics e f) else None)"
| "np_fields step (EditDirection d e) f =
     (if step = 1 \<and> type_name d \<in> set (nf_types f) then Some (edit_direction d e f) else None)"

section \<open>The wizard\<close>

definition np_wizard_step :: "np_form wizard \<Rightarrow> np_edit wizard_event \<Rightarrow> np_form wizard option" where
  "np_wizard_step = wizard_step validateStep preview_request np_fields 1 False"

lemma edit_direction_basics: "validateStep 0 (edit_direction d e f) = validateStep 0 f"
  by (cases d) (simp_all add: validateStep_def)

interpretation np_wizard: wizard_contract validateStep preview_request np_fields 1 False
proof
  fix s k :: nat and e f g
  assume g: "np_fields s e f = Some g"
  then show "s \<le> 1" by (cases e) (auto split: if_splits)
  assume "k < s" "validateStep k f = []"
  then show "validateStep k g = []" using g
    by (cases e) (auto simp: edit_direction_basics split: if_splits)
qed

text \<open>C15: The server is only ever asked to preview a validated policy: whatever the user does in the
  wizard, in any order and with any late replies, every request posted was built from a form that
  passed the validation of both steps; and on the review step the form shown passes it and the
  last request is the one built from it.\<close>

theorem wizard_sends_validated:
  assumes "run_events np_wizard_step (wizard_init (initialState ns)) es = Some w"
  shows "(\<forall>rq \<in> set (pv_posted (wz_preview w)). \<exists>f. valid_form validateStep 1 f \<and> rq = preview_request f)
    \<and> (wz_step w > 1 \<longrightarrow> valid_form validateStep 1 (wz_form w)
         \<and> (\<exists>rest. pv_posted (wz_preview w) = preview_request (wz_form w) # rest))"
  using np_wizard.sends_validated assms unfolding np_wizard_step_def by blast

theorem wizard_sends_validated_witness:
  "\<exists>w. run_events np_wizard_step (wizard_init (initialState ''prod''))
       [EditForm (EditBasics (SetName ''web'')), Continue, Continue] = Some w
     \<and> wz_step w = 2 \<and> valid_form validateStep 1 (wz_form w)"
proof -
  let ?es = "[EditForm (EditBasics (SetName ''web'')), Continue, Continue]"
  have d: "dns_label ''web''" by code_simp
  obtain w where w: "run_events np_wizard_step (wizard_init (initialState ''prod'')) ?es = Some w"
    by (simp add: wizard_init_def np_wizard_step_def)
  have "wz_step w = 2" using w d
    by (auto simp: wizard_init_def np_wizard_step_def edit_form_def goNext_def initialState_def validate_basics
        validate_rules [simplified] enforced_def Let_def split: if_splits)
  then show ?thesis using wizard_sends_validated [OF w] w by auto
qed

end
