(* ===== verification/Resource_Table.thy ===== *)
theory Resource_Table
  imports Endpoints Interfaces
begin

text \<open>
\<open>islands/ResourceTable.tsx\<close>, the list of one kind of resource: pages fetched over REST, watch events
  applied once per animation frame, and the signals of the toolbar. The table is run against a server whose
  history of changes it sees through a watch stream and listings, and proved to converge to it; the
  situations in which it does not (\<open>keeps_up\<close>) are excluded and shown to occur.
\<close>

section \<open>Resources\<close>

text \<open>
  A resource is untyped JSON here; the code reads typed members of it. \<open>meta\<close> is
  \<open>r.metadata[k]\<close>, and \<open>meta_text\<close> a string member with \<open>?? ""\<close>.
\<close>

definition meta :: "js \<Rightarrow> string \<Rightarrow> js" where
  "meta r k = js_get (js_get r ''metadata'') k"

definition meta_text :: "js \<Rightarrow> string \<Rightarrow> string" where
  "meta_text r k = (case meta r k of JStr s \<Rightarrow> s | _ \<Rightarrow> [])"

definition uid_of :: "js \<Rightarrow> js" where
  "uid_of r = meta r ''uid''"

definition EVENT_ADDED :: string where "EVENT_ADDED = ''ADDED''"
definition EVENT_MODIFIED :: string where "EVENT_MODIFIED = ''MODIFIED''"
definition EVENT_DELETED :: string where "EVENT_DELETED = ''DELETED''"
definition EVENT_RESYNC :: string where "EVENT_RESYNC = ''RESYNC''"

record ws_event =
  we_type :: string
  we_object :: js

section \<open>The table\<close>

text \<open>
  The signals and refs of the island. \<open>rt_fetch\<close> is \<open>fetchAbort.current\<close>, by the number of the
  call that made it; \<open>rt_calls\<close> are the calls in flight: whether they append, whether they were
  aborted, their path, and the namespace it names (which only the statements below look at).
\<close>

record fetch_call =
  fc_append :: bool
  fc_aborted :: bool
  fc_path :: string
  fc_ns :: string

record resource_table =
  rt_kind :: string
  rt_ws :: bool
  rt_ns :: string
  rt_items :: "js list"
  rt_loading :: bool
  rt_error :: "string option"
  rt_search :: string
  rt_status :: string
  rt_sort_key :: string
  rt_ascending :: bool
  rt_continue :: "string option"
  rt_total :: "int option"
  rt_loading_more :: bool
  rt_fetch :: "nat option"
  rt_calls :: "(nat \<times> fetch_call) list"
  rt_next :: nat
  rt_queue :: "ws_event list"
  rt_frame :: bool
  rt_subscribed :: "(string \<times> string \<times> string) option"

definition PAGE_SIZE :: int where "PAGE_SIZE = 100"

definition table_init :: "string \<Rightarrow> bool \<Rightarrow> resource_table" where
  "table_init kind ws =
     \<lparr>rt_kind = kind, rt_ws = ws, rt_ns = [], rt_items = [], rt_loading = True, rt_error = None, rt_search = [],
      rt_status = ''all'', rt_sort_key = ''name'', rt_ascending = True, rt_continue = None, rt_total = None,
      rt_loading_more = False, rt_fetch = None, rt_calls = [], rt_next = 0, rt_queue = [], rt_frame = False,
      rt_subscribed = None\<rparr>"

text \<open>\<open>ns\<close>: the namespace of the API calls.\<close>

definition table_ns :: "bool \<Rightarrow> string \<Rightarrow> string" where
  "table_ns clusterScoped selected = (if clusterScoped then [] else if selected = ''all'' then [] else selected)"

section \<open>Fetching\<close>

definition abort_call :: "nat \<Rightarrow> (nat \<times> fetch_call) list \<Rightarrow> (nat \<times> fetch_call) list" where
  "abort_call i cs = map (\<lambda>(j, c). (j, if j = i then c\<lparr>fc_aborted := True\<rparr> else c)) cs"

definition abort_fetch :: "resource_table \<Rightarrow> resource_table" where
  "abort_fetch t = (case rt_fetch t of None \<Rightarrow> t | Some i \<Rightarrow> t\<lparr>rt_calls := abort_call i (rt_calls t)\<rparr>)"

definition list_path :: "bool \<Rightarrow> resource_table \<Rightarrow> string" where
  "list_path next_page t =
     (let basePath = (if rt_ns t \<noteq> [] then ''/v1/resources/'' @ rt_kind t @ ''/'' @ rt_ns t
                      else ''/v1/resources/'' @ rt_kind t);
          params = [(''limit'', string_of_int PAGE_SIZE)]
            @ (if next_page \<and> has_text (rt_continue t) then [(''continue'', the (rt_continue t))] else [])
      in basePath @ ''?'' @ params_to_string params)"

definition fetchResources :: "bool \<Rightarrow> resource_table \<Rightarrow> resource_table" where
  "fetchResources next_page t =
     (let t1 = abort_fetch t; i = rt_next t;
          t2 = (if next_page then t1\<lparr>rt_loading_more := True\<rparr> else t1\<lparr>rt_loading := True\<rparr>)
      in t2\<lparr>rt_error := None, rt_fetch := Some i, rt_next := i + 1,
            rt_calls := rt_calls t2 @ [(i, \<lparr>fc_append = next_page, fc_aborted = False, fc_path = list_path next_page t,
                                           fc_ns = rt_ns t\<rparr>)]\<rparr>)"

text \<open>What the awaited call gives: the items with the metadata, or what was thrown.\<close>

datatype list_reply =
    ListPage "js list" "string option" "int option"
  | ListFailed bool "string option"

definition append_unique :: "js list \<Rightarrow> js list \<Rightarrow> js list" where
  "append_unique items new = items @ filter (\<lambda>r. uid_of r \<notin> uid_of ` set items) new"

definition fetch_settled :: "nat \<Rightarrow> fetch_call \<Rightarrow> list_reply \<Rightarrow> resource_table \<Rightarrow> resource_table" where
  "fetch_settled i c r t =
     (let t1 = (case r of
            ListPage new cont tot \<Rightarrow>
              if fc_aborted c then t
              else t\<lparr>rt_items := (if fc_append c then append_unique (rt_items t) new else new),
                     rt_continue := cont, rt_total := tot\<rparr>
          | ListFailed is_abort message \<Rightarrow>
              if fc_aborted c \<or> is_abort then t
              else (let t' = t\<lparr>rt_error := Some (case message of Some m \<Rightarrow> m | None \<Rightarrow> ''Failed to load resources'')\<rparr>
                    in if \<not> fc_append c then t'\<lparr>rt_items := []\<rparr> else t'))
      in if rt_fetch t1 = Some i then t1\<lparr>rt_loading := False, rt_loading_more := False\<rparr> else t1)"

section \<open>Watch events\<close>

definition push_event :: "ws_event \<Rightarrow> resource_table \<Rightarrow> resource_table" where
  "push_event e t = t\<lparr>rt_queue := rt_queue t @ [e], rt_frame := True\<rparr>"

fun is_object :: "js \<Rightarrow> bool" where
  "is_object (JObj r) = True"
| "is_object (JArr xs) = True"
| "is_object v = False"

definition apply_event :: "ws_event \<Rightarrow> js list \<Rightarrow> js list" where
  "apply_event e current =
     (let resource = we_object e; uid = uid_of resource
      in if \<not> is_object resource \<or> \<not> truthy uid then current
         else if we_type e = EVENT_ADDED
         then (if uid \<notin> uid_of ` set current then current @ [resource] else current)
         else if we_type e = EVENT_MODIFIED then map (\<lambda>r. if uid_of r = uid then resource else r) current
         else if we_type e = EVENT_DELETED then filter (\<lambda>r. uid_of r \<noteq> uid) current
         else current)"

definition flushEvents :: "resource_table \<Rightarrow> resource_table" where
  "flushEvents t =
     (let batch = rt_queue t; t1 = t\<lparr>rt_frame := False, rt_queue := []\<rparr>
      in if batch = [] then t1
         else if \<exists>e \<in> set batch. we_type e = EVENT_RESYNC then fetchResources False t1
         else t1\<lparr>rt_items := fold apply_event batch (rt_items t1)\<rparr>)"

section \<open>The effect\<close>

definition leave :: "resource_table \<Rightarrow> resource_table" where
  "leave t = (abort_fetch (t\<lparr>rt_subscribed := None\<rparr>))\<lparr>rt_frame := False, rt_queue := []\<rparr>"

definition enter :: "string \<Rightarrow> resource_table \<Rightarrow> resource_table" where
  "enter ns t =
     fetchResources False
       (t\<lparr>rt_ns := ns,
          rt_subscribed := (if rt_ws t
            then Some (rt_kind t @ ''-'' @ (if ns \<noteq> [] then ns else ''all''), rt_kind t, ns) else None)\<rparr>)"

definition handleSort :: "string \<Rightarrow> resource_table \<Rightarrow> resource_table" where
  "handleSort key t =
     (if rt_sort_key t = key then t\<lparr>rt_ascending := \<not> rt_ascending t\<rparr>
      else t\<lparr>rt_sort_key := key, rt_ascending := True\<rparr>)"

datatype table_event =
    ShowNs string | Refresh | LoadMore | Frame | WsEvent ws_event | ListReply nat list_reply
  | SearchInput string | StatusChip string | SortBy string

text \<open>
  What can happen in a mounted table; an aborted call can still be answered, but only an aborted
  one is rejected with an \<open>AbortError\<close>.
\<close>

fun table_step :: "resource_table \<Rightarrow> table_event \<Rightarrow> resource_table option" where
  "table_step t (ShowNs ns) = Some (enter ns (leave t))"
| "table_step t Refresh = Some (fetchResources False t)"
| "table_step t LoadMore =
     (if has_text (rt_continue t) \<and> \<not> rt_loading_more t then Some (fetchResources True t) else None)"
| "table_step t Frame = (if rt_frame t then Some (flushEvents t) else None)"
| "table_step t (WsEvent e) = (if rt_subscribed t = None then None else Some (push_event e t))"
| "table_step t (ListReply i r) =
     (case rec_get (rt_calls t) i of
        None \<Rightarrow> None
      | Some c \<Rightarrow>
          if (\<exists>m. r = ListFailed True m) \<and> \<not> fc_aborted c then None
          else Some (fetch_settled i c r (t\<lparr>rt_calls := rec_del (rt_calls t) i\<rparr>)))"
| "table_step t (SearchInput s) = Some (t\<lparr>rt_search := s\<rparr>)"
| "table_step t (StatusChip s) = Some (t\<lparr>rt_status := s\<rparr>)"
| "table_step t (SortBy k) = Some (handleSort k t)"


section \<open>The server\<close>

text \<open>
  The server's history of one kind: what happened to which object in which namespace. An object
  is created once (its uid is new), and is changed and deleted only while it exists, in the
  namespace it was created in; this is what Kubernetes promises of uids.
\<close>

record change =
  ch_type :: string
  ch_object :: js
  ch_ns :: string

definition ch_uid :: "change \<Rightarrow> js" where
  "ch_uid e = uid_of (ch_object e)"

definition stored :: "change \<Rightarrow> js option \<Rightarrow> js option" where
  "stored e x = (if ch_type e = EVENT_DELETED then None else Some (ch_object e))"

text \<open>The object with a uid after a history.\<close>

definition server_at :: "change list \<Rightarrow> js \<Rightarrow> js option" where
  "server_at hist u = fold stored (filter (\<lambda>e. ch_uid e = u) hist) None"

definition fits :: "change list \<Rightarrow> change \<Rightarrow> bool" where
  "fits hist e \<longleftrightarrow>
     is_object (ch_object e) \<and> truthy (ch_uid e)
     \<and> (ch_type e = EVENT_ADDED \<and> ch_uid e \<notin> ch_uid ` set hist
        \<or> (ch_type e = EVENT_MODIFIED \<or> ch_type e = EVENT_DELETED)
          \<and> server_at hist (ch_uid e) \<noteq> None \<and> (\<forall>d \<in> set hist. ch_uid d = ch_uid e \<longrightarrow> ch_ns d = ch_ns e))"

definition well_formed :: "change list \<Rightarrow> bool" where
  "well_formed hist \<longleftrightarrow> (\<forall>i < length hist. fits (take i hist) (hist ! i))"

text \<open>The part of the history that a subscription to \<open>ns\<close> covers; the empty one covers all.\<close>

definition in_ns :: "string \<Rightarrow> change \<Rightarrow> bool" where
  "in_ns ns e \<longleftrightarrow> ns = [] \<or> ch_ns e = ns"

definition stream :: "string \<Rightarrow> change list \<Rightarrow> change list" where
  "stream ns hist = filter (in_ns ns) hist"

definition message :: "change \<Rightarrow> ws_event" where
  "message e = \<lparr>we_type = ch_type e, we_object = ch_object e\<rparr>"

subsection \<open>Histories\<close>

lemmas event_names = EVENT_ADDED_def EVENT_MODIFIED_def EVENT_DELETED_def EVENT_RESYNC_def

lemma well_formed_snoc: "well_formed (hist @ [e]) \<longleftrightarrow> well_formed hist \<and> fits hist e"
  by (auto simp: well_formed_def nth_append less_Suc_eq)

lemma well_formed_Nil [simp]: "well_formed []"
  by (simp add: well_formed_def)

lemma well_formed_append: "well_formed (xs @ ys) \<Longrightarrow> well_formed xs"
  by (induction ys rule: rev_induct) (auto simp: well_formed_snoc simp flip: append_assoc)

lemma server_at_snoc:
  "server_at (hist @ [e]) u = (if ch_uid e = u then stored e (server_at hist u) else server_at hist u)"
  by (simp add: server_at_def)

lemma server_at_Nil [simp]: "server_at [] u = None"
  by (simp add: server_at_def)

lemma server_at_uid: "server_at hist u = Some r \<Longrightarrow> uid_of r = u \<and> u \<in> ch_uid ` set hist"
proof (induction hist rule: rev_induct)
  case (snoc e hist)
  then show ?case by (auto simp: server_at_snoc stored_def ch_uid_def split: if_splits)
qed simp

text \<open>A deleted object does not come back.\<close>

lemma no_delete_of_live:
  "well_formed hist \<Longrightarrow> server_at hist u \<noteq> None \<Longrightarrow> e \<in> set hist \<Longrightarrow> ch_uid e = u \<Longrightarrow> ch_type e \<noteq> EVENT_DELETED"
proof (induction hist arbitrary: e rule: rev_induct)
  case (snoc d hist)
  show ?case
  proof (cases "ch_uid d = u")
    case False
    then show ?thesis using snoc by (auto simp: server_at_snoc well_formed_snoc)
  next
    case True
    then have d: "ch_type d \<noteq> EVENT_DELETED" using snoc.prems(2) by (auto simp: server_at_snoc stored_def)
    have "ch_type d = EVENT_ADDED \<and> u \<notin> ch_uid ` set hist \<or> server_at hist u \<noteq> None"
      using snoc.prems(1) True by (auto simp: well_formed_snoc fits_def)
    then show ?thesis using snoc d by (auto simp: well_formed_snoc)
  qed
qed simp

text \<open>A namespace sees all or none of the life of an object.\<close>

lemma one_ns:
  "well_formed hist \<Longrightarrow> d \<in> set hist \<Longrightarrow> e \<in> set hist \<Longrightarrow> ch_uid d = ch_uid e \<Longrightarrow> ch_ns d = ch_ns e"
proof (induction hist arbitrary: d e rule: rev_induct)
  case (snoc x hist)
  have w: "well_formed hist" "fits hist x" using snoc.prems(1) by (simp_all add: well_formed_snoc)
  have x: "ch_ns y = ch_ns x" if "y \<in> set hist" "ch_uid y = ch_uid x" for y
  proof -
    have "ch_uid x \<in> ch_uid ` set hist" using that by (metis imageI)
    then show ?thesis using w(2) that by (auto simp: fits_def)
  qed
  from snoc.prems(2,3) consider "d \<in> set hist" "e \<in> set hist" | "d = x" "e \<in> set hist"
    | "d \<in> set hist" "e = x" | "d = x" "e = x" by auto
  then show ?case
  proof cases
    case 1
    then show ?thesis using snoc.IH [OF w(1) 1 snoc.prems(4)] by simp
  next
    case 2
    then show ?thesis using x [of e] snoc.prems(4) by simp
  next
    case 3
    then show ?thesis using x [of d] snoc.prems(4) by simp
  next
    case 4
    then show ?thesis by simp
  qed
qed simp

lemma stream_server:
  assumes "well_formed (hist @ [e])" "in_ns ns e"
  shows "server_at (stream ns hist) (ch_uid e) = server_at hist (ch_uid e)"
proof -
  have "in_ns ns d" if "d \<in> set hist" "ch_uid d = ch_uid e" for d
    using one_ns [OF assms(1), of d e] that assms(2) by (auto simp: in_ns_def)
  then have "filter (\<lambda>d. ch_uid d = ch_uid e) (stream ns hist) = filter (\<lambda>d. ch_uid d = ch_uid e) hist"
    unfolding stream_def filter_filter by (intro filter_cong) auto
  then show ?thesis by (simp add: server_at_def)
qed

lemma stream_well_formed: "well_formed hist \<Longrightarrow> well_formed (stream ns hist)"
proof (induction hist rule: rev_induct)
  case (snoc e hist)
  then have w: "well_formed hist" "fits hist e" by (simp_all add: well_formed_snoc)
  show ?case
  proof (cases "in_ns ns e")
    case True
    have "fits (stream ns hist) e"
      using w(2) stream_server [OF snoc.prems True] by (auto simp: fits_def stream_def)
    then show ?thesis using snoc.IH [OF w(1)] True
      by (simp add: stream_def well_formed_snoc)
  next
    case False
    then show ?thesis using snoc.IH [OF w(1)] by (simp add: stream_def)
  qed
qed (simp add: stream_def)

subsection \<open>The rows as a map\<close>

definition row :: "js list \<Rightarrow> js \<Rightarrow> js option" where
  "row items u = find (\<lambda>r. uid_of r = u) items"

definition seen :: "change \<Rightarrow> js option \<Rightarrow> js option" where
  "seen e x =
     (if ch_type e = EVENT_ADDED then (case x of None \<Rightarrow> Some (ch_object e) | Some r \<Rightarrow> Some r)
      else if ch_type e = EVENT_MODIFIED then map_option (\<lambda>_. ch_object e) x
      else if ch_type e = EVENT_DELETED then None else x)"

definition replay :: "change list \<Rightarrow> js \<Rightarrow> js option \<Rightarrow> js option" where
  "replay hist u x = fold seen (filter (\<lambda>e. ch_uid e = u) hist) x"

lemma row_None: "row items u = None \<longleftrightarrow> u \<notin> uid_of ` set items"
  by (auto simp: row_def find_None_iff)

lemma row_append: "row (xs @ ys) u = (case row xs u of None \<Rightarrow> row ys u | Some r \<Rightarrow> Some r)"
  by (induction xs) (auto simp: row_def)

lemma row_uid: "row items u = Some r \<Longrightarrow> uid_of r = u \<and> r \<in> set items"
  by (auto simp: row_def find_Some_iff)

lemma row_filter: "row (filter (\<lambda>r. uid_of r \<noteq> v) xs) u = (if u = v then None else row xs u)"
  by (induction xs) (auto simp: row_def)

lemma row_replace:
  "uid_of q = v \<Longrightarrow>
   row (map (\<lambda>r. if uid_of r = v then q else r) xs) u = (if u = v then map_option (\<lambda>_. q) (row xs u) else row xs u)"
  by (induction xs) (auto simp: row_def)

lemma row_apply:
  assumes "fits hist e"
  shows "row (apply_event (message e) items) u = (if ch_uid e = u then seen e (row items u) else row items u)"
proof -
  have ok: "is_object (ch_object e)" "truthy (uid_of (ch_object e))"
    "ch_type e = EVENT_ADDED \<or> ch_type e = EVENT_MODIFIED \<or> ch_type e = EVENT_DELETED"
    using assms by (auto simp: fits_def ch_uid_def)
  note d = apply_event_def message_def seen_def ch_uid_def Let_def
  from ok(3) show ?thesis
  proof (elim disjE)
    assume "ch_type e = EVENT_ADDED"
    moreover have "row [q] v = (if uid_of q = v then Some q else None)" for q v by (simp add: row_def)
    ultimately show ?thesis using ok row_None [of items "uid_of (ch_object e)"]
      by (auto simp: d row_append split: option.splits)
  next
    assume "ch_type e = EVENT_MODIFIED"
    then show ?thesis using ok by (simp add: d event_names row_replace)
  next
    assume "ch_type e = EVENT_DELETED"
    then show ?thesis using ok by (simp add: d event_names row_filter)
  qed
qed

lemma distinct_apply: "distinct (map uid_of items) \<Longrightarrow> distinct (map uid_of (apply_event e items))"
proof -
  assume d: "distinct (map uid_of items)"
  have m: "map (uid_of \<circ> (\<lambda>r. if uid_of r = uid_of q then q else r)) xs = map uid_of xs" for q xs
    by (induction xs) auto
  show "distinct (map uid_of (apply_event e items))"
    using d by (simp add: apply_event_def Let_def distinct_map_filter m)
qed

lemma distinct_fold_apply: "distinct (map uid_of items) \<Longrightarrow> distinct (map uid_of (fold apply_event es items))"
  by (induction es arbitrary: items) (auto simp: distinct_apply)

lemma replay_Nil [simp]: "replay [] u x = x"
  by (simp add: replay_def)

lemma replay_append: "replay (xs @ ys) u x = replay ys u (replay xs u x)"
  by (simp add: replay_def)

lemma replay_one: "replay [e] u x = (if ch_uid e = u then seen e x else x)"
  by (simp add: replay_def)

lemma row_fold_apply:
  "\<forall>e \<in> set es. \<exists>hist. fits hist e \<Longrightarrow> row (fold apply_event (map message es) items) u = replay es u (row items u)"
proof (induction es arbitrary: items)
  case (Cons e es)
  then obtain hist where "fits hist e" by auto
  then show ?case using Cons row_apply [of hist e items u]
    by (simp add: replay_def)
qed simp

subsection \<open>Events already in the list\<close>

text \<open>
  Replaying events that a listing already reflects does no harm once all of them are replayed,
  although in between a row may show an earlier version.
\<close>

lemma seen_forward:
  assumes "fits hist e" "x = None \<or> x = server_at hist (ch_uid e)"
  shows "seen e x = None \<or> seen e x = stored e (server_at hist (ch_uid e))"
    and "x = server_at hist (ch_uid e) \<Longrightarrow> seen e x = stored e (server_at hist (ch_uid e))"
proof -
  have "server_at hist (ch_uid e) = None" if "ch_uid e \<notin> ch_uid ` set hist"
    using that server_at_uid [of hist "ch_uid e"] by (cases "server_at hist (ch_uid e)") auto
  then show "seen e x = None \<or> seen e x = stored e (server_at hist (ch_uid e))"
    "x = server_at hist (ch_uid e) \<Longrightarrow> seen e x = stored e (server_at hist (ch_uid e))"
    using assms by (auto simp: fits_def seen_def stored_def event_names)
qed

lemma replay_forward:
  assumes "well_formed (xs @ ys)" "x = None \<or> x = server_at xs u"
  shows "replay ys u x = None \<or> replay ys u x = server_at (xs @ ys) u"
    "x = server_at xs u \<Longrightarrow> replay ys u x = server_at (xs @ ys) u"
proof -
  have "(replay ys u x = None \<or> replay ys u x = server_at (xs @ ys) u)
      \<and> (x = server_at xs u \<longrightarrow> replay ys u x = server_at (xs @ ys) u)"
    using assms(1)
  proof (induction ys rule: rev_induct)
    case Nil
    then show ?case using assms(2) by auto
  next
    case (snoc e ys)
    then have w: "well_formed (xs @ ys)" "fits (xs @ ys) e"
      using well_formed_snoc [of "xs @ ys" e] by simp_all
    have s: "server_at (xs @ ys @ [e]) u = (if ch_uid e = u then stored e (server_at (xs @ ys) u) else server_at (xs @ ys) u)"
      using server_at_snoc [of "xs @ ys" e u] by simp
    show ?case
      using snoc.IH [OF w(1)] seen_forward [OF w(2), of "replay ys u x"]
      by (cases "ch_uid e = u") (simp_all add: s replay_append replay_one)
  qed
  then show "replay ys u x = None \<or> replay ys u x = server_at (xs @ ys) u"
    "x = server_at xs u \<Longrightarrow> replay ys u x = server_at (xs @ ys) u" by auto
qed

lemma replay_no_delete:
  "\<forall>e \<in> set ys. ch_uid e = u \<longrightarrow> ch_type e \<noteq> EVENT_DELETED \<Longrightarrow> x \<noteq> None \<Longrightarrow> replay ys u x \<noteq> None"
proof (induction ys arbitrary: x)
  case (Cons e ys)
  have "seen e x \<noteq> None" if "ch_uid e = u"
    using Cons.prems that by (auto simp: seen_def)
  then have "replay [e] u x \<noteq> None" using Cons.prems(2) by (simp add: replay_one)
  then show ?case using Cons replay_append [of "[e]" ys u x] by simp
qed simp

lemma replay_foreign: "u \<notin> ch_uid ` set ys \<Longrightarrow> replay ys u x = x"
  by (induction ys arbitrary: x) (auto simp: replay_def)

lemma replay_reflected:
  assumes "well_formed (xs @ ys)" "x = None \<or> x = server_at (xs @ ys) u"
  shows "replay ys u x = None \<or> replay ys u x = server_at (xs @ ys) u"
    "x = server_at (xs @ ys) u \<Longrightarrow> replay ys u x = server_at (xs @ ys) u"
proof -
  have "(replay ys u x = None \<or> replay ys u x = server_at (xs @ ys) u)
      \<and> (x = server_at (xs @ ys) u \<longrightarrow> replay ys u x = server_at (xs @ ys) u)"
    using assms
  proof (induction ys arbitrary: x rule: rev_induct)
    case (snoc e ys)
    let ?hist = "xs @ ys"
    have w: "well_formed ?hist" "fits ?hist e"
      using snoc.prems(1) well_formed_snoc [of "xs @ ys" e] by simp_all
    have s: "server_at (xs @ ys @ [e]) u = (if ch_uid e = u then stored e (server_at ?hist u) else server_at ?hist u)"
      using server_at_snoc [of "xs @ ys" e u] by simp
    show ?case
    proof (cases "ch_uid e = u")
      case False
      then show ?thesis using snoc.IH [OF w(1), of x] snoc.prems(2) s
        by (simp add: replay_append replay_one)
    next
      case u: True
      consider (add) "ch_type e = EVENT_ADDED" "u \<notin> ch_uid ` set ?hist"
        | (mod) "ch_type e = EVENT_MODIFIED" "server_at ?hist u \<noteq> None"
        | (del) "ch_type e = EVENT_DELETED" using w(2) u by (auto simp: fits_def)
      then show ?thesis
      proof cases
        case add
        then have "replay ys u x = x" by (intro replay_foreign) auto
        then show ?thesis using add u s snoc.prems(2)
          by (auto simp: replay_append replay_one seen_def stored_def event_names split: option.splits)
      next
        case mod
        have "\<forall>d \<in> set ys. ch_uid d = u \<longrightarrow> ch_type d \<noteq> EVENT_DELETED"
          using no_delete_of_live [OF w(1) mod(2)] by auto
        then have "replay ys u x \<noteq> None" if "x \<noteq> None" using that replay_no_delete by blast
        then show ?thesis using mod u s snoc.prems(2)
          by (cases "replay ys u x") (auto simp: replay_append replay_one seen_def stored_def event_names)
      next
        case del
        then show ?thesis using u s
          by (simp add: replay_append replay_one seen_def stored_def event_names)
      qed
    qed
  qed simp
  then show "replay ys u x = None \<or> replay ys u x = server_at (xs @ ys) u"
    "x = server_at (xs @ ys) u \<Longrightarrow> replay ys u x = server_at (xs @ ys) u" by auto
qed

text \<open>A listing at \<open>p\<close>, completed with all events from an earlier or equal \<open>f\<close> on, agrees with the server.\<close>

lemma replay_from_listing:
  assumes "well_formed hist" "f \<le> p" "p \<le> length hist" "x = None \<or> x = server_at (take p hist) u"
  shows "replay (drop f hist) u x = None \<or> replay (drop f hist) u x = server_at hist u"
    "x = server_at (take p hist) u \<Longrightarrow> replay (drop f hist) u x = server_at hist u"
proof -
  define a b c where "a = take f hist" and "b = drop f (take p hist)" and "c = drop p hist"
  have "take f (take p hist) = a" unfolding a_def using assms(2) by (simp add: min_absorb1)
  then have ab: "take p hist = a @ b" unfolding b_def using append_take_drop_id [of f "take p hist"] by metis
  have hist: "hist = (a @ b) @ c" unfolding c_def ab [symmetric] by simp
  have "drop f hist = drop f (take p hist @ drop p hist)" by simp
  also have "\<dots> = b @ c" unfolding drop_append b_def c_def using assms(2,3) by simp
  finally have f: "drop f hist = b @ c" .
  have w: "well_formed (a @ b)" using assms(1) hist well_formed_append by metis
  have x: "x = None \<or> x = server_at (a @ b) u" using assms(4) ab by simp
  note r = replay_reflected [OF w x] and fw = replay_forward [OF assms(1) [unfolded hist], of _ u]
  show "replay (drop f hist) u x = None \<or> replay (drop f hist) u x = server_at hist u"
    using fw(1) [OF r(1)] unfolding f replay_append hist [symmetric] .
  assume "x = server_at (take p hist) u"
  then have x2: "x = server_at (a @ b) u" by (simp only: ab)
  have w2: "well_formed ((a @ b) @ c)" using assms(1) by (simp only: hist [symmetric])
  have "replay (drop f hist) u x = replay c u (server_at (a @ b) u)"
    unfolding f replay_append by (simp only: replay_reflected(2) [OF w x x2])
  also have "\<dots> = server_at ((a @ b) @ c) u"
    by (rule replay_forward(2) [OF w2 disjI2 [OF refl] refl])
  finally show "replay (drop f hist) u x = server_at hist u" by (simp only: hist [symmetric])
qed

section \<open>The table and the server together\<close>

text \<open>
  The history, how much of the stream of the table's namespace has been delivered, whether the
  subscription is active, and (a ghost) whether the last listing taken was complete.
\<close>

record world =
  w_hist :: "change list"
  w_pos :: nat
  w_live :: bool
  w_complete :: bool
  w_table :: resource_table

definition world_init :: "string \<Rightarrow> string \<Rightarrow> change list \<Rightarrow> world" where
  "world_init kind ns hist =
     \<lparr>w_hist = hist, w_pos = 0, w_live = False, w_complete = False, w_table = enter ns (table_init kind True)\<rparr>"

definition watched :: "world \<Rightarrow> change list" where
  "watched w = stream (rt_ns (w_table w)) (w_hist w)"

text \<open>A page lists objects as they were at one moment; a full one lists all of them.\<close>

definition listing :: "change list \<Rightarrow> nat \<Rightarrow> js list \<Rightarrow> bool" where
  "listing hist p page \<longleftrightarrow>
     p \<le> length hist \<and> distinct (map uid_of page)
     \<and> list_all (\<lambda>r. server_at (take p hist) (uid_of r) = Some r) page"

definition full_listing :: "change list \<Rightarrow> nat \<Rightarrow> js list \<Rightarrow> bool" where
  "full_listing hist p page \<longleftrightarrow>
     list_all (\<lambda>e. row page (ch_uid e) = server_at (take p hist) (ch_uid e)) (take p hist)"

datatype world_event =
    Changed change | Confirmed | Delivered | Dropped nat
  | ReplyAt nat nat "js list" "string option" "int option" | ReplyFails nat bool "string option"
  | Local table_event

definition resync :: ws_event where
  "resync = \<lparr>we_type = EVENT_RESYNC, we_object = JNull\<rparr>"

definition local_event :: "table_event \<Rightarrow> bool" where
  "local_event e \<longleftrightarrow> (case e of WsEvent _ \<Rightarrow> False | ListReply _ _ \<Rightarrow> False | _ \<Rightarrow> True)"

definition in_table :: "world \<Rightarrow> resource_table option \<Rightarrow> world option" where
  "in_table w t = map_option (\<lambda>t. w\<lparr>w_table := t\<rparr>) t"

text \<open>
  What the server and the network do: events of the watch arrive in order; when the server drops
  some, it sends a resync instead; a listing is of the server's objects at some moment.
\<close>

fun world_step :: "world \<Rightarrow> world_event \<Rightarrow> world option" where
  "world_step w (Changed e) = (if fits (w_hist w) e then Some (w\<lparr>w_hist := w_hist w @ [e]\<rparr>) else None)"
| "world_step w Confirmed =
     (if rt_subscribed (w_table w) = None \<or> w_live w then None
      else Some (w\<lparr>w_live := True, w_pos := length (watched w)\<rparr>))"
| "world_step w Delivered =
     (if \<not> w_live w \<or> w_pos w \<ge> length (watched w) then None
      else in_table (w\<lparr>w_pos := w_pos w + 1\<rparr>) (table_step (w_table w) (WsEvent (message (watched w ! w_pos w)))))"
| "world_step w (Dropped k) =
     (if \<not> w_live w \<or> w_pos w + k > length (watched w) then None
      else in_table (w\<lparr>w_pos := w_pos w + k\<rparr>) (table_step (w_table w) (WsEvent resync)))"
| "world_step w (ReplyAt i p page cont tot) =
     (case rec_get (rt_calls (w_table w)) i of
        None \<Rightarrow> None
      | Some c \<Rightarrow>
          (let hist = stream (fc_ns c) (w_hist w)
           in if \<not> listing hist p page then None
              else in_table
                (w\<lparr>w_complete := (if fc_aborted c \<or> fc_append c then w_complete w else full_listing hist p page)\<rparr>)
                (table_step (w_table w) (ListReply i (ListPage page cont tot)))))"
| "world_step w (ReplyFails i a m) =
     (case rec_get (rt_calls (w_table w)) i of
        None \<Rightarrow> None
      | Some c \<Rightarrow> in_table (w\<lparr>w_complete := w_complete w \<and> (fc_aborted c \<or> fc_append c)\<rparr>)
                    (table_step (w_table w) (ListReply i (ListFailed a m))))"
| "world_step w (Local e) =
     (if \<not> local_event e then None
      else (case e of
              ShowNs ns \<Rightarrow> in_table (w\<lparr>w_live := False, w_pos := 0, w_complete := False\<rparr>) (table_step (w_table w) e)
            | _ \<Rightarrow> in_table w (table_step (w_table w) e)))"

text \<open>The listing of the whole table, rather than a further page, that is still to be taken.\<close>

definition listing_due :: "resource_table \<Rightarrow> bool" where
  "listing_due t =
     (case rt_fetch t of None \<Rightarrow> False
      | Some i \<Rightarrow> (case rec_get (rt_calls t) i of None \<Rightarrow> False
                   | Some c \<Rightarrow> \<not> fc_aborted c \<and> \<not> fc_append c))"

definition resync_queued :: "resource_table \<Rightarrow> bool" where
  "resync_queued t \<longleftrightarrow> list_ex (\<lambda>e. we_type e = EVENT_RESYNC) (rt_queue t)"

text \<open>
  What a run has to keep to: a subscription becomes active only while a listing is due (not again
  later, after a reconnect); a listing that is taken is not older than the events already applied
  to the rows; and no further page is asked for while a listing is due, since that aborts it.
\<close>

fun keeps_up :: "world \<Rightarrow> world_event \<Rightarrow> bool" where
  "keeps_up w Confirmed = listing_due (w_table w)"
| "keeps_up w (ReplyAt i p page cont tot) =
     (case rec_get (rt_calls (w_table w)) i of
        None \<Rightarrow> True
      | Some c \<Rightarrow> fc_aborted c
          \<or> w_live w \<and> (resync_queued (w_table w) \<or> w_pos w - length (rt_queue (w_table w)) \<le> p))"
| "keeps_up w (Local LoadMore) = (\<not> listing_due (w_table w))"
| "keeps_up w e = True"

subsection \<open>The invariant\<close>

definition calls_ok :: "resource_table \<Rightarrow> bool" where
  "calls_ok t \<longleftrightarrow>
     distinct (map fst (rt_calls t))
     \<and> (\<forall>(i, c) \<in> set (rt_calls t). i < rt_next t \<and> (\<not> fc_aborted c \<longrightarrow> rt_fetch t = Some i \<and> fc_ns c = rt_ns t))
     \<and> (rt_queue t \<noteq> [] \<longrightarrow> rt_frame t) \<and> distinct (map uid_of (rt_items t))"

definition pending :: "world \<Rightarrow> change list" where
  "pending w = drop (w_pos w - length (rt_queue (w_table w))) (watched w)"

definition on_track :: "world \<Rightarrow> bool" where
  "on_track w \<longleftrightarrow>
     (\<forall>u. (let x = replay (pending w) u (row (rt_items (w_table w)) u)
           in (x = None \<or> x = server_at (watched w) u) \<and> (w_complete w \<longrightarrow> x = server_at (watched w) u)))"

definition queue_ok :: "world \<Rightarrow> bool" where
  "queue_ok w \<longleftrightarrow>
     w_pos w \<le> length (watched w) \<and> (\<not> w_live w \<longrightarrow> rt_queue (w_table w) = [])
     \<and> (resync_queued (w_table w)
        \<or> length (rt_queue (w_table w)) \<le> w_pos w
          \<and> rt_queue (w_table w) = map message (take (length (rt_queue (w_table w))) (pending w)))"

definition world_inv :: "world \<Rightarrow> bool" where
  "world_inv w \<longleftrightarrow>
     well_formed (w_hist w) \<and> calls_ok (w_table w) \<and> queue_ok w
     \<and> (listing_due (w_table w) \<or> resync_queued (w_table w) \<or> on_track w)"

lemma calls_lookup:
  assumes "calls_ok t" "rec_get (rt_calls t) i = Some c"
  shows "i < rt_next t" "\<not> fc_aborted c \<Longrightarrow> rt_fetch t = Some i \<and> fc_ns c = rt_ns t"
proof -
  have "(i, c) \<in> set (rt_calls t)" using assms(2) by (simp add: rec_get_Some_in)
  then have "i < rt_next t \<and> (\<not> fc_aborted c \<longrightarrow> rt_fetch t = Some i \<and> fc_ns c = rt_ns t)"
    using assms(1) unfolding calls_ok_def by blast
  then show "i < rt_next t" "\<not> fc_aborted c \<Longrightarrow> rt_fetch t = Some i \<and> fc_ns c = rt_ns t" by auto
qed

lemma abort_call_fst [simp]: "map fst (abort_call i cs) = map fst cs"
  by (induction cs) (auto simp: abort_call_def)

lemma abort_call_set:
  "(j, c) \<in> set (abort_call i cs) \<Longrightarrow> \<exists>d. (j, d) \<in> set cs \<and> (c = d \<or> j = i \<and> c = d\<lparr>fc_aborted := True\<rparr>) \<and> (j = i \<longrightarrow> fc_aborted c)"
  by (auto simp: abort_call_def split: if_splits)

lemma abort_fetch_simps [simp]:
  "rt_items (abort_fetch t) = rt_items t" "rt_queue (abort_fetch t) = rt_queue t" "rt_frame (abort_fetch t) = rt_frame t"
  "rt_ns (abort_fetch t) = rt_ns t" "rt_next (abort_fetch t) = rt_next t" "rt_fetch (abort_fetch t) = rt_fetch t"
  "map fst (rt_calls (abort_fetch t)) = map fst (rt_calls t)"
  by (auto simp: abort_fetch_def split: option.splits)

text \<open>After an abort no call in flight counts.\<close>

lemma abort_fetch_aborts:
  assumes "calls_ok t" "(i, c) \<in> set (rt_calls (abort_fetch t))"
  shows "i < rt_next t \<and> fc_aborted c"
proof (cases "rt_fetch t")
  case None
  then show ?thesis using assms by (auto simp: abort_fetch_def calls_ok_def)
next
  case (Some k)
  then obtain d where d: "(i, d) \<in> set (rt_calls t)" "c = d \<or> i = k \<and> c = d\<lparr>fc_aborted := True\<rparr>" "i = k \<longrightarrow> fc_aborted c"
    using assms(2) abort_call_set [of i c k "rt_calls t"] by (auto simp: abort_fetch_def)
  then show ?thesis using assms(1) Some unfolding calls_ok_def by (cases "fc_aborted d") auto
qed

lemma fetch_simps [simp]:
  "rt_items (fetchResources a t) = rt_items t" "rt_queue (fetchResources a t) = rt_queue t"
  "rt_frame (fetchResources a t) = rt_frame t" "rt_ns (fetchResources a t) = rt_ns t"
  by (simp_all add: fetchResources_def Let_def)

lemma rec_get_fresh: "k \<notin> set (map fst cs) \<Longrightarrow> rec_get (cs @ [(k, v)]) k = Some v"
  by (induction cs) (auto simp: rec_get_def)

lemma fetch_calls:
  assumes "calls_ok t"
  shows "calls_ok (fetchResources a t) \<and> listing_due (fetchResources a t) = (\<not> a)"
proof -
  let ?c = "\<lparr>fc_append = a, fc_aborted = False, fc_path = list_path a t, fc_ns = rt_ns t\<rparr>"
  have s: "rt_calls (fetchResources a t) = rt_calls (abort_fetch t) @ [(rt_next t, ?c)]"
    "rt_fetch (fetchResources a t) = Some (rt_next t)" "rt_next (fetchResources a t) = rt_next t + 1"
    by (simp_all add: fetchResources_def Let_def)
  have old: "i < rt_next t \<and> fc_aborted c" if "(i, c) \<in> set (rt_calls (abort_fetch t))" for i c
    using abort_fetch_aborts [OF assms that] .
  have fresh: "rt_next t \<notin> set (map fst (rt_calls (abort_fetch t)))"
  proof
    assume "rt_next t \<in> set (map fst (rt_calls (abort_fetch t)))"
    then obtain x where x: "x \<in> set (rt_calls (abort_fetch t))" "rt_next t = fst x" unfolding set_map by blast
    then show False using old [of "fst x" "snd x"] by simp
  qed
  have "calls_ok (fetchResources a t)"
    using assms fresh old unfolding calls_ok_def s by (auto simp: less_SucI)
  moreover have "rec_get (rt_calls (fetchResources a t)) (rt_next t) = Some ?c"
    unfolding s by (rule rec_get_fresh [OF fresh])
  ultimately show ?thesis by (simp add: listing_due_def s)
qed


subsection \<open>Every step keeps it\<close>

text \<open>What a step does to the part of the table that the invariant looks at.\<close>

lemma pending_cong:
  "watched v = watched w \<Longrightarrow> w_pos v - length (rt_queue (w_table v)) = w_pos w - length (rt_queue (w_table w)) \<Longrightarrow>
   pending v = pending w"
  by (simp add: pending_def)

lemma stream_snoc: "stream ns (hist @ [e]) = stream ns hist @ (if in_ns ns e then [e] else [])"
  by (simp add: stream_def)

lemma stream_fits:
  assumes "well_formed hist" "e \<in> set (stream ns hist)" shows "\<exists>h. fits h e"
proof -
  obtain i where "i < length hist" "e = hist ! i" using assms(2) by (auto simp: stream_def in_set_conv_nth)
  then show ?thesis using assms(1) by (auto simp: well_formed_def)
qed

lemma changed_inv:
  assumes inv: "world_inv w" and f: "fits (w_hist w) e"
  shows "world_inv (w\<lparr>w_hist := w_hist w @ [e]\<rparr>)"
proof -
  let ?v = "w\<lparr>w_hist := w_hist w @ [e]\<rparr>" and ?k = "w_pos w - length (rt_queue (w_table w))"
  let ?s = "watched w"
  define d where "d = (if in_ns (rt_ns (w_table w)) e then [e] else [])"
  have w: "well_formed (w_hist ?v)" using inv f by (simp add: world_inv_def well_formed_snoc)
  have s: "watched ?v = ?s @ d" by (simp add: watched_def stream_snoc d_def)
  have le: "w_pos w \<le> length ?s" using inv by (simp add: world_inv_def queue_ok_def)
  have p: "pending ?v = pending w @ d" using le by (simp add: pending_def s)
  have q: "queue_ok ?v" using inv p s by (auto simp: world_inv_def queue_ok_def pending_def)
  have ws: "well_formed (?s @ d)" using stream_well_formed [OF w, of "rt_ns (w_table w)"] s by (simp add: watched_def)
  have t: "on_track ?v" if ot: "on_track w"
    unfolding on_track_def Let_def
  proof (intro allI conjI impI)
    fix u
    let ?x = "replay (pending w) u (row (rt_items (w_table w)) u)"
    have x: "?x = None \<or> ?x = server_at ?s u" and c: "w_complete w \<Longrightarrow> ?x = server_at ?s u"
      using ot by (auto simp: on_track_def Let_def)
    note fw = replay_forward [OF ws x]
    show "replay (pending ?v) u (row (rt_items (w_table ?v)) u) = None
        \<or> replay (pending ?v) u (row (rt_items (w_table ?v)) u) = server_at (watched ?v) u"
      using fw(1) by (simp add: p s replay_append)
    assume "w_complete ?v"
    then show "replay (pending ?v) u (row (rt_items (w_table ?v)) u) = server_at (watched ?v) u"
      using fw(2) c by (simp add: p s replay_append)
  qed
  show ?thesis using inv w q t by (auto simp: world_inv_def)
qed

lemma listing_due_cong:
  "rt_fetch t = rt_fetch u \<Longrightarrow> rt_calls t = rt_calls u \<Longrightarrow> listing_due t = listing_due u"
  unfolding listing_due_def by (simp only:)

lemma watched_cong:
  "rt_ns (w_table v) = rt_ns (w_table w) \<Longrightarrow> w_hist v = w_hist w \<Longrightarrow> watched v = watched w"
  by (simp add: watched_def)

text \<open>An event that is queued, in its place or as a resync.\<close>

lemma push_simps [simp]:
  "rt_items (push_event e t) = rt_items t" "rt_queue (push_event e t) = rt_queue t @ [e]"
  "rt_frame (push_event e t)" "rt_ns (push_event e t) = rt_ns t" "rt_calls (push_event e t) = rt_calls t"
  "rt_fetch (push_event e t) = rt_fetch t" "rt_next (push_event e t) = rt_next t"
  by (simp_all add: push_event_def)

lemma push_calls: "calls_ok t \<Longrightarrow> calls_ok (push_event e t)"
  by (simp add: calls_ok_def)

lemma push_due [simp]: "listing_due (push_event e t) = listing_due t"
  by (rule listing_due_cong) simp_all

lemma push_resync: "resync_queued (push_event e t) = (resync_queued t \<or> we_type e = EVENT_RESYNC)"
  by (simp add: resync_queued_def)

lemma delivered_inv:
  assumes inv: "world_inv w" and l: "w_live w" and p: "w_pos w < length (watched w)"
  shows "world_inv (w\<lparr>w_pos := Suc (w_pos w), w_table := push_event (message (watched w ! w_pos w)) (w_table w)\<rparr>)"
    (is "world_inv ?v")
proof (cases "resync_queued (w_table w)")
  case True
  then show ?thesis using inv l p
    by (auto simp: world_inv_def queue_ok_def push_calls push_resync watched_def)
next
  case False
  let ?n = "length (rt_queue (w_table w))"
  have q: "?n \<le> w_pos w" "rt_queue (w_table w) = map message (take ?n (pending w))"
    using inv False by (auto simp: world_inv_def queue_ok_def)
  have w: "watched ?v = watched w" by (rule watched_cong) simp_all
  have pe: "pending ?v = pending w" by (rule pending_cong [OF w]) simp
  have "pending w ! ?n = watched w ! w_pos w" "?n < length (pending w)" using q(1) p by (simp_all add: pending_def)
  then have "take (?n + 1) (pending w) = take ?n (pending w) @ [watched w ! w_pos w]"
    by (simp add: take_Suc_conv_app_nth)
  then have "queue_ok ?v" using inv l p q w pe
    by (simp add: world_inv_def queue_ok_def)
  moreover have "on_track ?v = on_track w" by (simp add: on_track_def pe w)
  ultimately show ?thesis using inv False
    by (auto simp: world_inv_def push_calls push_resync)
qed

lemma dropped_inv:
  assumes "world_inv w" "w_live w" "w_pos w + k \<le> length (watched w)"
  shows "world_inv (w\<lparr>w_pos := w_pos w + k, w_table := push_event resync (w_table w)\<rparr>)"
  using assms by (auto simp: world_inv_def queue_ok_def push_calls push_resync watched_def resync_def)

lemma confirmed_inv:
  assumes inv: "world_inv w" and n: "\<not> w_live w" and d: "listing_due (w_table w)"
  shows "world_inv (w\<lparr>w_live := True, w_pos := length (watched w)\<rparr>)"
proof -
  have "rt_queue (w_table w) = []" using inv n by (simp add: world_inv_def queue_ok_def)
  then show ?thesis using inv d by (simp add: world_inv_def queue_ok_def watched_def)
qed

text \<open>Applying the queue.\<close>

lemma flush_inv:
  assumes inv: "world_inv w"
  shows "world_inv (w\<lparr>w_table := flushEvents (w_table w)\<rparr>)" (is "world_inv ?v")
proof -
  let ?t = "w_table w" and ?q = "rt_queue (w_table w)"
  let ?e = "?t\<lparr>rt_frame := False, rt_queue := []\<rparr>"
  have c: "calls_ok ?t" using inv by (simp add: world_inv_def)
  then have c0: "calls_ok ?e" by (simp add: calls_ok_def)
  consider (empty) "?q = []" | (resync) "?q \<noteq> []" "resync_queued ?t" | (rows) "?q \<noteq> []" "\<not> resync_queued ?t" by blast
  then show ?thesis
  proof cases
    case empty
    then have "flushEvents ?t = ?e" by (simp add: flushEvents_def)
    moreover have "listing_due ?e = listing_due ?t" by (rule listing_due_cong) simp_all
    ultimately show ?thesis using inv empty c0
      by (simp add: world_inv_def queue_ok_def watched_def resync_queued_def on_track_def pending_def)
  next
    case resync
    then have "flushEvents ?t = fetchResources False ?e"
      by (simp add: flushEvents_def resync_queued_def list_ex_iff)
    then show ?thesis using inv fetch_calls [OF c0, of False]
      by (simp add: world_inv_def queue_ok_def watched_def)
  next
    case rows
    let ?n = "length ?q"
    have t: "w_table ?v = ?e\<lparr>rt_items := fold apply_event ?q (rt_items ?t)\<rparr>"
      using rows by (simp add: flushEvents_def resync_queued_def list_ex_iff Let_def)
    have q: "?n \<le> w_pos w" "?q = map message (take ?n (pending w))" "w_pos w \<le> length (watched w)"
      using inv rows(2) by (auto simp: world_inv_def queue_ok_def)
    have wa: "watched ?v = watched w" by (rule watched_cong) (simp_all add: t)
    have "pending ?v = drop ?n (pending w)" using q(1) by (simp add: pending_def wa t)
    then have split: "pending w = take ?n (pending w) @ pending ?v" by simp
    have "\<forall>e \<in> set (take ?n (pending w)). \<exists>h. fits h e"
      using inv stream_fits [of "w_hist w" _ "rt_ns ?t"]
      by (auto simp: world_inv_def pending_def watched_def dest!: in_set_takeD in_set_dropD)
    then have r: "row (rt_items (w_table ?v)) u = replay (take ?n (pending w)) u (row (rt_items ?t) u)" for u
      using row_fold_apply [of "take ?n (pending w)" "rt_items ?t" u] q(2) t by simp
    have ot: "on_track ?v = on_track w"
      unfolding on_track_def wa r replay_append [symmetric] split [symmetric] by simp
    have "calls_ok (w_table ?v)" using c0 unfolding t
      by (simp add: calls_ok_def distinct_fold_apply)
    moreover have "queue_ok ?v" using inv q(3) by (simp add: queue_ok_def wa t)
    moreover have "listing_due (w_table ?v) = listing_due ?t" by (rule listing_due_cong) (simp_all add: t)
    moreover have "\<not> resync_queued (w_table ?v)" by (simp add: t resync_queued_def)
    ultimately show ?thesis using inv ot rows(2) by (auto simp: world_inv_def)
  qed
qed

text \<open>A fetch of the whole table, of a further page, and of another namespace.\<close>

lemma fetch_inv:
  assumes inv: "world_inv w" and a: "a \<Longrightarrow> \<not> listing_due (w_table w)"
  shows "world_inv (w\<lparr>w_table := fetchResources a (w_table w)\<rparr>)" (is "world_inv ?v")
proof -
  have c: "calls_ok (w_table ?v)" "listing_due (w_table ?v) = (\<not> a)"
    using inv fetch_calls [of "w_table w" a] by (simp_all add: world_inv_def)
  have "watched ?v = watched w" by (rule watched_cong) simp_all
  then show ?thesis using inv c a
    by (auto simp: world_inv_def queue_ok_def resync_queued_def on_track_def pending_def)
qed

lemma show_ns_inv:
  assumes "world_inv w"
  shows "world_inv (w\<lparr>w_live := False, w_pos := 0, w_complete := False, w_table := enter ns (leave (w_table w))\<rparr>)"
proof -
  let ?t = "leave (w_table w)"
  let ?u = "?t\<lparr>rt_ns := ns, rt_subscribed := (if rt_ws ?t
            then Some (rt_kind ?t @ ''-'' @ (if ns \<noteq> [] then ns else ''all''), rt_kind ?t, ns) else None)\<rparr>"
  let ?s = "(w_table w)\<lparr>rt_subscribed := None\<rparr>"
  have c: "calls_ok ?s" using assms by (simp add: world_inv_def calls_ok_def)
  have "\<forall>(i, c) \<in> set (rt_calls ?t). i < rt_next ?t \<and> fc_aborted c"
    using abort_fetch_aborts [OF c] by (auto simp: leave_def)
  moreover have "distinct (map fst (rt_calls ?t))" "distinct (map uid_of (rt_items ?t))"
    using c by (simp_all add: leave_def calls_ok_def del: map_map)
  ultimately have "calls_ok ?u" by (auto simp: calls_ok_def leave_def)
  note f = fetch_calls [OF this, of False]
  have "rt_queue (enter ns ?t) = []" by (simp add: enter_def) (simp add: leave_def)
  then show ?thesis using assms f unfolding enter_def by (simp add: world_inv_def queue_ok_def)
qed


text \<open>A reply: the call leaves the list of calls, and a counting one changes the rows.\<close>

lemma reply_calls:
  assumes "calls_ok t" "rec_get (rt_calls t) i = Some c"
  shows "calls_ok (t\<lparr>rt_calls := rec_del (rt_calls t) i\<rparr>)"
    "rec_get (rec_del (rt_calls t) i) i = None"
proof -
  show "calls_ok (t\<lparr>rt_calls := rec_del (rt_calls t) i\<rparr>)"
    using assms(1) by (auto simp: calls_ok_def rec_del_def distinct_map_filter)
  have "i \<notin> fst ` set (rec_del (rt_calls t) i)" by (auto simp: rec_del_def)
  then show "rec_get (rec_del (rt_calls t) i) i = None" by (simp add: rec_get_None_iff)
qed

lemma reply_other_call:
  assumes "calls_ok t" "rec_get (rt_calls t) i = Some c" "fc_aborted c"
  shows "listing_due (t\<lparr>rt_calls := rec_del (rt_calls t) i\<rparr>) = listing_due t"
proof -
  have "rec_get (rec_del (rt_calls t) i) j = rec_get (rt_calls t) j" if "j \<noteq> i" for j
    using that by (simp add: rec_get_del)
  then show ?thesis using assms(2,3) reply_calls(2) [OF assms(1,2)]
    by (cases "rt_fetch t") (auto simp: listing_due_def)
qed


lemma settled_simps [simp]:
  "rt_queue (fetch_settled i c r t) = rt_queue t" "rt_frame (fetch_settled i c r t) = rt_frame t"
  "rt_ns (fetch_settled i c r t) = rt_ns t" "rt_calls (fetch_settled i c r t) = rt_calls t"
  "rt_fetch (fetch_settled i c r t) = rt_fetch t" "rt_next (fetch_settled i c r t) = rt_next t"
  by (cases r; simp add: fetch_settled_def Let_def)+

lemma settled_items:
  "rt_items (fetch_settled i c r t) =
     (if fc_aborted c then rt_items t
      else case r of
             ListPage new cont tot \<Rightarrow> if fc_append c then append_unique (rt_items t) new else new
           | ListFailed a m \<Rightarrow> if a \<or> fc_append c then rt_items t else [])"
  by (cases r) (simp_all add: fetch_settled_def Let_def)

lemma row_append_unique: "row (append_unique xs ys) u = (case row xs u of None \<Rightarrow> row ys u | Some r \<Rightarrow> Some r)"
proof (cases "u \<in> uid_of ` set xs")
  case True
  then have "row xs u \<noteq> None" using row_None by blast
  then show ?thesis by (auto simp: append_unique_def row_append)
next
  case False
  have "row (filter (\<lambda>r. uid_of r \<notin> uid_of ` set xs) ys) u = row ys u"
    using False by (induction ys) (auto simp: row_def)
  moreover have "row xs u = None" using False row_None by blast
  ultimately show ?thesis by (simp add: append_unique_def row_append)
qed

lemma distinct_append_unique:
  "distinct (map uid_of xs) \<Longrightarrow> distinct (map uid_of ys) \<Longrightarrow> distinct (map uid_of (append_unique xs ys))"
  by (auto simp: append_unique_def distinct_map_filter image_iff)

lemma listing_row:
  assumes "listing hist p page"
  shows "row page u = None \<or> row page u = server_at (take p hist) u"
    "full_listing hist p page \<Longrightarrow> row page u = server_at (take p hist) u"
proof -
  have s: "server_at (take p hist) u = Some r" if "row page u = Some r" for r
    using assms row_uid [OF that] by (auto simp: listing_def list_all_iff)
  then show "row page u = None \<or> row page u = server_at (take p hist) u" by (cases "row page u") auto
  assume f: "full_listing hist p page"
  show "row page u = server_at (take p hist) u"
  proof (cases "u \<in> ch_uid ` set (take p hist)")
    case True
    then show ?thesis using f by (auto simp: full_listing_def list_all_iff)
  next
    case False
    then have "server_at (take p hist) u = None" using server_at_uid by (cases "server_at (take p hist) u") blast+
    then show ?thesis using s by (cases "row page u") auto
  qed
qed

text \<open>A reply to an aborted call leaves the rows as they are.\<close>

lemma aborted_reply_inv:
  assumes inv: "world_inv w" and c: "rec_get (rt_calls (w_table w)) i = Some c" "fc_aborted c"
  shows "world_inv (w\<lparr>w_table := fetch_settled i c r ((w_table w)\<lparr>rt_calls := rec_del (rt_calls (w_table w)) i\<rparr>)\<rparr>)"
    (is "world_inv ?v")
proof -
  let ?d = "(w_table w)\<lparr>rt_calls := rec_del (rt_calls (w_table w)) i\<rparr>"
  have ok: "calls_ok (w_table w)" using inv by (simp add: world_inv_def)
  have d: "calls_ok ?d" "listing_due ?d = listing_due (w_table w)"
    using reply_calls(1) [OF ok c(1)] reply_other_call [OF ok c] by simp_all
  have it: "rt_items (w_table ?v) = rt_items (w_table w)" using c(2) by (simp add: settled_items)
  have "calls_ok (w_table ?v)" using d(1) it by (simp add: calls_ok_def)
  moreover have "listing_due (w_table ?v) = listing_due ?d" by (rule listing_due_cong) simp_all
  moreover have "watched ?v = watched w" by (rule watched_cong) simp_all
  ultimately show ?thesis using inv d(2) it
    by (simp add: world_inv_def queue_ok_def on_track_def pending_def resync_queued_def)
qed

text \<open>A reply that counts: what the rows are then, and that no listing is due any more.\<close>

lemma counted_reply_inv:
  assumes inv: "world_inv w" and c: "rec_get (rt_calls (w_table w)) i = Some c" "\<not> fc_aborted c"
    and items: "rt_items (fetch_settled i c r ((w_table w)\<lparr>rt_calls := rec_del (rt_calls (w_table w)) i\<rparr>)) = items"
      "distinct (map uid_of items)"
    and track: "\<And>u. \<not> resync_queued (w_table w) \<Longrightarrow>
      (replay (pending w) u (row items u) = None \<or> replay (pending w) u (row items u) = server_at (watched w) u)
      \<and> (b \<longrightarrow> replay (pending w) u (row items u) = server_at (watched w) u)"
  shows "world_inv (w\<lparr>w_complete := b,
      w_table := fetch_settled i c r ((w_table w)\<lparr>rt_calls := rec_del (rt_calls (w_table w)) i\<rparr>)\<rparr>)" (is "world_inv ?v")
proof -
  have ok: "calls_ok (w_table w)" using inv by (simp add: world_inv_def)
  have "calls_ok (w_table ?v)" using reply_calls(1) [OF ok c(1)] items by (simp add: calls_ok_def)
  moreover have wa: "watched ?v = watched w" by (rule watched_cong) simp_all
  moreover have pe: "pending ?v = pending w" by (rule pending_cong [OF wa]) simp
  moreover have "on_track ?v" if "\<not> resync_queued (w_table w)"
    unfolding on_track_def Let_def wa pe using track [OF that] items(1) by simp
  ultimately show ?thesis using inv
    by (auto simp: world_inv_def queue_ok_def resync_queued_def)
qed

lemma page_inv:
  assumes inv: "world_inv w" and c: "rec_get (rt_calls (w_table w)) i = Some c"
    and l: "listing (stream (fc_ns c) (w_hist w)) p page"
    and ok: "fc_aborted c \<or> w_live w \<and> (resync_queued (w_table w) \<or> w_pos w - length (rt_queue (w_table w)) \<le> p)"
  shows "world_inv (w\<lparr>w_complete := (if fc_aborted c \<or> fc_append c then w_complete w
                                     else full_listing (stream (fc_ns c) (w_hist w)) p page),
      w_table := fetch_settled i c (ListPage page cont tot)
        ((w_table w)\<lparr>rt_calls := rec_del (rt_calls (w_table w)) i\<rparr>)\<rparr>)"
proof (cases "fc_aborted c")
  case True
  then show ?thesis using aborted_reply_inv [OF inv c True, of "ListPage page cont tot"] by simp
next
  case na: False
  let ?s = "watched w" and ?f = "w_pos w - length (rt_queue (w_table w))"
  have t: "calls_ok (w_table w)" "well_formed ?s"
    using inv stream_well_formed by (simp_all add: world_inv_def watched_def)
  have ns: "rt_fetch (w_table w) = Some i" "stream (fc_ns c) (w_hist w) = ?s"
    using calls_lookup(2) [OF t(1) c na] by (simp_all add: watched_def)
  have pe: "p \<le> length ?s" "distinct (map uid_of page)" using l by (auto simp: listing_def ns)
  note lr = listing_row [OF l [unfolded ns(2)]]
  have dist: "distinct (map uid_of (rt_items (w_table w)))" using t(1) by (simp add: calls_ok_def)
  have fp: "?f \<le> p" if "\<not> resync_queued (w_table w)" using ok na that by blast
  note from_page = replay_from_listing [OF t(2) fp pe(1), folded pending_def]
  show ?thesis
  proof (cases "fc_append c")
    case False
    show ?thesis
      using counted_reply_inv [OF inv c na, of "ListPage page cont tot" page "full_listing ?s p page"]
        lr from_page na False pe(2) by (simp add: settled_items ns(2))
  next
    case True
    have track: "on_track w" if "\<not> resync_queued (w_table w)"
      using inv that c na True ns(1) by (auto simp: world_inv_def listing_due_def)
    have "(replay (pending w) u (row (append_unique (rt_items (w_table w)) page) u) = None
        \<or> replay (pending w) u (row (append_unique (rt_items (w_table w)) page) u) = server_at ?s u)
      \<and> (w_complete w \<longrightarrow> replay (pending w) u (row (append_unique (rt_items (w_table w)) page) u) = server_at ?s u)"
      if rq: "\<not> resync_queued (w_table w)" for u
    proof (cases "row (rt_items (w_table w)) u")
      case None
      have "replay (pending w) u (row page u) = None \<or> replay (pending w) u (row page u) = server_at ?s u"
        by (rule from_page(1) [OF rq lr(1)])
      moreover have "replay (pending w) u (row page u) = server_at ?s u" if wc: "w_complete w"
      proof (cases "row page u")
        case None
        then show ?thesis using track [OF rq] wc \<open>row (rt_items (w_table w)) u = None\<close>
          unfolding on_track_def Let_def by metis
      next
        case (Some q)
        then have "row page u = server_at (take p ?s) u" using lr(1) [of u] by auto
        then show ?thesis using from_page(2) [OF rq lr(1)] by blast
      qed
      ultimately show ?thesis using None by (simp add: row_append_unique)
    next
      case (Some q)
      then show ?thesis using track [OF rq] unfolding on_track_def Let_def
        by (simp add: row_append_unique) (drule spec [of _ u], simp)
    qed
    from counted_reply_inv [OF inv c na _ _ this, of "ListPage page cont tot"]
    show ?thesis using True na dist pe(2) by (simp add: settled_items distinct_append_unique)
  qed
qed


lemma failure_inv:
  assumes inv: "world_inv w" and c: "rec_get (rt_calls (w_table w)) i = Some c" and a: "a \<longrightarrow> fc_aborted c"
  shows "world_inv (w\<lparr>w_complete := w_complete w \<and> (fc_aborted c \<or> fc_append c),
      w_table := fetch_settled i c (ListFailed a m)
        ((w_table w)\<lparr>rt_calls := rec_del (rt_calls (w_table w)) i\<rparr>)\<rparr>)"
proof (cases "fc_aborted c")
  case True
  then show ?thesis using aborted_reply_inv [OF inv c True, of "ListFailed a m"] by simp
next
  case na: False
  have t: "calls_ok (w_table w)" "well_formed (watched w)"
    using inv stream_well_formed by (simp_all add: world_inv_def watched_def)
  have dist: "distinct (map uid_of (rt_items (w_table w)))" using t(1) by (simp add: calls_ok_def)
  show ?thesis
  proof (cases "fc_append c")
    case True
    have "on_track w" if "\<not> resync_queued (w_table w)"
      using inv that c na True calls_lookup(2) [OF t(1) c na] by (auto simp: world_inv_def listing_due_def)
    then have "(replay (pending w) u (row (rt_items (w_table w)) u) = None
        \<or> replay (pending w) u (row (rt_items (w_table w)) u) = server_at (watched w) u)
      \<and> (w_complete w \<longrightarrow> replay (pending w) u (row (rt_items (w_table w)) u) = server_at (watched w) u)"
      if "\<not> resync_queued (w_table w)" for u
      using that unfolding on_track_def Let_def by blast
    from counted_reply_inv [OF inv c na _ _ this, of "ListFailed a m"]
    show ?thesis using True na a dist by (simp add: settled_items)
  next
    case False
    let ?f = "w_pos w - length (rt_queue (w_table w))"
    have "?f \<le> length (watched w)" using inv by (auto simp: world_inv_def queue_ok_def)
    note e = replay_from_listing(1) [OF t(2) le_refl this, folded pending_def, of None]
    from counted_reply_inv [OF inv c na, of "ListFailed a m" "[]" False]
    show ?thesis using False na a e by (simp add: settled_items row_def)
  qed
qed

lemma world_step_inv:
  assumes inv: "world_inv w" and ok: "keeps_up w e" and st: "world_step w e = Some v"
  shows "world_inv v"
proof (cases e)
  case (Changed x)
  then show ?thesis using inv st changed_inv by (auto split: if_splits)
next
  case Confirmed
  then show ?thesis using inv st ok confirmed_inv by (auto split: if_splits)
next
  case Delivered
  then show ?thesis using inv st delivered_inv [OF inv] by (auto simp: in_table_def split: if_splits)
next
  case (Dropped k)
  then show ?thesis using inv st dropped_inv [OF inv, of k] by (auto simp: in_table_def split: if_splits)
next
  case (ReplyAt i p page cont tot)
  then obtain c where c: "rec_get (rt_calls (w_table w)) i = Some c"
    and l: "listing (stream (fc_ns c) (w_hist w)) p page"
    using st by (auto simp: Let_def split: option.splits if_splits)
  show ?thesis using page_inv [OF inv c l, of cont tot] st ok ReplyAt c l
    by (auto simp: Let_def in_table_def)
next
  case (ReplyFails i a m)
  then obtain c where c: "rec_get (rt_calls (w_table w)) i = Some c" "a \<longrightarrow> fc_aborted c"
    using st by (auto simp: in_table_def split: option.splits if_splits)
  show ?thesis using failure_inv [OF inv c, of m] st ReplyFails c(1)
    by (auto simp: in_table_def split: if_splits)
next
  case (Local x)
  have cong: "world_inv (w\<lparr>w_table := t\<rparr>)"
    if "rt_items t = rt_items (w_table w)" "rt_queue t = rt_queue (w_table w)" "rt_frame t = rt_frame (w_table w)"
      "rt_ns t = rt_ns (w_table w)" "rt_calls t = rt_calls (w_table w)" "rt_fetch t = rt_fetch (w_table w)"
      "rt_next t = rt_next (w_table w)" for t
    using inv that listing_due_cong [of t "w_table w"]
    by (simp add: world_inv_def calls_ok_def queue_ok_def on_track_def pending_def watched_def resync_queued_def)
  show ?thesis
  proof (cases x)
    case (ShowNs ns)
    then show ?thesis using st Local show_ns_inv [OF inv, of ns]
      by (auto simp: in_table_def local_event_def)
  next
    case Refresh
    then show ?thesis using st Local fetch_inv [OF inv, of False]
      by (auto simp: in_table_def local_event_def)
  next
    case LoadMore
    then show ?thesis using st Local ok fetch_inv [OF inv, of True]
      by (auto simp: in_table_def local_event_def split: if_splits)
  next
    case Frame
    then show ?thesis using st Local flush_inv [OF inv]
      by (auto simp: in_table_def local_event_def split: if_splits)
  next
    case (SearchInput q)
    then show ?thesis using st Local by (auto simp: in_table_def local_event_def intro!: cong)
  next
    case (StatusChip q)
    then show ?thesis using st Local by (auto simp: in_table_def local_event_def intro!: cong)
  next
    case (SortBy k)
    then show ?thesis using st Local by (auto simp: in_table_def local_event_def handleSort_def split: if_splits intro!: cong)
  qed (use st Local in \<open>simp_all add: local_event_def\<close>)
qed

lemma world_init_inv: "well_formed hist \<Longrightarrow> world_inv (world_init kind ns hist)"
  by (simp add: world_inv_def world_init_def calls_ok_def queue_ok_def listing_due_def enter_def fetchResources_def
      abort_fetch_def table_init_def rec_get_def)

interpretation table_world: machine world_step keeps_up world_inv
  by unfold_locales (rule world_step_inv)

text \<open>C16: A table converges to the server: in every run in which the subscription is confirmed while a
  listing is due, no listing is taken that is older than the events already applied, and no
  further page is asked for while a listing is due, whatever else happens in whatever order
  (changes, dropped events and resyncs, late and failed replies, further pages, other namespaces):
  once every event has been delivered and applied and no listing is due, no two rows are the same
  object, every row is an object the server has, in its latest version, and if the last listing
  was complete every object of the namespace has a row.\<close>

theorem table_converges:
  assumes "well_formed hist" "run_ok world_step keeps_up (world_init kind ns hist) es"
    "run_events world_step (world_init kind ns hist) es = Some w"
    "\<not> listing_due (w_table w)" "\<not> rt_frame (w_table w)" "w_pos w = length (watched w)"
  shows "distinct (map uid_of (rt_items (w_table w)))
    \<and> (\<forall>r \<in> set (rt_items (w_table w)). server_at (watched w) (uid_of r) = Some r)
    \<and> (w_complete w \<longrightarrow> (\<forall>u r. server_at (watched w) u = Some r \<longrightarrow> r \<in> set (rt_items (w_table w))))"
proof -
  have inv: "world_inv w" by (rule table_world.run_inv [OF world_init_inv [OF assms(1)] assms(2,3)])
  then have d: "distinct (map uid_of (rt_items (w_table w)))" and q: "rt_queue (w_table w) = []"
    using assms(5) by (auto simp: world_inv_def calls_ok_def)
  then have p: "pending w = []" "on_track w"
    using inv assms(4,6) by (simp_all add: world_inv_def pending_def resync_queued_def)
  have tr: "row (rt_items (w_table w)) u = None \<or> row (rt_items (w_table w)) u = server_at (watched w) u"
    "w_complete w \<Longrightarrow> row (rt_items (w_table w)) u = server_at (watched w) u" for u
    using p unfolding on_track_def Let_def by simp_all
  have own: "row xs (uid_of r) = Some r" if "distinct (map uid_of xs)" "r \<in> set xs" for xs r
    using that by (induction xs) (auto simp: row_def)
  show ?thesis
  proof (intro conjI ballI impI allI)
    show "server_at (watched w) (uid_of r) = Some r" if "r \<in> set (rt_items (w_table w))" for r
      using own [OF d that] tr(1) [of "uid_of r"] by simp
    show "r \<in> set (rt_items (w_table w))" if "w_complete w" "server_at (watched w) u = Some r" for u r
      using tr(2) [OF that(1), of u] that(2) row_uid [of "rt_items (w_table w)" u r] by simp
  qed (rule d)
qed


definition demo_object :: "string \<Rightarrow> js" where
  "demo_object u = JObj [(''metadata'', JObj [(''name'', JStr u), (''namespace'', JStr ''prod''), (''uid'', JStr u)])]"

definition created :: "string \<Rightarrow> change" where
  "created u = \<lparr>ch_type = EVENT_ADDED, ch_object = demo_object u, ch_ns = ''prod''\<rparr>"

lemma demo_uid [simp]: "uid_of (demo_object u) = JStr u" "ch_uid (created u) = JStr u" "is_object (demo_object u)"
  by (simp_all add: uid_of_def meta_def demo_object_def rec_get_def ch_uid_def created_def)

lemma demo_fits: "u \<noteq> [] \<Longrightarrow> fits [] (created u)"
  by (simp add: fits_def) (simp add: created_def)

lemmas run_world = world_init_def enter_def fetchResources_def abort_fetch_def table_init_def rec_get_def
  in_table_def listing_due_def watched_def stream_def in_ns_def Let_def local_event_def

lemma demo_server: "server_at [created u] (JStr u) = Some (demo_object u)"
  by (simp add: server_at_def stored_def) (simp add: created_def event_names)

theorem table_converges_witness:
  "\<exists>w. run_events world_step (world_init ''pods'' ''prod'' [])
       [Confirmed, Changed (created ''a''), Delivered, ReplyAt 0 1 [demo_object ''a''] None None, Local Frame] = Some w
     \<and> (\<forall>r \<in> set (rt_items (w_table w)). server_at (watched w) (uid_of r) = Some r) \<and> rt_items (w_table w) \<noteq> []"
proof -
  let ?es = "[Confirmed, Changed (created ''a''), Delivered, ReplyAt 0 1 [demo_object ''a''] None None, Local Frame]"
  have f: "fits [] (created ''a'')" by (rule demo_fits) simp
  have n: "ch_ns (created ''a'') = ''prod''" "ch_object (created ''a'') = demo_object ''a''" "ch_type (created ''a'') = EVENT_ADDED"
    by (simp_all add: created_def)
  note run = run_world f n demo_server listing_def resync_queued_def push_event_def fetch_settled_def rec_del_def
  obtain w where w: "run_events world_step (world_init ''pods'' ''prod'' []) ?es = Some w"
    "run_ok world_step keeps_up (world_init ''pods'' ''prod'' []) ?es"
    by (simp add: run)
  moreover have "\<not> listing_due (w_table w)" "\<not> rt_frame (w_table w)" "w_pos w = length (watched w)"
    "rt_items (w_table w) = [demo_object ''a'']"
    using w(1) by (auto simp: run flushEvents_def message_def apply_event_def event_names)
  ultimately show ?thesis using table_converges [OF well_formed_Nil w(2,1)] by auto
qed

text \<open>
  An event applied while the listing is on its way is lost when the listing is older: its rows
  replace the ones the event was applied to. Subscribing first does not close this gap.
\<close>

lemma event_gap:
  "\<exists>w. run_events world_step (world_init ''pods'' ''prod'' [])
       [Confirmed, Changed (created ''a''), Delivered, Local Frame, ReplyAt 0 0 [] None None] = Some w
     \<and> rt_items (w_table w) = [] \<and> server_at (watched w) (JStr ''a'') = Some (demo_object ''a'')
     \<and> w_pos w = length (watched w) \<and> \<not> rt_frame (w_table w) \<and> \<not> listing_due (w_table w)"
proof -
  have f: "fits [] (created ''a'')" by (rule demo_fits) simp
  have n: "ch_ns (created ''a'') = ''prod''" "ch_object (created ''a'') = demo_object ''a''" "ch_type (created ''a'') = EVENT_ADDED"
    by (simp_all add: created_def)
  show ?thesis
    by (simp add: run_world f n demo_server listing_def push_event_def fetch_settled_def rec_del_def flushEvents_def
        message_def apply_event_def event_names full_listing_def)
qed

text \<open>
  After the connection has been lost and is back, the client subscribes again and nothing fetches:
  what happened meanwhile is missing from the rows.
\<close>

lemma reconnect_gap:
  "\<exists>w. run_events world_step (world_init ''pods'' ''prod'' [])
       [ReplyAt 0 0 [] None None, Changed (created ''a''), Confirmed] = Some w
     \<and> rt_items (w_table w) = [] \<and> server_at (watched w) (JStr ''a'') = Some (demo_object ''a'')
     \<and> w_pos w = length (watched w) \<and> \<not> rt_frame (w_table w) \<and> \<not> listing_due (w_table w)"
proof -
  have f: "fits [] (created ''a'')" by (rule demo_fits) simp
  have n: "ch_ns (created ''a'') = ''prod''" by (simp add: created_def)
  show ?thesis
    by (simp add: run_world f n demo_server listing_def fetch_settled_def rec_del_def full_listing_def)
qed

text \<open>
  The button for further pages stays while the listing of a newly chosen namespace is on its way.
  Pressing it aborts that listing, and the page of the new namespace is appended to the rows of
  the old one.
\<close>

lemma load_more_mixes_namespaces:
  "\<exists>t. run_events table_step (enter ''prod'' (table_init ''pods'' True))
       [ListReply 0 (ListPage [demo_object ''a''] (Some ''100'') None), ShowNs ''test'', LoadMore,
        ListReply 2 (ListPage [demo_object ''b''] None None)] = Some t
     \<and> rt_ns t = ''test'' \<and> rt_items t = [demo_object ''a'', demo_object ''b''] \<and> \<not> rt_loading t"
  by (simp add: enter_def leave_def fetchResources_def abort_fetch_def abort_call_def table_init_def rec_get_def rec_del_def
      fetch_settled_def append_unique_def numeral_2_eq_2 Let_def)

end
