(* ===== verification/Table_Rows.thy ===== *)
theory Table_Rows
  imports Resource_Table Access Nav
begin

text \<open>
The rest of \<open>islands/ResourceTable.tsx\<close>: which of the loaded rows are displayed and in what order, the
  links of the rows, and the row actions with \<open>components/ui/ConfirmDialog.tsx\<close> and
  \<open>components/ui/ScaleDialog.tsx\<close>. The permissions are fixed during a run.
\<close>

section \<open>What is displayed\<close>

text \<open>Comparison of strings by their code units.\<close>

fun str_lt :: "string \<Rightarrow> string \<Rightarrow> bool" where
  "str_lt [] [] = False"
| "str_lt [] (c # s) = True"
| "str_lt (c # s) [] = False"
| "str_lt (c # s) (d # t) = (char_code c < char_code d \<or> c = d \<and> str_lt s t)"

definition number_of :: "js \<Rightarrow> int" where
  "number_of v = (case v of JNum n \<Rightarrow> n | _ \<Rightarrow> 0)"

text \<open>\<open>getResourceStatus\<close>; a number that is missing counts as 0 through its \<open>??\<close>.\<close>

definition getResourceStatus :: "string \<Rightarrow> js \<Rightarrow> string" where
  "getResourceStatus kind r =
     (if kind \<in> set [''deployments'', ''statefulsets'', ''daemonsets''] then
        (let available = number_of (js_get (js_get r ''status'') ''availableReplicas'');
             replicas = number_of (js_get (js_get r ''spec'') ''replicas'')
         in if available = 0 \<and> replicas > 0 then ''failed''
            else if available < replicas then ''progressing'' else ''running'')
      else if kind = ''pods'' then
        (let phase = coalesce (js_get (js_get r ''status'') ''phase'') (JStr ''Unknown'')
         in if phase = JStr ''Running'' \<or> phase = JStr ''Succeeded'' then ''running''
            else if phase = JStr ''Pending'' then ''pending'' else ''failed'')
      else ''running'')"

definition showFilterChips :: "string \<Rightarrow> bool" where
  "showFilterChips kind \<longleftrightarrow> kind \<in> set [''deployments'', ''statefulsets'', ''daemonsets''] \<or> kind = ''pods''"

definition filterChips :: "string \<Rightarrow> string list" where
  "filterChips kind =
     (if kind = ''pods'' then [''All'', ''Running'', ''Pending'', ''Failed'']
      else [''All'', ''Running'', ''Progressing'', ''Failed''])"

definition sort_value :: "string \<Rightarrow> js \<Rightarrow> string" where
  "sort_value key r =
     (if key = ''name'' then meta_text r ''name''
      else if key = ''namespace'' then meta_text r ''namespace''
      else if key = ''age'' then meta_text r ''creationTimestamp''
      else meta_text r ''name'')"

definition compare_rows :: "string \<Rightarrow> bool \<Rightarrow> js \<Rightarrow> js \<Rightarrow> int" where
  "compare_rows key ascending a b =
     (let dir = (if ascending then 1 else - 1); va = sort_value key a; vb = sort_value key b
      in if str_lt va vb then - dir else if str_lt vb va then dir else 0)"

definition matches_search :: "string \<Rightarrow> js \<Rightarrow> bool" where
  "matches_search q r \<longleftrightarrow>
     str_includes (to_lower (meta_text r ''name'')) q \<or> str_includes (to_lower (meta_text r ''namespace'')) q"

definition displayed :: "resource_table \<Rightarrow> js list" where
  "displayed t =
     (let q = js_trim (to_lower (rt_search t));
          found = (if q \<noteq> [] then filter (matches_search q) (rt_items t) else rt_items t);
          filtered = (if rt_status t \<noteq> ''all'' \<and> showFilterChips (rt_kind t)
                      then filter (\<lambda>r. getResourceStatus (rt_kind t) r = rt_status t) found else found)
      in js_sort (compare_rows (rt_sort_key t) (rt_ascending t)) filtered)"

definition itemCountText :: "resource_table \<Rightarrow> string" where
  "itemCountText t =
     (if rt_loading t then ''Loading...''
      else (let shown = string_of_nat (length (displayed t)); n = length (rt_items t)
            in case rt_total t of
                 Some tot \<Rightarrow>
                   if tot > int n
                   then shown @ '' shown ('' @ string_of_nat n @ '' of '' @ string_of_int tot @ '' loaded)''
                   else shown @ '' items''
               | None \<Rightarrow> shown @ '' items''))"

definition row_url :: "string \<Rightarrow> js \<Rightarrow> string option" where
  "row_url kind item =
     (case rec_get RESOURCE_DETAIL_PATHS kind of
        None \<Rightarrow> None
      | Some basePath \<Rightarrow>
          if basePath = [] then None
          else if kind \<in> set CLUSTER_SCOPED_KINDS then Some (basePath @ ''/'' @ js_text (meta item ''name''))
          else Some (basePath @ ''/'' @ js_text (meta item ''namespace'') @ ''/'' @ js_text (meta item ''name'')))"

lemma str_lt_irrefl [simp]: "\<not> str_lt s s"
  by (induction s) auto

lemma str_lt_trans: "str_lt s t \<Longrightarrow> str_lt t u \<Longrightarrow> str_lt s u"
proof (induction s t arbitrary: u rule: str_lt.induct)
  case (2 c s)
  then show ?case by (cases u) auto
next
  case (4 c s d t)
  then show ?case by (cases u) auto
qed auto

lemma char_code_eq: "char_code c = char_code d \<longleftrightarrow> c = d"
  by (simp add: char_code_def)

lemma str_lt_total: "s \<noteq> t \<Longrightarrow> str_lt s t \<or> str_lt t s"
proof (induction s t rule: str_lt.induct)
  case (4 c s d t)
  then show ?case using char_code_eq [of c d] by (cases "char_code c" "char_code d" rule: linorder_cases) auto
qed auto

lemma compare_rows_le:
  "compare_rows key asc a b \<le> 0 \<longleftrightarrow>
     (if asc then \<not> str_lt (sort_value key b) (sort_value key a) else \<not> str_lt (sort_value key a) (sort_value key b))"
  using str_lt_trans [of "sort_value key a" "sort_value key b" "sort_value key a"]
  by (auto simp: compare_rows_def Let_def)

lemma str_le_trans: "\<not> str_lt t s \<Longrightarrow> \<not> str_lt u t \<Longrightarrow> \<not> str_lt u s"
  using str_lt_trans str_lt_total by metis

interpretation rows: sort_order "compare_rows key asc"
proof
  show "compare_rows key asc x y \<le> 0 \<or> compare_rows key asc y x \<le> 0" for x y
    using str_lt_trans [of "sort_value key x" "sort_value key y" "sort_value key x"]
    by (auto simp: compare_rows_le)
  show "compare_rows key asc x z \<le> 0" if "compare_rows key asc x y \<le> 0" "compare_rows key asc y z \<le> 0" for x y z
    using that str_le_trans by (auto simp: compare_rows_le split: if_splits)
qed

text \<open>The shown rows as a filter on the loaded ones.\<close>

definition shown :: "resource_table \<Rightarrow> js \<Rightarrow> bool" where
  "shown t r \<longleftrightarrow>
     (let q = js_trim (to_lower (rt_search t)) in q \<noteq> [] \<longrightarrow> matches_search q r)
     \<and> (rt_status t \<noteq> ''all'' \<and> showFilterChips (rt_kind t) \<longrightarrow> getResourceStatus (rt_kind t) r = rt_status t)"

lemma displayed_eq: "displayed t = js_sort (compare_rows (rt_sort_key t) (rt_ascending t)) (filter (shown t) (rt_items t))"
  by (auto simp: displayed_def shown_def Let_def filter_filter intro!: arg_cong [where f = "js_sort _"] filter_cong)

text \<open>C18: What the table displays: of the loaded rows exactly those that match the search and the
  status chip, each as often as it is loaded, in the order of the chosen column and direction, rows
  with equal values in their loaded order; clicking the header of the sorted column reverses the
  direction, another header sorts ascending by it, and neither changes which rows are shown.\<close>

theorem displayed_rows:
  "mset (displayed t) = mset (filter (shown t) (rt_items t))
    \<and> sorted_wrt (\<lambda>a b. if rt_ascending t then \<not> str_lt (sort_value (rt_sort_key t) b) (sort_value (rt_sort_key t) a)
                        else \<not> str_lt (sort_value (rt_sort_key t) a) (sort_value (rt_sort_key t) b)) (displayed t)
    \<and> filter (\<lambda>r. sort_value (rt_sort_key t) r = v) (displayed t) =
      filter (\<lambda>r. sort_value (rt_sort_key t) r = v) (filter (shown t) (rt_items t))
    \<and> mset (displayed (handleSort k t)) = mset (displayed t)
    \<and> rt_sort_key (handleSort k t) = k \<and> rt_ascending (handleSort k t) = (if k = rt_sort_key t then \<not> rt_ascending t else True)"
proof (intro conjI)
  show "sorted_wrt (\<lambda>a b. if rt_ascending t then \<not> str_lt (sort_value (rt_sort_key t) b) (sort_value (rt_sort_key t) a)
      else \<not> str_lt (sort_value (rt_sort_key t) a) (sort_value (rt_sort_key t) b)) (displayed t)"
    using rows.sorted_sort [of "rt_sort_key t" "rt_ascending t"] by (simp add: displayed_eq compare_rows_le)
  show "filter (\<lambda>r. sort_value (rt_sort_key t) r = v) (displayed t) =
      filter (\<lambda>r. sort_value (rt_sort_key t) r = v) (filter (shown t) (rt_items t))"
    unfolding displayed_eq by (rule rows.sort_stable) (simp add: compare_rows_le)
  have "shown (handleSort k t) = shown t" by (auto simp: shown_def handleSort_def fun_eq_iff)
  then show "mset (displayed (handleSort k t)) = mset (displayed t)"
    by (simp add: displayed_eq) (simp add: handleSort_def)
qed (auto simp: displayed_eq handleSort_def)

section \<open>Row actions\<close>

text \<open>
  The action state of the island: the open menu, the resource to confirm an action on with the
  parameters computed for it, the text typed into the confirmation dialog, and the resource to
  scale. \<open>ra_pending\<close> are the actions in flight with the message of a success, \<open>ra_sent\<close> all
  actions that sent a request, with the text that stood in the dialog. A toast says whether it
  reports success.
\<close>

record row_actions =
  ra_menu :: "js option"
  ra_confirm :: "(action_id \<times> js \<times> js) option"
  ra_typed :: string
  ra_scale :: "js option"
  ra_scale_value :: js
  ra_loading :: bool
  ra_pending :: "(js \<Rightarrow> string) list"
  ra_sent :: "(action_id \<times> js \<times> js \<times> string) list"
  ra_toasts :: "(bool \<times> string) list"

definition actions_init :: row_actions where
  "actions_init =
     \<lparr>ra_menu = None, ra_confirm = None, ra_typed = [], ra_scale = None, ra_scale_value = JNum 1, ra_loading = False,
      ra_pending = [], ra_sent = [], ra_toasts = []\<rparr>"

definition toggle_menu :: "js \<Rightarrow> row_actions \<Rightarrow> row_actions" where
  "toggle_menu uid s = s\<lparr>ra_menu := (if ra_menu s = Some uid then None else Some uid)\<rparr>"

text \<open>\<open>runAction\<close> up to its \<open>await\<close>; an error thrown before the request is reported at once.\<close>

definition runAction :: "string \<Rightarrow> action_id \<Rightarrow> js \<Rightarrow> js \<Rightarrow> row_actions \<Rightarrow> row_actions" where
  "runAction kind a resource params s =
     (if ra_loading s then s
      else case execute_action a kind (meta_text resource ''namespace'') (meta_text resource ''name'') params of
             Inl err \<Rightarrow> s\<lparr>ra_toasts := ra_toasts s @ [(False, err)]\<rparr>
           | Inr (rq, success) \<Rightarrow>
               s\<lparr>ra_loading := True, ra_pending := ra_pending s @ [success],
                 ra_sent := ra_sent s @ [(a, resource, params, ra_typed s)]\<rparr>)"

definition action_settled :: "js + string option \<Rightarrow> (js \<Rightarrow> string) \<Rightarrow> row_actions \<Rightarrow> row_actions" where
  "action_settled r success s =
     (case r of
        Inl res \<Rightarrow> s\<lparr>ra_toasts := ra_toasts s @ [(True, success res)], ra_confirm := None, ra_scale := None\<rparr>
      | Inr m \<Rightarrow> s\<lparr>ra_toasts := ra_toasts s @ [(False, case m of Some t \<Rightarrow> t | None \<Rightarrow> ''Action failed'')]\<rparr>)
     \<lparr>ra_loading := False\<rparr>"

definition handleActionClick :: "string \<Rightarrow> action_id \<Rightarrow> js \<Rightarrow> row_actions \<Rightarrow> row_actions" where
  "handleActionClick kind a resource s =
     (if ra_loading s then s
      else (let s1 = s\<lparr>ra_menu := None\<rparr>; spec = js_get resource ''spec''
            in if a = Scale
               then s1\<lparr>ra_scale_value := coalesce (js_get spec ''replicas'') (JNum 1), ra_scale := Some resource\<rparr>
               else if am_confirm (get_action_meta a resource) \<noteq> None
               then s1\<lparr>ra_confirm := Some (a, resource,
                        if a = Suspend then JObj [(''suspend'', JBool (\<not> truthy (js_get spec ''suspend'')))] else JUndef),
                      ra_typed := (if ra_confirm s = None then [] else ra_typed s)\<rparr>
               else runAction kind a resource JUndef s1))"

text \<open>\<open>ConfirmDialog\<close>: what must be typed, and whether the button is enabled.\<close>

definition type_to_confirm :: "action_id \<Rightarrow> js \<Rightarrow> string option" where
  "type_to_confirm a resource =
     (if am_confirm (get_action_meta a resource) = Some Destructive then Some (meta_text resource ''name'') else None)"

definition can_confirm :: "string option \<Rightarrow> string \<Rightarrow> bool" where
  "can_confirm required typed \<longleftrightarrow> (\<not> has_text required \<or> required = Some typed)"

text \<open>\<open>ScaleDialog\<close>: what a number field's text means; \<open>None\<close> is not a number.\<close>

definition scale_input :: "int option \<Rightarrow> int" where
  "scale_input raw = (case raw of None \<Rightarrow> 0 | Some n \<Rightarrow> min (max n 0) 1000)"

datatype action_event =
    ToggleMenu js | ClickOutside | ClickAction action_id js | TypeName string | PressConfirm | CancelConfirm
  | ScaleInput "int option" | PressScale | CancelScale | ActionReply "js + string option"

fun action_step :: "string \<Rightarrow> string \<Rightarrow> rbac_summary option \<Rightarrow> row_actions \<Rightarrow> action_event \<Rightarrow> row_actions option" where
  "action_step kind ns rbac s (ToggleMenu uid) = Some (toggle_menu uid s)"
| "action_step kind ns rbac s ClickOutside = Some (s\<lparr>ra_menu := None\<rparr>)"
| "action_step kind ns rbac s (ClickAction a resource) =
     (if a \<in> set (get_visible_actions kind ns rbac) \<and> ra_menu s = Some (uid_of resource)
      then Some (handleActionClick kind a resource s) else None)"
| "action_step kind ns rbac s (TypeName t) = (if ra_confirm s = None then None else Some (s\<lparr>ra_typed := t\<rparr>))"
| "action_step kind ns rbac s PressConfirm =
     (case ra_confirm s of
        None \<Rightarrow> None
      | Some (a, resource, params) \<Rightarrow>
          if can_confirm (type_to_confirm a resource) (ra_typed s) \<and> \<not> ra_loading s
          then Some (runAction kind a resource params s) else None)"
| "action_step kind ns rbac s CancelConfirm = Some (s\<lparr>ra_confirm := None\<rparr>)"
| "action_step kind ns rbac s (ScaleInput raw) =
     (if ra_scale s = None then None else Some (s\<lparr>ra_scale_value := JNum (scale_input raw)\<rparr>))"
| "action_step kind ns rbac s PressScale =
     (case ra_scale s of
        None \<Rightarrow> None
      | Some resource \<Rightarrow>
          if ra_loading s then None
          else Some (runAction kind Scale resource (JObj [(''replicas'', ra_scale_value s)]) s))"
| "action_step kind ns rbac s CancelScale = Some (s\<lparr>ra_scale := None\<rparr>)"
| "action_step kind ns rbac s (ActionReply r) =
     (case ra_pending s of
        [] \<Rightarrow> None
      | success # rest \<Rightarrow> Some (action_settled r success (s\<lparr>ra_pending := rest\<rparr>)))"

text \<open>What may be sent: a visible action, confirmed as its kind of confirmation demands.\<close>

definition proper :: "action_id list \<Rightarrow> action_id \<times> js \<times> js \<times> string \<Rightarrow> bool" where
  "proper visible x =
     (case x of (a, resource, params, typed) \<Rightarrow>
        a \<in> set visible
        \<and> (a = Delete \<longrightarrow> meta_text resource ''name'' = [] \<or> typed = meta_text resource ''name'')
        \<and> (a = Scale \<longrightarrow> (\<exists>v. params = JObj [(''replicas'', v)]
             \<and> (v = coalesce (js_get (js_get resource ''spec'') ''replicas'') (JNum 1)
                \<or> (\<exists>n. v = JNum n \<and> 0 \<le> n \<and> n \<le> 1000)))))"

definition actions_inv :: "action_id list \<Rightarrow> row_actions \<Rightarrow> bool" where
  "actions_inv visible s \<longleftrightarrow>
     length (ra_pending s) = (if ra_loading s then 1 else 0)
     \<and> (\<forall>a r p. ra_confirm s = Some (a, r, p) \<longrightarrow> a \<in> set visible \<and> a \<noteq> Scale)
     \<and> (\<forall>r. ra_scale s = Some r \<longrightarrow> proper visible (Scale, r, JObj [(''replicas'', ra_scale_value s)], []))
     \<and> (\<forall>x \<in> set (ra_sent s). proper visible x)"

lemma actions_init_inv: "actions_inv visible actions_init"
  by (simp add: actions_inv_def actions_init_def)

lemma every_confirm: "a \<noteq> Scale \<Longrightarrow> am_confirm (get_action_meta a r) \<noteq> None"
  by (cases a) (simp_all add: Let_def)

lemma destructive_delete: "type_to_confirm Delete r = Some (meta_text r ''name'')"
  by (simp add: type_to_confirm_def Let_def)

lemma proper_typed: "proper visible (a, r, p, t) \<Longrightarrow> a \<noteq> Delete \<Longrightarrow> proper visible (a, r, p, t')"
  by (simp add: proper_def)

lemma run_action_inv:
  assumes "actions_inv visible s" "proper visible (a, r, p, ra_typed s)"
  shows "actions_inv visible (runAction kind a r p s)"
  using assms by (auto simp: actions_inv_def runAction_def split: sum.splits)

lemma action_step_inv:
  assumes inv: "actions_inv (get_visible_actions kind ns rbac) s" and st: "action_step kind ns rbac s e = Some t"
  shows "actions_inv (get_visible_actions kind ns rbac) t"
proof (cases e)
  case (ClickAction a r)
  then have v: "a \<in> set (get_visible_actions kind ns rbac)" "t = handleActionClick kind a r s"
    using st by (auto split: if_splits)
  show ?thesis
  proof (cases "a = Scale")
    case True
    then show ?thesis using inv v by (auto simp: actions_inv_def handleActionClick_def Let_def proper_def)
  next
    case False
    then show ?thesis using inv v every_confirm [OF False, of r]
      by (auto simp: actions_inv_def handleActionClick_def Let_def)
  qed
next
  case PressConfirm
  then obtain a r p where c: "ra_confirm s = Some (a, r, p)" "can_confirm (type_to_confirm a r) (ra_typed s)"
    "t = runAction kind a r p s"
    using st by (auto split: option.splits if_splits)
  then have "proper (get_visible_actions kind ns rbac) (a, r, p, ra_typed s)"
    using inv destructive_delete [of r] by (auto simp: actions_inv_def proper_def can_confirm_def)
  then show ?thesis using run_action_inv [OF inv] c(3) by blast
next
  case (ScaleInput raw)
  then show ?thesis using inv st
    by (auto simp: actions_inv_def proper_def scale_input_def split: if_splits option.splits)
next
  case PressScale
  then obtain r where "ra_scale s = Some r" "t = runAction kind Scale r (JObj [(''replicas'', ra_scale_value s)]) s"
    using st by (auto split: option.splits if_splits)
  then show ?thesis using inv run_action_inv [OF inv] proper_typed unfolding actions_inv_def
    by (metis action_id.distinct(3) action_id.distinct(4))
next
  case (ActionReply r)
  then show ?thesis using inv st
    by (cases r) (auto simp: actions_inv_def action_settled_def split: list.splits if_splits)
qed (use inv st in \<open>auto simp: actions_inv_def toggle_menu_def split: if_splits option.splits\<close>)

interpretation row_actions: free_machine "action_step kind ns rbac" "actions_inv (get_visible_actions kind ns rbac)"
  by unfold_locales (rule action_step_inv)

text \<open>C17: A row's actions are permitted, deliberate and one at a time: in every run of clicks, typing and
  replies, at most one action is in flight and the loading flag says so; every action that sent
  its request is one the permissions let the menu show, a deletion only with the name of the very
  resource it deletes typed into the dialog, and scaling only to the present count or to one from
  0 to 1000; and nothing but confirming and the scale dialog sends anything.\<close>

theorem row_actions_deliberate:
  assumes "run_events (action_step kind ns rbac) actions_init es = Some s"
  shows "length (ra_pending s) = (if ra_loading s then 1 else 0)
    \<and> (\<forall>x \<in> set (ra_sent s). proper (get_visible_actions kind ns rbac) x)
    \<and> (\<forall>e t. action_step kind ns rbac s e = Some t \<and> e \<notin> {PressConfirm, PressScale} \<longrightarrow> ra_sent t = ra_sent s)"
proof (intro conjI allI impI)
  have inv: "actions_inv (get_visible_actions kind ns rbac) s"
    by (rule row_actions.runs_inv [OF actions_init_inv assms])
  then show "length (ra_pending s) = (if ra_loading s then 1 else 0)"
    "\<forall>x \<in> set (ra_sent s). proper (get_visible_actions kind ns rbac) x" by (auto simp: actions_inv_def)
  fix e t assume st: "action_step kind ns rbac s e = Some t \<and> e \<notin> {PressConfirm, PressScale}"
  show "ra_sent t = ra_sent s"
  proof (cases e)
    case (ClickAction a r)
    then show ?thesis using st every_confirm [of a r]
      by (cases "a = Scale") (auto simp: handleActionClick_def Let_def split: if_splits)
  next
    case (ActionReply r)
    then show ?thesis using st by (cases r) (auto simp: action_settled_def split: list.splits)
  qed (use st in \<open>auto simp: toggle_menu_def split: if_splits option.splits\<close>)
qed

theorem row_actions_deliberate_witness:
  "\<exists>s. run_events (action_step ''pods'' ''prod'' None) actions_init
       [ToggleMenu (JStr ''a''), ClickAction Delete (demo_object ''a''), TypeName ''a'', PressConfirm] = Some s
     \<and> map fst (ra_sent s) = [Delete] \<and> (\<forall>x \<in> set (ra_sent s). proper (get_visible_actions ''pods'' ''prod'' None) x)"
proof -
  let ?es = "[ToggleMenu (JStr ''a''), ClickAction Delete (demo_object ''a''), TypeName ''a'', PressConfirm]"
  have v: "Delete \<in> set (get_visible_actions ''pods'' ''prod'' None)" by code_simp
  have n: "meta_text (demo_object ''a'') ''name'' = ''a''"
    by (simp add: meta_text_def meta_def demo_object_def rec_get_def)
  have c: "am_confirm (get_action_meta Delete (demo_object ''a'')) = Some Destructive" by (simp add: Let_def)
  note run = actions_init_def toggle_menu_def handleActionClick_def Let_def v n type_to_confirm_def can_confirm_def
    runAction_def execute_action_def c
  obtain s where s: "run_events (action_step ''pods'' ''prod'' None) actions_init ?es = Some s"
    by (simp add: run del: get_action_meta.simps)
  moreover have "map fst (ra_sent s) = [Delete]"
    using s by (auto simp: run simp del: get_action_meta.simps)
  ultimately show ?thesis using row_actions_deliberate [OF s, THEN conjunct2, THEN conjunct1] by (intro exI [of _ s] conjI)
qed

end
