(* ===== verification/Ingress_Wizard.thy ===== *)
theory Ingress_Wizard
  imports Wizard_Shell
begin

text \<open>
\<open>islands/IngressWizard.tsx\<close>: the form of rules, paths and TLS entries, every control of the first
  step, validation, the preview payload and the live manifest. What is proved: the payload of every
  preview request is sound, no control empties the list of rules or of paths, and the TLS host
  field cannot take a comma.
\<close>

section \<open>The form\<close>

datatype path_type = Prefix | Exact | ImplementationSpecific

fun path_type_name :: "path_type \<Rightarrow> string" where
  "path_type_name Prefix = ''Prefix''"
| "path_type_name Exact = ''Exact''"
| "path_type_name ImplementationSpecific = ''ImplementationSpecific''"

record path_row =
  pa_path :: string
  pa_type :: path_type
  pa_service :: string
  pa_port :: int

record host_rule =
  hr_host :: string
  hr_paths :: "path_row list"

record tls_entry =
  tl_hosts :: "string list"
  tl_secret :: string

record ingress_form =
  if_name :: string
  if_namespace :: string
  if_class :: string
  if_rules :: "host_rule list"
  if_enable_tls :: bool
  if_tls :: "tls_entry list"

definition newPath :: path_row where
  "newPath = \<lparr>pa_path = ''/'', pa_type = Prefix, pa_service = [], pa_port = 80\<rparr>"

definition newHostRule :: host_rule where
  "newHostRule = \<lparr>hr_host = [], hr_paths = [newPath]\<rparr>"

definition initialState :: "string \<Rightarrow> ingress_form" where
  "initialState ns =
     \<lparr>if_name = [], if_namespace = ns, if_class = [], if_rules = [newHostRule], if_enable_tls = False, if_tls = []\<rparr>"


section \<open>Validation\<close>

definition path_errors :: "string \<Rightarrow> path_row \<Rightarrow> field_errors \<Rightarrow> field_errors" where
  "path_errors k p errs =
     (let e1 = (if \<not> starts_with (pa_path p) ''/'' then rec_set errs (k @ ''.path'') ''Must start with /'' else errs);
          e2 = (if pa_service p = [] then rec_set e1 (k @ ''.serviceName'') ''Required''
                else if \<not> dns_label (pa_service p)
                then rec_set e1 (k @ ''.serviceName'') ''Must be a valid DNS label'' else e1)
      in if pa_port p < 1 \<or> pa_port p > MAX_PORT then rec_set e2 (k @ ''.servicePort'') ''Must be 1-65535'' else e2)"

definition rule_errors :: "nat \<Rightarrow> host_rule \<Rightarrow> field_errors \<Rightarrow> field_errors" where
  "rule_errors i rule errs =
     (let k = idx ''rules'' i @ ''.paths'';
          e1 = (if hr_paths rule = [] then rec_set errs k ''At least one path is required'' else errs)
      in fold (\<lambda>(j, p). path_errors (idx k j) p) (enumerate 0 (hr_paths rule)) e1)"

definition tls_errors :: "nat \<Rightarrow> tls_entry \<Rightarrow> field_errors \<Rightarrow> field_errors" where
  "tls_errors i t errs =
     (let k = idx ''tls'' i;
          e1 = (if tl_hosts t = [] then rec_set errs (k @ ''.hosts'') ''At least one host is required'' else errs)
      in if tl_secret t = [] then rec_set e1 (k @ ''.secretName'') ''Required''
         else if \<not> dns_label (tl_secret t) then rec_set e1 (k @ ''.secretName'') ''Must be a valid DNS label''
         else e1)"

definition validateStep :: "nat \<Rightarrow> ingress_form \<Rightarrow> field_errors" where
  "validateStep step f =
     (if step = 0 then
        (let e1 = (if if_name f = [] \<or> \<not> dns_label (if_name f)
                   then [(''name'', ''Must be lowercase alphanumeric with hyphens, 1-63 characters'')] else []);
             e2 = (if if_namespace f = [] then rec_set e1 ''namespace'' ''Required'' else e1);
             e3 = (if if_rules f = [] then rec_set e2 ''rules'' ''At least one rule is required'' else e2);
             e4 = fold (\<lambda>(i, r). rule_errors i r) (enumerate 0 (if_rules f)) e3
         in if if_enable_tls f then fold (\<lambda>(i, t). tls_errors i t) (enumerate 0 (if_tls f)) e4 else e4)
      else [])"

definition path_ok :: "path_row \<Rightarrow> bool" where
  "path_ok p \<longleftrightarrow> starts_with (pa_path p) ''/'' \<and> dns_label (pa_service p) \<and> 1 \<le> pa_port p \<and> pa_port p \<le> MAX_PORT"

definition host_rule_ok :: "host_rule \<Rightarrow> bool" where
  "host_rule_ok r \<longleftrightarrow> hr_paths r \<noteq> [] \<and> (\<forall>p \<in> set (hr_paths r). path_ok p)"

definition tls_ok :: "tls_entry \<Rightarrow> bool" where
  "tls_ok t \<longleftrightarrow> tl_hosts t \<noteq> [] \<and> dns_label (tl_secret t)"

lemma dns_label_nonempty: "dns_label s \<Longrightarrow> s \<noteq> []"
  by (auto simp: dns_label_def)

lemma path_errors_none: "path_errors k p e = [] \<longleftrightarrow> e = [] \<and> path_ok p"
  by (auto simp: path_errors_def path_ok_def Let_def dest: dns_label_nonempty)

lemma rule_errors_none: "rule_errors i r e = [] \<longleftrightarrow> e = [] \<and> host_rule_ok r"
proof -
  have "fold (\<lambda>(j, p). path_errors (idx k j) p) (enumerate 0 ps) e = [] \<longleftrightarrow> e = [] \<and> (\<forall>p \<in> set ps. path_ok p)"
    for k ps e
    by (rule fold_rows_no_errors) (rule path_errors_none)
  then show ?thesis by (auto simp: rule_errors_def host_rule_ok_def Let_def)
qed

lemma tls_errors_none: "tls_errors i t e = [] \<longleftrightarrow> e = [] \<and> tls_ok t"
  by (auto simp: tls_errors_def tls_ok_def Let_def dest: dns_label_nonempty)

lemma ingress_valid:
  "validateStep 0 f = [] \<longleftrightarrow>
     dns_label (if_name f) \<and> if_namespace f \<noteq> [] \<and> if_rules f \<noteq> [] \<and> (\<forall>r \<in> set (if_rules f). host_rule_ok r)
     \<and> (if_enable_tls f \<longrightarrow> (\<forall>t \<in> set (if_tls f). tls_ok t))"
proof -
  have "fold (\<lambda>(i, r). rule_errors i r) (enumerate 0 rs) e = [] \<longleftrightarrow> e = [] \<and> (\<forall>r \<in> set rs. host_rule_ok r)" for rs e
    by (rule fold_rows_no_errors) (rule rule_errors_none)
  moreover have "fold (\<lambda>(i, t). tls_errors i t) (enumerate 0 ts) e = [] \<longleftrightarrow> e = [] \<and> (\<forall>t \<in> set ts. tls_ok t)" for ts e
    by (rule fold_rows_no_errors) (rule tls_errors_none)
  ultimately show ?thesis by (auto simp: validateStep_def Let_def dest: dns_label_nonempty)
qed


section \<open>The payload and the live manifest\<close>

definition path_object :: "path_row \<Rightarrow> js" where
  "path_object p =
     JObj [(''path'', JStr (pa_path p)), (''pathType'', JStr (path_type_name (pa_type p))),
           (''serviceName'', JStr (pa_service p)), (''servicePort'', JNum (pa_port p))]"

definition host_rule_object :: "host_rule \<Rightarrow> js" where
  "host_rule_object r =
     JObj [(''host'', if hr_host r = [] then JUndef else JStr (hr_host r)),
           (''paths'', JArr (map path_object (hr_paths r)))]"

definition tls_object :: "tls_entry \<Rightarrow> js" where
  "tls_object t = JObj [(''hosts'', JArr (map JStr (tl_hosts t))), (''secretName'', JStr (tl_secret t))]"

definition preview_payload :: "ingress_form \<Rightarrow> js" where
  "preview_payload f =
     JObj ([(''name'', JStr (if_name f)), (''namespace'', JStr (if_namespace f)),
            (''rules'', JArr (map host_rule_object (if_rules f)))]
           @ (if if_class f \<noteq> [] then [(''ingressClassName'', JStr (if_class f))] else [])
           @ (if if_enable_tls f \<and> if_tls f \<noteq> [] then [(''tls'', JArr (map tls_object (if_tls f)))] else []))"

definition preview_request :: "ingress_form \<Rightarrow> endpoint" where
  "preview_request f = api_post ''/v1/wizards/ingress/preview'' (preview_payload f)"

definition buildManifest :: "ingress_form \<Rightarrow> string" where
  "buildManifest f =
     (let n = [CHR 0x0A]; q = [CHR 0x22];
          first_rule = (case if_rules f of [] \<Rightarrow> None | r # _ \<Rightarrow> Some r);
          first_path = (case first_rule of None \<Rightarrow> None
                        | Some r \<Rightarrow> (case hr_paths r of [] \<Rightarrow> None | p # _ \<Rightarrow> Some p));
          host = (case first_rule of None \<Rightarrow> ''<host>'' | Some r \<Rightarrow> if hr_host r = [] then ''<host>'' else hr_host r);
          path = (case first_path of None \<Rightarrow> ''/'' | Some p \<Rightarrow> if pa_path p = [] then ''/'' else pa_path p);
          svc = (case first_path of None \<Rightarrow> ''<service>''
                 | Some p \<Rightarrow> if pa_service p = [] then ''<service>'' else pa_service p);
          port = (case first_path of None \<Rightarrow> 80 | Some p \<Rightarrow> pa_port p);
          kind = (case first_path of None \<Rightarrow> ''Prefix'' | Some p \<Rightarrow> path_type_name (pa_type p));
          y0 = ''apiVersion: networking.k8s.io/v1'' @ n @ ''kind: Ingress'' @ n @ ''metadata:'' @ n @ ''  name: ''
            @ (if if_name f = [] then ''<name>'' else if_name f) @ n @ ''  namespace: '' @ if_namespace f;
          y1 = y0 @ (if if_class f \<noteq> []
                     then n @ ''  annotations:'' @ n @ ''    kubernetes.io/ingress.class: '' @ q @ if_class f @ q else []);
          y2 = y1 @ n @ ''spec:'' @ n @ ''  rules:'' @ n @ ''    - host: '' @ host @ n @ ''      http:'' @ n
            @ ''        paths:'' @ n @ ''          - path: '' @ path @ n @ ''            pathType: '' @ kind @ n
            @ ''            backend:'' @ n @ ''              service:'' @ n @ ''                name: '' @ svc @ n
            @ ''                port:'' @ n @ ''                  number: '' @ string_of_int port
      in y2 @ (if if_enable_tls f
               then (case if_tls f of
                       [] \<Rightarrow> []
                     | t # _ \<Rightarrow> n @ ''  tls:'' @ n @ ''    - hosts:'' @ n @ ''        - ''
                         @ (case tl_hosts t of [] \<Rightarrow> host | h # _ \<Rightarrow> h) @ n @ ''      secretName: ''
                         @ (if tl_secret t = [] then ''<tls-secret>'' else tl_secret t))
               else []))"

text \<open>What the server is asked for.\<close>

definition path_sound :: "js \<Rightarrow> bool" where
  "path_sound p \<longleftrightarrow>
     (\<exists>s. js_get p ''path'' = JStr s \<and> starts_with s ''/'') \<and> (\<exists>s. js_get p ''serviceName'' = JStr s \<and> dns_label s)
     \<and> (\<exists>n. js_get p ''servicePort'' = JNum n \<and> 1 \<le> n \<and> n \<le> MAX_PORT)"

definition ingress_sound :: "js \<Rightarrow> bool" where
  "ingress_sound v \<longleftrightarrow>
     (\<exists>s. js_get v ''name'' = JStr s \<and> dns_label s) \<and> (\<exists>s. js_get v ''namespace'' = JStr s \<and> s \<noteq> [])
     \<and> array_items (js_get v ''rules'') \<noteq> []
     \<and> (\<forall>r \<in> set (array_items (js_get v ''rules'')).
          array_items (js_get r ''paths'') \<noteq> [] \<and> (\<forall>p \<in> set (array_items (js_get r ''paths'')). path_sound p))
     \<and> (\<forall>t \<in> set (array_items (js_get v ''tls'')).
          array_items (js_get t ''hosts'') \<noteq> [] \<and> (\<exists>s. js_get t ''secretName'' = JStr s \<and> dns_label s))"

lemma host_rule_sound:
  assumes "host_rule_ok r"
  shows "array_items (js_get (host_rule_object r) ''paths'') \<noteq> []
    \<and> (\<forall>p \<in> set (array_items (js_get (host_rule_object r) ''paths'')). path_sound p)"
  using assms by (auto simp: host_rule_object_def host_rule_ok_def path_sound_def path_object_def path_ok_def)

lemma ingress_payload_sound: "validateStep 0 f = [] \<Longrightarrow> ingress_sound (preview_payload f)"
proof -
  assume v: "validateStep 0 f = []"
  have "js_get (preview_payload f) ''rules'' = JArr (map host_rule_object (if_rules f))"
    by (simp add: preview_payload_def)
  moreover have "array_items (js_get (preview_payload f) ''tls'') = (if if_enable_tls f then map tls_object (if_tls f) else [])"
    by (simp add: preview_payload_def)
  ultimately show ?thesis
    using v host_rule_sound
    by (auto simp: ingress_sound_def ingress_valid tls_ok_def tls_object_def split: if_splits)
      (auto simp: preview_payload_def)
qed


section \<open>Editing the form\<close>

text \<open>The controls of the configuration step, by the callback they call.\<close>

datatype path_edit = SetPath string | SetPathType path_type | SetService string | SetServicePort int

fun edit_path :: "path_edit \<Rightarrow> path_row \<Rightarrow> path_row" where
  "edit_path (SetPath v) p = p\<lparr>pa_path := v\<rparr>"
| "edit_path (SetPathType t) p = p\<lparr>pa_type := t\<rparr>"
| "edit_path (SetService v) p = p\<lparr>pa_service := v\<rparr>"
| "edit_path (SetServicePort n) p = p\<lparr>pa_port := n\<rparr>"

text \<open>Rows are never removed altogether: an empty list gets a new row.\<close>

definition removePath :: "nat \<Rightarrow> host_rule \<Rightarrow> host_rule" where
  "removePath j r =
     (let paths = remove_nth j (hr_paths r) in r\<lparr>hr_paths := (if paths \<noteq> [] then paths else [newPath])\<rparr>)"

definition removeRule :: "nat \<Rightarrow> ingress_form \<Rightarrow> ingress_form" where
  "removeRule i f =
     (let rules = remove_nth i (if_rules f) in f\<lparr>if_rules := (if rules \<noteq> [] then rules else [newHostRule])\<rparr>)"

definition updateRule :: "nat \<Rightarrow> (host_rule \<Rightarrow> host_rule) \<Rightarrow> ingress_form \<Rightarrow> ingress_form" where
  "updateRule i u f = f\<lparr>if_rules := update_nth i u (if_rules f)\<rparr>"

text \<open>\<open>[...new Set(xs)]\<close>.\<close>

definition unique_in_order :: "string list \<Rightarrow> string list" where
  "unique_in_order xs = fold (\<lambda>x seen. if x \<in> set seen then seen else seen @ [x]) xs []"

definition toggleTLS :: "bool \<Rightarrow> ingress_form \<Rightarrow> ingress_form" where
  "toggleTLS enabled f =
     (if enabled
      then f\<lparr>if_enable_tls := True,
             if_tls := [\<lparr>tl_hosts = unique_in_order (filter (\<lambda>h. h \<noteq> []) (map hr_host (if_rules f))), tl_secret = []\<rparr>]\<rparr>
      else f\<lparr>if_enable_tls := False, if_tls := []\<rparr>)"

text \<open>The TLS host field shows the hosts joined with commas and stores what is typed split again.\<close>

definition tls_hosts_shown :: "string list \<Rightarrow> string" where
  "tls_hosts_shown hosts = js_join '','' hosts"

definition tls_hosts_typed :: "string \<Rightarrow> string list" where
  "tls_hosts_typed val = filter (\<lambda>h. h \<noteq> []) (map js_trim (js_split CHR '','' val))"

datatype ingress_edit =
    SetName string | SetNamespace string | SetClass string
  | AddRule | RemoveRule nat | SetHost nat string
  | AddPath nat | RemovePath nat nat | EditPath nat nat path_edit
  | ToggleTls bool | SetTlsHosts nat string | SetTlsSecret nat string

fun edit_ingress :: "ingress_edit \<Rightarrow> ingress_form \<Rightarrow> ingress_form" where
  "edit_ingress (SetName v) f = f\<lparr>if_name := v\<rparr>"
| "edit_ingress (SetNamespace v) f = f\<lparr>if_namespace := v\<rparr>"
| "edit_ingress (SetClass v) f = f\<lparr>if_class := v\<rparr>"
| "edit_ingress AddRule f = f\<lparr>if_rules := if_rules f @ [newHostRule]\<rparr>"
| "edit_ingress (RemoveRule i) f = removeRule i f"
| "edit_ingress (SetHost i v) f = updateRule i (\<lambda>r. r\<lparr>hr_host := v\<rparr>) f"
| "edit_ingress (AddPath i) f = updateRule i (\<lambda>r. r\<lparr>hr_paths := hr_paths r @ [newPath]\<rparr>) f"
| "edit_ingress (RemovePath i j) f = updateRule i (removePath j) f"
| "edit_ingress (EditPath i j e) f = updateRule i (\<lambda>r. r\<lparr>hr_paths := update_nth j (edit_path e) (hr_paths r)\<rparr>) f"
| "edit_ingress (ToggleTls b) f = toggleTLS b f"
| "edit_ingress (SetTlsHosts i v) f = f\<lparr>if_tls := update_nth i (\<lambda>t. t\<lparr>tl_hosts := tls_hosts_typed v\<rparr>) (if_tls f)\<rparr>"
| "edit_ingress (SetTlsSecret i v) f = f\<lparr>if_tls := update_nth i (\<lambda>t. t\<lparr>tl_secret := v\<rparr>) (if_tls f)\<rparr>"

text \<open>The remove buttons are there while there is more than one row, the TLS fields while TLS is on.\<close>

fun control_shown :: "ingress_edit \<Rightarrow> ingress_form \<Rightarrow> bool" where
  "control_shown (RemoveRule i) f = (length (if_rules f) > 1)"
| "control_shown (RemovePath i j) f = (i < length (if_rules f) \<and> length (hr_paths (if_rules f ! i)) > 1)"
| "control_shown (SetTlsHosts i v) f = if_enable_tls f"
| "control_shown (SetTlsSecret i v) f = if_enable_tls f"
| "control_shown e f = True"

definition ingress_fields :: "nat \<Rightarrow> ingress_edit \<Rightarrow> ingress_form \<Rightarrow> ingress_form option" where
  "ingress_fields step e f = (if step = 0 \<and> control_shown e f then Some (edit_ingress e f) else None)"

definition ingress_wizard_step :: "ingress_form wizard \<Rightarrow> ingress_edit wizard_event \<Rightarrow> ingress_form wizard option" where
  "ingress_wizard_step = wizard_step validateStep preview_request ingress_fields 0 False"

text \<open>There is always a rule, and every rule has a path; TLS off means no TLS entries.\<close>

definition rows_kept :: "ingress_form \<Rightarrow> bool" where
  "rows_kept f \<longleftrightarrow>
     if_rules f \<noteq> [] \<and> (\<forall>r \<in> set (if_rules f). hr_paths r \<noteq> []) \<and> (if_enable_tls f \<longleftrightarrow> if_tls f \<noteq> [])"

lemma update_rule_rows:
  assumes "rows_kept f" "\<And>r. hr_paths r \<noteq> [] \<Longrightarrow> hr_paths (u r) \<noteq> []"
  shows "rows_kept (updateRule i u f)"
  using assms update_nth_all [of "if_rules f" "\<lambda>r. hr_paths r \<noteq> []" u i] by (simp add: rows_kept_def updateRule_def)

lemma remove_path_rows [simp]: "hr_paths (removePath j r) \<noteq> []"
  by (simp add: removePath_def Let_def)

lemma edit_ingress_rows: "rows_kept f \<Longrightarrow> control_shown e f \<Longrightarrow> rows_kept (edit_ingress e f)"
proof (induction e f rule: edit_ingress.induct)
  case (5 i f)
  then show ?case by (auto simp: rows_kept_def removeRule_def newHostRule_def Let_def dest: remove_nth_set)
qed (auto simp: toggleTLS_def Let_def newHostRule_def intro!: update_rule_rows, auto simp: rows_kept_def newHostRule_def)

interpretation ingress: guarded_wizard validateStep preview_request ingress_fields 0 False rows_kept
  by unfold_locales (auto simp: ingress_fields_def edit_ingress_rows split: if_splits)

text \<open>C19: Whatever the user does in the ingress wizard, in any order and with any late replies, every
  preview request carries a sound payload: a DNS label as name, a namespace, at least one rule, each
  with at least one path that starts with a slash and leads to a DNS-label service on a port from 1
  to 65535, and TLS entries with hosts and a DNS-label secret; the review step shows the request of the
  form as it stands; and the form always keeps a rule and, in every rule, a path.\<close>

theorem ingress_sends_sound:
  assumes "run_events ingress_wizard_step (wizard_init (initialState ns)) es = Some w"
  shows "(\<forall>rq \<in> set (pv_posted (wz_preview w)). \<exists>f. rq = preview_request f \<and> ingress_sound (preview_payload f))
    \<and> (wz_step w > 0 \<longrightarrow> (\<exists>rest. pv_posted (wz_preview w) = preview_request (wz_form w) # rest))
    \<and> rows_kept (wz_form w)"
proof -
  have start: "rows_kept (initialState ns)" by (simp add: rows_kept_def initialState_def newHostRule_def)
  show ?thesis
    using ingress.sends_fine [OF start] assms ingress_payload_sound
    unfolding ingress_wizard_step_def valid_form_0 by blast
qed

theorem ingress_sends_sound_witness:
  "\<exists>w. run_events ingress_wizard_step (wizard_init (initialState ''prod''))
         [EditForm (SetName ''web''), EditForm (EditPath 0 0 (SetService ''api'')), Continue] = Some w
     \<and> wz_step w = 1 \<and> (\<exists>f. pv_posted (wz_preview w) = [preview_request f] \<and> ingress_sound (preview_payload f))"
proof -
  let ?es = "[EditForm (SetName ''web''), EditForm (EditPath 0 0 (SetService ''api'')), Continue]"
  have d: "dns_label ''web''" "dns_label ''api''" "starts_with ''/'' ''/''" by code_simp+
  obtain w where w: "run_events ingress_wizard_step (wizard_init (initialState ''prod'')) ?es = Some w"
    by (simp add: wizard_init_def ingress_wizard_step_def ingress_fields_def)
  then have "wz_step w = 1 \<and> length (pv_posted (wz_preview w)) = 1" using d
    by (auto simp: wizard_init_def ingress_wizard_step_def ingress_fields_def edit_form_def goNext_def initialState_def
        newHostRule_def newPath_def updateRule_def update_nth_def ingress_valid host_rule_ok_def path_ok_def MAX_PORT_def
        fetch_preview_def preview_init_def Let_def split: if_splits)
  then show ?thesis using ingress_sends_sound [OF w] w by (auto simp: length_Suc_conv)
qed

text \<open>
  A comma typed at the end of the TLS host field disappears at once, because the hosts stored do
  not change and the field shows them joined again: a second host can only be pasted.
\<close>

lemma split_snoc: "js_split c (s @ [c]) = js_split c s @ [[]]"
  by (induction s) (auto split: list.split)

lemma comma_disappears:
  assumes "\<And>h. h \<in> set hosts \<Longrightarrow> h \<noteq> [] \<and> js_trim h = h \<and> CHR '','' \<notin> set h"
  shows "tls_hosts_shown (tls_hosts_typed (tls_hosts_shown hosts @ '','')) = tls_hosts_shown hosts"
proof -
  have "js_split CHR '','' (js_join '','' hosts @ '','') = (if hosts = [] then [[], []] else hosts @ [[]])"
    using js_split_join [of hosts "CHR '',''"] assms by (simp add: split_snoc)
  moreover have "map js_trim hosts = hosts" by (rule map_idI) (simp add: assms)
  moreover have "filter (\<lambda>h. h \<noteq> []) hosts = hosts" by (simp add: assms)
  ultimately show ?thesis by (simp add: tls_hosts_typed_def tls_hosts_shown_def js_trim_def)
qed

end
