(* ===== verification/Service_Wizard.thy ===== *)
theory Service_Wizard
  imports Wizard_Shell
begin

text \<open>
\<open>islands/ServiceWizard.tsx\<close> with \<open>components/wizard/ServiceBasicsStep.tsx\<close> and
  \<open>components/wizard/ServicePortsStep.tsx\<close>: the form with the label and selector that follow the name,
  validation, the preview payload and the live manifest. What is proved: the payload of every
  preview request is sound, up to node ports of a type that does not show them.
\<close>

section \<open>The form\<close>

datatype service_type = ClusterIP | NodePort | LoadBalancer

fun service_type_name :: "service_type \<Rightarrow> string" where
  "service_type_name ClusterIP = ''ClusterIP''"
| "service_type_name NodePort = ''NodePort''"
| "service_type_name LoadBalancer = ''LoadBalancer''"

record service_port =
  sp_name :: string
  sp_port :: int
  sp_target :: int
  sp_protocol :: string
  sp_node :: int

record service_form =
  sf_name :: string
  sf_namespace :: string
  sf_type :: service_type
  sf_labels :: "label_entry list"
  sf_selector :: "label_entry list"
  sf_ports :: "service_port list"

definition initialState :: "string \<Rightarrow> service_form" where
  "initialState ns =
     \<lparr>sf_name = [], sf_namespace = ns, sf_type = ClusterIP,
      sf_labels = [\<lparr>le_key = ''app'', le_value = []\<rparr>], sf_selector = [\<lparr>le_key = ''app'', le_value = []\<rparr>],
      sf_ports = [\<lparr>sp_name = [], sp_port = 80, sp_target = 8080, sp_protocol = ''TCP'', sp_node = 0\<rparr>]\<rparr>"


section \<open>Validation\<close>

definition MIN_NODE_PORT :: int where "MIN_NODE_PORT = 30000"
definition MAX_NODE_PORT :: int where "MAX_NODE_PORT = 32767"

text \<open>\<open>/^[a-z]([a-z0-9-]{0,13}[a-z0-9])?$|^[a-z0-9]$/\<close>.\<close>

definition port_name :: "string \<Rightarrow> bool" where
  "port_name s \<longleftrightarrow>
     (s \<noteq> [] \<and> length s \<le> 15 \<and> 97 \<le> char_code (hd s) \<and> char_code (hd s) \<le> 122 \<and> lower_alnum (last s)
      \<and> list_all (\<lambda>c. lower_alnum c \<or> c = CHR ''-'') s)
     \<or> (length s = 1 \<and> lower_alnum (hd s))"

definition shows_node_port :: "service_type \<Rightarrow> bool" where
  "shows_node_port t \<longleftrightarrow> t = NodePort \<or> t = LoadBalancer"

definition port_errors :: "service_type \<Rightarrow> nat \<Rightarrow> service_port \<Rightarrow> field_errors \<Rightarrow> field_errors" where
  "port_errors t i p errs =
     (let k = idx ''ports'' i;
          e1 = (if sp_name p \<noteq> [] \<and> \<not> port_name (sp_name p)
                then rec_set errs (k @ ''.name'')
                  ''Must be a valid IANA service name (lowercase, alphanumeric + hyphens, max 15 chars)'' else errs);
          e2 = (if sp_port p \<noteq> 0 \<and> (sp_port p < 1 \<or> sp_port p > MAX_PORT)
                then rec_set e1 (k @ ''.port'') ''Must be 1-65535'' else e1);
          e3 = (if sp_target p \<noteq> 0 \<and> (sp_target p < 1 \<or> sp_target p > MAX_PORT)
                then rec_set e2 (k @ ''.targetPort'') ''Must be 1-65535'' else e2)
      in if sp_node p \<noteq> 0 \<and> shows_node_port t \<and> (sp_node p < MIN_NODE_PORT \<or> sp_node p > MAX_NODE_PORT)
         then rec_set e3 (k @ ''.nodePort'') ''Must be 30000-32767'' else e3)"

definition validateStep :: "nat \<Rightarrow> service_form \<Rightarrow> field_errors" where
  "validateStep step f =
     (if step = 0 then
        (let e1 = (if sf_name f = [] \<or> \<not> dns_label (sf_name f)
                   then [(''name'', ''Must be lowercase alphanumeric with hyphens, 1-63 characters'')] else [])
         in if sf_namespace f = [] then rec_set e1 ''namespace'' ''Required'' else e1)
      else if step = 1 then
        (let e1 = (if filter (\<lambda>l. le_key l \<noteq> []) (sf_selector f) = []
                   then [(''selector'', ''At least one selector is required'')] else []);
             e2 = (if filter (\<lambda>p. sp_port p > 0) (sf_ports f) = []
                   then rec_set e1 ''ports'' ''At least one port is required'' else e1)
         in fold (\<lambda>(i, p). port_errors (sf_type f) i p) (enumerate 0 (sf_ports f)) e2)
      else [])"

definition in_ports :: "int \<Rightarrow> bool" where
  "in_ports n \<longleftrightarrow> 1 \<le> n \<and> n \<le> MAX_PORT"

definition port_ok :: "service_type \<Rightarrow> service_port \<Rightarrow> bool" where
  "port_ok t p \<longleftrightarrow>
     (sp_name p = [] \<or> port_name (sp_name p)) \<and> (sp_port p = 0 \<or> in_ports (sp_port p))
     \<and> (sp_target p = 0 \<or> in_ports (sp_target p))
     \<and> (sp_node p = 0 \<or> \<not> shows_node_port t \<or> MIN_NODE_PORT \<le> sp_node p \<and> sp_node p \<le> MAX_NODE_PORT)"

lemma service_port_none: "port_errors t i p e = [] \<longleftrightarrow> e = [] \<and> port_ok t p"
  by (auto simp: port_errors_def port_ok_def in_ports_def Let_def)

lemma service_basics: "validateStep 0 f = [] \<longleftrightarrow> dns_label (sf_name f) \<and> sf_namespace f \<noteq> []"
  by (auto simp: validateStep_def Let_def dns_label_def)

lemma service_ports:
  "validateStep 1 f = [] \<longleftrightarrow>
     (\<exists>l \<in> set (sf_selector f). le_key l \<noteq> []) \<and> (\<exists>p \<in> set (sf_ports f). sp_port p > 0)
     \<and> (\<forall>p \<in> set (sf_ports f). port_ok (sf_type f) p)"
proof -
  have "fold (\<lambda>(i, p). port_errors t i p) (enumerate 0 ps) e = [] \<longleftrightarrow> e = [] \<and> (\<forall>p \<in> set ps. port_ok t p)" for t ps e
    by (rule fold_rows_no_errors) (rule service_port_none)
  then show ?thesis by (auto simp: validateStep_def Let_def filter_empty_conv)
qed

lemma valid_service_form: "valid_form validateStep 1 f \<longleftrightarrow> validateStep 0 f = [] \<and> validateStep 1 f = []"
  using valid_form_Suc [of validateStep 0 f] by (simp add: valid_form_0)


section \<open>The payload and the live manifest\<close>

text \<open>The entries that have a key, as an object; a later entry of the same key wins.\<close>

definition key_value_map :: "label_entry list \<Rightarrow> (string \<times> js) list" where
  "key_value_map ls = fold (\<lambda>l m. if le_key l \<noteq> [] then rec_set m (le_key l) (JStr (le_value l)) else m) ls []"

definition port_object :: "service_port \<Rightarrow> js" where
  "port_object p =
     JObj [(''name'', if sp_name p = [] then JUndef else JStr (sp_name p)),
           (''port'', JNum (sp_port p)),
           (''targetPort'', JNum (if sp_target p = 0 then sp_port p else sp_target p)),
           (''protocol'', JStr (if sp_protocol p = [] then ''TCP'' else sp_protocol p)),
           (''nodePort'', if sp_node p = 0 then JUndef else JNum (sp_node p))]"

definition preview_payload :: "service_form \<Rightarrow> js" where
  "preview_payload f =
     (let labelsMap = key_value_map (sf_labels f)
      in JObj [(''name'', JStr (sf_name f)), (''namespace'', JStr (sf_namespace f)),
               (''type'', JStr (service_type_name (sf_type f))),
               (''labels'', if labelsMap \<noteq> [] then JObj labelsMap else JUndef),
               (''selector'', JObj (key_value_map (sf_selector f))),
               (''ports'', JArr (map port_object (filter (\<lambda>p. sp_port p > 0) (sf_ports f))))])"

definition preview_request :: "service_form \<Rightarrow> endpoint" where
  "preview_request f = api_post ''/v1/wizards/service/preview'' (preview_payload f)"

definition buildManifest :: "service_form \<Rightarrow> string" where
  "buildManifest f =
     (let n = [CHR 0x0A]; q = [CHR 0x22];
          sel = (case sf_selector f of [] \<Rightarrow> \<lparr>le_key = [], le_value = []\<rparr> | s # _ \<Rightarrow> s);
          (port, target, protocol) =
            (case sf_ports f of [] \<Rightarrow> (80, 8080, ''TCP'') | p # _ \<Rightarrow> (sp_port p, sp_target p, sp_protocol p))
      in ''apiVersion: v1'' @ n @ ''kind: Service'' @ n @ ''metadata:'' @ n @ ''  name: ''
         @ (if sf_name f = [] then ''<name>'' else sf_name f) @ n @ ''  namespace: '' @ sf_namespace f @ n @ ''spec:'' @ n
         @ ''  type: '' @ service_type_name (sf_type f) @ n @ ''  selector:'' @ n @ ''    ''
         @ (if le_key sel = [] then ''app'' else le_key sel) @ '': '' @ q @ le_value sel @ q @ n @ ''  ports:'' @ n
         @ ''    - port: '' @ string_of_int port @ n @ ''      targetPort: '' @ string_of_int target @ n
         @ ''      protocol: '' @ protocol)"

text \<open>What the server is asked for.\<close>

definition port_sound :: "js \<Rightarrow> js \<Rightarrow> bool" where
  "port_sound typ p \<longleftrightarrow>
     (js_get p ''name'' = JUndef \<or> (\<exists>s. js_get p ''name'' = JStr s \<and> port_name s))
     \<and> (\<exists>n. js_get p ''port'' = JNum n \<and> in_ports n) \<and> (\<exists>n. js_get p ''targetPort'' = JNum n \<and> in_ports n)
     \<and> (typ = JStr ''ClusterIP'' \<or> js_get p ''nodePort'' = JUndef
        \<or> (\<exists>n. js_get p ''nodePort'' = JNum n \<and> MIN_NODE_PORT \<le> n \<and> n \<le> MAX_NODE_PORT))"

definition service_sound :: "js \<Rightarrow> bool" where
  "service_sound v \<longleftrightarrow>
     (\<exists>s. js_get v ''name'' = JStr s \<and> dns_label s) \<and> (\<exists>s. js_get v ''namespace'' = JStr s \<and> s \<noteq> [])
     \<and> js_get v ''selector'' \<noteq> JObj [] \<and> array_items (js_get v ''ports'') \<noteq> []
     \<and> (\<forall>p \<in> set (array_items (js_get v ''ports'')). port_sound (js_get v ''type'') p)"

lemma key_value_map_empty: "key_value_map ls = [] \<longleftrightarrow> (\<forall>l \<in> set ls. le_key l = [])"
proof -
  have "fold (\<lambda>l m. if le_key l \<noteq> [] then rec_set m (le_key l) (JStr (le_value l)) else m) ls m = [] \<longleftrightarrow>
      m = [] \<and> (\<forall>l \<in> set ls. le_key l = [])" for m
    by (induction ls arbitrary: m) auto
  then show ?thesis by (simp add: key_value_map_def)
qed

lemma port_object_sound:
  "port_ok t p \<Longrightarrow> sp_port p > 0 \<Longrightarrow> port_sound (JStr (service_type_name t)) (port_object p)"
  by (cases t) (auto simp: port_ok_def port_sound_def port_object_def shows_node_port_def in_ports_def)

lemma service_payload_sound: "valid_form validateStep 1 f \<Longrightarrow> service_sound (preview_payload f)"
proof -
  assume "valid_form validateStep 1 f"
  then have v: "validateStep 0 f = []" "validateStep 1 f = []" unfolding valid_service_form by blast+
  have "js_get (preview_payload f) ''type'' = JStr (service_type_name (sf_type f))"
      "array_items (js_get (preview_payload f) ''ports'') = map port_object (filter (\<lambda>p. sp_port p > 0) (sf_ports f))"
      "js_get (preview_payload f) ''selector'' = JObj (key_value_map (sf_selector f))"
    by (simp_all add: preview_payload_def Let_def)
  moreover have "filter (\<lambda>p. sp_port p > 0) (sf_ports f) \<noteq> []" using iffD1 [OF service_ports v(2)] by (auto simp: filter_empty_conv)
  moreover have "key_value_map (sf_selector f) \<noteq> []" using iffD1 [OF service_ports v(2)] by (auto simp: key_value_map_empty)
  moreover have "\<forall>p \<in> set (filter (\<lambda>p. sp_port p > 0) (sf_ports f)).
      port_sound (JStr (service_type_name (sf_type f))) (port_object p)"
    using iffD1 [OF service_ports v(2)] port_object_sound by auto
  ultimately show ?thesis using v(1)
    by (simp add: service_sound_def) (simp add: preview_payload_def service_basics Let_def)
qed


section \<open>Editing the form\<close>

text \<open>The value of the first entry with the key \<open>app\<close> follows the name.\<close>

fun sync_app :: "string \<Rightarrow> label_entry list \<Rightarrow> label_entry list" where
  "sync_app v [] = []"
| "sync_app v (l # ls) = (if le_key l = ''app'' then l\<lparr>le_value := v\<rparr> # ls else l # sync_app v ls)"

definition set_name :: "string \<Rightarrow> service_form \<Rightarrow> service_form" where
  "set_name v f = f\<lparr>sf_name := v, sf_labels := sync_app v (sf_labels f), sf_selector := sync_app v (sf_selector f)\<rparr>"

definition addPort :: "service_port list \<Rightarrow> service_port list" where
  "addPort ps =
     (if length ps \<ge> 20 then ps
      else ps @ [\<lparr>sp_name = [], sp_port = 0, sp_target = 0, sp_protocol = ''TCP'', sp_node = 0\<rparr>])"

datatype port_edit = SetPortName string | SetPort int | SetTargetPort int | SetProtocol string | SetNodePort int

fun edit_port :: "port_edit \<Rightarrow> service_port \<Rightarrow> service_port" where
  "edit_port (SetPortName v) p = p\<lparr>sp_name := v\<rparr>"
| "edit_port (SetPort n) p = p\<lparr>sp_port := n\<rparr>"
| "edit_port (SetTargetPort n) p = p\<lparr>sp_target := n\<rparr>"
| "edit_port (SetProtocol v) p = p\<lparr>sp_protocol := v\<rparr>"
| "edit_port (SetNodePort n) p = p\<lparr>sp_node := n\<rparr>"

datatype service_edit =
    SetName string | SetNamespace string | SetType service_type | EditLabels label_edit
  | EditSelector label_edit | AddPort | RemovePort nat | EditPort nat port_edit

text \<open>The fields of the two steps; a node port is shown for the types that have one.\<close>

fun service_fields :: "nat \<Rightarrow> service_edit \<Rightarrow> service_form \<Rightarrow> service_form option" where
  "service_fields step (SetName v) f = (if step = 0 then Some (set_name v f) else None)"
| "service_fields step (SetNamespace v) f = (if step = 0 then Some (f\<lparr>sf_namespace := v\<rparr>) else None)"
| "service_fields step (SetType t) f = (if step = 0 then Some (f\<lparr>sf_type := t\<rparr>) else None)"
| "service_fields step (EditLabels e) f =
     (if step = 0 then Some (f\<lparr>sf_labels := edit_labels e (sf_labels f)\<rparr>) else None)"
| "service_fields step (EditSelector e) f =
     (if step = 1 then Some (f\<lparr>sf_selector := edit_labels e (sf_selector f)\<rparr>) else None)"
| "service_fields step AddPort f = (if step = 1 then Some (f\<lparr>sf_ports := addPort (sf_ports f)\<rparr>) else None)"
| "service_fields step (RemovePort i) f =
     (if step = 1 then Some (f\<lparr>sf_ports := remove_nth i (sf_ports f)\<rparr>) else None)"
| "service_fields step (EditPort i e) f =
     (if step = 1 \<and> ((\<exists>n. e = SetNodePort n) \<longrightarrow> shows_node_port (sf_type f))
      then Some (f\<lparr>sf_ports := update_nth i (edit_port e) (sf_ports f)\<rparr>) else None)"

definition service_wizard_step :: "service_form wizard \<Rightarrow> service_edit wizard_event \<Rightarrow> service_form wizard option" where
  "service_wizard_step = wizard_step validateStep preview_request service_fields 1 False"

interpretation service: guarded_wizard validateStep preview_request service_fields 1 False
    "\<lambda>f. length (sf_ports f) \<le> 20"
proof
  fix s k :: nat and e f g
  assume g: "service_fields s e f = Some g"
  then show "s \<le> 1" by (cases e) (auto split: if_splits)
  show "validateStep k g = []" if "k < s" "validateStep k f = []"
    using that g by (cases e) (auto simp: service_basics split: if_splits)
  show "length (sf_ports g) \<le> 20" if "length (sf_ports f) \<le> 20"
    using that g by (cases e) (auto simp: set_name_def addPort_def length_remove_nth split: if_splits)
qed

lemma sync_app_found: "l \<in> set ls \<Longrightarrow> le_key l = ''app'' \<Longrightarrow> \<exists>m \<in> set (sync_app v ls). le_key m = ''app'' \<and> le_value m = v"
  by (induction ls) auto

lemma sync_app_keys: "map le_key (sync_app v ls) = map le_key ls"
  by (induction ls) auto



text \<open>
  A node port typed for one type stays in the form when the type is changed to one that does not
  show it; it is then neither validated nor left out of the payload.
\<close>

lemma hidden_node_port_sent:
  assumes "valid_form validateStep 1 f" "sf_ports f = [p]"
  shows "valid_form validateStep 1 (f\<lparr>sf_type := ClusterIP, sf_ports := [p\<lparr>sp_node := n\<rparr>]\<rparr>)"
    and "n \<noteq> 0 \<Longrightarrow> js_get (port_object (p\<lparr>sp_node := n\<rparr>)) ''nodePort'' = JNum n"
  using assms unfolding valid_service_form
  by (auto simp: service_basics service_ports [simplified] port_ok_def shows_node_port_def port_object_def)

text \<open>The pattern of port names takes names that its comment rules out.\<close>

lemma port_name_laxer: "port_name ''a--b''" "port_name ''5''"
  by code_simp+

end
