(* ===== verification/Binding_Wizard.thy ===== *)
theory Binding_Wizard
  imports Wizard_Shell
begin

text \<open>
\<open>islands/RoleBindingWizard.tsx\<close>, which creates role bindings and, with \<open>clusterScoped\<close>, cluster role
  bindings: the form, the controls of its three steps, validation and payload. What is proved: the
  payload of every preview request is sound; in particular a cluster role binding only ever refers
  to a cluster role.
\<close>

section \<open>The form\<close>

datatype subject_kind = User | Group | ServiceAccount

fun subject_kind_name :: "subject_kind \<Rightarrow> string" where
  "subject_kind_name User = ''User''"
| "subject_kind_name Group = ''Group''"
| "subject_kind_name ServiceAccount = ''ServiceAccount''"

datatype role_kind = Role | ClusterRole

fun role_kind_name :: "role_kind \<Rightarrow> string" where
  "role_kind_name Role = ''Role''"
| "role_kind_name ClusterRole = ''ClusterRole''"

record subject_row =
  su_kind :: subject_kind
  su_name :: string
  su_namespace :: string

record binding_form =
  bf_name :: string
  bf_namespace :: string
  bf_role_kind :: role_kind
  bf_role_name :: string
  bf_subjects :: "subject_row list"

definition newSubject :: subject_row where
  "newSubject = \<lparr>su_kind = User, su_name = [], su_namespace = []\<rparr>"

definition initialState :: "string \<Rightarrow> bool \<Rightarrow> binding_form" where
  "initialState ns clusterScoped =
     \<lparr>bf_name = [], bf_namespace = (if clusterScoped then [] else ns), bf_role_kind = ClusterRole, bf_role_name = [],
      bf_subjects = [newSubject]\<rparr>"


section \<open>Validation\<close>

definition subject_errors :: "nat \<Rightarrow> subject_row \<Rightarrow> field_errors \<Rightarrow> field_errors" where
  "subject_errors i s errs =
     (let k = idx ''subjects'' i;
          e1 = (if su_name s = [] then rec_set errs (k @ ''.name'') ''Name is required'' else errs)
      in if su_kind s = ServiceAccount \<and> su_namespace s = []
         then rec_set e1 (k @ ''.namespace'') ''Namespace is required for ServiceAccount'' else e1)"

definition validateStep :: "bool \<Rightarrow> nat \<Rightarrow> binding_form \<Rightarrow> field_errors" where
  "validateStep clusterScoped step f =
     (if step = 0 then
        (let e1 = (if bf_name f = [] \<or> \<not> dns_label (bf_name f)
                   then [(''name'', ''Must be lowercase alphanumeric with hyphens, 1-63 characters'')] else [])
         in if \<not> clusterScoped \<and> bf_namespace f = [] then rec_set e1 ''namespace'' ''Required'' else e1)
      else if step = 1 then
        (if bf_role_name f = [] then [(''roleRefName'', ''A role must be selected'')] else [])
      else if step = 2 then
        (let e1 = (if filter (\<lambda>s. su_name s \<noteq> []) (bf_subjects f) = []
                   then [(''subjects'', ''At least one subject is required'')] else [])
         in fold (\<lambda>(i, s). subject_errors i s) (enumerate 0 (bf_subjects f)) e1)
      else [])"

definition subject_ok :: "subject_row \<Rightarrow> bool" where
  "subject_ok s \<longleftrightarrow> su_name s \<noteq> [] \<and> (su_kind s = ServiceAccount \<longrightarrow> su_namespace s \<noteq> [])"

lemma subject_errors_none: "subject_errors i s e = [] \<longleftrightarrow> e = [] \<and> subject_ok s"
  by (auto simp: subject_errors_def subject_ok_def Let_def)

lemma binding_basics:
  "validateStep cs 0 f = [] \<longleftrightarrow> dns_label (bf_name f) \<and> (\<not> cs \<longrightarrow> bf_namespace f \<noteq> [])"
  by (auto simp: validateStep_def Let_def dns_label_def)

lemma binding_role: "validateStep cs (Suc 0) f = [] \<longleftrightarrow> bf_role_name f \<noteq> []"
  by (simp add: validateStep_def)

lemma binding_subjects:
  "validateStep cs 2 f = [] \<longleftrightarrow> bf_subjects f \<noteq> [] \<and> (\<forall>s \<in> set (bf_subjects f). subject_ok s)"
proof -
  have "fold (\<lambda>(i, s). subject_errors i s) (enumerate 0 ss) e = [] \<longleftrightarrow> e = [] \<and> (\<forall>s \<in> set ss. subject_ok s)" for ss e
    by (rule fold_rows_no_errors) (rule subject_errors_none)
  then have "validateStep cs 2 f = [] \<longleftrightarrow>
      (\<exists>s \<in> set (bf_subjects f). su_name s \<noteq> []) \<and> (\<forall>s \<in> set (bf_subjects f). subject_ok s)"
    by (auto simp: validateStep_def Let_def filter_empty_conv)
  then show ?thesis unfolding subject_ok_def by (metis all_not_in_conv set_empty)
qed

lemma valid_binding_form:
  "valid_form (validateStep cs) 2 f \<longleftrightarrow>
     validateStep cs 0 f = [] \<and> validateStep cs (Suc 0) f = [] \<and> validateStep cs 2 f = []"
  using valid_form_Suc [of "validateStep cs" 1 f] valid_form_Suc [of "validateStep cs" 0 f]
  by (simp add: valid_form_0 numeral_2_eq_2)


section \<open>The payload\<close>

definition subject_object :: "subject_row \<Rightarrow> js" where
  "subject_object s =
     JObj [(''kind'', JStr (subject_kind_name (su_kind s))), (''name'', JStr (su_name s)),
           (''namespace'', if su_kind s = ServiceAccount then JStr (su_namespace s) else JUndef)]"

definition preview_payload :: "bool \<Rightarrow> binding_form \<Rightarrow> js" where
  "preview_payload clusterScoped f =
     JObj [(''name'', JStr (bf_name f)),
           (''namespace'', if clusterScoped then JUndef else JStr (bf_namespace f)),
           (''clusterScope'', JBool clusterScoped),
           (''roleRef'', JObj [(''kind'', JStr (role_kind_name (bf_role_kind f))), (''name'', JStr (bf_role_name f))]),
           (''subjects'', JArr (map subject_object (filter (\<lambda>s. su_name s \<noteq> []) (bf_subjects f))))]"

definition preview_request :: "bool \<Rightarrow> binding_form \<Rightarrow> endpoint" where
  "preview_request clusterScoped f = api_post ''/v1/wizards/rolebinding/preview'' (preview_payload clusterScoped f)"

text \<open>What the server is asked for.\<close>

definition subject_sound :: "js \<Rightarrow> bool" where
  "subject_sound s \<longleftrightarrow>
     (\<exists>n. js_get s ''name'' = JStr n \<and> n \<noteq> [])
     \<and> (if js_get s ''kind'' = JStr ''ServiceAccount'' then \<exists>n. js_get s ''namespace'' = JStr n \<and> n \<noteq> []
        else js_get s ''namespace'' = JUndef)"

definition binding_sound :: "bool \<Rightarrow> js \<Rightarrow> bool" where
  "binding_sound clusterScoped v \<longleftrightarrow>
     (\<exists>s. js_get v ''name'' = JStr s \<and> dns_label s)
     \<and> (\<exists>s. js_get (js_get v ''roleRef'') ''name'' = JStr s \<and> s \<noteq> [])
     \<and> (if clusterScoped
        then js_get v ''namespace'' = JUndef \<and> js_get (js_get v ''roleRef'') ''kind'' = JStr ''ClusterRole''
        else \<exists>s. js_get v ''namespace'' = JStr s \<and> s \<noteq> [])
     \<and> array_items (js_get v ''subjects'') \<noteq> [] \<and> length (array_items (js_get v ''subjects'')) \<le> 50
     \<and> (\<forall>s \<in> set (array_items (js_get v ''subjects'')). subject_sound s)"

text \<open>What every form has: between one and fifty subjects, and no role of a namespace for a cluster.\<close>

definition binding_fine :: "bool \<Rightarrow> binding_form \<Rightarrow> bool" where
  "binding_fine clusterScoped f \<longleftrightarrow>
     bf_subjects f \<noteq> [] \<and> length (bf_subjects f) \<le> 50 \<and> (clusterScoped \<longrightarrow> bf_role_kind f = ClusterRole)"

lemma subject_object_sound: "subject_ok s \<Longrightarrow> subject_sound (subject_object s)"
  by (cases "su_kind s") (auto simp: subject_ok_def subject_sound_def subject_object_def)

lemma binding_payload_sound:
  assumes "valid_form (validateStep cs) 2 f" "binding_fine cs f"
  shows "binding_sound cs (preview_payload cs f)"
proof -
  have v: "validateStep cs 0 f = []" "validateStep cs (Suc 0) f = []" "validateStep cs 2 f = []"
    using assms(1) unfolding valid_binding_form by blast+
  have "filter (\<lambda>s. su_name s \<noteq> []) (bf_subjects f) = bf_subjects f"
    using v(3) by (simp add: binding_subjects subject_ok_def)
  then have "array_items (js_get (preview_payload cs f) ''subjects'') = map subject_object (bf_subjects f)"
    by (simp add: preview_payload_def)
  then show ?thesis
    using v assms(2) subject_object_sound
    by (auto simp: binding_sound_def binding_fine_def binding_basics binding_role binding_subjects)
      (auto simp: preview_payload_def)
qed


section \<open>Editing the form\<close>

datatype subject_edit = SetKind subject_kind | SetSubjectName string | SetSubjectNamespace string

fun edit_subject :: "subject_edit \<Rightarrow> subject_row \<Rightarrow> subject_row" where
  "edit_subject (SetKind k) s = s\<lparr>su_kind := k\<rparr>"
| "edit_subject (SetSubjectName v) s = s\<lparr>su_name := v\<rparr>"
| "edit_subject (SetSubjectNamespace v) s = s\<lparr>su_namespace := v\<rparr>"

text \<open>A name is typed or picked from the local users; another kind of role drops the role chosen.\<close>

datatype binding_edit =
    SetName string | SetNamespace string | SetRoleKind role_kind | SetRoleName string
  | EditSubject nat subject_edit | RemoveSubject nat | AddSubject

fun edit_binding :: "binding_edit \<Rightarrow> binding_form \<Rightarrow> binding_form" where
  "edit_binding (SetName v) f = f\<lparr>bf_name := v\<rparr>"
| "edit_binding (SetNamespace v) f = f\<lparr>bf_namespace := v\<rparr>"
| "edit_binding (SetRoleKind k) f = f\<lparr>bf_role_kind := k, bf_role_name := []\<rparr>"
| "edit_binding (SetRoleName v) f = f\<lparr>bf_role_name := v\<rparr>"
| "edit_binding (EditSubject i e) f = f\<lparr>bf_subjects := update_nth i (edit_subject e) (bf_subjects f)\<rparr>"
| "edit_binding (RemoveSubject i) f = f\<lparr>bf_subjects := remove_nth i (bf_subjects f)\<rparr>"
| "edit_binding AddSubject f =
     (if length (bf_subjects f) \<ge> 50 then f else f\<lparr>bf_subjects := bf_subjects f @ [newSubject]\<rparr>)"

text \<open>The step of a control, and whether it is shown.\<close>

fun control_step :: "binding_edit \<Rightarrow> nat" where
  "control_step (SetName _) = 0"
| "control_step (SetNamespace _) = 0"
| "control_step (SetRoleKind _) = 1"
| "control_step (SetRoleName _) = 1"
| "control_step _ = 2"

fun control_shown :: "bool \<Rightarrow> binding_edit \<Rightarrow> binding_form \<Rightarrow> bool" where
  "control_shown cs (SetNamespace _) f = (\<not> cs)"
| "control_shown cs (SetRoleKind _) f = (\<not> cs)"
| "control_shown cs (EditSubject i (SetSubjectNamespace _)) f =
     (i < length (bf_subjects f) \<and> su_kind (bf_subjects f ! i) = ServiceAccount)"
| "control_shown cs (RemoveSubject i) f = (length (bf_subjects f) > 1)"
| "control_shown cs _ f = True"

definition binding_fields :: "bool \<Rightarrow> nat \<Rightarrow> binding_edit \<Rightarrow> binding_form \<Rightarrow> binding_form option" where
  "binding_fields cs step e f = (if step = control_step e \<and> control_shown cs e f then Some (edit_binding e f) else None)"

definition binding_wizard_step ::
    "bool \<Rightarrow> binding_form wizard \<Rightarrow> binding_edit wizard_event \<Rightarrow> binding_form wizard option" where
  "binding_wizard_step cs = wizard_step (validateStep cs) (preview_request cs) (binding_fields cs) 2 True"

interpretation binding: guarded_wizard "validateStep cs" "preview_request cs" "binding_fields cs" 2 True "binding_fine cs"
  for cs
proof
  fix s k :: nat and e f g
  assume "binding_fields cs s e f = Some g"
  then have g: "s = control_step e" "control_shown cs e f" "g = edit_binding e f"
    by (auto simp: binding_fields_def split: if_splits)
  then show "s \<le> 2" by (cases e) auto
  show "validateStep cs k g = []" if "k < s" "validateStep cs k f = []"
    using that g by (cases e) (auto simp: binding_basics binding_role less_Suc_eq numeral_2_eq_2)
  show "binding_fine cs g" if "binding_fine cs f"
    using that g by (cases e) (auto simp: binding_fine_def length_remove_nth simp flip: length_greater_0_conv)
qed

text \<open>Whatever the user does in the role binding wizard, in any order and with any late replies, every
  preview request carries a sound payload: a DNS label as name, a role, one to fifty subjects, each with
  a name, service accounts with a namespace and the others without; a role binding has a namespace, and
  a cluster role binding has none and refers to a cluster role; on the review step the last request is
  the one of the form as it stands.\<close>

theorem binding_sends_sound:
  assumes "run_events (binding_wizard_step cs) (wizard_init (initialState ns cs)) es = Some w"
  shows "(\<forall>rq \<in> set (pv_posted (wz_preview w)).
      \<exists>f. rq = preview_request cs f \<and> binding_sound cs (preview_payload cs f))
    \<and> (wz_step w > 2 \<longrightarrow> (\<exists>rest. pv_posted (wz_preview w) = preview_request cs (wz_form w) # rest))"
proof -
  have start: "binding_fine cs (initialState ns cs)" by (simp add: binding_fine_def initialState_def)
  show ?thesis
    using binding.sends_fine [OF start] assms binding_payload_sound unfolding binding_wizard_step_def by blast
qed

theorem binding_sends_sound_witness:
  "\<exists>w. run_events (binding_wizard_step True) (wizard_init (initialState ''prod'' True))
         [EditForm (SetName ''ops''), Continue, EditForm (SetRoleName ''view''), Continue,
          EditForm (EditSubject 0 (SetSubjectName ''ann'')), Continue] = Some w
     \<and> wz_step w = 3
     \<and> (\<exists>f. pv_posted (wz_preview w) = [preview_request True f] \<and> binding_sound True (preview_payload True f))"
proof -
  let ?es = "[EditForm (SetName ''ops''), Continue, EditForm (SetRoleName ''view''), Continue,
              EditForm (EditSubject 0 (SetSubjectName ''ann'')), Continue]"
  have d: "dns_label ''ops''" by code_simp
  have "\<exists>w. run_events (binding_wizard_step True) (wizard_init (initialState ''prod'' True)) ?es = Some w
      \<and> wz_step w = 3 \<and> length (pv_posted (wz_preview w)) = 1"
    using d
    by (simp add: wizard_init_def binding_wizard_step_def binding_fields_def goNext_def initialState_def binding_basics
        binding_role binding_subjects [unfolded numeral_2_eq_2] subject_ok_def newSubject_def update_nth_def
        fetch_preview_def preview_init_def numeral_2_eq_2 Let_def)
  then obtain w where w: "run_events (binding_wizard_step True) (wizard_init (initialState ''prod'' True)) ?es = Some w"
      "wz_step w = 3" "length (pv_posted (wz_preview w)) = 1" by blast
  then show ?thesis using binding_sends_sound [OF w(1)] by (auto simp: length_Suc_conv)
qed

text \<open>
  Choosing another namespace keeps the role chosen in the old one, and the form stays valid: the
  binding then refers to a role that need not exist in its namespace.
\<close>

lemma stale_role_kept:
  assumes "valid_form (validateStep False) 2 f" "bf_role_kind f = Role" "ns \<noteq> []"
  shows "valid_form (validateStep False) 2 (edit_binding (SetNamespace ns) f)
    \<and> js_get (preview_payload False (edit_binding (SetNamespace ns) f)) ''roleRef'' =
      js_get (preview_payload False f) ''roleRef''"
  using assms unfolding valid_binding_form
  by (simp add: binding_basics binding_role binding_subjects preview_payload_def)

end
