(* ===== verification/Hpa_Wizard.thy ===== *)
theory Hpa_Wizard
  imports Wizard_Shell
begin

text \<open>
\<open>islands/HPAWizard.tsx\<close>, which creates autoscalers: the form with its metrics, validation, payload
  and live manifest. What is proved: the payload of every preview request is sound, with bounds on
  replicas and targets.
\<close>

section \<open>The form\<close>

datatype hpa_resource = Cpu | Memory
datatype hpa_target = Utilization | AverageValue
datatype target_kind = Deployment | StatefulSet | ReplicaSet

fun hpa_resource_name :: "hpa_resource \<Rightarrow> string" where
  "hpa_resource_name Cpu = ''cpu''"
| "hpa_resource_name Memory = ''memory''"

fun hpa_target_name :: "hpa_target \<Rightarrow> string" where
  "hpa_target_name Utilization = ''Utilization''"
| "hpa_target_name AverageValue = ''AverageValue''"

fun target_kind_name :: "target_kind \<Rightarrow> string" where
  "target_kind_name Deployment = ''Deployment''"
| "target_kind_name StatefulSet = ''StatefulSet''"
| "target_kind_name ReplicaSet = ''ReplicaSet''"

record hpa_metric =
  me_resource :: hpa_resource
  me_target :: hpa_target
  me_value :: int

record hpa_form =
  ha_name :: string
  ha_namespace :: string
  ha_kind :: target_kind
  ha_target :: string
  ha_min :: int
  ha_max :: int
  ha_metrics :: "hpa_metric list"

definition newMetric :: hpa_metric where
  "newMetric = \<lparr>me_resource = Cpu, me_target = Utilization, me_value = 80\<rparr>"

definition initialState :: "string \<Rightarrow> hpa_form" where
  "initialState ns =
     \<lparr>ha_name = [], ha_namespace = ns, ha_kind = Deployment, ha_target = [], ha_min = 1, ha_max = 10,
      ha_metrics = [newMetric]\<rparr>"


section \<open>Validation\<close>

definition metric_errors :: "nat \<Rightarrow> hpa_metric \<Rightarrow> field_errors \<Rightarrow> field_errors" where
  "metric_errors i m errs =
     (let k = ''metrics_'' @ string_of_nat i @ ''_targetAverageValue''
      in if me_target m = Utilization \<and> (me_value m < 1 \<or> me_value m > 100)
         then rec_set errs k ''Must be between 1 and 100 for Utilization (percentage)''
         else if me_value m < 1 then rec_set errs k ''Must be at least 1'' else errs)"

definition validateStep :: "hpa_form \<Rightarrow> field_errors" where
  "validateStep f =
     (let text = ''Must be lowercase alphanumeric with hyphens, 1-63 characters'';
          e1 = (if ha_name f = [] \<or> \<not> dns_label (ha_name f) then [(''name'', text)] else []);
          e2 = (if ha_namespace f = [] then rec_set e1 ''namespace'' ''Required'' else e1);
          e3 = (if ha_target f = [] \<or> \<not> dns_label (ha_target f) then rec_set e2 ''targetName'' text else e2);
          e4 = (if ha_max f < 1 \<or> ha_max f > 1000 then rec_set e3 ''maxReplicas'' ''Must be between 1 and 1000'' else e3);
          e5 = (if ha_min f > ha_max f
                then rec_set e4 ''minReplicas'' ''Min replicas cannot exceed max replicas'' else e4)
      in fold (\<lambda>(i, m). metric_errors i m) (enumerate 0 (ha_metrics f)) e5)"

definition metric_ok :: "hpa_metric \<Rightarrow> bool" where
  "metric_ok m \<longleftrightarrow> 1 \<le> me_value m \<and> (me_target m = Utilization \<longrightarrow> me_value m \<le> 100)"

lemma metric_errors_none: "metric_errors i m e = [] \<longleftrightarrow> e = [] \<and> metric_ok m"
  by (auto simp: metric_errors_def metric_ok_def Let_def)

lemma hpa_valid:
  "validateStep f = [] \<longleftrightarrow>
     dns_label (ha_name f) \<and> ha_namespace f \<noteq> [] \<and> dns_label (ha_target f)
     \<and> 1 \<le> ha_max f \<and> ha_max f \<le> 1000 \<and> ha_min f \<le> ha_max f \<and> (\<forall>m \<in> set (ha_metrics f). metric_ok m)"
proof -
  have "fold (\<lambda>(i, m). metric_errors i m) (enumerate 0 ms) e = [] \<longleftrightarrow> e = [] \<and> (\<forall>m \<in> set ms. metric_ok m)" for ms e
    by (rule fold_rows_no_errors) (rule metric_errors_none)
  then show ?thesis by (auto simp: validateStep_def Let_def dns_label_def)
qed


section \<open>The payload and the live manifest\<close>

definition metric_object :: "hpa_metric \<Rightarrow> js" where
  "metric_object m =
     JObj [(''type'', JStr ''Resource''), (''resourceName'', JStr (hpa_resource_name (me_resource m))),
           (''targetType'', JStr (hpa_target_name (me_target m))), (''targetAverageValue'', JNum (me_value m))]"

definition preview_payload :: "hpa_form \<Rightarrow> js" where
  "preview_payload f =
     JObj [(''name'', JStr (ha_name f)), (''namespace'', JStr (ha_namespace f)),
           (''targetKind'', JStr (target_kind_name (ha_kind f))), (''targetName'', JStr (ha_target f)),
           (''minReplicas'', if ha_min f > 0 then JNum (ha_min f) else JUndef), (''maxReplicas'', JNum (ha_max f)),
           (''metrics'', JArr (map metric_object (ha_metrics f)))]"

definition preview_request :: "hpa_form \<Rightarrow> endpoint" where
  "preview_request f = api_post ''/v1/wizards/hpa/preview'' (preview_payload f)"

definition manifest :: "hpa_form \<Rightarrow> string" where
  "manifest f =
     (let n = [CHR 0x0A]
      in ''apiVersion: autoscaling/v2'' @ n @ ''kind: HorizontalPodAutoscaler'' @ n @ ''metadata:'' @ n @ ''  name: ''
         @ (if ha_name f = [] then ''<name>'' else ha_name f) @ n @ ''  namespace: ''
         @ (if ha_namespace f = [] then ''default'' else ha_namespace f) @ n @ ''spec:'' @ n @ ''  scaleTargetRef:'' @ n
         @ ''    apiVersion: apps/v1'' @ n @ ''    kind: '' @ target_kind_name (ha_kind f) @ n @ ''    name: ''
         @ (if ha_target f = [] then ''<target>'' else ha_target f) @ n @ ''  minReplicas: '' @ string_of_int (ha_min f) @ n
         @ ''  maxReplicas: '' @ string_of_int (ha_max f))"

text \<open>What the server is asked for; without a minimum it takes one replica.\<close>

definition metric_sound :: "js \<Rightarrow> bool" where
  "metric_sound m \<longleftrightarrow>
     (\<exists>n. js_get m ''targetAverageValue'' = JNum n \<and> 1 \<le> n
          \<and> (if js_get m ''targetType'' = JStr ''Utilization'' then n \<le> 100 else True))"

definition hpa_sound :: "js \<Rightarrow> bool" where
  "hpa_sound v \<longleftrightarrow>
     (\<exists>s. js_get v ''name'' = JStr s \<and> dns_label s) \<and> (\<exists>s. js_get v ''namespace'' = JStr s \<and> s \<noteq> [])
     \<and> (\<exists>s. js_get v ''targetName'' = JStr s \<and> dns_label s)
     \<and> (\<exists>hi. js_get v ''maxReplicas'' = JNum hi \<and> 1 \<le> hi \<and> hi \<le> 1000
          \<and> (js_get v ''minReplicas'' = JUndef \<or> (\<exists>lo. js_get v ''minReplicas'' = JNum lo \<and> 1 \<le> lo \<and> lo \<le> hi)))
     \<and> array_items (js_get v ''metrics'') \<noteq> [] \<and> (\<forall>m \<in> set (array_items (js_get v ''metrics'')). metric_sound m)"

lemma metric_object_sound: "metric_ok m \<Longrightarrow> metric_sound (metric_object m)"
  by (cases "me_target m") (auto simp: metric_ok_def metric_sound_def metric_object_def)

lemma hpa_payload_sound: "validateStep f = [] \<Longrightarrow> ha_metrics f \<noteq> [] \<Longrightarrow> hpa_sound (preview_payload f)"
  using metric_object_sound by (auto simp: hpa_sound_def hpa_valid preview_payload_def)


section \<open>Editing the form\<close>

text \<open>\<open>parseInt(text, 10) || 1\<close>, of the number read or none.\<close>

definition int_or_one :: "int option \<Rightarrow> int" where
  "int_or_one n = (case n of None \<Rightarrow> 1 | Some k \<Rightarrow> if k = 0 then 1 else k)"

datatype metric_edit = SetResource hpa_resource | SetTargetType hpa_target | SetTargetValue "int option"

fun edit_metric :: "metric_edit \<Rightarrow> hpa_metric \<Rightarrow> hpa_metric" where
  "edit_metric (SetResource r) m = m\<lparr>me_resource := r\<rparr>"
| "edit_metric (SetTargetType t) m = m\<lparr>me_target := t\<rparr>"
| "edit_metric (SetTargetValue n) m = m\<lparr>me_value := int_or_one n\<rparr>"

definition removeMetric :: "nat \<Rightarrow> hpa_form \<Rightarrow> hpa_form" where
  "removeMetric i f =
     (let metrics = remove_nth i (ha_metrics f) in f\<lparr>ha_metrics := (if metrics \<noteq> [] then metrics else [newMetric])\<rparr>)"

datatype hpa_edit =
    SetName string | SetNamespace string | SetTargetKind target_kind | SetTarget string
  | SetMin "int option" | SetMax "int option" | AddMetric | RemoveMetric nat | EditMetric nat metric_edit

fun edit_hpa :: "hpa_edit \<Rightarrow> hpa_form \<Rightarrow> hpa_form" where
  "edit_hpa (SetName v) f = f\<lparr>ha_name := v\<rparr>"
| "edit_hpa (SetNamespace v) f = f\<lparr>ha_namespace := v\<rparr>"
| "edit_hpa (SetTargetKind k) f = f\<lparr>ha_kind := k\<rparr>"
| "edit_hpa (SetTarget v) f = f\<lparr>ha_target := v\<rparr>"
| "edit_hpa (SetMin n) f = f\<lparr>ha_min := int_or_one n\<rparr>"
| "edit_hpa (SetMax n) f = f\<lparr>ha_max := int_or_one n\<rparr>"
| "edit_hpa AddMetric f = f\<lparr>ha_metrics := ha_metrics f @ [newMetric]\<rparr>"
| "edit_hpa (RemoveMetric i) f = removeMetric i f"
| "edit_hpa (EditMetric i e) f = f\<lparr>ha_metrics := update_nth i (edit_metric e) (ha_metrics f)\<rparr>"

definition hpa_fields :: "nat \<Rightarrow> hpa_edit \<Rightarrow> hpa_form \<Rightarrow> hpa_form option" where
  "hpa_fields step e f = (if step = 0 then Some (edit_hpa e f) else None)"

definition hpa_wizard_step :: "hpa_form wizard \<Rightarrow> hpa_edit wizard_event \<Rightarrow> hpa_form wizard option" where
  "hpa_wizard_step = wizard_step (\<lambda>_. validateStep) preview_request hpa_fields 0 True"

lemma edit_hpa_metrics: "ha_metrics f \<noteq> [] \<Longrightarrow> ha_metrics (edit_hpa e f) \<noteq> []"
  by (cases e) (auto simp: removeMetric_def Let_def)

interpretation hpa: guarded_wizard "\<lambda>_. validateStep" preview_request hpa_fields 0 True "\<lambda>f. ha_metrics f \<noteq> []"
  by unfold_locales (auto simp: hpa_fields_def edit_hpa_metrics split: if_splits)

text \<open>C21: Whatever the user does in the autoscaler wizard, in any order and with any late replies, every
  preview request carries a sound payload: DNS labels as name and target, a namespace, at most 1000
  replicas, a minimum that is left out or lies from 1 to the maximum, and at least one metric, with
  targets of at least 1 and utilisations of at most 100; on the review step the last request is the
  one of the form as it stands.\<close>

theorem hpa_sends_sound:
  assumes "run_events hpa_wizard_step (wizard_init (initialState ns)) es = Some w"
  shows "(\<forall>rq \<in> set (pv_posted (wz_preview w)). \<exists>f. rq = preview_request f \<and> hpa_sound (preview_payload f))
    \<and> (wz_step w > 0 \<longrightarrow> (\<exists>rest. pv_posted (wz_preview w) = preview_request (wz_form w) # rest))"
proof -
  have start: "ha_metrics (initialState ns) \<noteq> []" by (simp add: initialState_def)
  show ?thesis
    using hpa.sends_fine [OF start] assms hpa_payload_sound unfolding hpa_wizard_step_def valid_form_0 by blast
qed

theorem hpa_sends_sound_witness:
  "\<exists>w. run_events hpa_wizard_step (wizard_init (initialState ''prod''))
         [EditForm (SetName ''web''), EditForm (SetTarget ''api''), Continue] = Some w
     \<and> wz_step w = 1 \<and> (\<exists>f. pv_posted (wz_preview w) = [preview_request f] \<and> hpa_sound (preview_payload f))"
proof -
  let ?es = "[EditForm (SetName ''web''), EditForm (SetTarget ''api''), Continue]"
  have d: "dns_label ''web''" "dns_label ''api''" by code_simp+
  have "\<exists>w. run_events hpa_wizard_step (wizard_init (initialState ''prod'')) ?es = Some w
      \<and> wz_step w = 1 \<and> length (pv_posted (wz_preview w)) = 1"
    using d
    by (simp add: wizard_init_def hpa_wizard_step_def hpa_fields_def goNext_def initialState_def hpa_valid metric_ok_def
        newMetric_def fetch_preview_def preview_init_def Let_def)
  then obtain w where w: "run_events hpa_wizard_step (wizard_init (initialState ''prod'')) ?es = Some w"
      "wz_step w = 1" "length (pv_posted (wz_preview w)) = 1" by blast
  then show ?thesis using hpa_sends_sound [OF w(1)] by (auto simp: length_Suc_conv)
qed

text \<open>
  A negative minimum passes validation and is left out of the payload, while the live manifest
  shows it.
\<close>

lemma negative_minimum_dropped:
  assumes "validateStep f = []" "n \<le> 0"
  shows "validateStep (f\<lparr>ha_min := n\<rparr>) = [] \<and> js_get (preview_payload (f\<lparr>ha_min := n\<rparr>)) ''minReplicas'' = JUndef"
  using assms by (simp add: hpa_valid preview_payload_def)

end
