(* ===== verification/Command_Palette.thy ===== *)
theory Command_Palette
  imports Nav Interfaces "HOL-Library.Sublist"
begin

text \<open>
\<open>lib/fuzzy-search.ts\<close> and \<open>islands/CommandPalette.tsx\<close>: the search index built from the navigation,
  scoring and ranking, the grouped results and the keyboard. What is proved: an entry is found
  exactly if the query is a subsequence of its label or detail; the results are a best prefix of
  the matches; and whatever is pressed, the palette leads only to pages that exist.
\<close>

section \<open>The search\<close>

datatype item_type = Resource | Action | Navigation

record search_item =
  si_id :: string
  si_type :: item_type
  si_label :: string
  si_detail :: "string option"
  si_href :: "string option"
  si_icon :: "string option"

text \<open>The loop of \<open>fuzzyCharMatch\<close> on what is left of the text and of the query.\<close>

fun fuzzyCharMatch :: "string \<Rightarrow> string \<Rightarrow> bool" where
  "fuzzyCharMatch text [] = True"
| "fuzzyCharMatch [] (q # qs) = False"
| "fuzzyCharMatch (c # text) (q # qs) = fuzzyCharMatch text (if c = q then qs else q # qs)"

definition scoreItem :: "search_item \<Rightarrow> string \<Rightarrow> int" where
  "scoreItem item query =
     (let label = to_lower (si_label item); q = to_lower query;
          detail = to_lower (case si_detail item of None \<Rightarrow> [] | Some d \<Rightarrow> d)
      in if label = q then 100
         else if starts_with label q then 80
         else if str_includes label q then 60
         else if str_includes detail q then 50
         else if fuzzyCharMatch label q then 40
         else if fuzzyCharMatch detail q then 30
         else 0)"

definition by_score :: "search_item \<times> int \<Rightarrow> search_item \<times> int \<Rightarrow> int" where
  "by_score a b = snd b - snd a"

definition fuzzySearch :: "search_item list \<Rightarrow> string \<Rightarrow> search_item list" where
  "fuzzySearch items query =
     (if js_trim query = [] then take 8 items
      else (let scored = filter (\<lambda>p. snd p > 0) (map (\<lambda>it. (it, scoreItem it (js_trim query))) items)
            in map fst (take 12 (js_sort by_score scored))))"

lemma fuzzy_subseq: "fuzzyCharMatch s q \<longleftrightarrow> subseq q s"
  by (induction s q rule: fuzzyCharMatch.induct) (auto simp: subseq_Cons')

lemma starts_prefix: "starts_with s p \<longleftrightarrow> prefix p s"
  by (auto simp: starts_with_def prefix_def) (metis append_take_drop_id)

lemma includes_sublist: "str_includes s q \<longleftrightarrow> sublist q s"
  by (induction s q rule: str_includes.induct) (auto simp: starts_prefix sublist_Cons_right)

definition matches_query :: "string \<Rightarrow> search_item \<Rightarrow> bool" where
  "matches_query query item \<longleftrightarrow>
     subseq (to_lower query) (to_lower (si_label item))
     \<or> subseq (to_lower query) (to_lower (case si_detail item of None \<Rightarrow> [] | Some d \<Rightarrow> d))"

lemma score_positive: "scoreItem item query > 0 \<longleftrightarrow> matches_query query item"
  by (auto simp: scoreItem_def matches_query_def Let_def fuzzy_subseq starts_prefix includes_sublist
      intro: prefix_imp_subseq sublist_imp_subseq)

interpretation ranking: sort_order by_score
  by unfold_locales (auto simp: by_score_def)

lemma filter_tagged:
  assumes "\<And>p. p \<in> set xs \<Longrightarrow> snd p = f (fst p)"
  shows "filter (\<lambda>it. f it = n) (map fst xs) = map fst (filter (\<lambda>p. snd p = n) xs)"
  using assms by (induction xs) auto

text \<open>What the palette's search finds: for a blank query the first eight entries; otherwise entries
  of which the query is a subsequence of the label or the detail, upper and lower case alike, ranked
  by score with equal ones in their order in the index, at most twelve, and every matching entry that is
  not shown scores no better than the ones that are.\<close>

theorem palette_search:
  "(if js_trim query = [] then fuzzySearch items query = take 8 items
    else \<exists>rest. mset (fuzzySearch items query) + mset rest = mset (filter (matches_query (js_trim query)) items)
      \<and> sorted_wrt (\<lambda>a b. scoreItem a (js_trim query) \<ge> scoreItem b (js_trim query)) (fuzzySearch items query @ rest)
      \<and> (\<forall>n. filter (\<lambda>it. scoreItem it (js_trim query) = n) (fuzzySearch items query @ rest)
             = filter (\<lambda>it. scoreItem it (js_trim query) = n) (filter (matches_query (js_trim query)) items))
      \<and> length (fuzzySearch items query) \<le> 12 \<and> (rest = [] \<or> length (fuzzySearch items query) = 12))"
proof (cases "js_trim query = []")
  case False
  let ?q = "js_trim query"
  let ?score = "\<lambda>it. scoreItem it ?q"
  let ?scored = "filter (\<lambda>p. snd p > 0) (map (\<lambda>it. (it, ?score it)) items)"
  let ?sorted = "js_sort by_score ?scored"
  let ?rest = "map fst (drop 12 ?sorted)"
  have found: "fuzzySearch items query = map fst (take 12 ?sorted)" using False by (simp add: fuzzySearch_def)
  have all: "fuzzySearch items query @ ?rest = map fst ?sorted"
    unfolding found by (simp flip: map_append)
  have tagged: "snd p = ?score (fst p)" if "p \<in> set ?sorted" for p using that by auto
  have kept: "map fst ?scored = filter (matches_query ?q) items"
    by (induction items) (auto simp: score_positive)
  have "mset (fuzzySearch items query @ ?rest) = mset (map fst ?scored)" unfolding all by simp
  then have m: "mset (fuzzySearch items query) + mset ?rest = mset (filter (matches_query ?q) items)"
    unfolding kept mset_append .
  have s: "sorted_wrt (\<lambda>a b. ?score a \<ge> ?score b) (fuzzySearch items query @ ?rest)"
    unfolding all sorted_wrt_map
  proof (rule sorted_wrt_mono_rel [OF _ ranking.sorted_sort])
    fix a b assume "a \<in> set ?sorted" "b \<in> set ?sorted" "by_score a b \<le> 0"
    then show "?score (fst a) \<ge> ?score (fst b)" using tagged [of a] tagged [of b] unfolding by_score_def by linarith
  qed
  have st: "filter (\<lambda>it. ?score it = n) (fuzzySearch items query @ ?rest)
      = filter (\<lambda>it. ?score it = n) (filter (matches_query ?q) items)" for n
  proof -
    have e1: "filter (\<lambda>it. ?score it = n) (map fst ?sorted) = map fst (filter (\<lambda>p. snd p = n) ?sorted)"
      by (rule filter_tagged) (rule tagged)
    have e2: "filter (\<lambda>p. snd p = n) ?sorted = filter (\<lambda>p. snd p = n) ?scored"
      by (rule ranking.sort_stable) (simp add: by_score_def)
    have e3: "filter (\<lambda>it. ?score it = n) (map fst ?scored) = map fst (filter (\<lambda>p. snd p = n) ?scored)"
      by (rule filter_tagged) auto
    show ?thesis unfolding all unfolding e1 unfolding e2 unfolding e3 [symmetric] unfolding kept ..
  qed
  have l: "length (fuzzySearch items query) \<le> 12" "?rest = [] \<or> length (fuzzySearch items query) = 12"
    unfolding found by auto
  show ?thesis unfolding if_not_P [OF False] by (intro exI [of _ ?rest] conjI allI m s st l)
qed (simp add: fuzzySearch_def)


section \<open>The index\<close>

definition nav_entry :: "string \<Rightarrow> string \<Rightarrow> string \<Rightarrow> string \<Rightarrow> string \<Rightarrow> search_item" where
  "nav_entry key label detail href icon =
     \<lparr>si_id = ''nav-'' @ key, si_type = Navigation, si_label = label, si_detail = Some detail, si_href = Some href,
      si_icon = Some icon\<rparr>"

definition section_entries :: "domain_section \<Rightarrow> search_item list" where
  "section_entries s =
     nav_entry (ds_id s) (ds_label s) (ds_href s) (ds_href s) (ds_icon s)
     # map (\<lambda>tab. nav_entry (ds_id s @ ''-'' @ ni_label tab) (ni_label tab) (ds_label s @ '' > '' @ ni_label tab)
                    (ni_href tab) (ds_icon s)) (flatten_groups s)"

definition settings_entries :: "search_item list" where
  "settings_entries =
     map (\<lambda>tab. nav_entry (''settings-'' @ ni_label tab) (ni_label tab) (''Settings > '' @ ni_label tab) (ni_href tab)
                  ''settings'') (flatten_groups SETTINGS_SECTION)"

definition resource_entries :: "domain_section \<Rightarrow> search_item list" where
  "resource_entries s =
     map (\<lambda>tab. \<lparr>si_id = ''res-'' @ ni_label tab, si_type = Resource, si_label = ni_label tab,
                 si_detail = Some (ni_href tab), si_href = Some (ni_href tab), si_icon = None\<rparr>)
       (filter (\<lambda>tab. has_text (ni_kind tab)) (flatten_groups s))"

definition QUICK_ACTIONS :: "(string \<times> string) list" where
  "QUICK_ACTIONS =
     [(''Create Deployment'', ''/workloads/deployments?action=create''),
      (''Create StatefulSet'', ''/workloads/statefulsets?action=create''),
      (''Create DaemonSet'', ''/workloads/daemonsets?action=create''),
      (''Create Job'', ''/workloads/jobs?action=create''),
      (''Create CronJob'', ''/workloads/cronjobs?action=create''),
      (''Create Service'', ''/networking/services?action=create''),
      (''Apply YAML'', ''/tools/yaml-apply''),
      (''Create ConfigMap'', ''/config/configmaps?action=create''),
      (''Create Secret'', ''/config/secrets?action=create''),
      (''Create Ingress'', ''/networking/ingresses?action=create''),
      (''Create Network Policy'', ''/networking/networkpolicies?action=create''),
      (''Create Namespace Limits'', ''/config/namespace-limits?action=create''),
      (''Create HPA'', ''/scaling/hpas?action=create''),
      (''Create PDB'', ''/scaling/pdbs?action=create''),
      (''Create Namespace'', ''/cluster/namespaces?action=create''),
      (''Investigate Resource'', ''/observability/investigate''),
      (''Create RoleBinding'', ''/rbac/rolebindings/new''),
      (''Create ClusterRoleBinding'', ''/rbac/clusterrolebindings/new''),
      (''Create Policy'', ''/security/create-policy''),
      (''Create User'', ''/settings/users?action=create''),
      (''View Policies'', ''/security/policies''),
      (''View Violations'', ''/security/violations''),
      (''View GitOps Applications'', ''/gitops/applications''),
      (''View ApplicationSets'', ''/gitops/applicationsets''),
      (''View GitOps Notifications'', ''/gitops/notifications''),
      (''View Vulnerabilities'', ''/security/vulnerabilities''),
      (''View Certificates'', ''/security/certificates''),
      (''View Expiring Certificates'', ''/security/certificates?status=expiring''),
      (''Create Certificate'', ''/security/certificates?action=create''),
      (''Create Issuer'', ''/security/certificates/issuers/new''),
      (''Create ClusterIssuer'', ''/security/certificates/cluster-issuers/new''),
      (''Create PVC'', ''/storage/pvcs?action=create''),
      (''Create StorageClass'', ''/storage/overview?action=create''),
      (''Create Volume Snapshot'', ''/storage/snapshots/new''),
      (''Schedule Snapshot'', ''/storage/snapshots/schedule''),
      (''External Secrets Dashboard'', ''/external-secrets/dashboard''),
      (''View ExternalSecrets'', ''/external-secrets/external-secrets''),
      (''Create ExternalSecret'', ''/external-secrets/external-secrets?action=create''),
      (''View SecretStores'', ''/external-secrets/stores''),
      (''Create SecretStore'', ''/external-secrets/stores?action=create''),
      (''View ClusterSecretStores'', ''/external-secrets/cluster-stores''),
      (''Create ClusterSecretStore'', ''/external-secrets/cluster-stores?action=create''),
      (''View ExternalSecrets Chain'', ''/external-secrets/chain''),
      (''View Gateway API'', ''/networking/gateway-api''),
      (''View Service Mesh'', ''/networking/mesh''),
      (''View Mesh Routing'', ''/networking/mesh/routing''),
      (''View mTLS Posture'', ''/networking/mesh/mtls''),
      (''View Notifications'', ''/notifications''),
      (''Notification Channels'', ''/admin/notifications/channels''),
      (''Notification Rules'', ''/admin/notifications/rules''),
      (''View Namespace Limits'', ''/config/namespace-limits''),
      (''Create Namespace Limits'', ''/config/namespace-limits/new''),
      (''Create Backup'', ''/backup/backups?action=create''),
      (''Create Restore'', ''/backup/restores?action=create''),
      (''Create Schedule'', ''/backup/schedules?action=create'')]"

definition action_entry :: "string \<times> string \<Rightarrow> search_item" where
  "action_entry a =
     \<lparr>si_id = ''action-'' @ fst a, si_type = Action, si_label = fst a, si_detail = Some (snd a), si_href = Some (snd a),
      si_icon = None\<rparr>"

definition buildSearchIndex :: "search_item list" where
  "buildSearchIndex =
     concat (map section_entries DOMAIN_SECTIONS) @ settings_entries
     @ concat (map resource_entries DOMAIN_SECTIONS) @ map action_entry QUICK_ACTIONS"


section \<open>The palette\<close>

definition TYPE_ORDER :: "item_type list" where
  "TYPE_ORDER = [Action, Resource, Navigation]"

definition flatResults :: "search_item list \<Rightarrow> string \<Rightarrow> search_item list" where
  "flatResults index query =
     concat (map (\<lambda>t. filter (\<lambda>r. si_type r = t) (fuzzySearch index query)) TYPE_ORDER)"

text \<open>\<open>cp_visited\<close> are the locations set so far, the last one first.\<close>

record palette =
  cp_open :: bool
  cp_query :: string
  cp_selected :: int
  cp_visited :: "string list"

definition palette_init :: palette where
  "palette_init = \<lparr>cp_open = False, cp_query = [], cp_selected = 0, cp_visited = []\<rparr>"

definition openPalette :: "palette \<Rightarrow> palette" where
  "openPalette s = s\<lparr>cp_open := True, cp_query := [], cp_selected := 0\<rparr>"

definition closePalette :: "palette \<Rightarrow> palette" where
  "closePalette s = s\<lparr>cp_open := False, cp_query := []\<rparr>"

definition selectItem :: "search_item \<Rightarrow> palette \<Rightarrow> palette" where
  "selectItem item s =
     (let s1 = closePalette s
      in if has_text (si_href item) then s1\<lparr>cp_visited := the (si_href item) # cp_visited s1\<rparr> else s1)"

definition item_at :: "int \<Rightarrow> search_item list \<Rightarrow> search_item option" where
  "item_at i xs = (if 0 \<le> i \<and> nat i < length xs then Some (xs ! nat i) else None)"

datatype palette_event =
    ShortcutKey | OpenEvent | TypeQuery string | ArrowDown | ArrowUp | Enter | Escape | ClickItem nat | HoverItem nat
  | ClickOutside

text \<open>The shortcut and the open event work at any time, the controls while the palette is open.\<close>

fun palette_step :: "search_item list \<Rightarrow> palette \<Rightarrow> palette_event \<Rightarrow> palette option" where
  "palette_step index s ShortcutKey = Some (if cp_open s then closePalette s else openPalette s)"
| "palette_step index s OpenEvent = Some (openPalette s)"
| "palette_step index s (TypeQuery q) = (if cp_open s then Some (s\<lparr>cp_query := q, cp_selected := 0\<rparr>) else None)"
| "palette_step index s ArrowDown =
     (if cp_open s
      then Some (s\<lparr>cp_selected := min (cp_selected s + 1) (int (length (flatResults index (cp_query s))) - 1)\<rparr>)
      else None)"
| "palette_step index s ArrowUp = (if cp_open s then Some (s\<lparr>cp_selected := max (cp_selected s - 1) 0\<rparr>) else None)"
| "palette_step index s Enter =
     (if cp_open s
      then Some (case item_at (cp_selected s) (flatResults index (cp_query s)) of
                   None \<Rightarrow> s | Some item \<Rightarrow> selectItem item s)
      else None)"
| "palette_step index s Escape = (if cp_open s then Some (closePalette s) else None)"
| "palette_step index s (ClickItem i) =
     (if cp_open s then map_option (\<lambda>item. selectItem item s) (item_at (int i) (flatResults index (cp_query s))) else None)"
| "palette_step index s (HoverItem i) =
     (if cp_open s \<and> i < length (flatResults index (cp_query s)) then Some (s\<lparr>cp_selected := int i\<rparr>) else None)"
| "palette_step index s ClickOutside = (if cp_open s then Some (closePalette s) else None)"

text \<open>The highlighted place is one of the results, unless there are none.\<close>

definition palette_inv :: "search_item list \<Rightarrow> palette \<Rightarrow> bool" where
  "palette_inv index s \<longleftrightarrow>
     (cp_open s \<longrightarrow>
        (let n = int (length (flatResults index (cp_query s)))
         in (cp_selected s < n \<or> n = 0) \<and> (cp_selected s \<ge> 0 \<or> n = 0) \<and> (n = 0 \<longrightarrow> cp_selected s \<in> {-1, 0})))
     \<and> (\<forall>href \<in> set (cp_visited s). \<exists>item \<in> set index. si_href item = Some href)"

lemma fuzzy_from_index: "item \<in> set (fuzzySearch index q) \<Longrightarrow> item \<in> set index"
  by (auto simp: fuzzySearch_def Let_def dest: in_set_takeD split: if_splits)

lemma flat_from_index: "item \<in> set (flatResults index q) \<Longrightarrow> item \<in> set index"
  by (auto simp: flatResults_def dest: fuzzy_from_index)

lemma flat_permutes: "mset (flatResults index q) = mset (fuzzySearch index q)"
proof -
  have "mset (filter (\<lambda>r. si_type r = Action) xs) + (mset (filter (\<lambda>r. si_type r = Resource) xs)
      + mset (filter (\<lambda>r. si_type r = Navigation) xs)) = mset xs" for xs
    by (induction xs) (auto intro: item_type.exhaust)
  then show ?thesis by (simp add: flatResults_def TYPE_ORDER_def)
qed

lemma select_visits:
  "item \<in> set index \<Longrightarrow> palette_inv index s \<Longrightarrow> palette_inv index (selectItem item s)"
  by (cases "si_href item") (auto simp: palette_inv_def selectItem_def closePalette_def has_text_def Let_def)

lemma item_at_index: "item_at i (flatResults index q) = Some item \<Longrightarrow> item \<in> set index"
  unfolding item_at_def by (metis flat_from_index nth_mem option.distinct(1) option.inject)

lemma palette_step_inv: "palette_inv index s \<Longrightarrow> palette_step index s e = Some t \<Longrightarrow> palette_inv index t"
proof (cases e)
  case Enter
  assume inv: "palette_inv index s" and st: "palette_step index s e = Some t"
  then show ?thesis using Enter item_at_index select_visits
    by (cases "item_at (cp_selected s) (flatResults index (cp_query s))") (auto split: if_splits)
next
  case (ClickItem i)
  assume inv: "palette_inv index s" and st: "palette_step index s e = Some t"
  then show ?thesis using ClickItem item_at_index select_visits by (auto split: if_splits)
qed (auto simp: palette_inv_def openPalette_def closePalette_def Let_def split: if_splits)

interpretation palette: free_machine "palette_step index" "palette_inv index" for index
  by unfold_locales (rule palette_step_inv)

lemma concat_resolve:
  assumes "\<And>s. section_resolves s \<Longrightarrow> item \<in> set (g s) \<Longrightarrow> page_exists (the (si_href item)) \<and> si_href item \<noteq> None"
    and "item \<in> set (concat (map g DOMAIN_SECTIONS))"
  shows "page_exists (the (si_href item)) \<and> si_href item \<noteq> None"
proof -
  have "\<forall>s \<in> set DOMAIN_SECTIONS. section_resolves s"
    using sections_resolve by (simp add: DOMAIN_SECTIONS_def)
  then show ?thesis using assms by auto
qed

lemma quick_actions_resolve: "list_all (\<lambda>a. page_exists (snd a)) QUICK_ACTIONS"
  unfolding QUICK_ACTIONS_def by (simp add: page_eval)

lemma index_resolves:
  assumes "item \<in> set buildSearchIndex"
  shows "page_exists (the (si_href item)) \<and> si_href item \<noteq> None"
proof -
  from assms consider "item \<in> set (concat (map section_entries DOMAIN_SECTIONS))" | "item \<in> set settings_entries"
    | "item \<in> set (concat (map resource_entries DOMAIN_SECTIONS))" | "item \<in> set (map action_entry QUICK_ACTIONS)"
    unfolding buildSearchIndex_def by auto
  then show ?thesis
  proof cases
    case 1
    then show ?thesis
      by (rule concat_resolve [rotated])
        (auto simp: section_entries_def nav_entry_def section_resolves_def list_all_iff)
  next
    case 2
    then show ?thesis using sections_resolve(12)
      by (auto simp: settings_entries_def nav_entry_def section_resolves_def list_all_iff)
  next
    case 3
    then show ?thesis
      by (rule concat_resolve [rotated]) (auto simp: resource_entries_def section_resolves_def list_all_iff)
  next
    case 4
    then show ?thesis using quick_actions_resolve by (auto simp: action_entry_def list_all_iff)
  qed
qed

text \<open>C33: However the palette is used, by keyboard or mouse, it only leads to pages that exist; the results
  it shows are those of the search, grouped by type, and while it is open with results, one of them
  is highlighted, so that Enter opens it.\<close>

theorem palette_leads_to_pages:
  assumes "run_events (palette_step buildSearchIndex) palette_init es = Some s"
  shows "(\<forall>href \<in> set (cp_visited s). page_exists href)
    \<and> mset (flatResults buildSearchIndex (cp_query s)) = mset (fuzzySearch buildSearchIndex (cp_query s))
    \<and> (cp_open s \<and> flatResults buildSearchIndex (cp_query s) \<noteq> [] \<longrightarrow>
        (\<exists>item. item_at (cp_selected s) (flatResults buildSearchIndex (cp_query s)) = Some item
           \<and> palette_step buildSearchIndex s Enter = Some (selectItem item s)))"
proof -
  have "palette_inv buildSearchIndex s"
    by (rule palette.runs_inv [OF _ assms]) (simp add: palette_inv_def palette_init_def)
  then show ?thesis using index_resolves
    by (fastforce simp: palette_inv_def flat_permutes item_at_def Let_def)
qed

theorem palette_leads_to_pages_witness:
  "\<exists>s. run_events (palette_step buildSearchIndex) palette_init [OpenEvent, ArrowDown, Enter] = Some s
     \<and> cp_visited s = [''/workloads/deployments''] \<and> page_exists ''/workloads/deployments''"
proof -
  have "map_option cp_visited (run_events (palette_step buildSearchIndex) palette_init [OpenEvent, ArrowDown, Enter])
      = Some [''/workloads/deployments'']"
    by code_simp
  then obtain s where s: "run_events (palette_step buildSearchIndex) palette_init [OpenEvent, ArrowDown, Enter] = Some s"
      "cp_visited s = [''/workloads/deployments'']"
    by blast
  then show ?thesis using palette_leads_to_pages [OF s(1)] by auto
qed

text \<open>Two quick actions have the same label, and so the same id, which is the key of the rendered rows.\<close>

lemma action_ids_collide:
  "si_id (action_entry (''Create Namespace Limits'', ''/config/namespace-limits?action=create''))
   = si_id (action_entry (''Create Namespace Limits'', ''/config/namespace-limits/new''))
   \<and> (''Create Namespace Limits'', ''/config/namespace-limits?action=create'') \<in> set QUICK_ACTIONS
   \<and> (''Create Namespace Limits'', ''/config/namespace-limits/new'') \<in> set QUICK_ACTIONS"
  by (simp add: action_entry_def QUICK_ACTIONS_def)

text \<open>Grouping puts an action before a better match of another type, so Enter need not open the best match.\<close>

lemma best_match_not_first:
  assumes "js_trim q = q" "q \<noteq> []" "si_type a = Action" "si_type b = Navigation" "scoreItem b q > scoreItem a q"
    "scoreItem a q > 0"
  shows "fuzzySearch [a, b] q = [b, a] \<and> flatResults [a, b] q = [a, b]"
  using assms by (simp add: fuzzySearch_def flatResults_def TYPE_ORDER_def by_score_def)

end
