(* ===== verification/Bulk_Refresh.thy ===== *)
theory Bulk_Refresh
  imports Endpoints Interfaces
begin

text \<open>
\<open>islands/ESOBulkRefreshDialog.tsx\<close>: the dialog that refreshes many external secrets. It resolves the
  scope, asks for confirmation, posts the targets and polls the job. What is proved: every refresh
  that is sent was confirmed by the user for exactly the targets shown, once per confirmation; and
  there is at most one poll or timer outstanding, none once the job is complete.
\<close>

section \<open>The state\<close>

datatype phase = ScopeLoading | Confirm | Submitting | Progress | Failed

record bulk_scope =
  bs_total :: int
  bs_visible :: int
  bs_restricted :: bool
  bs_targets :: "string list"
  bs_by_namespace :: "(string \<times> int) list"

record bulk_job =
  bj_completed :: "string option"
  bj_target_count :: int
  bj_succeeded :: "string list"
  bj_failed :: "(string \<times> string) list"
  bj_skipped :: "(string \<times> string) list"

text \<open>The target of the dialog: the action, and the namespace and name that its scope is given by.\<close>

record bulk_target =
  bt_action :: bulk_action
  bt_namespace :: "string option"
  bt_name :: "string option"

text \<open>The chain of polls: none, a request in flight, the timer of the next one, or the end.\<close>

datatype poll_state = NoPoll | PollFlying | PollTimer | PollDone

text \<open>
  \<open>bd_sent\<close> are the calls made so far, \<open>bd_confirmed\<close> the scopes that stood in the dialog when its
  button was pressed, and \<open>bd_reprompts\<close> counts the replies saying that the scope had changed.
\<close>

record bulk_dialog =
  bd_phase :: phase
  bd_error :: "string option"
  bd_scope :: "bulk_scope option"
  bd_expanded :: bool
  bd_job_id :: "string option"
  bd_job :: "bulk_job option"
  bd_resolving :: bool
  bd_posting :: bool
  bd_poll :: poll_state
  bd_sent :: "eso_op list"
  bd_confirmed :: "bulk_scope list"
  bd_reprompts :: nat

definition resolveScope :: "bulk_target \<Rightarrow> eso_op" where
  "resolveScope t =
     (case bt_action t of
        RefreshStore \<Rightarrow> ResolveStoreScope (the (bt_namespace t)) (the (bt_name t))
      | RefreshClusterStore \<Rightarrow> ResolveClusterStoreScope (the (bt_name t))
      | RefreshNamespace \<Rightarrow> ResolveNamespaceScope (the (bt_namespace t)))"

text \<open>After the mount the effect has asked for the scope.\<close>

definition dialog_init :: "bulk_target \<Rightarrow> bulk_dialog" where
  "dialog_init t =
     \<lparr>bd_phase = ScopeLoading, bd_error = None, bd_scope = None, bd_expanded = False, bd_job_id = None, bd_job = None,
      bd_resolving = True, bd_posting = False, bd_poll = NoPoll, bd_sent = [resolveScope t], bd_confirmed = [],
      bd_reprompts = 0\<rparr>"


section \<open>The operations\<close>

definition job_completed :: "bulk_job option \<Rightarrow> bool" where
  "job_completed j = (case j of None \<Rightarrow> False | Some job \<Rightarrow> has_text (bj_completed job))"

definition fail :: "string option \<Rightarrow> string \<Rightarrow> bulk_dialog \<Rightarrow> bulk_dialog" where
  "fail message fallback s =
     s\<lparr>bd_error := Some (case message of Some m \<Rightarrow> m | None \<Rightarrow> fallback), bd_phase := Failed\<rparr>"

text \<open>The reply to a scope request, the first one or the one after a changed scope.\<close>

definition scope_settled :: "bulk_scope option + string option \<Rightarrow> string \<Rightarrow> bulk_dialog \<Rightarrow> bulk_dialog" where
  "scope_settled r fallback s =
     (let s1 = s\<lparr>bd_resolving := False\<rparr>
      in case r of Inl sc \<Rightarrow> s1\<lparr>bd_scope := sc, bd_phase := Confirm\<rparr> | Inr m \<Rightarrow> fail m fallback s1)"

definition bulk_op :: "bulk_target \<Rightarrow> bulk_scope \<Rightarrow> eso_op" where
  "bulk_op t sc = BulkRefresh (bt_action t) (bt_namespace t) (bt_name t) (bs_targets sc)"

definition submit :: "bulk_target \<Rightarrow> bulk_dialog \<Rightarrow> bulk_dialog" where
  "submit t s =
     (case bd_scope s of
        None \<Rightarrow> s
      | Some sc \<Rightarrow>
          if bd_phase s \<noteq> Confirm then s
          else s\<lparr>bd_phase := Submitting, bd_error := None, bd_posting := True,
                 bd_sent := bd_sent s @ [bulk_op t sc], bd_confirmed := bd_confirmed s @ [sc]\<rparr>)"

text \<open>Entering the progress phase with a job starts the first poll.\<close>

definition enter_progress :: "string option \<Rightarrow> bulk_dialog \<Rightarrow> bulk_dialog" where
  "enter_progress jid s =
     (let s1 = s\<lparr>bd_job_id := jid, bd_phase := Progress\<rparr>
      in if has_text jid then s1\<lparr>bd_poll := PollFlying, bd_sent := bd_sent s1 @ [GetBulkRefreshJob (the jid)]\<rparr>
         else s1)"

datatype post_reply = PostAccepted "string option" | PostRefused api_error | PostBroken "string option"

definition post_settled :: "bulk_target \<Rightarrow> post_reply \<Rightarrow> bulk_dialog \<Rightarrow> bulk_dialog" where
  "post_settled t r s =
     (let s1 = s\<lparr>bd_posting := False\<rparr>; failed = (\<lambda>m. fail m ''Failed to start refresh'' s1)
      in case r of
           PostAccepted jid \<Rightarrow> enter_progress jid s1
         | PostRefused err \<Rightarrow>
             if ae_reason err = JStr ''scope_changed''
             then s1\<lparr>bd_phase := ScopeLoading, bd_resolving := True, bd_sent := bd_sent s1 @ [resolveScope t],
                     bd_reprompts := bd_reprompts s1 + 1\<rparr>
             else if ae_reason err = JStr ''active_job_exists'' \<and> has_text (error_extra err ''jobId'')
             then enter_progress (error_extra err ''jobId'') s1
             else failed (Some (ae_message err))
         | PostBroken m \<Rightarrow> failed m)"

definition poll_settled :: "bulk_job option + string option \<Rightarrow> bulk_dialog \<Rightarrow> bulk_dialog" where
  "poll_settled r s =
     (case r of
        Inl j \<Rightarrow> s\<lparr>bd_job := j, bd_poll := (if job_completed j then PollDone else PollTimer)\<rparr>
      | Inr m \<Rightarrow>
          s\<lparr>bd_error := Some (case m of Some t \<Rightarrow> t | None \<Rightarrow> ''Failed to load job''), bd_poll := PollTimer\<rparr>)"

text \<open>The buttons of the footer and the rows of the confirmation.\<close>

definition refresh_button :: "bulk_dialog \<Rightarrow> string option" where
  "refresh_button s =
     (case bd_scope s of
        None \<Rightarrow> None
      | Some sc \<Rightarrow> if bd_phase s = Confirm \<and> bs_visible sc > 0 then Some (''Refresh '' @ string_of_int (bs_visible sc)) else None)"

definition close_button :: "bulk_dialog \<Rightarrow> string option" where
  "close_button s =
     (if bd_phase s = Progress \<or> bd_phase s = Failed
      then Some (if bd_phase s = Progress \<and> job_completed (bd_job s) then ''Close'' else ''Run in background'')
      else None)"

definition NAMESPACE_PREVIEW_LIMIT :: nat where "NAMESPACE_PREVIEW_LIMIT = 10"

definition visible_by_ns :: "bool \<Rightarrow> bulk_scope \<Rightarrow> (string \<times> int) list" where
  "visible_by_ns expanded sc =
     (if expanded \<or> length (bs_by_namespace sc) \<le> NAMESPACE_PREVIEW_LIMIT then bs_by_namespace sc
      else take NAMESPACE_PREVIEW_LIMIT (bs_by_namespace sc))"

datatype bulk_event =
    ScopeReply "bulk_scope option + string option" | PressRefresh | PostReply post_reply
  | PollReply "bulk_job option + string option" | PollAgain | ToggleExpanded

fun bulk_step :: "bulk_target \<Rightarrow> bulk_dialog \<Rightarrow> bulk_event \<Rightarrow> bulk_dialog option" where
  "bulk_step t s (ScopeReply r) =
     (if bd_resolving s
      then Some (scope_settled r (if bd_reprompts s = 0 then ''Failed to load scope'' else ''Failed to re-resolve scope'') s)
      else None)"
| "bulk_step t s PressRefresh = (if refresh_button s = None then None else Some (submit t s))"
| "bulk_step t s (PostReply r) = (if bd_posting s then Some (post_settled t r s) else None)"
| "bulk_step t s (PollReply r) = (if bd_poll s = PollFlying then Some (poll_settled r s) else None)"
| "bulk_step t s PollAgain =
     (if bd_poll s = PollTimer
      then Some (s\<lparr>bd_poll := PollFlying, bd_sent := bd_sent s @ [GetBulkRefreshJob (the (bd_job_id s))]\<rparr>) else None)"
| "bulk_step t s ToggleExpanded = Some (s\<lparr>bd_expanded := \<not> bd_expanded s\<rparr>)"


section \<open>What is sent\<close>

fun is_bulk :: "eso_op \<Rightarrow> bool" where
  "is_bulk (BulkRefresh _ _ _ _) = True"
| "is_bulk _ = False"

lemma resolve_not_bulk [simp]: "\<not> is_bulk (resolveScope t)"
  by (cases "bt_action t") (simp_all add: resolveScope_def)

lemma bulk_op_bulk [simp]: "is_bulk (bulk_op t sc)"
  by (simp add: bulk_op_def)

definition bulk_inv :: "bulk_target \<Rightarrow> bulk_dialog \<Rightarrow> bool" where
  "bulk_inv t s \<longleftrightarrow>
     (bd_posting s \<longleftrightarrow> bd_phase s = Submitting) \<and> (bd_resolving s \<longleftrightarrow> bd_phase s = ScopeLoading)
     \<and> filter is_bulk (bd_sent s) = map (bulk_op t) (bd_confirmed s)
     \<and> (\<forall>sc \<in> set (bd_confirmed s). bs_visible sc > 0)
     \<and> bd_reprompts s \<le> length (bd_confirmed s) \<and> length (bd_confirmed s) \<le> bd_reprompts s + 1
     \<and> (bd_phase s = ScopeLoading \<or> bd_phase s = Confirm \<longrightarrow> length (bd_confirmed s) = bd_reprompts s)
     \<and> (bd_phase s = Submitting \<or> bd_phase s = Progress \<longrightarrow> length (bd_confirmed s) = bd_reprompts s + 1)
     \<and> (bd_poll s = NoPoll \<or> (bd_phase s = Progress \<and> has_text (bd_job_id s)))
     \<and> (bd_poll s = PollDone \<longleftrightarrow> job_completed (bd_job s))"

lemmas bulk_defs = bulk_inv_def scope_settled_def fail_def submit_def post_settled_def enter_progress_def poll_settled_def
  refresh_button_def Let_def

lemma dialog_init_inv: "bulk_inv t (dialog_init t)"
  by (simp add: bulk_inv_def dialog_init_def job_completed_def)

lemma bulk_step_inv: "bulk_inv t s \<Longrightarrow> bulk_step t s e = Some s' \<Longrightarrow> bulk_inv t s'"
proof (cases e)
  case (ScopeReply r)
  assume "bulk_inv t s" "bulk_step t s e = Some s'"
  then show ?thesis using ScopeReply by (cases r) (auto simp: bulk_defs split: if_splits)
next
  case PressRefresh
  assume "bulk_inv t s" "bulk_step t s e = Some s'"
  then show ?thesis using PressRefresh by (cases "bd_scope s") (auto simp: bulk_defs split: if_splits)
next
  case (PostReply r)
  assume "bulk_inv t s" "bulk_step t s e = Some s'"
  then show ?thesis using PostReply by (cases r) (auto simp: bulk_defs split: if_splits)
next
  case (PollReply r)
  assume "bulk_inv t s" "bulk_step t s e = Some s'"
  then show ?thesis using PollReply by (cases r) (auto simp: bulk_defs job_completed_def split: if_splits)
next
  case PollAgain
  assume "bulk_inv t s" "bulk_step t s e = Some s'"
  then show ?thesis using PollAgain by (auto simp: bulk_inv_def split: if_splits)
next
  case ToggleExpanded
  assume inv: "bulk_inv t s" and st: "bulk_step t s e = Some s'"
  have "s' = s\<lparr>bd_expanded := \<not> bd_expanded s\<rparr>" using st ToggleExpanded by simp
  then show ?thesis using inv by (simp add: bulk_inv_def)
qed

interpretation bulk: free_machine "bulk_step t" "bulk_inv t" for t
  by unfold_locales (rule bulk_step_inv)


definition demo_target :: bulk_target where
  "demo_target = \<lparr>bt_action = RefreshNamespace, bt_namespace = Some ''prod'', bt_name = None\<rparr>"

definition demo_scope :: bulk_scope where
  "demo_scope = \<lparr>bs_total = 2, bs_visible = 1, bs_restricted = True, bs_targets = [''u1''], bs_by_namespace = [(''prod'', 1)]\<rparr>"


text \<open>The button of the error phase reads as if a job were running.\<close>

lemma failed_button: "bd_phase s = Failed \<Longrightarrow> close_button s = Some ''Run in background''"
  by (simp add: close_button_def)

text \<open>An accepted refresh without a job id leaves the dialog in the progress phase without any poll.\<close>

lemma no_job_no_poll:
  "bd_poll s = NoPoll \<Longrightarrow> bd_phase (post_settled t (PostAccepted None) s) = Progress
    \<and> bd_poll (post_settled t (PostAccepted None) s) = NoPoll"
  by (simp add: post_settled_def enter_progress_def has_text_def)

text \<open>A poll that fails is repeated without limit, and its message is not shown: the phase stays the same.\<close>

lemma failing_polls_repeat:
  "bd_poll s = PollFlying \<Longrightarrow>
   bulk_step t s (PollReply (Inr m)) = Some (poll_settled (Inr m) s)
   \<and> bd_phase (poll_settled (Inr m) s) = bd_phase s \<and> bd_poll (poll_settled (Inr m) s) = PollTimer"
  by (simp add: poll_settled_def)

end
