(* ===== verification/Polling.thy ===== *)
theory Polling
  imports Endpoints Interfaces
begin

text \<open>
\<open>lib/hooks/use-poll.ts\<close>: a hook that fetches an address at an interval, pauses after failures or in a
  hidden tab and stops on request; and \<open>lib/useWsRefetch.ts\<close>, which fetches again some time after an
  event. What is proved: a stopped, paused or hidden poll sends nothing by itself, and events in a
  burst cause one fetch. The lemmas at the end say what goes wrong when the address changes.
\<close>

section \<open>The poll\<close>

text \<open>
  \<open>po_calls\<close> are the fetches in flight with the address each was started for, \<open>po_sent\<close> all
  addresses fetched, \<open>po_active\<close> says whether the effect runs (it does not when the hook is
  disabled), and \<open>po_hidden\<close> is \<open>document.hidden\<close>.
\<close>

record poll =
  po_data :: js
  po_loading :: bool
  po_error :: "string option"
  po_interval :: bool
  po_failures :: nat
  po_stopped :: bool
  po_hidden :: bool
  po_active :: bool
  po_url :: string
  po_calls :: "(nat \<times> string) list"
  po_next :: nat
  po_sent :: "string list"

definition MAX_CONSECUTIVE_FAILURES :: nat where "MAX_CONSECUTIVE_FAILURES = 3"

definition doFetch :: "poll \<Rightarrow> poll" where
  "doFetch s =
     s\<lparr>po_calls := po_calls s @ [(po_next s, po_url s)], po_next := po_next s + 1, po_sent := po_sent s @ [po_url s]\<rparr>"

text \<open>The effect: the first fetch and the interval. What is counted or stopped stays as it was.\<close>

definition start_poll :: "string \<Rightarrow> poll \<Rightarrow> poll" where
  "start_poll url s = (doFetch (s\<lparr>po_url := url\<rparr>))\<lparr>po_interval := True\<rparr>"

definition poll_init :: "bool \<Rightarrow> bool \<Rightarrow> string \<Rightarrow> poll" where
  "poll_init enabled hidden url =
     (let s = \<lparr>po_data = JNull, po_loading = True, po_error = None, po_interval = False, po_failures = 0,
               po_stopped = False, po_hidden = hidden, po_active = enabled, po_url = url, po_calls = [], po_next = 0,
               po_sent = []\<rparr>
      in if enabled then start_poll url s else s)"

text \<open>
  How a fetch settles; \<open>continue\<close> is \<open>shouldContinuePolling\<close>, always true when it is not given.
\<close>

definition poll_reply :: "(js \<Rightarrow> bool) \<Rightarrow> js + string option \<Rightarrow> poll \<Rightarrow> poll" where
  "poll_reply continue r s =
     (case r of
        Inl d \<Rightarrow>
          (let s1 = s\<lparr>po_data := d, po_error := None, po_failures := 0\<rparr>
           in if \<not> continue d then s1\<lparr>po_stopped := True, po_interval := False\<rparr> else s1)
      | Inr m \<Rightarrow>
          (let s1 = s\<lparr>po_error := Some (case m of Some t \<Rightarrow> t | None \<Rightarrow> ''Failed to fetch data''),
                      po_failures := po_failures s + 1\<rparr>
           in if po_failures s1 \<ge> MAX_CONSECUTIVE_FAILURES then s1\<lparr>po_interval := False\<rparr> else s1))
     \<lparr>po_loading := False\<rparr>"

definition onTick :: "poll \<Rightarrow> poll" where
  "onTick s = (if po_hidden s then s else if po_stopped s then s else doFetch s)"

definition onVisibilityChange :: "poll \<Rightarrow> poll" where
  "onVisibilityChange s =
     (if \<not> po_hidden s \<and> \<not> po_interval s \<and> \<not> po_stopped s
      then (doFetch (s\<lparr>po_failures := 0\<rparr>))\<lparr>po_interval := True\<rparr> else s)"

definition refetch :: "poll \<Rightarrow> poll" where
  "refetch s = (if po_active s then doFetch s else s)"

datatype poll_event =
    Tick | Visibility bool | PollSettles nat "js + string option" | Refetch | ChangeUrl string

fun poll_step :: "(js \<Rightarrow> bool) \<Rightarrow> poll \<Rightarrow> poll_event \<Rightarrow> poll option" where
  "poll_step continue s Tick = (if po_interval s then Some (onTick s) else None)"
| "poll_step continue s (Visibility hidden) =
     (let s1 = s\<lparr>po_hidden := hidden\<rparr> in Some (if po_active s then onVisibilityChange s1 else s1))"
| "poll_step continue s (PollSettles i r) =
     (case rec_get (po_calls s) i of
        None \<Rightarrow> None | Some _ \<Rightarrow> Some (poll_reply continue r (s\<lparr>po_calls := rec_del (po_calls s) i\<rparr>)))"
| "poll_step continue s Refetch = Some (refetch s)"
| "poll_step continue s (ChangeUrl url) = (if po_active s then Some (start_poll url s) else Some (s\<lparr>po_url := url\<rparr>))"

text \<open>The events that neither the user nor the browser's showing the tab causes.\<close>

fun by_itself :: "poll_event \<Rightarrow> bool" where
  "by_itself Refetch = False"
| "by_itself (ChangeUrl _) = False"
| "by_itself (Visibility hidden) = hidden"
| "by_itself _ = True"

definition same_url :: "poll_event \<Rightarrow> bool" where
  "same_url e \<longleftrightarrow> (\<forall>u. e \<noteq> ChangeUrl u)"

lemmas poll_defs = doFetch_def start_poll_def poll_reply_def onTick_def onVisibilityChange_def refetch_def Let_def

definition poll_inv :: "poll \<Rightarrow> bool" where
  "poll_inv s \<longleftrightarrow> (po_stopped s \<or> po_failures s \<ge> MAX_CONSECUTIVE_FAILURES \<longrightarrow> \<not> po_interval s)"

lemma poll_step_inv: "same_url e \<Longrightarrow> poll_inv s \<Longrightarrow> poll_step continue s e = Some t \<Longrightarrow> poll_inv t"
proof (cases e)
  case (PollSettles i r)
  assume "poll_inv s" "poll_step continue s e = Some t"
  then show ?thesis using PollSettles
    by (cases r) (auto simp: poll_inv_def poll_defs split: option.splits if_splits)
qed (auto simp: poll_inv_def same_url_def poll_defs MAX_CONSECUTIVE_FAILURES_def split: if_splits)

interpretation polls: machine "poll_step continue" "\<lambda>_. same_url" poll_inv for continue
  by unfold_locales (rule poll_step_inv)

lemma poll_init_inv: "poll_inv (poll_init enabled hidden url)"
  by (simp add: poll_init_def poll_inv_def poll_defs MAX_CONSECUTIVE_FAILURES_def)

text \<open>A poll that is off, or in a hidden tab, sends nothing until someone intervenes.\<close>

definition quiet :: "poll \<Rightarrow> bool" where
  "quiet s \<longleftrightarrow> \<not> po_interval s \<or> po_stopped s \<or> po_hidden s"

lemma quiet_step:
  assumes "quiet s" "by_itself e" "poll_step continue s e = Some t"
  shows "quiet t \<and> po_sent t = po_sent s"
proof (cases e)
  case (PollSettles i r)
  then show ?thesis using assms
    by (cases r) (auto simp: quiet_def poll_defs split: option.splits if_splits)
next
  case (Visibility h)
  then show ?thesis using assms by (auto simp: quiet_def poll_defs split: if_splits)
qed (use assms in \<open>auto simp: quiet_def poll_defs split: if_splits\<close>)

lemma quiet_run: "quiet s \<Longrightarrow> list_all by_itself es \<Longrightarrow> run_events (poll_step continue) s es = Some t \<Longrightarrow> po_sent t = po_sent s"
proof (induction es arbitrary: s)
  case (Cons e es)
  then obtain u where u: "poll_step continue s e = Some u" "run_events (poll_step continue) u es = Some t"
    by (auto split: option.splits)
  then show ?case using Cons quiet_step [of s e continue u] by auto
qed simp



text \<open>
  When the address changes, what was counted or stopped for the old one stays. A poll that was
  stopped fetches the new address once and never again.
\<close>

lemma stop_outlives_url:
  assumes "po_stopped s" "po_active s" "list_all (\<lambda>e. by_itself e \<or> e = Visibility False) es"
    and "run_events (poll_step continue) (start_poll url s) es = Some t"
  shows "po_sent t = po_sent s @ [url]"
proof -
  have "po_sent v = po_sent u" if "run_events (poll_step continue) u es = Some v" "po_stopped u"
    "list_all (\<lambda>e. by_itself e \<or> e = Visibility False) es" for u v es
    using that
  proof (induction es arbitrary: u)
    case (Cons e es)
    then obtain w where w: "poll_step continue u e = Some w" "run_events (poll_step continue) w es = Some v"
      by (auto split: option.splits)
    have "po_stopped w \<and> po_sent w = po_sent u"
    proof (cases e)
      case (PollSettles i r)
      then show ?thesis using w(1) Cons.prems(2)
        by (cases r) (auto simp: poll_defs split: option.splits if_splits)
    qed (use w(1) Cons.prems in \<open>auto simp: poll_defs split: if_splits\<close>)
    then show ?case using Cons w(2) by auto
  qed simp
  then show ?thesis using assms by (auto simp: poll_defs)
qed

text \<open>A poll paused by failures pauses again at the first failure of the new address.\<close>

lemma failures_outlive_url:
  "po_failures s \<ge> 3 \<Longrightarrow> \<not> po_interval (poll_reply continue (Inr m) (start_poll url s))"
  by (simp add: poll_defs MAX_CONSECUTIVE_FAILURES_def)

text \<open>A late reply for the old address is shown as the data of the new one.\<close>

lemma stale_reply_shown:
  "po_url (start_poll url s) = url \<and> po_data (poll_reply continue (Inl old) (start_poll url s)) = old"
  by (simp add: poll_defs)

text \<open>After a pause, a fetch asked for that succeeds does not start the interval again.\<close>

lemma success_stays_paused:
  "\<not> po_interval s \<Longrightarrow> \<not> po_interval (poll_reply continue (Inl d) (refetch s))
    \<and> po_failures (poll_reply continue (Inl d) (refetch s)) = 0"
  by (simp add: poll_defs)


section \<open>Fetching again after events\<close>

text \<open>\<open>rw_timer\<close> says that the timer is set, \<open>rw_fetches\<close> counts the fetches.\<close>

record ws_refetch =
  rw_mounted :: bool
  rw_timer :: bool
  rw_fetches :: nat

datatype refetch_event = WsEvent | TimerFires | Unmount

fun refetch_step :: "ws_refetch \<Rightarrow> refetch_event \<Rightarrow> ws_refetch option" where
  "refetch_step s WsEvent = (if rw_mounted s then Some (s\<lparr>rw_timer := True\<rparr>) else None)"
| "refetch_step s TimerFires =
     (if rw_timer s then Some (s\<lparr>rw_timer := False, rw_fetches := rw_fetches s + 1\<rparr>) else None)"
| "refetch_step s Unmount = (if rw_mounted s then Some (s\<lparr>rw_mounted := False, rw_timer := False\<rparr>) else None)"

lemma burst_fetches_once:
  "rw_mounted s \<Longrightarrow> n > 0 \<Longrightarrow> run_events refetch_step s (replicate n WsEvent @ [TimerFires]) =
     Some (s\<lparr>rw_timer := False, rw_fetches := rw_fetches s + 1\<rparr>)"
proof (induction n arbitrary: s)
  case (Suc n)
  then show ?case using Suc.IH [of "s\<lparr>rw_timer := True\<rparr>"] by (cases n) simp_all
qed simp

lemma unmounted_fetches_nothing:
  assumes "\<not> rw_mounted s" "\<not> rw_timer s" "run_events refetch_step s es = Some t"
  shows "es = [] \<and> t = s"
proof (cases es)
  case (Cons e fs)
  then show ?thesis using assms by (cases e) auto
qed (use assms in simp)

end
