(* ===== verification/Log_Viewer.thy ===== *)
theory Log_Viewer
  imports Endpoints Interfaces
begin

text \<open>
\<open>islands/LogViewer.tsx\<close>: the log tabs of a pod, followed over one WebSocket per tab or fetched as a
  snapshot, with received lines batched per animation frame; the search and its highlighting. What is
  proved: the tab of a container always shows the last lines it was given, in order and bounded; and
  highlighting adds nothing but marks around occurrences of the query. The lemmas at the end are the
  run that leaks a socket, the tab of an init container, and an entity broken by highlighting.
\<close>

section \<open>Tabs\<close>

text \<open>
  A line has its text and the HTML computed when it arrived. \<open>tabStates\<close> is an array with entries
  for the containers only; writing to a later index makes an object with the written properties
  alone, so the others can be undefined. They are options here.
\<close>

type_synonym log_line = "string \<times> string"

record tab_state =
  ts_lines :: "log_line list option"
  ts_dropped :: "int option"
  ts_connected :: "bool option"
  ts_error :: "string option"

definition MAX_LINES :: nat where "MAX_LINES = 10000"

definition fresh_tab :: tab_state where
  "fresh_tab = \<lparr>ts_lines = Some [], ts_dropped = Some 0, ts_connected = Some False, ts_error = Some []\<rparr>"

definition empty_object :: tab_state where
  "empty_object = \<lparr>ts_lines = None, ts_dropped = None, ts_connected = None, ts_error = None\<rparr>"

record log_socket =
  lk_tab :: nat
  lk_closing :: bool

text \<open>
  \<open>lv_refs\<close> is \<open>wsRefs\<close>, \<open>lv_sockets\<close> every socket that has not fired its close event, tracked or not;
  \<open>lv_fetches\<close> are the tabs of the snapshots in flight. \<open>lv_history\<close> records, for each tab, the
  texts put into it since its last snapshot.
\<close>

record log_viewer =
  lv_active :: nat
  lv_follow :: bool
  lv_previous :: bool
  lv_split :: bool
  lv_split_tab :: nat
  lv_tabs :: "nat \<Rightarrow> tab_state option"
  lv_loading :: bool
  lv_ansi :: bool
  lv_refs :: "(nat \<times> nat) list"
  lv_sockets :: "(nat \<times> log_socket) list"
  lv_next :: nat
  lv_pending :: "(nat \<times> string list) list"
  lv_drops :: "(nat \<times> int) list"
  lv_frame :: bool
  lv_fetches :: "nat list"
  lv_history :: "nat \<Rightarrow> string list"

definition getTabState :: "log_viewer \<Rightarrow> nat \<Rightarrow> tab_state" where
  "getTabState s i = (case lv_tabs s i of None \<Rightarrow> fresh_tab | Some t \<Rightarrow> t)"

definition updateTabState :: "nat \<Rightarrow> (tab_state \<Rightarrow> tab_state) \<Rightarrow> log_viewer \<Rightarrow> log_viewer" where
  "updateTabState i u s =
     s\<lparr>lv_tabs := (lv_tabs s)(i := Some (u (case lv_tabs s i of None \<Rightarrow> empty_object | Some t \<Rightarrow> t)))\<rparr>"

definition replace_char_with :: "char \<Rightarrow> string \<Rightarrow> string \<Rightarrow> string" where
  "replace_char_with c r s = concat (map (\<lambda>x. if x = c then r else [x]) s)"

definition escapeHtml :: "string \<Rightarrow> string" where
  "escapeHtml s =
     replace_char_with CHR ''>'' ''&gt;'' (replace_char_with CHR ''<'' ''&lt;'' (replace_char_with CHR ''&'' ''&amp;'' s))"

text \<open>\<open>toLogLine\<close>, with \<open>ansi\<close> for \<open>ansi_to_html\<close> of the package \<open>ansi_up\<close> once it has loaded.\<close>

definition toLogLine :: "(string \<Rightarrow> string) \<Rightarrow> bool \<Rightarrow> string \<Rightarrow> log_line" where
  "toLogLine ansi loaded raw = (raw, if loaded then ansi raw else escapeHtml raw)"


section \<open>Following and fetching\<close>

definition mark_closing :: "nat list \<Rightarrow> (nat \<times> log_socket) list \<Rightarrow> (nat \<times> log_socket) list" where
  "mark_closing ids socks = map (\<lambda>(i, k). (i, if i \<in> set ids then k\<lparr>lk_closing := True\<rparr> else k)) socks"

definition closeTabWS :: "nat \<Rightarrow> log_viewer \<Rightarrow> log_viewer" where
  "closeTabWS tab s =
     (case rec_get (lv_refs s) tab of
        None \<Rightarrow> s
      | Some i \<Rightarrow> s\<lparr>lv_sockets := mark_closing [i] (lv_sockets s), lv_refs := rec_del (lv_refs s) tab\<rparr>)"

text \<open>\<open>ntabs\<close> is the number of containers, init containers included.\<close>

definition connectWS :: "nat \<Rightarrow> nat \<Rightarrow> log_viewer \<Rightarrow> log_viewer" where
  "connectWS ntabs tab s =
     (if tab \<ge> ntabs then s
      else (let s1 = closeTabWS tab s; i = lv_next s1
            in updateTabState tab (\<lambda>t. t\<lparr>ts_error := Some [], ts_connected := Some False\<rparr>)
                 (s1\<lparr>lv_sockets := lv_sockets s1 @ [(i, \<lparr>lk_tab = tab, lk_closing = False\<rparr>)],
                     lv_refs := rec_set (lv_refs s1) tab i, lv_next := i + 1\<rparr>)))"

definition fetchSnapshot :: "nat \<Rightarrow> nat \<Rightarrow> log_viewer \<Rightarrow> log_viewer" where
  "fetchSnapshot ntabs tab s =
     (if tab \<ge> ntabs then s
      else updateTabState tab (\<lambda>t. t\<lparr>ts_error := Some []\<rparr>) (s\<lparr>lv_loading := True, lv_fetches := lv_fetches s @ [tab]\<rparr>))"

definition snapshot_settled :: "(string \<Rightarrow> string) \<Rightarrow> nat \<Rightarrow> string list option + string option \<Rightarrow> log_viewer \<Rightarrow> log_viewer" where
  "snapshot_settled ansi tab r s =
     (case r of
        Inl lines \<Rightarrow>
          (let raw = (case lines of None \<Rightarrow> [] | Some ls \<Rightarrow> ls)
           in (updateTabState tab (\<lambda>t. t\<lparr>ts_lines := Some (map (toLogLine ansi (lv_ansi s)) raw)\<rparr>) s)
              \<lparr>lv_history := (lv_history s)(tab := raw)\<rparr>)
      | Inr m \<Rightarrow>
          updateTabState tab (\<lambda>t. t\<lparr>ts_error := Some (case m of Some e \<Rightarrow> e | None \<Rightarrow> ''Failed to fetch logs'')\<rparr>) s)
     \<lparr>lv_loading := False\<rparr>"

text \<open>The effect on tab, mode and previous, and its cleanup.\<close>

definition cleanup :: "log_viewer \<Rightarrow> log_viewer" where
  "cleanup s =
     s\<lparr>lv_sockets := mark_closing (map snd (lv_refs s)) (lv_sockets s), lv_refs := [], lv_frame := False,
       lv_pending := [], lv_drops := []\<rparr>"

definition start_logs :: "nat \<Rightarrow> log_viewer \<Rightarrow> log_viewer" where
  "start_logs ntabs s =
     (if lv_follow s
      then (let s1 = connectWS ntabs (lv_active s) s
            in if lv_split s \<and> lv_split_tab s \<noteq> lv_active s then connectWS ntabs (lv_split_tab s) s1 else s1)
      else (let s1 = fold (\<lambda>(tab, i). updateTabState tab (\<lambda>t. t\<lparr>ts_connected := Some False\<rparr>)) (lv_refs s)
                       (s\<lparr>lv_sockets := mark_closing (map snd (lv_refs s)) (lv_sockets s), lv_refs := []\<rparr>)
            in fetchSnapshot ntabs (lv_active s) s1))"

definition restart :: "nat \<Rightarrow> log_viewer \<Rightarrow> log_viewer" where
  "restart ntabs s = start_logs ntabs (cleanup s)"

definition viewer_init :: "nat \<Rightarrow> nat \<Rightarrow> log_viewer" where
  "viewer_init n ntabs =
     start_logs ntabs
       \<lparr>lv_active = 0, lv_follow = True, lv_previous = False, lv_split = False, lv_split_tab = 1,
        lv_tabs = (\<lambda>i. if i < n then Some fresh_tab else None), lv_loading = True, lv_ansi = False, lv_refs = [],
        lv_sockets = [], lv_next = 0, lv_pending = [], lv_drops = [], lv_frame = False, lv_fetches = [],
        lv_history = (\<lambda>i. [])\<rparr>"

definition toggleSplit :: "nat \<Rightarrow> bool \<Rightarrow> log_viewer \<Rightarrow> log_viewer" where
  "toggleSplit ntabs checked s =
     (if checked
      then (let other = (if lv_active s = 0 then 1 else 0); s1 = s\<lparr>lv_split_tab := other\<rparr>
            in (if lv_follow s1 then connectWS ntabs other s1 else fetchSnapshot ntabs other s1))
      else updateTabState (lv_split_tab s) (\<lambda>t. t\<lparr>ts_connected := Some False\<rparr>) (closeTabWS (lv_split_tab s) s))
     \<lparr>lv_split := checked\<rparr>"

text \<open>A message of the server; \<open>Unreadable\<close> stands for everything the handler ignores.\<close>

datatype log_message =
    Subscribed | LogText string | Dropped "int option" | LogError string | LogEnd | Unreadable

definition on_message :: "nat \<Rightarrow> log_message \<Rightarrow> log_viewer \<Rightarrow> log_viewer" where
  "on_message tab m s =
     (if \<not> lv_follow s then s
      else case m of
             Subscribed \<Rightarrow> (updateTabState tab (\<lambda>t. t\<lparr>ts_connected := Some True\<rparr>) s)\<lparr>lv_loading := False\<rparr>
           | LogText d \<Rightarrow>
               s\<lparr>lv_pending := rec_set (lv_pending s) tab ((case rec_get (lv_pending s) tab of None \<Rightarrow> [] | Some p \<Rightarrow> p) @ [d]),
                 lv_frame := True\<rparr>
           | Dropped c \<Rightarrow>
               s\<lparr>lv_drops := rec_set (lv_drops s) tab ((case rec_get (lv_drops s) tab of None \<Rightarrow> 0 | Some p \<Rightarrow> p)
                                                      + (case c of None \<Rightarrow> 0 | Some k \<Rightarrow> k)),
                 lv_frame := True\<rparr>
           | LogError e \<Rightarrow> updateTabState tab (\<lambda>t. t\<lparr>ts_error := Some e\<rparr>) s
           | LogEnd \<Rightarrow> updateTabState tab (\<lambda>t. t\<lparr>ts_connected := Some False\<rparr>) s
           | Unreadable \<Rightarrow> s)"

text \<open>\<open>onopen\<close> with or without an access token, \<open>onclose\<close> and \<open>onerror\<close>.\<close>

definition on_open :: "bool \<Rightarrow> nat \<Rightarrow> nat \<Rightarrow> log_viewer \<Rightarrow> log_viewer" where
  "on_open has_token i tab s =
     (if has_token then s
      else updateTabState tab (\<lambda>t. t\<lparr>ts_error := Some ''Not authenticated''\<rparr>)
             (s\<lparr>lv_sockets := mark_closing [i] (lv_sockets s), lv_refs := rec_del (lv_refs s) tab\<rparr>))"

definition on_close :: "nat \<Rightarrow> nat \<Rightarrow> log_viewer \<Rightarrow> log_viewer" where
  "on_close i tab s =
     updateTabState tab (\<lambda>t. t\<lparr>ts_connected := Some False\<rparr>)
       (s\<lparr>lv_sockets := rec_del (lv_sockets s) i, lv_refs := rec_del (lv_refs s) tab\<rparr>)"

text \<open>\<open>flushPendingLines\<close>: the lines, then the counts of dropped lines.\<close>

definition flush_lines :: "(string \<Rightarrow> string) \<Rightarrow> nat \<times> string list \<Rightarrow> log_viewer \<Rightarrow> log_viewer" where
  "flush_lines ansi p s =
     (let tab = fst p; raw = snd p
      in if raw = [] then s
         else (let merged = (case ts_lines (getTabState s tab) of None \<Rightarrow> [] | Some ls \<Rightarrow> ls)
                              @ map (toLogLine ansi (lv_ansi s)) raw;
                   trimmed = (if length merged > MAX_LINES then drop (length merged - MAX_LINES) merged else merged)
               in (updateTabState tab (\<lambda>t. t\<lparr>ts_lines := Some trimmed\<rparr>) s)
                  \<lparr>lv_history := (lv_history s)(tab := lv_history s tab @ raw)\<rparr>))"

definition flush_drops :: "nat \<times> int \<Rightarrow> log_viewer \<Rightarrow> log_viewer" where
  "flush_drops p s =
     (if snd p > 0
      then updateTabState (fst p)
             (\<lambda>t. t\<lparr>ts_dropped := Some ((case ts_dropped t of None \<Rightarrow> 0 | Some k \<Rightarrow> k) + snd p)\<rparr>) s
      else s)"

definition flushPendingLines :: "(string \<Rightarrow> string) \<Rightarrow> log_viewer \<Rightarrow> log_viewer" where
  "flushPendingLines ansi s =
     (let s1 = fold (flush_lines ansi) (lv_pending s) (s\<lparr>lv_frame := False\<rparr>)
      in (fold flush_drops (lv_drops s) s1)\<lparr>lv_pending := [], lv_drops := []\<rparr>)"

datatype log_event =
    AnsiLoaded | Opened nat bool | Message nat log_message | Closed nat | SocketError nat | Frame
  | SelectTab nat | SetFollow bool | SetPrevious bool | ToggleSplit bool | RefreshSnapshot
  | SnapshotReply nat "string list option + string option"

text \<open>
  A socket that is being closed fires neither open nor message. The effect runs again when the
  signal it depends on changes.
\<close>

fun log_step :: "(string \<Rightarrow> string) \<Rightarrow> nat \<Rightarrow> log_viewer \<Rightarrow> log_event \<Rightarrow> log_viewer option" where
  "log_step ansi ntabs s AnsiLoaded = Some (s\<lparr>lv_ansi := True\<rparr>)"
| "log_step ansi ntabs s (Opened i tok) =
     (case rec_get (lv_sockets s) i of
        None \<Rightarrow> None | Some k \<Rightarrow> if lk_closing k then None else Some (on_open tok i (lk_tab k) s))"
| "log_step ansi ntabs s (Message i m) =
     (case rec_get (lv_sockets s) i of
        None \<Rightarrow> None | Some k \<Rightarrow> if lk_closing k then None else Some (on_message (lk_tab k) m s))"
| "log_step ansi ntabs s (Closed i) =
     (case rec_get (lv_sockets s) i of None \<Rightarrow> None | Some k \<Rightarrow> Some (on_close i (lk_tab k) s))"
| "log_step ansi ntabs s (SocketError i) =
     (case rec_get (lv_sockets s) i of
        None \<Rightarrow> None
      | Some k \<Rightarrow> Some (updateTabState (lk_tab k) (\<lambda>t. t\<lparr>ts_error := Some ''WebSocket connection failed''\<rparr>) s))"
| "log_step ansi ntabs s Frame = (if lv_frame s then Some (flushPendingLines ansi s) else None)"
| "log_step ansi ntabs s (SelectTab i) =
     (if i \<ge> ntabs then None else if i = lv_active s then Some s else Some (restart ntabs (s\<lparr>lv_active := i\<rparr>)))"
| "log_step ansi ntabs s (SetFollow b) =
     (if b = lv_follow s then Some s else Some (restart ntabs (s\<lparr>lv_follow := b\<rparr>)))"
| "log_step ansi ntabs s (SetPrevious b) =
     (if b = lv_previous s then Some s else Some (restart ntabs (s\<lparr>lv_previous := b\<rparr>)))"
| "log_step ansi ntabs s (ToggleSplit b) =
     (if ntabs < 2 \<or> b = lv_split s then None else Some (toggleSplit ntabs b s))"
| "log_step ansi ntabs s RefreshSnapshot = (if lv_follow s then None else Some (fetchSnapshot ntabs (lv_active s) s))"
| "log_step ansi ntabs s (SnapshotReply i r) =
     (if i < length (lv_fetches s)
      then Some (snapshot_settled ansi (lv_fetches s ! i)
                   r (s\<lparr>lv_fetches := take i (lv_fetches s) @ drop (i + 1) (lv_fetches s)\<rparr>))
      else None)"


section \<open>What a tab shows\<close>

definition last_lines :: "'a list \<Rightarrow> 'a list" where
  "last_lines xs = drop (length xs - MAX_LINES) xs"

lemma last_lines_short [simp]: "length xs \<le> MAX_LINES \<Longrightarrow> last_lines xs = xs"
  by (simp add: last_lines_def)

lemma last_lines_length: "length (last_lines xs) \<le> MAX_LINES"
  by (simp add: last_lines_def)

lemma last_lines_append: "last_lines (last_lines xs @ ys) = last_lines (xs @ ys)"
proof (cases "length xs \<le> MAX_LINES")
  case False
  then have "length xs - MAX_LINES + (MAX_LINES + length ys - MAX_LINES) = length xs + length ys - MAX_LINES" by simp
  then show ?thesis using False
    by (simp add: last_lines_def drop_append add.commute)
qed simp

definition html_ok :: "(string \<Rightarrow> string) \<Rightarrow> log_line \<Rightarrow> bool" where
  "html_ok ansi l \<longleftrightarrow> snd l = ansi (fst l) \<or> snd l = escapeHtml (fst l)"

text \<open>The lines of a tab are the last ones of its history.\<close>

definition shown_lines :: "tab_state option \<Rightarrow> log_line list" where
  "shown_lines t =
     (case t of None \<Rightarrow> [] | Some t' \<Rightarrow> (case ts_lines t' of None \<Rightarrow> [] | Some ls \<Rightarrow> ls))"

definition has_lines :: "tab_state option \<Rightarrow> bool" where
  "has_lines t \<longleftrightarrow> (case t of None \<Rightarrow> False | Some t' \<Rightarrow> ts_lines t' \<noteq> None)"

definition tab_ok :: "(string \<Rightarrow> string) \<Rightarrow> log_line list \<Rightarrow> string list \<Rightarrow> bool" where
  "tab_ok ansi ls h \<longleftrightarrow> map fst ls = last_lines h \<and> (\<forall>l \<in> set ls. html_ok ansi l)"

definition tabs_ok :: "(string \<Rightarrow> string) \<Rightarrow> nat \<Rightarrow> log_viewer \<Rightarrow> bool" where
  "tabs_ok ansi n s \<longleftrightarrow>
     (\<forall>i. tab_ok ansi (shown_lines (lv_tabs s i)) (lv_history s i)) \<and> (\<forall>i < n. has_lines (lv_tabs s i))"

text \<open>Updates of other fields, and of other properties of a tab, keep that.\<close>

lemma tabs_ok_fields [simp]:
  "tabs_ok ansi n (s\<lparr>lv_active := i\<rparr>) = tabs_ok ansi n s" "tabs_ok ansi n (s\<lparr>lv_follow := b\<rparr>) = tabs_ok ansi n s"
  "tabs_ok ansi n (s\<lparr>lv_previous := b\<rparr>) = tabs_ok ansi n s" "tabs_ok ansi n (s\<lparr>lv_split := b\<rparr>) = tabs_ok ansi n s"
  "tabs_ok ansi n (s\<lparr>lv_split_tab := i\<rparr>) = tabs_ok ansi n s" "tabs_ok ansi n (s\<lparr>lv_loading := b\<rparr>) = tabs_ok ansi n s"
  "tabs_ok ansi n (s\<lparr>lv_ansi := b\<rparr>) = tabs_ok ansi n s" "tabs_ok ansi n (s\<lparr>lv_refs := refs\<rparr>) = tabs_ok ansi n s"
  "tabs_ok ansi n (s\<lparr>lv_sockets := socks\<rparr>) = tabs_ok ansi n s" "tabs_ok ansi n (s\<lparr>lv_next := i\<rparr>) = tabs_ok ansi n s"
  "tabs_ok ansi n (s\<lparr>lv_pending := ps\<rparr>) = tabs_ok ansi n s" "tabs_ok ansi n (s\<lparr>lv_drops := ds\<rparr>) = tabs_ok ansi n s"
  "tabs_ok ansi n (s\<lparr>lv_frame := b\<rparr>) = tabs_ok ansi n s" "tabs_ok ansi n (s\<lparr>lv_fetches := fs\<rparr>) = tabs_ok ansi n s"
  by (simp_all add: tabs_ok_def)

lemma update_history [simp]: "lv_history (updateTabState i u s) = lv_history s"
  by (simp add: updateTabState_def)

lemma update_shown:
  assumes "\<And>t. ts_lines (u t) = ts_lines t"
  shows "shown_lines (lv_tabs (updateTabState i u s) j) = shown_lines (lv_tabs s j)"
    and "has_lines (lv_tabs (updateTabState i u s) j) = has_lines (lv_tabs s j)"
  using assms by (auto simp: shown_lines_def has_lines_def updateTabState_def empty_object_def split: option.splits)

lemma update_tab_ok:
  assumes "tabs_ok ansi n s" "\<And>t. ts_lines (u t) = ts_lines t"
  shows "tabs_ok ansi n (updateTabState i u s)"
  using assms(1) update_shown [of u, OF assms(2)] by (simp add: tabs_ok_def)

lemma close_tab_ok [simp]: "tabs_ok ansi n (closeTabWS tab s) = tabs_ok ansi n s"
  by (simp add: closeTabWS_def split: option.splits)

lemma connect_ok: "tabs_ok ansi n s \<Longrightarrow> tabs_ok ansi n (connectWS m tab s)"
  unfolding connectWS_def Let_def by (auto intro!: update_tab_ok)

lemma fetch_snapshot_ok: "tabs_ok ansi n s \<Longrightarrow> tabs_ok ansi n (fetchSnapshot m tab s)"
  unfolding fetchSnapshot_def by (auto intro!: update_tab_ok)

lemma cleanup_ok [simp]: "tabs_ok ansi n (cleanup s) = tabs_ok ansi n s"
  by (simp add: cleanup_def)

lemma fold_keeps: "(\<And>x s. P s \<Longrightarrow> P (f x s)) \<Longrightarrow> P s \<Longrightarrow> P (fold f xs s)"
  by (induction xs arbitrary: s) auto

lemma start_ok: "tabs_ok ansi n s \<Longrightarrow> tabs_ok ansi n (start_logs m s)"
  unfolding start_logs_def Let_def
  by (auto intro!: connect_ok fetch_snapshot_ok fold_keeps [where P = "tabs_ok ansi n"] update_tab_ok)

lemma restart_ok: "tabs_ok ansi n s \<Longrightarrow> tabs_ok ansi n (restart m s)"
  by (simp add: restart_def start_ok)

lemma html_line: "html_ok ansi (toLogLine ansi b raw)"
  by (simp add: html_ok_def toLogLine_def)

lemma fst_line [simp]: "fst (toLogLine ansi b raw) = raw"
  by (simp add: toLogLine_def)

lemma flush_lines_ok:
  assumes ok: "tabs_ok ansi n s"
  shows "tabs_ok ansi n (flush_lines ansi p s)"
proof (cases "snd p = []")
  case False
  obtain tab raw where p: "p = (tab, raw)" by (cases p)
  let ?old = "shown_lines (lv_tabs s tab)"
  let ?merged = "?old @ map (toLogLine ansi (lv_ansi s)) raw"
  have old: "(case ts_lines (getTabState s tab) of None \<Rightarrow> [] | Some ls \<Rightarrow> ls) = ?old"
    by (auto simp: getTabState_def shown_lines_def fresh_tab_def split: option.splits)
  have trim: "(if length ?merged > MAX_LINES then drop (length ?merged - MAX_LINES) ?merged else ?merged) = last_lines ?merged"
    by (simp add: last_lines_def)
  have new: "flush_lines ansi p s = (updateTabState tab (\<lambda>t. t\<lparr>ts_lines := Some (last_lines ?merged)\<rparr>) s)
      \<lparr>lv_history := (lv_history s)(tab := lv_history s tab @ raw)\<rparr>"
    using False unfolding flush_lines_def Let_def p fst_conv snd_conv old trim by simp
  have tab: "map fst ?old = last_lines (lv_history s tab)" "\<forall>l \<in> set ?old. html_ok ansi l"
    using ok by (auto simp: tabs_ok_def tab_ok_def)
  have "map fst (last_lines ?merged) = last_lines (map fst ?old @ raw)"
    by (simp add: last_lines_def drop_map [symmetric] comp_def)
  also have "\<dots> = last_lines (lv_history s tab @ raw)" unfolding tab(1) by (rule last_lines_append)
  finally have "tab_ok ansi (last_lines ?merged) (lv_history s tab @ raw)"
    using tab(2) html_line by (auto simp: tab_ok_def last_lines_def dest!: in_set_dropD)
  then show ?thesis using ok unfolding new
    by (auto simp: tabs_ok_def updateTabState_def shown_lines_def has_lines_def split: option.splits)
qed (simp add: flush_lines_def ok)

lemma flush_drops_ok: "tabs_ok ansi n s \<Longrightarrow> tabs_ok ansi n (flush_drops p s)"
  by (auto simp: flush_drops_def intro!: update_tab_ok)

lemma flush_ok: "tabs_ok ansi n s \<Longrightarrow> tabs_ok ansi n (flushPendingLines ansi s)"
  unfolding flushPendingLines_def Let_def
  by (simp add: fold_keeps [where P = "tabs_ok ansi n"] flush_lines_ok flush_drops_ok)

text \<open>A snapshot has at most as many lines as were asked for, which is fewer than a tab holds.\<close>

fun modest :: "log_event \<Rightarrow> bool" where
  "modest (SnapshotReply i (Inl (Some ls))) = (length ls \<le> MAX_LINES)"
| "modest _ = True"

lemma snapshot_ok:
  assumes "tabs_ok ansi n s" "modest (SnapshotReply i r)"
  shows "tabs_ok ansi n (snapshot_settled ansi tab r s)"
proof (cases r)
  case (Inl lines)
  define raw where "raw = (case lines of None \<Rightarrow> [] | Some ls \<Rightarrow> ls)"
  have "length raw \<le> MAX_LINES" using assms(2) Inl by (auto simp: raw_def split: option.splits)
  then have "tab_ok ansi (map (toLogLine ansi (lv_ansi s)) raw) raw"
    using html_line by (auto simp: tab_ok_def comp_def)
  then show ?thesis using assms(1)
    by (auto simp: snapshot_settled_def Inl raw_def [symmetric] tabs_ok_def updateTabState_def shown_lines_def
        has_lines_def split: option.splits)
next
  case (Inr m)
  then show ?thesis using assms(1) by (simp add: snapshot_settled_def update_tab_ok)
qed

lemma viewer_init_ok: "tabs_ok ansi n (viewer_init n m)"
  unfolding viewer_init_def
  by (rule start_ok) (auto simp: tabs_ok_def tab_ok_def shown_lines_def has_lines_def fresh_tab_def MAX_LINES_def)

lemma log_step_ok: "modest e \<Longrightarrow> tabs_ok ansi n s \<Longrightarrow> log_step ansi m s e = Some t \<Longrightarrow> tabs_ok ansi n t"
proof (cases e)
  case (Message i msg)
  assume "tabs_ok ansi n s" "log_step ansi m s e = Some t"
  then show ?thesis using Message
    by (cases msg) (auto simp: on_message_def update_tab_ok split: option.splits if_splits)
next
  case (SnapshotReply i r)
  assume "modest e" "tabs_ok ansi n s" "log_step ansi m s e = Some t"
  then show ?thesis using SnapshotReply snapshot_ok [of ansi n _ i r] by (auto split: if_splits)
next
  case Frame
  assume "tabs_ok ansi n s" "log_step ansi m s e = Some t"
  then show ?thesis using Frame by (auto simp: flush_ok split: if_splits)
next
  case (ToggleSplit b)
  assume "tabs_ok ansi n s" "log_step ansi m s e = Some t"
  then show ?thesis using ToggleSplit
    by (auto simp: toggleSplit_def Let_def connect_ok fetch_snapshot_ok update_tab_ok split: if_splits)
qed (auto simp: on_open_def on_close_def restart_ok fetch_snapshot_ok update_tab_ok split: option.splits if_splits)

interpretation logs: machine "log_step ansi m" "\<lambda>_. modest" "tabs_ok ansi n" for ansi n m
  by unfold_locales (rule log_step_ok)


lemmas run_logs = viewer_init_def start_logs_def connectWS_def closeTabWS_def updateTabState_def restart_def cleanup_def
  on_open_def on_close_def on_message_def mark_closing_def rec_get_def rec_del_def Let_def


text \<open>
  An init container's tab has no entry in the array. Selecting it makes an object without lines,
  and rendering reads the length of these lines: the island throws.
\<close>

lemma init_tab_has_no_lines:
  "\<exists>s. run_events (log_step ansi 2) (viewer_init 1 2) [SelectTab 1] = Some s \<and> lv_active s = 1
     \<and> ts_lines (getTabState s 1) = None"
  by (simp add: run_logs getTabState_def fresh_tab_def empty_object_def)

text \<open>
  Toggling Previous closes the socket and opens another for the same tab; the close event of the
  old one, which comes later, removes the new one from the map. The next toggle does not close
  it: two sockets are open for the tab, and both fill it.
\<close>

lemma socket_leaks:
  "\<exists>s. run_events (log_step ansi 1) (viewer_init 1 1) [SetPrevious True, Closed 0, SetPrevious False] = Some s
     \<and> lv_sockets s = [(1, \<lparr>lk_tab = 0, lk_closing = False\<rparr>), (2, \<lparr>lk_tab = 0, lk_closing = False\<rparr>)]
     \<and> lv_refs s = [(0, 2)]"
  by (simp add: run_logs)

text \<open>
  After the second pane's tab has been made the active one, switching the split off closes the
  stream of the active tab, and nothing opens it again.
\<close>

lemma split_off_closes_active:
  "\<exists>s. run_events (log_step ansi 2) (viewer_init 2 2)
         [ToggleSplit True, SelectTab 1, ToggleSplit False] = Some s
     \<and> lv_active s = 1 \<and> lv_refs s = [] \<and> (\<forall>k \<in> snd ` set (lv_sockets s). lk_closing k)"
  by (simp add: run_logs toggleSplit_def)


section \<open>Searching\<close>

definition getFilteredLines :: "string \<Rightarrow> log_line list \<Rightarrow> log_line list" where
  "getFilteredLines search ls =
     (if js_trim search = [] then ls else filter (\<lambda>l. str_includes (to_lower (fst l)) (to_lower search)) ls)"

definition mark :: "string \<Rightarrow> string" where
  "mark t =
     ''<mark class='' @ [CHR 0x22] @ ''bg-warning-dim text-text-primary'' @ [CHR 0x22] @ ''>'' @ t @ ''</mark>''"

text \<open>Replacing the occurrences of the escaped query, upper and lower case alike, from the left.\<close>

function mark_text :: "string \<Rightarrow> string \<Rightarrow> string" where
  "mark_text q [] = []"
| "mark_text q (c # s) =
     (if q \<noteq> [] \<and> starts_with (to_lower (c # s)) q
      then mark (take (length q) (c # s)) @ mark_text q (drop (length q) (c # s))
      else c # mark_text q s)"
  by pat_completeness auto
termination by (relation "measure (\<lambda>(q, s). length s)") auto

text \<open>The pieces of the HTML: a tag, from \<open><\<close> to the next \<open>></\<close>, or a run of text.\<close>

function highlight :: "string \<Rightarrow> string \<Rightarrow> string" where
  "highlight q [] = []"
| "highlight q (c # s) =
     (if c = CHR ''<'' then
        (if CHR ''>'' \<in> set s
         then c # takeWhile (\<lambda>x. x \<noteq> CHR ''>'') s @ ''>'' @ highlight q (tl (dropWhile (\<lambda>x. x \<noteq> CHR ''>'') s))
         else c # highlight q s)
      else mark_text q (c # takeWhile (\<lambda>x. x \<noteq> CHR ''<'') s) @ highlight q (dropWhile (\<lambda>x. x \<noteq> CHR ''<'') s))"
  by pat_completeness auto
termination
  by (relation "measure (\<lambda>(q, s). length s)")
     (auto simp: less_Suc_eq_le length_dropWhile_le intro: le_trans [OF diff_le_self length_dropWhile_le])

definition renderLogContent :: "string \<Rightarrow> bool \<Rightarrow> log_line list \<Rightarrow> string" where
  "renderLogContent search loading ls =
     (let found = getFilteredLines search ls; q = to_lower (js_trim search)
      in if found = [] then (if loading then ''Loading logs...'' else ''No log output'')
         else if q = [] then js_join [CHR 0x0A] (map snd found)
         else js_join [CHR 0x0A] (map (\<lambda>l. highlight q (snd l)) found))"

text \<open>A piece of the output: text of the HTML, marked or not.\<close>

definition piece :: "bool \<times> string \<Rightarrow> string" where
  "piece p = (if fst p then mark (snd p) else snd p)"

definition marked_ok :: "string \<Rightarrow> bool \<times> string \<Rightarrow> bool" where
  "marked_ok q p \<longleftrightarrow> (fst p \<longrightarrow> to_lower (snd p) = q \<and> CHR ''<'' \<notin> set (snd p))"

lemma plain_piece: "marked_ok q (False, t)" "piece (False, t) = t" "piece (True, t) = mark t"
  by (simp_all add: marked_ok_def piece_def)

lemma mark_text_pieces:
  "CHR ''<'' \<notin> set s \<Longrightarrow>
   \<exists>ps. mark_text q s = concat (map piece ps) \<and> concat (map snd ps) = s \<and> (\<forall>p \<in> set ps. marked_ok q p)"
proof (induction q s rule: mark_text.induct)
  case (1 q)
  then show ?case by (intro exI [of _ "[]"]) simp
next
  case (2 q c s)
  show ?case
  proof (cases "q \<noteq> [] \<and> starts_with (to_lower (c # s)) q")
    case True
    have rest: "CHR ''<'' \<notin> set (drop (length q) (c # s))" using "2.prems" by (meson in_set_dropD)
    obtain ps where ps: "mark_text q (drop (length q) (c # s)) = concat (map piece ps)"
        "concat (map snd ps) = drop (length q) (c # s)" "\<forall>p \<in> set ps. marked_ok q p"
      using "2.IH"(1) [OF True rest] by blast
    have "to_lower (take (length q) (c # s)) = q" using True by (simp only: starts_with_def to_lower_def take_map)
    moreover have "CHR ''<'' \<notin> set (take (length q) (c # s))" using "2.prems" by (meson in_set_takeD)
    ultimately have "marked_ok q (True, take (length q) (c # s))" by (simp add: marked_ok_def)
    then show ?thesis using True ps
      by (intro exI [of _ "(True, take (length q) (c # s)) # ps"]) (simp add: plain_piece del: take_Cons' drop_Cons')
  next
    case False
    obtain ps where "mark_text q s = concat (map piece ps)" "concat (map snd ps) = s" "\<forall>p \<in> set ps. marked_ok q p"
      using "2.IH"(2) [OF False] "2.prems" by auto
    moreover have "mark_text q (c # s) = c # mark_text q s" using False by (simp only: mark_text.simps if_False)
    ultimately show ?thesis by (intro exI [of _ "(False, [c]) # ps"]) (simp add: plain_piece)
  qed
qed

lemma takeWhile_tag: "CHR ''>'' \<in> set s \<Longrightarrow>
  takeWhile (\<lambda>x. x \<noteq> CHR ''>'') s @ ''>'' @ tl (dropWhile (\<lambda>x. x \<noteq> CHR ''>'') s) = s"
  by (induction s) auto

lemma highlight_pieces:
  "\<exists>ps. highlight q s = concat (map piece ps) \<and> concat (map snd ps) = s \<and> (\<forall>p \<in> set ps. marked_ok q p)"
proof (induction q s rule: highlight.induct)
  case (1 q)
  then show ?case by (intro exI [of _ "[]"]) simp
next
  case (2 q c s)
  consider "c = CHR ''<''" "CHR ''>'' \<in> set s" | "c = CHR ''<''" "CHR ''>'' \<notin> set s" | "c \<noteq> CHR ''<''" by blast
  then show ?case
  proof cases
    case 1
    let ?tag = "c # takeWhile (\<lambda>x. x \<noteq> CHR ''>'') s @ ''>''"
    obtain ps where "highlight q (tl (dropWhile (\<lambda>x. x \<noteq> CHR ''>'') s)) = concat (map piece ps)"
        "concat (map snd ps) = tl (dropWhile (\<lambda>x. x \<noteq> CHR ''>'') s)" "\<forall>p \<in> set ps. marked_ok q p"
      using "2.IH"(1) [OF 1] by blast
    then show ?thesis using 1 takeWhile_tag [OF 1(2)]
      by (intro exI [of _ "(False, ?tag) # ps"]) (simp add: plain_piece)
  next
    case 2
    obtain ps where "highlight q s = concat (map piece ps)" "concat (map snd ps) = s" "\<forall>p \<in> set ps. marked_ok q p"
      using "2.IH"(2) [OF 2] by blast
    then show ?thesis using 2 by (intro exI [of _ "(False, [c]) # ps"]) (simp add: plain_piece)
  next
    case 3
    let ?run = "c # takeWhile (\<lambda>x. x \<noteq> CHR ''<'') s"
    have "CHR ''<'' \<notin> set ?run" using 3 by (auto dest: set_takeWhileD)
    then obtain ps where ps: "mark_text q ?run = concat (map piece ps)" "concat (map snd ps) = ?run" "\<forall>p \<in> set ps. marked_ok q p"
      using mark_text_pieces by blast
    obtain qs where qs: "highlight q (dropWhile (\<lambda>x. x \<noteq> CHR ''<'') s) = concat (map piece qs)"
        "concat (map snd qs) = dropWhile (\<lambda>x. x \<noteq> CHR ''<'') s" "\<forall>p \<in> set qs. marked_ok q p"
      using "2.IH"(3) [OF 3] by blast
    have "highlight q (c # s) = mark_text q ?run @ highlight q (dropWhile (\<lambda>x. x \<noteq> CHR ''<'') s)" using 3 by simp
    then show ?thesis using ps qs by (intro exI [of _ "ps @ qs"]) (auto simp del: mark_text.simps)
  qed
qed



text \<open>An occurrence inside an entity is marked too, which breaks the entity on the screen.\<close>

lemma entity_broken:
  "escapeHtml ''R&D map'' = ''R&amp;D map'' \<and> highlight ''a'' ''&amp;'' = ''&'' @ mark ''a'' @ ''mp;''"
  by (simp add: escapeHtml_def replace_char_with_def starts_with_def to_lower_def lower_char_def char_code_def)

end
