(* ===== verification/Deep_Tree.thy ===== *)
theory Deep_Tree
  imports Deep_Set
begin

text \<open>
  \<open>safeDeepSet\<close> of \<open>lib/schema-to-yaml.ts\<close> on trees: what the store of \<open>Deep_Set\<close> looks like to a form
  whose objects each have one parent. The theorem is the refinement: when the store holds a tree,
  the code's walk through references gives the tree that \<open>deep_set\<close> gives.
\<close>

section \<open>Setting a value in a tree\<close>

definition array_index :: "string \<Rightarrow> nat option" where
  "array_index k =
     (let i = nat_of_digits 0 k in if all_digits k \<and> string_of_nat i = k then Some i else None)"

definition get_member :: "js \<Rightarrow> string \<Rightarrow> js" where
  "get_member x k =
     (case x of
        JObj r \<Rightarrow> (case rec_get r k of None \<Rightarrow> JUndef | Some v \<Rightarrow> v)
      | JArr vs \<Rightarrow> (case array_index k of None \<Rightarrow> JUndef | Some i \<Rightarrow> if i < length vs then vs ! i else JUndef)
      | _ \<Rightarrow> JUndef)"

text \<open>
  Assigning a member, or deleting it for \<open>undefined\<close>. A hole of an array is \<open>JUndef\<close>; a named
  property of an array has no model.
\<close>

definition put_entry :: "(string \<times> js) list \<Rightarrow> string \<Rightarrow> js \<Rightarrow> (string \<times> js) list" where
  "put_entry r k v = (if v = JUndef then rec_del r k else rec_set r k v)"

definition set_member :: "js \<Rightarrow> string \<Rightarrow> js \<Rightarrow> js option" where
  "set_member x k v =
     (case x of
        JObj r \<Rightarrow> Some (JObj (put_entry r k v))
      | JArr vs \<Rightarrow>
          (case array_index k of
             None \<Rightarrow> None
           | Some i \<Rightarrow>
               if i < length vs then Some (JArr (vs[i := v]))
               else if v = JUndef then Some (JArr vs)
               else Some (JArr (vs @ replicate (i - length vs) JUndef @ [v])))
      | _ \<Rightarrow> None)"

definition is_container :: "js \<Rightarrow> bool" where
  "is_container x \<longleftrightarrow> (case x of JArr _ \<Rightarrow> True | JObj _ \<Rightarrow> True | _ \<Rightarrow> False)"

text \<open>\<open>safeDeepSet\<close> of \<open>lib/schema-to-yaml.ts\<close> on the tree.\<close>

fun deep_set :: "js \<Rightarrow> string list \<Rightarrow> js \<Rightarrow> js option" where
  "deep_set x [] v = Some x"
| "deep_set x [k] v = (if dangerous k then Some x else set_member x k v)"
| "deep_set x (k # k' # ks) v =
     (if dangerous k then Some x
      else (let c = get_member x k;
                child = (if is_container c then c else if all_digits k' then JArr [] else JObj [])
            in case deep_set child (k' # ks) v of None \<Rightarrow> None | Some c' \<Rightarrow> set_member x k c'))"

definition safe_deep_set :: "js \<Rightarrow> string \<Rightarrow> js \<Rightarrow> js option" where
  "safe_deep_set x path v = deep_set x (js_split CHR ''.'' path) v"



section \<open>A store that holds a tree\<close>

text \<open>
  \<open>holds s v x F\<close>: the value \<open>v\<close> is the tree \<open>x\<close>, on the objects at the addresses \<open>F\<close>, which no two
  parts of the tree share. An array's members are its indices in order.
\<close>

inductive holds :: "store \<Rightarrow> val \<Rightarrow> js \<Rightarrow> nat set \<Rightarrow> bool"
  and members_hold :: "store \<Rightarrow> (string \<times> val) list \<Rightarrow> (string \<times> js) list \<Rightarrow> nat set \<Rightarrow> bool" for s where
  undef: "holds s VUndef JUndef {}"
| null: "holds s VNull JNull {}"
| bool: "holds s (VBool b) (JBool b) {}"
| num: "holds s (VNum n) (JNum n) {}"
| str: "holds s (VStr t) (JStr t) {}"
| obj: "heap s a = Some \<lparr>is_array = False, members = ms\<rparr> \<Longrightarrow> members_hold s ms r F \<Longrightarrow> a \<notin> F \<Longrightarrow>
    holds s (VRef a) (JObj r) (insert a F)"
| arr: "heap s a = Some \<lparr>is_array = True, members = ms\<rparr> \<Longrightarrow> members_hold s ms r F \<Longrightarrow> a \<notin> F \<Longrightarrow>
    map fst r = map string_of_nat [0..<length r] \<Longrightarrow> holds s (VRef a) (JArr (map snd r)) (insert a F)"
| none: "members_hold s [] [] {}"
| more: "holds s v x F \<Longrightarrow> members_hold s ms r G \<Longrightarrow> F \<inter> G = {} \<Longrightarrow> members_hold s ((k, v) # ms) ((k, x) # r) (F \<union> G)"

inductive_cases holds_objE: "holds s (VRef a) (JObj r) F"
inductive_cases holds_refE: "holds s (VRef a) x F"
inductive_cases holds_undefE: "holds s v JUndef F"
inductive_cases holds_VUndefE: "holds s VUndef x F"
inductive_cases members_nilE: "members_hold s [] r F"
inductive_cases members_consE: "members_hold s ((k, v) # ms) r F"

lemma holds_frame:
  "holds s v x F \<Longrightarrow> (\<forall>b \<in> F. heap s' b = heap s b) \<longrightarrow> holds s' v x F"
  "members_hold s ms r F \<Longrightarrow> (\<forall>b \<in> F. heap s' b = heap s b) \<longrightarrow> members_hold s' ms r F"
  by (induction rule: holds_members_hold.inducts) (auto intro: holds_members_hold.intros)

lemma holds_allocated:
  "holds s v x F \<Longrightarrow> \<forall>b \<in> F. heap s b \<noteq> None"
  "members_hold s ms r F \<Longrightarrow> \<forall>b \<in> F. heap s b \<noteq> None"
  by (induction rule: holds_members_hold.inducts) auto

lemma holds_Undef_iff: "holds s v x F \<Longrightarrow> v = VUndef \<longleftrightarrow> x = JUndef"
  by (auto elim: holds_undefE holds_VUndefE)

lemma holds_primitive: "holds s v x F \<Longrightarrow> \<forall>c. v \<noteq> VRef c \<Longrightarrow> F = {} \<and> \<not> is_container x"
  by (erule holds.cases) (auto simp: is_container_def)

lemma members_get:
  "members_hold s ms r F \<Longrightarrow> rec_get ms k = None \<Longrightarrow> rec_get r k = None"
  by (induction ms arbitrary: r F) (auto elim!: members_nilE members_consE split: if_splits)

text \<open>Replacing a member by another tree, in a store that agrees on the rest.\<close>

lemma members_set:
  assumes "members_hold s ms r F" "rec_get ms k = Some v"
  shows "\<exists>x F1. rec_get r k = Some x \<and> holds s v x F1 \<and> F1 \<subseteq> F
    \<and> (\<forall>s' v' x' G. holds s' v' x' G \<longrightarrow> G \<inter> (F - F1) = {} \<longrightarrow> (\<forall>b \<in> F - F1. heap s' b = heap s b) \<longrightarrow>
         members_hold s' (rec_set ms k v') (rec_set r k x') (G \<union> (F - F1)))"
  using assms
proof (induction ms arbitrary: r F)
  case (Cons p ms)
  obtain k0 v0 where p: "p = (k0, v0)" by (cases p)
  obtain x0 r0 F0 G0 where r: "r = (k0, x0) # r0" "F = F0 \<union> G0" "holds s v0 x0 F0" "members_hold s ms r0 G0" "F0 \<inter> G0 = {}"
    using Cons.prems(1) unfolding p by (auto elim: members_consE)
  show ?case
  proof (cases "k0 = k")
    case True
    have d: "F - F0 = G0" using r(2,5) by auto
    have "members_hold s' (rec_set (p # ms) k v') (rec_set r k x') (G \<union> G0)"
      if "holds s' v' x' G" "G \<inter> G0 = {}" "\<forall>b \<in> G0. heap s' b = heap s b" for s' v' x' G
      using that more [OF that(1) _ that(2)] holds_frame(2) [OF r(4)] True unfolding p r(1) by simp
    moreover have "v0 = v" using Cons.prems(2) True p by simp
    ultimately show ?thesis using True r(1-3) p d by (intro exI [of _ x0] exI [of _ F0]) auto
  next
    case False
    then have "rec_get ms k = Some v" using Cons.prems(2) p by simp
    from Cons.IH [OF r(4) this] obtain x F1 where ih: "rec_get r0 k = Some x" "holds s v x F1" "F1 \<subseteq> G0"
        "\<forall>s' v' x' G. holds s' v' x' G \<longrightarrow> G \<inter> (G0 - F1) = {} \<longrightarrow> (\<forall>b \<in> G0 - F1. heap s' b = heap s b) \<longrightarrow>
           members_hold s' (rec_set ms k v') (rec_set r0 k x') (G \<union> (G0 - F1))"
      by blast
    have d: "F - F1 = F0 \<union> (G0 - F1)" using r(2,5) ih(3) by auto
    have "members_hold s' (rec_set (p # ms) k v') (rec_set r k x') (G \<union> (F - F1))"
      if a: "holds s' v' x' G" "G \<inter> (F - F1) = {}" "\<forall>b \<in> F - F1. heap s' b = heap s b" for s' v' x' G
    proof -
      have "G \<inter> (G0 - F1) = {}" "\<forall>b \<in> G0 - F1. heap s' b = heap s b" using a(2,3) d by auto
      then have "members_hold s' (rec_set ms k v') (rec_set r0 k x') (G \<union> (G0 - F1))" using ih(4) a(1) by blast
      moreover have "holds s' v0 x0 F0" using holds_frame(1) [OF r(3)] a(3) d by auto
      moreover have "F0 \<inter> (G \<union> (G0 - F1)) = {}" using a(2) d r(5) by auto
      ultimately have "members_hold s' ((k0, v0) # rec_set ms k v') ((k0, x0) # rec_set r0 k x') (F0 \<union> (G \<union> (G0 - F1)))"
        by (metis more)
      moreover have "F0 \<union> (G \<union> (G0 - F1)) = G \<union> (F - F1)" using d by auto
      ultimately show ?thesis using False p r(1) by simp
    qed
    then show ?thesis using False ih(1-3) r(1,2) by (intro exI [of _ x] exI [of _ F1]) auto
  qed
qed simp

lemma members_add:
  assumes "members_hold s ms r F" "rec_get ms k = None" "holds s' v' x' G" "G \<inter> F = {}" "\<forall>b \<in> F. heap s' b = heap s b"
  shows "members_hold s' (rec_set ms k v') (rec_set r k x') (G \<union> F)"
  using assms(1,2,4,5)
proof (induction ms arbitrary: r F)
  case Nil
  then have "r = []" "F = {}" by (auto elim: members_nilE)
  then show ?case using more [OF assms(3) none, of k] by simp
next
  case (Cons p ms)
  obtain k0 v0 where p: "p = (k0, v0)" by (cases p)
  obtain x0 r0 F0 G0 where r: "r = (k0, x0) # r0" "F = F0 \<union> G0" "holds s v0 x0 F0" "members_hold s ms r0 G0" "F0 \<inter> G0 = {}"
    using Cons.prems(1) unfolding p by (auto elim: members_consE)
  have k: "k0 \<noteq> k" "rec_get ms k = None" using Cons.prems(2) p by (auto split: if_splits)
  have m: "members_hold s' (rec_set ms k v') (rec_set r0 k x') (G \<union> G0)" using Cons.IH [OF r(4) k(2)] Cons.prems(3,4) r(2) by auto
  have h: "holds s' v0 x0 F0" using holds_frame(1) [OF r(3)] Cons.prems(4) r(2) by auto
  have "members_hold s' ((k0, v0) # rec_set ms k v') ((k0, x0) # rec_set r0 k x') (F0 \<union> (G \<union> G0))"
    by (rule more [OF h m]) (use Cons.prems(3) r in auto)
  moreover have "F0 \<union> (G \<union> G0) = G \<union> F" using r(2) by auto
  ultimately show ?case using k(1) p r(1) by simp
qed

lemma members_del:
  assumes "members_hold s ms r F"
  shows "\<exists>H \<subseteq> F. members_hold s (rec_del ms k) (rec_del r k) H"
  using assms
proof (induction ms arbitrary: r F)
  case Nil
  then show ?case using none by (auto elim!: members_nilE simp: rec_del_def)
next
  case (Cons p ms)
  obtain k0 v0 where p: "p = (k0, v0)" by (cases p)
  obtain x0 r0 F0 G0 where r: "r = (k0, x0) # r0" "F = F0 \<union> G0" "holds s v0 x0 F0" "members_hold s ms r0 G0" "F0 \<inter> G0 = {}"
    using Cons.prems(1) unfolding p by (auto elim: members_consE)
  obtain H where H: "H \<subseteq> G0" "members_hold s (rec_del ms k) (rec_del r0 k) H" using Cons.IH [OF r(4)] by blast
  show ?case
  proof (cases "k0 = k")
    case True
    then show ?thesis using H r(1,2) p by (auto simp: rec_del_Cons)
  next
    case False
    have "members_hold s ((k0, v0) # rec_del ms k) ((k0, x0) # rec_del r0 k) (F0 \<union> H)"
      by (rule more [OF r(3) H(2)]) (use H(1) r(5) in auto)
    then show ?thesis using False H(1) r(1,2) p by (intro exI [of _ "F0 \<union> H"]) (auto simp: rec_del_Cons)
  qed
qed


section \<open>The walk on a tree\<close>

text \<open>A segment that names a property and no index.\<close>

definition walkable :: "string \<Rightarrow> bool" where
  "walkable k \<longleftrightarrow> \<not> dangerous k \<and> \<not> all_digits k"

text \<open>
  What the walk leaves: the tree, on addresses of the two trees it was made of and fresh ones, and
  everything else as it was.
\<close>

definition grown :: "store \<Rightarrow> nat set \<Rightarrow> nat set \<Rightarrow> val \<Rightarrow> js \<Rightarrow> store \<Rightarrow> bool" where
  "grown s F G v y s' \<longleftrightarrow>
     (\<exists>H. holds s' v y H \<and> H \<subseteq> F \<union> G \<union> {b. heap s b = None})
     \<and> (\<forall>b. heap s b \<noteq> None \<and> b \<notin> F \<longrightarrow> heap s' b = heap s b)"

lemma array_walk: "list_all walkable ks \<Longrightarrow> ks \<noteq> [] \<Longrightarrow> deep_set (JArr vs) ks x = None"
  by (cases "(JArr vs, ks, x)" rule: deep_set.cases)
     (auto simp: walkable_def set_member_def array_index_def Let_def split: option.splits)

lemma holds_array_walk:
  assumes "holds s (VRef a) x F" "deep_set x (k # ks) v = Some y" "list_all walkable (k # ks)"
  shows "\<exists>r. x = JObj r"
  using assms array_walk [of "k # ks"] by (auto elim: holds_refE)

lemma obj_in: "heap s a = Some \<lparr>is_array = False, members = ms\<rparr> \<Longrightarrow> member s a k = rec_get ms k \<and> \<not> array_length s a k"
  by (simp add: member_def array_length_def)

lemma last_holds:
  assumes "holds s (VRef a) (JObj r) F" "holds s v x G" "F \<inter> G = {}" "walkable k"
  shows "\<exists>s'. descend a [k] v s = Some s' \<and> grown s F G (VRef a) (JObj (put_entry r k x)) s'"
proof -
  obtain ms F0 where h: "heap s a = Some \<lparr>is_array = False, members = ms\<rparr>" "members_hold s ms r F0" "a \<notin> F0" "F = insert a F0"
    using assms(1) by (auto elim: holds_objE)
  have st: "descend a [k] v s = Some (if v = VUndef then remove a k s else put a k v s)"
    using assms(4) obj_in [OF h(1)] by (simp add: set_last_def walkable_def)
  show ?thesis
  proof (cases "v = VUndef")
    case True
    let ?s = "remove a k s"
    have x: "x = JUndef" using holds_Undef_iff [OF assms(2)] True by simp
    obtain H where H: "H \<subseteq> F0" "members_hold s (rec_del ms k) (rec_del r k) H" using members_del [OF h(2)] by blast
    have "\<forall>b \<in> H. heap ?s b = heap s b" using H(1) h(3) heap_remove_other by (metis subsetD)
    then have "members_hold ?s (rec_del ms k) (rec_del r k) H" using holds_frame(2) [OF H(2)] by blast
    moreover have "heap ?s a = Some \<lparr>is_array = False, members = rec_del ms k\<rparr>" using h(1) by (simp add: remove_def)
    ultimately have "holds ?s (VRef a) (JObj (rec_del r k)) (insert a H)" using obj H(1) h(3) by blast
    then show ?thesis using st True x H(1) h(4)
      by (auto simp: grown_def put_entry_def heap_remove_other intro!: exI [of _ "insert a H"])
  next
    case False
    let ?s = "put a k v s"
    have x: "x \<noteq> JUndef" using holds_Undef_iff [OF assms(2)] False by simp
    have "\<forall>b \<in> G. heap ?s b = heap s b" using assms(3) h(4) heap_put_other by (metis disjoint_iff insertI1)
    then have g: "holds ?s v x G" using holds_frame(1) [OF assms(2)] by blast
    have fr: "\<forall>b \<in> F0. heap ?s b = heap s b" using h(3) heap_put_other by metis
    obtain H where H: "members_hold ?s (rec_set ms k v) (rec_set r k x) (G \<union> H)" "H \<subseteq> F0"
    proof (cases "rec_get ms k")
      case None
      then show ?thesis using that members_add [OF h(2) None g] fr assms(3) h(4) by blast
    next
      case (Some u)
      then show ?thesis using that members_set [OF h(2) Some] g fr assms(3) h(4)
        by (metis Diff_subset Int_Diff Int_commute Int_insert_left inf_bot_left inf_commute insert_disjoint(1) Diff_iff empty_Diff)
    qed
    have "heap ?s a = Some \<lparr>is_array = False, members = rec_set ms k v\<rparr>" using h(1) by (simp add: put_def)
    moreover have "a \<notin> G \<union> H" using assms(3) h(3,4) H(2) by auto
    ultimately have "holds ?s (VRef a) (JObj (rec_set r k x)) (insert a (G \<union> H))" using obj H(1) by blast
    then show ?thesis using st False x H(2) h(4)
      by (auto simp: grown_def put_entry_def heap_put_other intro!: exI [of _ "insert a (G \<union> H)"])
  qed
qed


lemma rec_set_same: "rec_get r k = Some v \<Longrightarrow> rec_set r k v = r"
  by (induction r k v rule: rec_set.induct) (auto split: if_splits)

text \<open>One step: the tree with the child's new tree in its place.\<close>

lemma step_holds:
  assumes h: "heap s a = Some \<lparr>is_array = False, members = ms\<rparr>" "members_hold s ms r F0" "a \<notin> F0"
    and m: "members_hold s' ms' (rec_set r k y') (H' \<union> K)" "heap s' a = Some \<lparr>is_array = False, members = ms'\<rparr>"
    and "H' \<subseteq> C \<union> G \<union> {b. heap s b = None}" "C \<subseteq> F0" "K \<subseteq> F0" "insert a F0 \<inter> G = {}" "y' \<noteq> JUndef"
    and "\<forall>b. heap s b \<noteq> None \<and> b \<noteq> a \<and> b \<notin> C \<longrightarrow> heap s' b = heap s b"
  shows "grown s (insert a F0) G (VRef a) (JObj (put_entry r k y')) s'"
proof -
  have "a \<notin> H' \<union> K" using assms(3,6-9) h(1) by auto
  then have "holds s' (VRef a) (JObj (rec_set r k y')) (insert a (H' \<union> K))" using obj m by blast
  moreover have "insert a (H' \<union> K) \<subseteq> insert a F0 \<union> G \<union> {b. heap s b = None}" using assms(6-8) by blast
  moreover have "\<forall>b. heap s b \<noteq> None \<and> b \<notin> insert a F0 \<longrightarrow> heap s' b = heap s b" using assms(7,11) by blast
  ultimately show ?thesis unfolding grown_def put_entry_def using assms(10) by auto
qed

lemma deep_set_object: "deep_set (JObj r) ks x = Some y \<Longrightarrow> \<exists>r'. y = JObj r'"
  by (cases "(JObj r, ks, x)" rule: deep_set.cases)
     (auto simp: set_member_def Let_def split: if_splits option.splits)

lemma descend_holds:
  assumes "store_wf s" "holds s (VRef a) (JObj r) F" "holds s v x G" "F \<inter> G = {}" "list_all walkable ks" "ks \<noteq> []"
    "deep_set (JObj r) ks x = Some y"
  shows "\<exists>s'. descend a ks v s = Some s' \<and> grown s F G (VRef a) y s'"
  using assms
proof (induction ks arbitrary: a s r F y rule: induct_list012)
  case (2 k)
  then show ?case using last_holds [of s a r F v x G k] by (simp add: walkable_def set_member_def)
next
  case (3 k k' ks)
  obtain ms F0 where h: "heap s a = Some \<lparr>is_array = False, members = ms\<rparr>" "members_hold s ms r F0" "a \<notin> F0" "F = insert a F0"
    using 3(4) by (auto elim: holds_objE)
  have w: "walkable k" "walkable k'" "list_all walkable (k' # ks)" using 3(7) by simp_all
  have k: "\<not> dangerous k" "\<not> all_digits k'" "list_all walkable (k' # ks)" using w unfolding walkable_def by blast+
  have na: "\<not> array_length s a k" "member s a k = rec_get ms k" using obj_in [OF h(1)] by simp_all
  let ?c = "get_member (JObj r) k"
  have e: "deep_set (JObj r) (k # k' # ks) x =
      (case deep_set (if is_container ?c then ?c else JObj []) (k' # ks) x of
         None \<Rightarrow> None | Some c' \<Rightarrow> Some (JObj (put_entry r k c')))"
    by (simp only: deep_set.simps(3) k Let_def if_False) (simp add: set_member_def split: option.split)
  obtain y' where y': "deep_set (if is_container ?c then ?c else JObj []) (k' # ks) x = Some y'"
      "y = JObj (put_entry r k y')"
    using 3(9) unfolding e by (auto split: option.splits)
  show ?case
  proof (cases "\<exists>c. rec_get ms k = Some (VRef c)")
    case True
    then obtain c where c: "rec_get ms k = Some (VRef c)" by blast
    obtain xc F1 where f: "rec_get r k = Some xc" "holds s (VRef c) xc F1" "F1 \<subseteq> F0"
      and up: "\<forall>s' v' x' G. holds s' v' x' G \<longrightarrow> G \<inter> (F0 - F1) = {} \<longrightarrow> (\<forall>b \<in> F0 - F1. heap s' b = heap s b) \<longrightarrow>
         members_hold s' (rec_set ms k v') (rec_set r k x') (G \<union> (F0 - F1))"
      using members_set [OF h(2) c] by blast
    have "is_container xc" using f(2) by (auto elim: holds_refE simp: is_container_def)
    then have yc: "deep_set xc (k' # ks) x = Some y'" using y'(1) f(1) by (simp add: get_member_def)
    obtain rc where rc: "xc = JObj rc" using holds_array_walk [OF f(2) yc k(3)] by blast
    have dis: "F1 \<inter> G = {}" using 3(6) f(3) h(4) by auto
    obtain s' where s': "descend c (k' # ks) v s = Some s'" "grown s F1 G (VRef c) y' s'"
      using 3(2) [OF 3(3) f(2) [unfolded rc] 3(5) dis k(3) _ yc [unfolded rc]] by auto
    then obtain H where H: "holds s' (VRef c) y' H" "H \<subseteq> F1 \<union> G \<union> {b. heap s b = None}"
        "\<forall>b. heap s b \<noteq> None \<and> b \<notin> F1 \<longrightarrow> heap s' b = heap s b" unfolding grown_def by blast
    have al: "\<forall>b \<in> F0. heap s b \<noteq> None" by (rule holds_allocated(2) [OF h(2)])
    have "members_hold s' (rec_set ms k (VRef c)) (rec_set r k y') (H \<union> (F0 - F1))"
    proof (rule up [rule_format, OF H(1)])
      show "H \<inter> (F0 - F1) = {}" using H(2) al 3(6) h(4) by blast
    qed (use H(3) al in blast)
    moreover have "rec_set ms k (VRef c) = ms" using c by (rule rec_set_same)
    ultimately have m: "members_hold s' ms (rec_set r k y') (H \<union> (F0 - F1))" by simp
    have "heap s' a = Some \<lparr>is_array = False, members = ms\<rparr>" using H(3) h(1,3) f(3) by auto
    from step_holds [OF h(1-3) m this H(2) f(3)] have "grown s F G (VRef a) y s'"
      using 3(6) h(4) y'(2) H(3) holds_Undef_iff [OF H(1)] by auto
    then show ?thesis using s'(1) descend_follow [OF k(1) na(1)] c na(2) by auto
  next
    case False
    let ?ob = "\<lparr>is_array = False, members = []\<rparr>"
    let ?s = "grow a k ?ob s" and ?n = "next_addr s"
    have a: "heap s a \<noteq> None" using h(1) by simp
    have st: "\<forall>c. member s a k \<noteq> Some (VRef c)" using False na(2) by simp
    note g = grow_facts [OF 3(3) a, where ob = ?ob and k = k, simplified]
    have nn: "heap s ?n = None" by (rule wf_fresh [OF 3(3)])
    have al: "\<forall>b \<in> F0. heap s b \<noteq> None" "\<forall>b \<in> G. heap s b \<noteq> None"
      using holds_allocated(2) [OF h(2)] holds_allocated(1) [OF 3(5)] by blast+
    have same: "heap ?s b = heap s b" if "heap s b \<noteq> None" "b \<noteq> a" for b using g(4) [of b] that nn by metis
    have an: "?n \<noteq> a" using nn a by auto
    have "heap ?s ?n = Some ?ob" by (simp add: grow_def heap_put_other [OF an] alloc_def)
    then have hn: "holds ?s (VRef ?n) (JObj []) {?n}" using obj [OF _ none] by blast
    have hv: "holds ?s v x G" using holds_frame(1) [OF 3(5), of ?s] same al(2) 3(6) h(4) by blast
    have "\<not> is_container (get_member (JObj r) k)"
    proof (cases "rec_get ms k")
      case None
      then show ?thesis using members_get [OF h(2)] by (simp add: get_member_def is_container_def)
    next
      case (Some u)
      then show ?thesis using members_set [OF h(2) Some] False holds_primitive by (fastforce simp: get_member_def)
    qed
    then have yn: "deep_set (JObj []) (k' # ks) x = Some y'" using y'(1) by simp
    have nG: "{?n} \<inter> G = {}" using al(2) nn by blast
    obtain s' where s': "descend ?n (k' # ks) v ?s = Some s'" "grown ?s {?n} G (VRef ?n) y' s'"
      using 3(2) [OF g(5) hn hv nG k(3) _ yn] by blast
    then obtain H where H: "holds s' (VRef ?n) y' H" "H \<subseteq> {?n} \<union> G \<union> {b. heap ?s b = None}"
        "\<forall>b. heap ?s b \<noteq> None \<and> b \<noteq> ?n \<longrightarrow> heap s' b = heap ?s b" unfolding grown_def by blast
    have Hs: "H \<subseteq> {} \<union> G \<union> {b. heap s b = None}" using H(2) g(2) nn by auto
    have keep: "\<forall>b \<in> F0. heap s' b = heap s b" using H(3) same al(1) h(3) nn g(2) by metis
    have dis: "H \<inter> F0 = {}" using Hs al(1) 3(6) h(4) by blast
    have m: "members_hold s' (rec_set ms k (VRef ?n)) (rec_set r k y') (H \<union> F0)"
    proof (cases "rec_get ms k")
      case None
      then show ?thesis using members_add [OF h(2) None H(1) dis keep] by blast
    next
      case (Some u)
      obtain xu F1 where u: "holds s u xu F1" "\<forall>s' v' x' G. holds s' v' x' G \<longrightarrow> G \<inter> (F0 - F1) = {} \<longrightarrow>
          (\<forall>b \<in> F0 - F1. heap s' b = heap s b) \<longrightarrow> members_hold s' (rec_set ms k v') (rec_set r k x') (G \<union> (F0 - F1))"
        using members_set [OF h(2) Some] by blast
      have "F1 = {}" using holds_primitive [OF u(1)] False Some by blast
      then show ?thesis using u(2) H(1) dis keep by (metis Diff_empty)
    qed
    have "heap ?s a = Some \<lparr>is_array = False, members = rec_set ms k (VRef ?n)\<rparr>"
      using h(1) nn a by (auto simp: grow_def put_def alloc_def)
    then have ha: "heap s' a = Some \<lparr>is_array = False, members = rec_set ms k (VRef ?n)\<rparr>" using H(3) a nn by auto
    have rest: "\<forall>b. heap s b \<noteq> None \<and> b \<noteq> a \<and> b \<notin> {} \<longrightarrow> heap s' b = heap s b" using H(3) same g(2) nn by metis
    have "grown s F G (VRef a) y s'"
      unfolding h(4) y'(2)
      by (rule step_holds [OF h(1-3) m ha Hs _ _ _ _ rest]) (use 3(6) h(4) holds_Undef_iff [OF H(1)] in auto)
    then show ?thesis using s'(1) descend_grow [OF k(1) na(1) st, of k' ks v] k(2) by auto
  qed
qed simp

text \<open>C26: \<open>safeDeepSet\<close> refines the update of a tree: when the form's object and the value are trees that share
  nothing, and the path names properties (no index, no member of \<open>Object.prototype\<close>), the code's
  walk through references succeeds wherever the update of the tree does, and the object it returns
  is the updated tree; objects outside the form's tree are as they were.\<close>

theorem deep_set_refines:
  assumes "store_wf s" "holds s (VRef ob) (JObj r) F" "holds s v x G" "F \<inter> G = {}"
    "list_all walkable (js_split CHR ''.'' path)" "safe_deep_set (JObj r) path x = Some y"
  shows "\<exists>s' a H. safeDeepSet ob path v s = Some (s', a) \<and> holds s' (VRef a) y H
    \<and> (\<forall>b. heap s b = None \<or> b \<in> F \<or> heap s' b = heap s b)"
proof -
  let ?n = "next_addr s" and ?s = "copied ob s"
  obtain ms F0 where h: "heap s ob = Some \<lparr>is_array = False, members = ms\<rparr>" "members_hold s ms r F0" "ob \<notin> F0" "F = insert ob F0"
    using assms(2) by (auto elim: holds_objE)
  have o: "heap s ob \<noteq> None" using h(1) by simp
  note c = copied_facts [OF assms(1) o]
  have nn: "heap s ?n = None" by (rule wf_fresh [OF assms(1)])
  have al: "\<forall>b \<in> F0. heap s b \<noteq> None" "\<forall>b \<in> G. heap s b \<noteq> None"
    using holds_allocated(2) [OF h(2)] holds_allocated(1) [OF assms(3)] by blast+
  have same: "heap ?s b = heap s b" if "heap s b \<noteq> None" for b using c(4) [of b] that nn by metis
  have "members_hold ?s ms r F0" using holds_frame(2) [OF h(2), of ?s] same al(1) by blast
  moreover have "heap ?s ?n = Some \<lparr>is_array = False, members = ms\<rparr>" using h(1) by (simp add: copied_def alloc_def)
  ultimately have hn: "holds ?s (VRef ?n) (JObj r) (insert ?n F0)" using obj al(1) nn by blast
  have hv: "holds ?s v x G" using holds_frame(1) [OF assms(3), of ?s] same al(2) by blast
  have dis: "insert ?n F0 \<inter> G = {}" using assms(4) h(4) al(2) nn by auto
  obtain s' where s': "descend ?n (js_split CHR ''.'' path) v ?s = Some s'" "grown ?s (insert ?n F0) G (VRef ?n) y s'"
    using descend_holds [OF c(5) hn hv dis assms(5) js_split_ne] assms(6) unfolding safe_deep_set_def by blast
  then have fr: "\<exists>H. holds s' (VRef ?n) y H" "\<forall>b. heap ?s b \<noteq> None \<and> b \<notin> insert ?n F0 \<longrightarrow> heap s' b = heap ?s b"
    unfolding grown_def by blast+
  have "heap s b = None \<or> b \<in> F \<or> heap s' b = heap s b" for b
    using fr(2) same [of b] c(2) [of b] h(4) nn by auto
  then show ?thesis using s'(1) fr(1) by (auto simp: safeDeepSet_descend)
qed


lemma form_store_tree:
  "holds form_store (VRef 0) (JObj [(''spec'', JObj [(''replicas'', JNum 3)])]) {0, 1}"
proof -
  have "members_hold form_store [(''replicas'', VNum 3)] [(''replicas'', JNum 3)] ({} \<union> {})"
    by (intro more num none) simp
  then have "holds form_store (VRef 1) (JObj [(''replicas'', JNum 3)]) (insert 1 {})"
    by (intro obj) (simp_all add: form_store_def)
  then have "members_hold form_store [(''spec'', VRef 1)] [(''spec'', JObj [(''replicas'', JNum 3)])] (insert 1 {} \<union> {})"
    by (intro more none) simp_all
  then have "holds form_store (VRef 0) (JObj [(''spec'', JObj [(''replicas'', JNum 3)])]) (insert 0 (insert 1 {} \<union> {}))"
    by (intro obj) (simp_all add: form_store_def)
  then show ?thesis by simp
qed

theorem deep_set_refines_witness:
  "\<exists>s' a H. safeDeepSet 0 ''spec.replicas'' (VNum 5) form_store = Some (s', a)
     \<and> holds s' (VRef a) (JObj [(''spec'', JObj [(''replicas'', JNum 5)])]) H"
proof -
  have "list_all walkable (js_split CHR ''.'' ''spec.replicas'')" by code_simp
  moreover have "safe_deep_set (JObj [(''spec'', JObj [(''replicas'', JNum 3)])]) ''spec.replicas'' (JNum 5)
      = Some (JObj [(''spec'', JObj [(''replicas'', JNum 5)])])" by code_simp
  ultimately show ?thesis
    using deep_set_refines [OF form_store_wf form_store_tree num] by blast
qed

end
