(* ===== verification/Schema_Field.thy ===== *)
theory Schema_Field
  imports Deep_Tree
begin

text \<open>
  \<open>islands/SchemaFormField.tsx\<close>: the form generated from the schema of a custom resource. A field
  chooses its control from the schema, shows its properties or items as fields in turn, and
  reports each change as a dotted path and a value, which the form sets in the spec with
  \<open>safeDeepSet\<close>; an array of objects intercepts the changes of its items. \<open>field_change\<close> is that
  code. \<open>edited\<close> is the reference: the edit carried out on the value itself, by recursion, with no
  paths. The property says that the two agree, and that every value a form can make has the shape
  of its schema.

  Values are the trees \<open>js\<close>: the code writes nested objects in place, but each object it writes
  has one parent, as long as the parser \<open>parse\<close> of the package \<open>yaml\<close>, a parameter, gives trees.
  Numbers are integers: a number with a fraction or an exponent has no model (\<open>None\<close>). Which
  fieldsets are open and which variant is chosen is state of their own and only limits which edits
  are on the screen; the model offers all of them.
\<close>

section \<open>Schemas and controls\<close>

text \<open>
  Descriptions, defaults and the bounds on numbers and lengths are shown, or are attributes of the
  input, and are left out.
\<close>

datatype 'a additional = Flag bool | Of 'a

datatype schema = Schema
  (sc_type: "string option") (sc_format: "string option") (sc_enum: "string list option")
  (sc_required: "string list option") (sc_properties: "(string \<times> schema) list option")
  (sc_items: "schema option") (sc_additional: "schema additional option")
  (sc_one_of: "schema list option") (sc_any_of: "schema list option")
  (sc_preserve: bool) (sc_int_or_string: bool)

definition isPrimitive :: "schema option \<Rightarrow> bool" where
  "isPrimitive s =
     (case s of
        None \<Rightarrow> True
      | Some sc \<Rightarrow> sc_type sc \<in> Some ` {''string'', ''integer'', ''number'', ''boolean''})"

definition fieldId :: "string \<Rightarrow> string" where
  "fieldId path = ''field-'' @ map (\<lambda>c. if c = CHR ''.'' then CHR ''-'' else c) path"

datatype control =
    YamlSubtree | IntOrString | KeyValueEditor | VariantSelector | ObjectFieldset | PrimitiveArray | ObjectArray
  | BooleanSelect | NumberInput | EnumDatalist | EnumSelect | TextInput

text \<open>\<open>SchemaFormField\<close>: the control of a field, in the order of the code's tests.\<close>

definition control_of :: "nat \<Rightarrow> schema \<Rightarrow> control" where
  "control_of depth sc =
     (if depth \<ge> 5 then YamlSubtree
      else if sc_int_or_string sc then IntOrString
      else if sc_preserve sc \<and> sc_properties sc = None then KeyValueEditor
      else if sc_one_of sc \<noteq> None \<or> sc_any_of sc \<noteq> None then VariantSelector
      else if sc_type sc = Some ''object'' \<and> sc_properties sc = None
        \<and> sc_additional sc \<noteq> None \<and> sc_additional sc \<noteq> Some (Flag False) then KeyValueEditor
      else if sc_type sc = Some ''object'' \<and> sc_properties sc \<noteq> None then ObjectFieldset
      else if sc_type sc = Some ''array'' \<and> sc_items sc \<noteq> None
        then (if isPrimitive (sc_items sc) then PrimitiveArray else ObjectArray)
      else if sc_type sc = Some ''boolean'' then BooleanSelect
      else if sc_type sc = Some ''integer'' \<or> sc_type sc = Some ''number'' then NumberInput
      else if sc_type sc = Some ''string'' \<and> sc_enum sc \<noteq> None
        then (if length (the (sc_enum sc)) > 100 then EnumDatalist else EnumSelect)
      else TextInput)"

definition placeholder :: "schema \<Rightarrow> string" where
  "placeholder sc =
     (if sc_format sc = Some ''date-time'' then ''e.g. 2024-01-01T00:00:00Z''
      else if has_text (sc_format sc) then ''format: '' @ the (sc_format sc) else [])"

text \<open>The variants of a selector and their labels.\<close>

definition variants :: "schema \<Rightarrow> schema list" where
  "variants sc = (case sc_one_of sc of Some vs \<Rightarrow> vs | None \<Rightarrow> (case sc_any_of sc of Some vs \<Rightarrow> vs | None \<Rightarrow> []))"

definition variant_label :: "nat \<Rightarrow> schema \<Rightarrow> string" where
  "variant_label i v =
     (let plain = ''Variant '' @ string_of_nat (i + 1)
      in if has_text (sc_type v) then the (sc_type v)
         else (case sc_properties v of
                 None \<Rightarrow> plain
               | Some ps \<Rightarrow> (let keys = js_join '', '' (map fst (take 3 ps)) in if keys = [] then plain else keys)))"


section \<open>Numbers in text\<close>

text \<open>\<open>parseInt(text, 10)\<close>: \<open>None\<close> is \<open>NaN\<close>.\<close>

definition dec_digit :: "char \<Rightarrow> bool" where
  "dec_digit c \<longleftrightarrow> 48 \<le> char_code c \<and> char_code c \<le> 57"

definition parse_nat :: "string \<Rightarrow> int option" where
  "parse_nat s = (let ds = takeWhile dec_digit s in if ds = [] then None else Some (int (nat_of_digits 0 ds)))"

definition parse_int :: "string \<Rightarrow> int option" where
  "parse_int text =
     (case trim_start text of
        [] \<Rightarrow> None
      | c # s \<Rightarrow> if c = CHR ''-'' then map_option uminus (parse_nat s)
                 else if c = CHR ''+'' then parse_nat s else parse_nat (c # s))"

text \<open>The text of an integer that \<open>String(Number(text))\<close> writes back; \<open>safe_integer\<close> are the exact ones.\<close>

definition canonical_int :: "string \<Rightarrow> int option" where
  "canonical_int text =
     (case parse_int text of None \<Rightarrow> None | Some n \<Rightarrow> if string_of_int n = text then Some n else None)"

definition safe_integer :: "int \<Rightarrow> bool" where
  "safe_integer n \<longleftrightarrow> \<bar>n\<bar> < 9007199254740992"

text \<open>Texts that may be numbers other than integers.\<close>

definition maybe_fraction :: "string \<Rightarrow> bool" where
  "maybe_fraction text \<longleftrightarrow>
     text \<in> {''Infinity'', ''-Infinity''}
     \<or> (list_all (\<lambda>c. dec_digit c \<or> c \<in> set ''.e+-'') text \<and> list_ex dec_digit text \<and> list_ex (\<lambda>c. c \<in> set ''.e'') text)"

definition int_or_string :: "string \<Rightarrow> js option" where
  "int_or_string text =
     (case canonical_int text of
        Some n \<Rightarrow> if safe_integer n then Some (JNum n) else None
      | None \<Rightarrow> if maybe_fraction text then None else Some (JStr text))"

text \<open>
  What a number input gives: the empty text, or the text of a number. \<open>parseInt\<close> reads the digits
  it starts with, \<open>parseFloat\<close> all of it.
\<close>

definition number_value :: "bool \<Rightarrow> string \<Rightarrow> js option" where
  "number_value is_int text =
     (case parse_int text of
        None \<Rightarrow> None
      | Some n \<Rightarrow> if safe_integer n \<and> (is_int \<or> \<not> maybe_fraction text) then Some (JNum n) else None)"


section \<open>The changes a field reports\<close>

text \<open>
  What a user does in a field: an edit of its control, or of a field inside it. Rows and items are
  addressed by their place, and \<open>Input\<close> is the text of whatever the control is.
\<close>

datatype edit =
    Input string
  | AddItem | RemoveItem nat | InputItem nat string
  | AddEntry | InputKey nat string | InputValue nat string | RemoveEntry nat
  | PickVariant nat | InVariant nat edit
  | InProperty string edit
  | InItem nat string edit | InputItemYaml nat string

text \<open>Whether an edit calls \<open>onChange\<close>, with a path and a value.\<close>

datatype change = NoChange | Change string js

definition input_value :: "(string \<Rightarrow> js option) \<Rightarrow> nat \<Rightarrow> schema \<Rightarrow> string \<Rightarrow> js option option" where
  "input_value parse depth sc text =
     (let text_or_none = Some (if text = [] then JUndef else JStr text)
      in case control_of depth sc of
           YamlSubtree \<Rightarrow> Some (parse text)
         | IntOrString \<Rightarrow> map_option Some (int_or_string text)
         | BooleanSelect \<Rightarrow>
             if text \<in> {[], ''true'', ''false''}
             then Some (Some (if text = [] then JUndef else JBool (text = ''true''))) else None
         | NumberInput \<Rightarrow>
             if text = [] then Some (Some JUndef)
             else map_option Some (number_value (sc_type sc = Some ''integer'') text)
         | EnumDatalist \<Rightarrow> Some text_or_none
         | EnumSelect \<Rightarrow> if text = [] \<or> text \<in> set (the (sc_enum sc)) then Some text_or_none else None
         | TextInput \<Rightarrow> Some text_or_none
         | _ \<Rightarrow> None)"

text \<open>\<open>value ?? []\<close> and \<open>Object.entries(value ?? {})\<close>; anything else makes rendering throw.\<close>

definition items_of :: "js \<Rightarrow> js list option" where
  "items_of v = (case coalesce v (JArr []) of JArr vs \<Rightarrow> Some vs | _ \<Rightarrow> None)"

definition entries_of :: "js \<Rightarrow> (string \<times> js) list option" where
  "entries_of v = (case coalesce v (JObj []) of JObj r \<Rightarrow> Some r | _ \<Rightarrow> None)"

definition array_or_none :: "js list \<Rightarrow> js" where
  "array_or_none vs = (if vs = [] then JUndef else JArr vs)"

definition without :: "nat \<Rightarrow> 'a list \<Rightarrow> 'a list" where
  "without i xs = take i xs @ drop (i + 1) xs"

text \<open>\<open>PrimitiveArrayField\<close>: an item's text, as a number where the schema asks for one.\<close>

definition item_value :: "schema \<Rightarrow> string \<Rightarrow> js option" where
  "item_value sc text =
     (let t = (case sc_items sc of None \<Rightarrow> None | Some it \<Rightarrow> sc_type it)
      in if t = Some ''integer'' \<or> t = Some ''number''
         then (if text = [] then Some (JStr []) else number_value (t = Some ''integer'') text)
         else Some (JStr text))"

text \<open>
  \<open>KeyValueEditor\<close>: the rows written into a fresh object, where an assignment to \<open>__proto__\<close> is lost.
\<close>

definition rebuild :: "(string \<times> js) list \<Rightarrow> (string \<times> js) list" where
  "rebuild es = fold (\<lambda>(k, v) r. if k = ''__proto__'' then r else rec_set r k v) es []"

definition object_or_none :: "(string \<times> js) list \<Rightarrow> js" where
  "object_or_none r = (if r = [] then JUndef else JObj r)"

fun entry_edit :: "(string \<times> js) list \<Rightarrow> edit \<Rightarrow> js option" where
  "entry_edit r AddEntry = Some (JObj (rec_set r [] (JStr [])))"
| "entry_edit r (InputKey i k) = (if i < length r then Some (JObj (rebuild (r[i := (k, snd (r ! i))]))) else None)"
| "entry_edit r (InputValue i v) = (if i < length r then Some (JObj (rec_set r (fst (r ! i)) (JStr v))) else None)"
| "entry_edit r (RemoveEntry i) = (if i < length r then Some (object_or_none (rec_del r (fst (r ! i)))) else None)"
| "entry_edit r _ = None"

fun primitive_edit :: "schema \<Rightarrow> js list \<Rightarrow> edit \<Rightarrow> js option" where
  "primitive_edit sc vs AddItem = Some (JArr (vs @ [JStr []]))"
| "primitive_edit sc vs (RemoveItem i) = (if i < length vs then Some (array_or_none (without i vs)) else None)"
| "primitive_edit sc vs (InputItem i text) =
     (if i < length vs then map_option (\<lambda>x. JArr (vs[i := x])) (item_value sc text) else None)"
| "primitive_edit sc vs _ = None"

text \<open>\<open>ObjectArrayField\<close>: \<open>updateItem\<close> takes the path of the item off the reported path.\<close>

definition item_path :: "string \<Rightarrow> nat \<Rightarrow> string" where
  "item_path path i = path @ ''.'' @ string_of_nat i"

definition updateItem :: "string \<Rightarrow> js list \<Rightarrow> nat \<Rightarrow> string \<Rightarrow> js \<Rightarrow> change option" where
  "updateItem path vs i field_path v =
     (let prefix = item_path path i @ ''.'';
          rel = (if starts_with field_path prefix then drop (length prefix) field_path else field_path)
      in map_option (\<lambda>it. Change path (JArr (vs[i := it]))) (safe_deep_set (vs ! i) rel v))"

definition item_properties :: "schema \<Rightarrow> (string \<times> schema) list" where
  "item_properties sc =
     (case sc_items sc of None \<Rightarrow> [] | Some it \<Rightarrow> (case sc_properties it of None \<Rightarrow> [] | Some ps \<Rightarrow> ps))"

fun is_object :: "js \<Rightarrow> bool" where
  "is_object (JObj _) = True"
| "is_object _ = False"

text \<open>\<open>SchemaFormField\<close> and its parts: what an edit makes the field report.\<close>

fun field_change :: "(string \<Rightarrow> js option) \<Rightarrow> nat \<Rightarrow> string \<Rightarrow> schema \<Rightarrow> js \<Rightarrow> edit \<Rightarrow> change option" where
  "field_change parse depth path sc v (Input text) =
     map_option (\<lambda>x. case x of None \<Rightarrow> NoChange | Some y \<Rightarrow> Change path y) (input_value parse depth sc text)"
| "field_change parse depth path sc v (InProperty k e) =
     (if control_of depth sc = ObjectFieldset
      then (case rec_get (the (sc_properties sc)) k of
              None \<Rightarrow> None
            | Some ps \<Rightarrow> field_change parse (depth + 1) (path @ ''.'' @ k) ps (js_get v k) e)
      else None)"
| "field_change parse depth path sc v (InItem i k e) =
     (if control_of depth sc = ObjectArray
      then (case items_of v of
              None \<Rightarrow> None
            | Some vs \<Rightarrow>
                if i < length vs \<and> is_object (vs ! i)
                then (case rec_get (item_properties sc) k of
                        None \<Rightarrow> None
                      | Some ps \<Rightarrow>
                          (case field_change parse (depth + 1) (item_path path i @ ''.'' @ k) ps (js_get (vs ! i) k) e of
                             None \<Rightarrow> None
                           | Some NoChange \<Rightarrow> Some NoChange
                           | Some (Change p x) \<Rightarrow> updateItem path vs i p x))
                else None)
      else None)"
| "field_change parse depth path sc v (InputItemYaml i text) =
     (if control_of depth sc = ObjectArray \<and> item_properties sc = []
      then (case items_of v of
              None \<Rightarrow> None
            | Some vs \<Rightarrow>
                if i < length vs \<and> is_object (vs ! i)
                then (case parse text of None \<Rightarrow> Some NoChange | Some x \<Rightarrow> updateItem path vs i (item_path path i) x)
                else None)
      else None)"
| "field_change parse depth path sc v (PickVariant n) =
     (if control_of depth sc = VariantSelector \<and> n < length (variants sc) then Some (Change path JUndef) else None)"
| "field_change parse depth path sc v (InVariant n e) =
     (if control_of depth sc = VariantSelector \<and> n < length (variants sc)
      then field_change parse (depth + 1) path (variants sc ! n) v e else None)"
| "field_change parse depth path sc v e =
     (case control_of depth sc of
        KeyValueEditor \<Rightarrow>
          (case entries_of v of None \<Rightarrow> None | Some r \<Rightarrow> map_option (Change path) (entry_edit r e))
      | PrimitiveArray \<Rightarrow>
          (case items_of v of None \<Rightarrow> None | Some vs \<Rightarrow> map_option (Change path) (primitive_edit sc vs e))
      | ObjectArray \<Rightarrow>
          (case items_of v of
             None \<Rightarrow> None
           | Some vs \<Rightarrow>
               (case e of
                  AddItem \<Rightarrow> Some (Change path (JArr (vs @ [JObj []])))
                | RemoveItem i \<Rightarrow>
                    if i < length vs then Some (Change path (array_or_none (without i vs))) else None
                | _ \<Rightarrow> None))
      | _ \<Rightarrow> None)"

text \<open>\<open>handleSpecChange\<close> of \<open>islands/SchemaForm.tsx\<close>, and an edit of one property of the spec.\<close>

definition handleSpecChange :: "js \<Rightarrow> string \<Rightarrow> js \<Rightarrow> js option" where
  "handleSpecChange spec path v =
     safe_deep_set spec (if starts_with path ''spec.'' then drop 5 path else path) v"

definition spec_edit :: "(string \<Rightarrow> js option) \<Rightarrow> (string \<times> schema) list \<Rightarrow> js \<Rightarrow> string \<Rightarrow> edit \<Rightarrow> js option" where
  "spec_edit parse props spec k e =
     (case rec_get props k of
        None \<Rightarrow> None
      | Some sc \<Rightarrow>
          (case field_change parse 0 (''spec.'' @ k) sc (js_get spec k) e of
             None \<Rightarrow> None
           | Some NoChange \<Rightarrow> Some spec
           | Some (Change p x) \<Rightarrow> handleSpecChange spec p x))"


section \<open>The edit on the value itself\<close>

text \<open>
  The reference: the new value of a field (\<open>JUndef\<close> to leave it out), or none when nothing is
  reported. A property's edit changes that member of the object, which is made when it is missing.
\<close>

datatype effect = Keep | Become js

definition object_of :: "js \<Rightarrow> (string \<times> js) list" where
  "object_of v = (case v of JObj r \<Rightarrow> r | _ \<Rightarrow> [])"

definition put_effect :: "js \<Rightarrow> string \<Rightarrow> effect \<Rightarrow> effect option" where
  "put_effect v k f =
     (case f of
        Keep \<Rightarrow> Some Keep
      | Become x \<Rightarrow> (case v of JArr _ \<Rightarrow> None | _ \<Rightarrow> Some (Become (JObj (put_entry (object_of v) k x)))))"

fun edited :: "(string \<Rightarrow> js option) \<Rightarrow> nat \<Rightarrow> schema \<Rightarrow> js \<Rightarrow> edit \<Rightarrow> effect option" where
  "edited parse depth sc v (Input text) =
     map_option (\<lambda>x. case x of None \<Rightarrow> Keep | Some y \<Rightarrow> Become y) (input_value parse depth sc text)"
| "edited parse depth sc v (InProperty k e) =
     (if control_of depth sc = ObjectFieldset
      then (case rec_get (the (sc_properties sc)) k of
              None \<Rightarrow> None
            | Some ps \<Rightarrow>
                (case edited parse (depth + 1) ps (js_get v k) e of None \<Rightarrow> None | Some f \<Rightarrow> put_effect v k f))
      else None)"
| "edited parse depth sc v (InItem i k e) =
     (if control_of depth sc = ObjectArray
      then (case items_of v of
              None \<Rightarrow> None
            | Some vs \<Rightarrow>
                if i < length vs \<and> is_object (vs ! i)
                then (case rec_get (item_properties sc) k of
                        None \<Rightarrow> None
                      | Some ps \<Rightarrow>
                          (case edited parse (depth + 1) ps (js_get (vs ! i) k) e of
                             None \<Rightarrow> None
                           | Some f \<Rightarrow>
                               (case put_effect (vs ! i) k f of
                                  None \<Rightarrow> None
                                | Some Keep \<Rightarrow> Some Keep
                                | Some (Become it) \<Rightarrow> Some (Become (JArr (vs[i := it]))))))
                else None)
      else None)"
| "edited parse depth sc v (InputItemYaml i text) = None"
| "edited parse depth sc v (PickVariant n) =
     (if control_of depth sc = VariantSelector \<and> n < length (variants sc) then Some (Become JUndef) else None)"
| "edited parse depth sc v (InVariant n e) =
     (if control_of depth sc = VariantSelector \<and> n < length (variants sc)
      then edited parse (depth + 1) (variants sc ! n) v e else None)"
| "edited parse depth sc v e =
     (case control_of depth sc of
        KeyValueEditor \<Rightarrow> (case entries_of v of None \<Rightarrow> None | Some r \<Rightarrow> map_option Become (entry_edit r e))
      | PrimitiveArray \<Rightarrow> (case items_of v of None \<Rightarrow> None | Some vs \<Rightarrow> map_option Become (primitive_edit sc vs e))
      | ObjectArray \<Rightarrow>
          (case items_of v of
             None \<Rightarrow> None
           | Some vs \<Rightarrow>
               (case e of
                  AddItem \<Rightarrow> Some (Become (JArr (vs @ [JObj []])))
                | RemoveItem i \<Rightarrow> if i < length vs then Some (Become (array_or_none (without i vs))) else None
                | _ \<Rightarrow> None))
      | _ \<Rightarrow> None)"

definition spec_edited :: "(string \<Rightarrow> js option) \<Rightarrow> (string \<times> schema) list \<Rightarrow> js \<Rightarrow> string \<Rightarrow> edit \<Rightarrow> js option" where
  "spec_edited parse props spec k e =
     (case rec_get props k of
        None \<Rightarrow> None
      | Some sc \<Rightarrow>
          (case edited parse 0 sc (js_get spec k) e of
             None \<Rightarrow> None
           | Some f \<Rightarrow>
               (case put_effect spec k f of
                  None \<Rightarrow> None | Some Keep \<Rightarrow> Some spec | Some (Become x) \<Rightarrow> Some x)))"


section \<open>Paths\<close>

text \<open>A property name that a dotted path can carry.\<close>

definition plain_key :: "string \<Rightarrow> bool" where
  "plain_key k \<longleftrightarrow> CHR ''.'' \<notin> set k \<and> \<not> dangerous k \<and> \<not> all_digits k"

fun plain_edit :: "edit \<Rightarrow> bool" where
  "plain_edit (InProperty k e) = (plain_key k \<and> plain_edit e)"
| "plain_edit (InItem i k e) = (plain_key k \<and> plain_edit e)"
| "plain_edit (InVariant n e) = plain_edit e"
| "plain_edit (InputItemYaml i text) = False"
| "plain_edit e = True"

definition dotted :: "string list \<Rightarrow> string" where
  "dotted ks = concat (map (\<lambda>k. ''.'' @ k) ks)"

lemma dotted_simps [simp]: "dotted [] = []" "dotted (k # ks) = ''.'' @ k @ dotted ks"
  by (simp_all add: dotted_def)

lemma split_dotted: "list_all plain_key (k # ks) \<Longrightarrow> js_split CHR ''.'' (k @ dotted ks) = k # ks"
proof (induction ks arbitrary: k)
  case Nil
  then show ?case by (simp add: plain_key_def js_split_atom)
next
  case (Cons k' ks)
  then show ?case by (simp add: plain_key_def js_split_append_sep)
qed

lemma plain_no_index: "plain_key k \<Longrightarrow> array_index k = None"
  by (simp add: plain_key_def array_index_def)

lemma deep_set_array: "list_all plain_key ks \<Longrightarrow> ks \<noteq> [] \<Longrightarrow> deep_set (JArr vs) ks x = None"
  by (cases "(JArr vs, ks, x)" rule: deep_set.cases)
     (auto simp: plain_key_def set_member_def array_index_def Let_def split: option.splits)

lemma set_member_object: "set_member (JObj r) k v = Some (JObj (put_entry r k v))"
  by (simp add: set_member_def)

lemma get_member_object: "get_member (JObj (object_of v)) k = js_get v k"
  by (cases v) (simp_all add: get_member_def object_of_def)

text \<open>The walk into the object of a field, seen from the field.\<close>

definition set_in :: "js \<Rightarrow> string list \<Rightarrow> js \<Rightarrow> js option" where
  "set_in v ks x = (case v of JArr _ \<Rightarrow> None | _ \<Rightarrow> deep_set (JObj (object_of v)) ks x)"

lemma set_in_walk:
  assumes "list_all plain_key ks" "ks \<noteq> []"
  shows "deep_set (if is_container v then v else JObj []) ks x = set_in v ks x"
  using deep_set_array [OF assms] by (cases v) (simp_all add: is_container_def set_in_def object_of_def)

lemma deep_set_step:
  assumes "plain_key k" "list_all plain_key ks" "ks \<noteq> []"
  shows "deep_set (JObj (object_of v)) (k # ks) x =
    (case set_in (js_get v k) ks x of None \<Rightarrow> None | Some c \<Rightarrow> Some (JObj (put_entry (object_of v) k c)))"
proof -
  obtain k' ks' where ks: "ks = k' # ks'" using assms(3) by (cases ks) auto
  have "\<not> dangerous k" "\<not> all_digits k'" using assms ks by (simp_all add: plain_key_def)
  then show ?thesis
    using set_in_walk [OF assms(2,3), of "js_get v k" x]
    by (cases "set_in (js_get v k) ks x")
       (auto simp: ks get_member_object set_member_object Let_def split: if_splits)
qed

lemma put_effect_walk:
  assumes "plain_key k" "list_all plain_key ks"
  shows "(case (if ks = [] then Some (Become x) else map_option Become (set_in (js_get v k) ks x)) of
            None \<Rightarrow> None | Some f \<Rightarrow> put_effect v k f) = map_option Become (set_in v (k # ks) x)"
proof (cases "ks = []")
  case True
  then show ?thesis using assms by (cases v) (simp_all add: put_effect_def set_in_def plain_key_def set_member_object)
next
  case False
  note st = deep_set_step [OF assms False, of v x]
  then show ?thesis using False
    by (cases v; cases "set_in (js_get v k) ks x") (simp_all add: put_effect_def set_in_def)
qed


section \<open>The code carries out the edit\<close>

text \<open>What a field reports describes the edit of its value.\<close>

definition reports :: "string \<Rightarrow> js \<Rightarrow> change option \<Rightarrow> effect option \<Rightarrow> bool" where
  "reports path v c f \<longleftrightarrow>
     (case c of
        None \<Rightarrow> f = None
      | Some NoChange \<Rightarrow> f = Some Keep
      | Some (Change p x) \<Rightarrow>
          (\<exists>ks. p = path @ dotted ks \<and> list_all plain_key ks
             \<and> f = (if ks = [] then Some (Become x) else map_option Become (set_in v ks x))))"

lemma reports_None [simp]: "reports path v None f \<longleftrightarrow> f = None"
  by (simp add: reports_def)

lemma reports_here: "reports path v (Some (Change path x)) (Some (Become x))"
  unfolding reports_def by (simp, intro exI [of _ "[]"]) simp

lemma reports_map: "reports path v (map_option (\<lambda>y. Change path (g y)) c) (map_option (\<lambda>y. Become (g y)) c)"
  by (cases c) (simp_all add: reports_here)

lemma reports_in:
  assumes "plain_key k" "reports (path @ ''.'' @ k) (js_get v k) c f"
  shows "reports path v c (case f of None \<Rightarrow> None | Some f \<Rightarrow> put_effect v k f)"
proof (cases c)
  case (Some d)
  show ?thesis
  proof (cases d)
    case NoChange
    then show ?thesis using assms(2) Some by (simp add: reports_def put_effect_def)
  next
    case (Change p x)
    then obtain ks where ks: "p = (path @ ''.'' @ k) @ dotted ks" "list_all plain_key ks"
        "f = (if ks = [] then Some (Become x) else map_option Become (set_in (js_get v k) ks x))"
      using assms(2) Some unfolding reports_def by auto
    moreover have "(case f of None \<Rightarrow> None | Some f \<Rightarrow> put_effect v k f) = map_option Become (set_in v (k # ks) x)"
      unfolding ks(3) by (rule put_effect_walk [OF assms(1) ks(2)])
    ultimately show ?thesis using Some Change assms(1)
      unfolding reports_def by (simp, intro exI [of _ "k # ks"]) simp
  qed
qed (use assms in simp)

lemma update_item:
  assumes "plain_key k" "list_all plain_key ks" "is_object it" "i < length vs" "vs ! i = it"
  shows "updateItem path vs i ((item_path path i @ ''.'' @ k) @ dotted ks) x =
    map_option (\<lambda>y. Change path (JArr (vs[i := y]))) (set_in it (k # ks) x)"
proof -
  have "starts_with ((item_path path i @ ''.'' @ k) @ dotted ks) (item_path path i @ ''.'')"
    unfolding starts_with_iff by (rule exI [of _ "k @ dotted ks"]) simp
  moreover have "drop (length (item_path path i @ ''.'')) ((item_path path i @ ''.'' @ k) @ dotted ks) = k @ dotted ks"
    by simp
  moreover have "js_split CHR ''.'' (k @ dotted ks) = k # ks" by (rule split_dotted) (use assms in simp)
  ultimately show ?thesis using assms(3,5)
    by (cases it) (simp_all add: updateItem_def safe_deep_set_def set_in_def object_of_def Let_def)
qed

lemma reports_item:
  assumes k: "plain_key k" and it: "is_object it" "i < length vs" "vs ! i = it"
    and r: "reports (item_path path i @ ''.'' @ k) (js_get it k) c f"
  shows "reports path v
    (case c of None \<Rightarrow> None | Some NoChange \<Rightarrow> Some NoChange | Some (Change p x) \<Rightarrow> updateItem path vs i p x)
    (case f of None \<Rightarrow> None
     | Some f \<Rightarrow> (case put_effect it k f of
                   None \<Rightarrow> None | Some Keep \<Rightarrow> Some Keep | Some (Become y) \<Rightarrow> Some (Become (JArr (vs[i := y])))))"
proof (cases c)
  case (Some d)
  show ?thesis
  proof (cases d)
    case NoChange
    then show ?thesis using r Some by (simp add: reports_def put_effect_def)
  next
    case (Change p x)
    then obtain ks where ks: "p = (item_path path i @ ''.'' @ k) @ dotted ks" "list_all plain_key ks"
        "f = (if ks = [] then Some (Become x) else map_option Become (set_in (js_get it k) ks x))"
      using r Some unfolding reports_def by auto
    have up: "updateItem path vs i p x = map_option (\<lambda>y. Change path (JArr (vs[i := y]))) (set_in it (k # ks) x)"
      using update_item [OF k ks(2) it] ks(1) by simp
    have "(case f of None \<Rightarrow> None | Some f \<Rightarrow> put_effect it k f) = map_option Become (set_in it (k # ks) x)"
      unfolding ks(3) by (rule put_effect_walk [OF k ks(2)])
    then show ?thesis using Some Change up reports_here
      by (cases f; cases "set_in it (k # ks) x") auto
  qed
qed (use r in simp)

lemma field_change_edited:
  "plain_edit e \<Longrightarrow> reports path v (field_change parse depth path sc v e) (edited parse depth sc v e)"
proof (induction e arbitrary: path v depth sc)
  case (Input t)
  then show ?case by (cases "input_value parse depth sc t") (auto simp: reports_here reports_def split: option.splits)
next
  case (InProperty k e)
  show ?case
  proof (cases "control_of depth sc = ObjectFieldset")
    case True
    then show ?thesis using InProperty.prems
      by (cases "rec_get (the (sc_properties sc)) k") (simp_all add: reports_in InProperty.IH)
  qed simp
next
  case (InItem i k e)
  show ?case
  proof (cases "control_of depth sc = ObjectArray")
    case True
    show ?thesis
    proof (cases "items_of v")
      case (Some vs)
      then show ?thesis using True InItem.prems InItem.IH reports_item [of k "vs ! i" i vs path]
        by (cases "rec_get (item_properties sc) k") (auto simp: InItem.IH)
    qed (use True in simp)
  qed simp
next
  case (InVariant n e)
  then show ?case by simp
next
  case (PickVariant n)
  then show ?case by (simp add: reports_here)
qed (auto simp: reports_here option.map_comp comp_def reports_map split: control.split option.split)


lemma spec_change:
  assumes k: "plain_key k" and r: "reports (''spec.'' @ k) (js_get (JObj r) k) (Some (Change p x)) f"
  shows "handleSpecChange (JObj r) p x =
    (case f of None \<Rightarrow> None
     | Some f \<Rightarrow> (case put_effect (JObj r) k f of
                   None \<Rightarrow> None | Some Keep \<Rightarrow> Some (JObj r) | Some (Become y) \<Rightarrow> Some y))"
proof -
  let ?v = "JObj r"
  obtain ks where ks: "p = ''spec.'' @ k @ dotted ks" "list_all plain_key ks"
      "f = (if ks = [] then Some (Become x) else map_option Become (set_in (js_get ?v k) ks x))"
    using r unfolding reports_def by auto
  have "(case f of None \<Rightarrow> None | Some f \<Rightarrow> put_effect ?v k f) = map_option Become (set_in ?v (k # ks) x)"
    unfolding ks(3) by (rule put_effect_walk [OF k ks(2)])
  moreover have "handleSpecChange ?v p x = set_in ?v (k # ks) x"
    using split_dotted [of k ks] k ks(2)
    by (simp add: handleSpecChange_def ks(1) safe_deep_set_def set_in_def object_of_def)
  ultimately show ?thesis by (cases f; cases "set_in ?v (k # ks) x") auto
qed

lemma form_edit_in_place_code:
  assumes "plain_key k" "plain_edit e"
  shows "spec_edit parse props (JObj r) k e = spec_edited parse props (JObj r) k e"
proof (cases "rec_get props k")
  case (Some sc)
  let ?c = "field_change parse 0 (''spec.'' @ k) sc (js_get (JObj r) k) e"
  have rep: "reports (''spec.'' @ k) (js_get (JObj r) k) ?c (edited parse 0 sc (js_get (JObj r) k) e)"
    by (rule field_change_edited [OF assms(2)])
  consider "?c = None" | "?c = Some NoChange" | p x where "?c = Some (Change p x)"
    by (metis change.exhaust option.exhaust)
  then show ?thesis
  proof cases
    case 1
    then show ?thesis using rep Some by (simp add: spec_edit_def spec_edited_def)
  next
    case 2
    then show ?thesis using rep Some by (simp add: spec_edit_def spec_edited_def reports_def put_effect_def)
  next
    case 3
    then show ?thesis using spec_change [OF assms(1)] rep Some by (simp add: spec_edit_def spec_edited_def)
  qed
qed (simp add: spec_edit_def spec_edited_def)



text \<open>C22: The generated form changes what the user edits: along property names that a dotted path can carry,
  what the chain of fields reports (a path that each level extends, taken apart again by each
  array of objects on the way and by the form, and set by \<open>safeDeepSet\<close>) gives exactly the spec in
  which that one value has been edited in place, at any depth and through any nesting of objects,
  arrays and variants; an edit without effect changes nothing, and an edit that is not on the screen
  in the one is not in the other.\<close>

theorem form_edit_in_place:
  assumes "plain_key k" "plain_edit e"
  shows "spec_edit parse props (JObj r) k e = spec_edited parse props (JObj r) k e"
  by (rule form_edit_in_place_code [OF assms])


section \<open>Values have the shape of the schema\<close>

fun is_num :: "js \<Rightarrow> bool" where
  "is_num (JNum _) = True"
| "is_num _ = False"

fun is_text :: "js \<Rightarrow> bool" where
  "is_text (JStr _) = True"
| "is_text _ = False"

fun is_bool :: "js \<Rightarrow> bool" where
  "is_bool (JBool _) = True"
| "is_bool _ = False"

fun list_of :: "js \<Rightarrow> js list option" where
  "list_of (JArr vs) = Some vs"
| "list_of _ = None"

lemma shape_iff [simp]:
  "is_num v \<longleftrightarrow> (\<exists>n. v = JNum n)" "is_text v \<longleftrightarrow> (\<exists>u. v = JStr u)" "is_bool v \<longleftrightarrow> (\<exists>b. v = JBool b)"
  "list_of v = Some vs \<longleftrightarrow> v = JArr vs"
  by (cases v; simp)+

lemma object_iff: "is_object v \<and> P (object_of v) \<longleftrightarrow> (\<exists>r. v = JObj r \<and> P r)"
  by (cases v) (simp_all add: object_of_def)

lemma list_of_iff: "(case list_of v of None \<Rightarrow> False | Some vs \<Rightarrow> P vs) \<longleftrightarrow> (\<exists>vs. v = JArr vs \<and> P vs)"
  by (cases v) simp_all

definition item_fits :: "schema \<Rightarrow> js \<Rightarrow> bool" where
  "item_fits sc x \<longleftrightarrow>
     (let t = (case sc_items sc of None \<Rightarrow> None | Some it \<Rightarrow> sc_type it)
      in if t = Some ''integer'' \<or> t = Some ''number'' then x = JStr [] \<or> is_num x
         else is_text x \<or> (t = Some ''boolean'' \<and> is_bool x))"

definition strings_only :: "(string \<times> js) list \<Rightarrow> bool" where
  "strings_only r \<longleftrightarrow> (\<forall>p \<in> set r. is_text (snd p))"

text \<open>The values a field of a given control can show; variants and subtrees of YAML are free.\<close>

function fits :: "nat \<Rightarrow> schema \<Rightarrow> js \<Rightarrow> bool" where
  "fits depth sc v =
     (let members_fit = (\<lambda>props r. \<forall>p \<in> set r. \<forall>ps \<in> set_option (rec_get props (fst p)). depth < 5 \<longrightarrow> fits (depth + 1) ps (snd p))
      in case control_of depth sc of
           YamlSubtree \<Rightarrow> True
         | VariantSelector \<Rightarrow> True
         | IntOrString \<Rightarrow> is_num v \<or> is_text v
         | KeyValueEditor \<Rightarrow> is_object v \<and> strings_only (object_of v)
         | ObjectFieldset \<Rightarrow> is_object v \<and> members_fit (the (sc_properties sc)) (object_of v)
         | PrimitiveArray \<Rightarrow> (case list_of v of None \<Rightarrow> False | Some vs \<Rightarrow> \<forall>x \<in> set vs. item_fits sc x)
         | ObjectArray \<Rightarrow>
             (case list_of v of
                None \<Rightarrow> False
              | Some vs \<Rightarrow> \<forall>x \<in> set vs. is_object x \<and> members_fit (item_properties sc) (object_of x))
         | BooleanSelect \<Rightarrow> is_bool v
         | NumberInput \<Rightarrow> is_num v
         | EnumDatalist \<Rightarrow> is_text v \<and> v \<noteq> JStr []
         | EnumSelect \<Rightarrow> is_text v \<and> v \<in> JStr ` set (the (sc_enum sc))
         | TextInput \<Rightarrow> is_text v \<and> v \<noteq> JStr [])"
  by pat_completeness auto
termination by (relation "measure (\<lambda>(depth, sc, v). 5 - depth)") auto

declare fits.simps [simp del]

definition members_fit :: "nat \<Rightarrow> (string \<times> schema) list \<Rightarrow> (string \<times> js) list \<Rightarrow> bool" where
  "members_fit depth props r \<longleftrightarrow> (\<forall>p \<in> set r. \<forall>ps \<in> set_option (rec_get props (fst p)). fits depth ps (snd p))"

lemma control_shallow: "control_of depth sc \<noteq> YamlSubtree \<Longrightarrow> depth < 5"
  by (auto simp: control_of_def split: if_splits)

lemma fits_control:
  "control_of depth sc = YamlSubtree \<Longrightarrow> fits depth sc v"
  "control_of depth sc = VariantSelector \<Longrightarrow> fits depth sc v"
  "control_of depth sc = KeyValueEditor \<Longrightarrow> fits depth sc v \<longleftrightarrow> (\<exists>r. v = JObj r \<and> strings_only r)"
  "control_of depth sc = ObjectFieldset \<Longrightarrow>
     fits depth sc v \<longleftrightarrow> is_object v \<and> members_fit (depth + 1) (the (sc_properties sc)) (object_of v)"
  "control_of depth sc = PrimitiveArray \<Longrightarrow> fits depth sc v \<longleftrightarrow> (\<exists>vs. v = JArr vs \<and> (\<forall>x \<in> set vs. item_fits sc x))"
  "control_of depth sc = ObjectArray \<Longrightarrow>
     fits depth sc v \<longleftrightarrow>
       (\<exists>vs. v = JArr vs \<and> (\<forall>x \<in> set vs. is_object x \<and> members_fit (depth + 1) (item_properties sc) (object_of x)))"
  using control_shallow [of depth sc]
  by (simp_all add: fits.simps [of depth sc v] members_fit_def Let_def object_iff [of v strings_only] list_of_iff)

lemma fits_leaf:
  "control_of depth sc = IntOrString \<Longrightarrow> fits depth sc v \<longleftrightarrow> (\<exists>n. v = JNum n) \<or> (\<exists>u. v = JStr u)"
  "control_of depth sc = BooleanSelect \<Longrightarrow> fits depth sc v \<longleftrightarrow> (\<exists>b. v = JBool b)"
  "control_of depth sc = NumberInput \<Longrightarrow> fits depth sc v \<longleftrightarrow> (\<exists>n. v = JNum n)"
  "control_of depth sc = EnumDatalist \<Longrightarrow> fits depth sc v \<longleftrightarrow> (\<exists>u. v = JStr u \<and> u \<noteq> [])"
  "control_of depth sc = EnumSelect \<Longrightarrow> fits depth sc v \<longleftrightarrow> (\<exists>u. v = JStr u \<and> u \<in> set (the (sc_enum sc)))"
  "control_of depth sc = TextInput \<Longrightarrow> fits depth sc v \<longleftrightarrow> (\<exists>u. v = JStr u \<and> u \<noteq> [])"
  by (auto simp: fits.simps [of depth sc v])

lemma rec_del_subset: "set (rec_del r k) \<subseteq> set r"
  by (auto simp: rec_del_def)

lemma set_rec_set: "set (rec_set r k v) \<subseteq> insert (k, v) (set r)"
  by (induction r k v rule: rec_set.induct) auto

lemma members_fit_put:
  assumes "members_fit depth props r" "\<And>ps. rec_get props k = Some ps \<Longrightarrow> x \<noteq> JUndef \<Longrightarrow> fits depth ps x"
  shows "members_fit depth props (put_entry r k x)"
  unfolding members_fit_def
proof (intro ballI)
  fix p ps assume p: "p \<in> set (put_entry r k x)" and ps: "ps \<in> set_option (rec_get props (fst p))"
  have "p \<in> set r \<or> (p = (k, x) \<and> x \<noteq> JUndef)"
    using p rec_del_subset [of r k] set_rec_set [of r k x] by (auto simp: put_entry_def split: if_splits)
  then show "fits depth ps (snd p)"
  proof
    assume "p \<in> set r"
    then show ?thesis using assms(1) ps unfolding members_fit_def by blast
  next
    assume "p = (k, x) \<and> x \<noteq> JUndef"
    then show ?thesis using assms(2) [of ps] ps by simp
  qed
qed

lemma subset_ball: "A \<subseteq> B \<Longrightarrow> \<forall>x \<in> B. P x \<Longrightarrow> \<forall>x \<in> A. P x"
  by blast

lemma strings_subset: "strings_only r \<Longrightarrow> set r' \<subseteq> insert (k, JStr u) (set r) \<Longrightarrow> strings_only r'"
  unfolding strings_only_def by (erule subset_ball) simp

lemma strings_set: "strings_only r \<Longrightarrow> strings_only (rec_set r k (JStr u))"
  by (rule strings_subset [OF _ set_rec_set])

lemma strings_rebuild: "strings_only es \<Longrightarrow> strings_only (rebuild es)"
proof -
  have "strings_only es \<Longrightarrow> strings_only r \<Longrightarrow>
      strings_only (fold (\<lambda>(k, v) r. if k = ''__proto__'' then r else rec_set r k v) es r)" for r
  proof (induction es arbitrary: r)
    case (Cons e es)
    obtain k u where e: "e = (k, JStr u)" using Cons.prems(1) unfolding strings_only_def by (cases e) auto
    have "strings_only es" using Cons.prems(1) unfolding strings_only_def by auto
    then show ?case using Cons.IH [OF _ strings_set [OF Cons.prems(2)]] Cons.IH [OF _ Cons.prems(2)] e by simp
  qed simp
  moreover have "strings_only []" by (simp add: strings_only_def)
  ultimately show "strings_only es \<Longrightarrow> strings_only (rebuild es)" unfolding rebuild_def by blast
qed

lemma entry_edit_strings:
  assumes "strings_only r" "entry_edit r e = Some x"
  shows "x = JUndef \<or> (\<exists>r'. x = JObj r' \<and> strings_only r')"
proof (cases e)
  case AddEntry
  then show ?thesis using assms strings_set by auto
next
  case (InputKey i k)
  then have i: "i < length r" and x: "x = JObj (rebuild (r[i := (k, snd (r ! i))]))" using assms(2) by (auto split: if_splits)
  have "is_text (snd (r ! i))" using assms(1) i unfolding strings_only_def by (meson nth_mem)
  then obtain u where u: "snd (r ! i) = JStr u" by auto
  have "strings_only (r[i := (k, snd (r ! i))])"
    unfolding u by (rule strings_subset [OF assms(1) set_update_subset_insert])
  then show ?thesis using x strings_rebuild by blast
next
  case (InputValue i v)
  then show ?thesis using assms strings_set by (auto split: if_splits)
next
  case (RemoveEntry i)
  moreover have "strings_only (rec_del r k)" for k
    using rec_del_subset [of r k] by (intro strings_subset [OF assms(1)]) blast
  ultimately show ?thesis using assms(2) by (auto simp: object_or_none_def split: if_splits)
qed (use assms in auto)

lemma number_value_num: "number_value b t = Some x \<Longrightarrow> \<exists>n. x = JNum n"
  by (auto simp: number_value_def split: option.splits if_splits)

lemma without_subset: "set (without i xs) \<subseteq> set xs"
  unfolding without_def by (auto dest: in_set_takeD in_set_dropD)

lemma empty_item_fits: "item_fits sc (JStr [])"
  by (simp add: item_fits_def Let_def)

lemma primitive_edit_fits:
  assumes "\<forall>x \<in> set vs. item_fits sc x" "primitive_edit sc vs e = Some y"
  shows "y = JUndef \<or> (\<exists>ws. y = JArr ws \<and> (\<forall>x \<in> set ws. item_fits sc x))"
proof (cases e)
  case (InputItem i t)
  then obtain x where i: "i < length vs" and x: "item_value sc t = Some x" "y = JArr (vs[i := x])"
    using assms(2) by (auto split: if_splits)
  have "item_fits sc x" using x(1) number_value_num
    by (auto simp: item_value_def item_fits_def Let_def split: if_splits)
  then show ?thesis using assms(1) x(2) set_update_subset_insert [of vs i x] by auto
next
  case (RemoveItem i)
  moreover have "\<forall>x \<in> set (without i vs). item_fits sc x" using assms(1) without_subset [of i vs] by blast
  ultimately show ?thesis using assms(2) by (auto simp: array_or_none_def split: if_splits)
qed (use assms empty_item_fits in auto)

lemma input_value_fits:
  assumes "input_value parse depth sc t = Some (Some x)" "x \<noteq> JUndef"
  shows "fits depth sc x"
proof (cases "control_of depth sc")
  case IntOrString
  then show ?thesis using assms
    by (auto simp: input_value_def fits_leaf int_or_string_def split: option.splits if_splits)
next
  case NumberInput
  then show ?thesis using assms number_value_num by (auto simp: input_value_def fits_leaf split: if_splits)
qed (use assms in \<open>auto simp: input_value_def fits_leaf fits_control(1) Let_def split: if_splits\<close>)


lemma put_effect_members:
  assumes "put_effect v k f = Some (Become y)" "members_fit depth props (object_of v)"
    and "\<And>x. f = Become x \<Longrightarrow> x \<noteq> JUndef \<Longrightarrow> \<forall>ps. rec_get props k = Some ps \<longrightarrow> fits depth ps x"
  shows "is_object y \<and> members_fit depth props (object_of y)"
proof -
  obtain x where f: "f = Become x" and y: "y = JObj (put_entry (object_of v) k x)"
    using assms(1) by (cases f; cases v) (auto simp: put_effect_def)
  have "members_fit depth props (put_entry (object_of v) k x)"
    by (rule members_fit_put [OF assms(2)]) (use assms(3) f in blast)
  then show ?thesis by (simp add: y object_of_def)
qed

text \<open>A field's value, when there is one, fits; and stays so under an edit.\<close>

definition field_fits :: "nat \<Rightarrow> schema \<Rightarrow> js \<Rightarrow> bool" where
  "field_fits depth sc v \<longleftrightarrow> v = JUndef \<or> fits depth sc v"

lemma member_field_fits:
  "members_fit depth props (object_of v) \<Longrightarrow> rec_get props k = Some ps \<Longrightarrow> field_fits depth ps (js_get v k)"
proof (cases v)
  case (JObj r)
  assume m: "members_fit depth props (object_of v)" and ps: "rec_get props k = Some ps"
  show ?thesis
  proof (cases "rec_get r k")
    case (Some x)
    have "\<forall>p \<in> set r. \<forall>ps \<in> set_option (rec_get props (fst p)). fits depth ps (snd p)"
      using m JObj by (simp add: members_fit_def object_of_def)
    then have "fits depth ps x" using rec_get_Some_in [OF Some] ps by fastforce
    then show ?thesis using JObj Some by (simp add: field_fits_def)
  qed (simp add: JObj field_fits_def)
qed (simp_all add: field_fits_def)

lemma object_of_Undef [simp]: "object_of JUndef = []" "members_fit depth props []"
  by (simp_all add: object_of_def members_fit_def)

lemma entries_fit: "control_of depth sc = KeyValueEditor \<Longrightarrow> field_fits depth sc v \<Longrightarrow> entries_of v = Some r \<Longrightarrow> strings_only r"
  by (auto simp: field_fits_def fits_control entries_of_def coalesce_def nullish_def strings_only_def)

lemma primitives_fit:
  "control_of depth sc = PrimitiveArray \<Longrightarrow> field_fits depth sc v \<Longrightarrow> items_of v = Some vs \<Longrightarrow> \<forall>x \<in> set vs. item_fits sc x"
  by (auto simp: field_fits_def fits_control items_of_def coalesce_def nullish_def)

lemma objects_fit:
  "control_of depth sc = ObjectArray \<Longrightarrow> field_fits depth sc v \<Longrightarrow> items_of v = Some vs \<Longrightarrow>
   \<forall>x \<in> set vs. is_object x \<and> members_fit (depth + 1) (item_properties sc) (object_of x)"
  by (auto simp: field_fits_def fits_control items_of_def coalesce_def nullish_def)

lemma array_field_fits:
  assumes "control_of depth sc = ObjectArray"
    and "\<forall>x \<in> set vs. is_object x \<and> members_fit (depth + 1) (item_properties sc) (object_of x)"
  shows "fits depth sc (JArr vs)" "field_fits depth sc (array_or_none vs)"
  using assms by (simp_all add: field_fits_def array_or_none_def fits_control)

lemma entries_edited:
  assumes "control_of depth sc = KeyValueEditor" "field_fits depth sc v"
    and "(case entries_of v of None \<Rightarrow> None | Some r \<Rightarrow> map_option Become (entry_edit r e)) = Some (Become x)"
  shows "field_fits depth sc x"
proof -
  obtain r where r: "entries_of v = Some r" "entry_edit r e = Some x" using assms(3) by (auto split: option.splits)
  show ?thesis using entry_edit_strings [OF entries_fit [OF assms(1,2) r(1)] r(2)]
    by (auto simp: field_fits_def fits_control(3) [OF assms(1)])
qed

lemma primitives_edited:
  assumes "control_of depth sc = PrimitiveArray" "field_fits depth sc v"
    and "(case items_of v of None \<Rightarrow> None | Some vs \<Rightarrow> map_option Become (primitive_edit sc vs e)) = Some (Become x)"
  shows "field_fits depth sc x"
proof -
  obtain vs where vs: "items_of v = Some vs" "primitive_edit sc vs e = Some x" using assms(3) by (auto split: option.splits)
  show ?thesis using primitive_edit_fits [OF primitives_fit [OF assms(1,2) vs(1)] vs(2)]
    by (auto simp: field_fits_def fits_control(5) [OF assms(1)])
qed

lemma edited_fits:
  "edited parse depth sc v e = Some (Become x) \<Longrightarrow> field_fits depth sc v \<Longrightarrow> field_fits depth sc x"
proof (induction e arbitrary: depth sc v x)
  case (Input t)
  then have "input_value parse depth sc t = Some (Some x)" by (auto split: option.splits)
  then show ?case using input_value_fits unfolding field_fits_def by blast
next
  case (InProperty k e)
  then have c: "control_of depth sc = ObjectFieldset" by (simp split: if_splits)
  obtain ps f where p: "rec_get (the (sc_properties sc)) k = Some ps" "edited parse (depth + 1) ps (js_get v k) e = Some f"
      "put_effect v k f = Some (Become x)"
    using InProperty.prems(1) c by (auto split: option.splits)
  have m: "members_fit (depth + 1) (the (sc_properties sc)) (object_of v)"
    using InProperty.prems(2) c by (auto simp: field_fits_def fits_control)
  have "is_object x \<and> members_fit (depth + 1) (the (sc_properties sc)) (object_of x)"
  proof (rule put_effect_members [OF p(3) m])
    fix y assume "f = Become y" "y \<noteq> JUndef"
    then show "\<forall>ps. rec_get (the (sc_properties sc)) k = Some ps \<longrightarrow> fits (depth + 1) ps y"
      using InProperty.IH [of "depth + 1" ps "js_get v k" y] p member_field_fits [OF m p(1)]
      by (auto simp: field_fits_def)
  qed
  then show ?case using c by (simp add: field_fits_def fits_control)
next
  case (InItem i k e)
  then have c: "control_of depth sc = ObjectArray" by (simp split: if_splits)
  obtain vs ps f y where p: "items_of v = Some vs" "i < length vs" "is_object (vs ! i)"
      "rec_get (item_properties sc) k = Some ps" "edited parse (depth + 1) ps (js_get (vs ! i) k) e = Some f"
      "put_effect (vs ! i) k f = Some (Become y)" "x = JArr (vs[i := y])"
    using InItem.prems(1) c by (auto split: option.splits if_splits effect.splits)
  note all = objects_fit [OF c InItem.prems(2) p(1)]
  then have m: "members_fit (depth + 1) (item_properties sc) (object_of (vs ! i))" using p(2) by simp
  have "is_object y \<and> members_fit (depth + 1) (item_properties sc) (object_of y)"
  proof (rule put_effect_members [OF p(6) m])
    fix z assume "f = Become z" "z \<noteq> JUndef"
    then show "\<forall>ps. rec_get (item_properties sc) k = Some ps \<longrightarrow> fits (depth + 1) ps z"
      using InItem.IH [of "depth + 1" ps "js_get (vs ! i) k" z] p member_field_fits [OF m p(4)]
      by (auto simp: field_fits_def)
  qed
  then have "\<forall>z \<in> set (vs[i := y]). is_object z \<and> members_fit (depth + 1) (item_properties sc) (object_of z)"
    using all set_update_subset_insert [of vs i y] by blast
  then show ?case using array_field_fits(1) [OF c] p(7) by (simp add: field_fits_def)
next
  case (PickVariant n)
  then show ?case by (auto simp: field_fits_def split: if_splits)
next
  case (InVariant n e)
  then show ?case by (auto simp: field_fits_def fits_control split: if_splits)
next
  case AddItem
  show ?case
  proof (cases "control_of depth sc")
    case ObjectArray
    then obtain vs where vs: "items_of v = Some vs" "x = JArr (vs @ [JObj []])" using AddItem(1) by (auto split: option.splits)
    then show ?thesis using array_field_fits(1) [OF ObjectArray, of "vs @ [JObj []]"] objects_fit [OF ObjectArray AddItem(2) vs(1)]
      by (auto simp: field_fits_def object_of_def)
  qed (use AddItem entries_edited [of depth sc v AddItem x] primitives_edited [of depth sc v AddItem x]
       in \<open>auto split: option.splits\<close>)
next
  case (RemoveItem i)
  show ?case
  proof (cases "control_of depth sc")
    case ObjectArray
    then obtain vs where vs: "items_of v = Some vs" "x = array_or_none (without i vs)"
      using RemoveItem(1) by (auto split: option.splits if_splits)
    have "\<forall>y \<in> set (without i vs). is_object y \<and> members_fit (depth + 1) (item_properties sc) (object_of y)"
      using objects_fit [OF ObjectArray RemoveItem(2) vs(1)] without_subset [of i vs] by blast
    then show ?thesis using array_field_fits(2) [OF ObjectArray] vs(2) by simp
  qed (use RemoveItem entries_edited [of depth sc v "RemoveItem i" x] primitives_edited [of depth sc v "RemoveItem i" x]
       in \<open>auto split: option.splits\<close>)
next
  case (InputItem i t)
  then show ?case using entries_edited [of depth sc v "InputItem i t" x] primitives_edited [of depth sc v "InputItem i t" x]
    by (cases "control_of depth sc") (auto split: option.splits)
next
  case AddEntry
  then show ?case using entries_edited [of depth sc v AddEntry x] primitives_edited [of depth sc v AddEntry x]
    by (cases "control_of depth sc") (auto split: option.splits)
next
  case (InputKey i k)
  then show ?case using entries_edited [of depth sc v "InputKey i k" x] primitives_edited [of depth sc v "InputKey i k" x]
    by (cases "control_of depth sc") (auto split: option.splits)
next
  case (InputValue i u)
  then show ?case using entries_edited [of depth sc v "InputValue i u" x] primitives_edited [of depth sc v "InputValue i u" x]
    by (cases "control_of depth sc") (auto split: option.splits)
next
  case (RemoveEntry i)
  then show ?case using entries_edited [of depth sc v "RemoveEntry i" x] primitives_edited [of depth sc v "RemoveEntry i" x]
    by (cases "control_of depth sc") (auto split: option.splits)
qed simp



section \<open>The spec of the form\<close>

definition spec_step :: "(string \<Rightarrow> js option) \<Rightarrow> (string \<times> schema) list \<Rightarrow> js \<Rightarrow> string \<times> edit \<Rightarrow> js option" where
  "spec_step parse props spec c = spec_edit parse props spec (fst c) (snd c)"

definition plain_step :: "string \<times> edit \<Rightarrow> bool" where
  "plain_step c \<longleftrightarrow> plain_key (fst c) \<and> plain_edit (snd c)"

definition spec_fits :: "(string \<times> schema) list \<Rightarrow> js \<Rightarrow> bool" where
  "spec_fits props spec \<longleftrightarrow> is_object spec \<and> members_fit 0 props (object_of spec)"

lemma spec_edited_cases:
  assumes "plain_key k" "plain_edit e" "is_object spec" "spec_edit parse props spec k e = Some t"
  shows "t = spec \<or> (\<exists>sc x. rec_get props k = Some sc \<and> edited parse 0 sc (js_get spec k) e = Some (Become x)
           \<and> t = JObj (put_entry (object_of spec) k x))"
proof -
  obtain r where r: "spec = JObj r" using assms(3) by (cases spec) auto
  have "spec_edited parse props spec k e = Some t" using assms(4) form_edit_in_place_code [OF assms(1,2)] r by simp
  then show ?thesis by (auto simp: spec_edited_def put_effect_def r split: option.splits effect.splits)
qed

lemma spec_step_fits:
  assumes "spec_fits props spec" "plain_step c" "spec_step parse props spec c = Some t"
  shows "spec_fits props t"
proof -
  obtain k e where c: "c = (k, e)" by (cases c)
  have sp: "is_object spec" "members_fit 0 props (object_of spec)" using assms(1) by (simp_all add: spec_fits_def)
  have pl: "plain_key k" "plain_edit e" using assms(2) c by (simp_all add: plain_step_def)
  have "spec_edit parse props spec k e = Some t" using assms(3) c by (simp add: spec_step_def)
  then consider "t = spec" | sc x where "rec_get props k = Some sc"
      "edited parse 0 sc (js_get spec k) e = Some (Become x)" "t = JObj (put_entry (object_of spec) k x)"
    using spec_edited_cases [OF pl sp(1)] by blast
  then show ?thesis
  proof cases
    case 1
    then show ?thesis using assms(1) by simp
  next
    case 2
    have "field_fits 0 sc x" by (rule edited_fits [OF 2(2) member_field_fits [OF sp(2) 2(1)]])
    then have "members_fit 0 props (put_entry (object_of spec) k x)"
      using 2(1) by (intro members_fit_put [OF sp(2)]) (auto simp: field_fits_def)
    then show ?thesis by (simp add: spec_fits_def 2(3) object_of_def)
  qed
qed

lemma spec_step_elsewhere:
  assumes "is_object spec" "plain_step c" "spec_step parse props spec c = Some t"
  shows "is_object t \<and> (\<forall>k. k \<noteq> fst c \<longrightarrow> js_get t k = js_get spec k)"
proof -
  obtain k e where c: "c = (k, e)" by (cases c)
  have pl: "plain_key k" "plain_edit e" using assms(2) c by (simp_all add: plain_step_def)
  have "spec_edit parse props spec k e = Some t" using assms(3) c by (simp add: spec_step_def)
  then consider "t = spec" | x where "t = JObj (put_entry (object_of spec) k x)"
    using spec_edited_cases [OF pl assms(1)] by blast
  then show ?thesis using assms(1) c by cases (cases spec; auto simp: put_entry_def object_of_def)+
qed

interpretation spec_form: machine "spec_step parse props" "\<lambda>_. plain_step" "spec_fits props" for parse props
  by unfold_locales (rule spec_step_fits)

lemma run_elsewhere:
  "run_events (spec_step parse props) spec cs = Some t \<Longrightarrow> list_all plain_step cs \<Longrightarrow> is_object spec \<Longrightarrow>
   k \<notin> fst ` set cs \<Longrightarrow> js_get t k = js_get spec k"
proof (induction cs arbitrary: spec)
  case (Cons c cs)
  then obtain u where u: "spec_step parse props spec c = Some u" "run_events (spec_step parse props) u cs = Some t"
    by (auto split: option.splits)
  have "is_object u \<and> js_get u k = js_get spec k" using spec_step_elsewhere [OF _ _ u(1)] Cons.prems by auto
  then show ?case using Cons.IH [OF u(2)] Cons.prems by simp
qed simp




section \<open>Examples\<close>

definition bare :: "string option \<Rightarrow> schema" where
  "bare t = Schema t None None None None None None None None False False"

definition rule_schema :: schema where
  "rule_schema = Schema (Some ''object'') None None (Some [''host''])
     (Some [(''host'', bare (Some ''string'')), (''port'', bare (Some ''integer''))]) None None None None False False"

definition demo_props :: "(string \<times> schema) list" where
  "demo_props =
     [(''replicas'', bare (Some ''integer'')),
      (''rules'', Schema (Some ''array'') None None None None (Some rule_schema) None None None False False),
      (''labels'', Schema (Some ''object'') None None None None None (Some (Of (bare (Some ''string'')))) None None False False),
      (''any'', Schema (Some ''array'') None None None None (Some (bare (Some ''object''))) None None None False False)]"

lemmas form_eval = demo_props_def rule_schema_def bare_def spec_step_def spec_edit_def spec_edited_def control_of_def
  isPrimitive_def items_of_def coalesce_def nullish_def updateItem_def item_path_def item_properties_def safe_deep_set_def
  handleSpecChange_def set_member_def get_member_def put_entry_def input_value_def starts_with_def dangerous_def
  all_digits_def put_effect_def object_of_def is_container_def is_object.simps entries_of_def

lemma plain_words: "plain_key ''rules'' \<and> plain_key ''host'' \<and> plain_key ''replicas''"
  by (simp add: plain_key_def dangerous_def all_digits_def char_code_def)

theorem form_edit_in_place_witness:
  "spec_edit (\<lambda>u. None) demo_props (JObj [(''rules'', JArr [JObj []])]) ''rules'' (InItem 0 ''host'' (Input ''a.io''))
     = Some (JObj [(''rules'', JArr [JObj [(''host'', JStr ''a.io'')]])])"
proof -
  have "plain_key ''rules''" "plain_edit (InItem 0 ''host'' (Input ''a.io''))" using plain_words by simp_all
  from form_edit_in_place [OF this, of "\<lambda>u. None" demo_props "[(''rules'', JArr [JObj []])]"]
  show ?thesis by (simp add: form_eval)
qed


text \<open>
  What lies outside. A property name with a dot is taken apart: the value goes to another place.
\<close>

lemma dotted_name_misplaced:
  "spec_edit (\<lambda>u. None) [(''a.b'', bare (Some ''string''))] (JObj []) ''a.b'' (Input ''x'')
     = Some (JObj [(''a'', JObj [(''b'', JStr ''x'')])])"
  by code_simp

text \<open>A list of objects without described properties: the text of an item is set at the item's own path inside the item.\<close>

lemma item_yaml_misplaced:
  "spec_edit (\<lambda>u. Some (JObj [(''x'', JNum 1)])) demo_props (JObj [(''any'', JArr [JObj []])]) ''any'' (InputItemYaml 0 ''x: 1'')
     = Some (JObj [(''any'', JArr [JObj [(''spec'', JObj [(''any'', JArr [JObj [(''x'', JNum 1)]])])]])])"
  by code_simp

text \<open>
  Typing a key that passes through, or is, the key of another row replaces that row's value: here
  the first letter of a new key is the key of the first row.
\<close>

lemma typing_key_overwrites:
  "spec_edit (\<lambda>u. None) demo_props (JObj [(''labels'', JObj [(''a'', JStr ''1''), ([], JStr [])])]) ''labels'' (InputKey 1 ''a'')
     = Some (JObj [(''labels'', JObj [(''a'', JStr [])])])"
  by code_simp

text \<open>An integer typed with an exponent is cut, and one that starts with the point is not a number.\<close>

lemma exponent_cut: "number_value True ''1e3'' = Some (JNum 1) \<and> parse_int ''.5'' = None"
  by code_simp

text \<open>An object without described properties gets a line of text, and a list of truth values texts.\<close>

lemma bare_object_text:
  "control_of 0 (bare (Some ''object'')) = TextInput"
  "item_value (Schema (Some ''array'') None None None None (Some (bare (Some ''boolean''))) None None None False False) ''true''
     = Some (JStr ''true'')"
  by code_simp+

end
