(* ===== verification/Schema_Form.thy ===== *)
theory Schema_Form
  imports Schema_Field Form_Yaml Endpoints
begin

text \<open>
  \<open>islands/SchemaForm.tsx\<close>: creating or editing a custom resource through the form generated from its
  schema. The state machine loads the definition and, when editing, the instance; then the user
  edits the metadata and the spec (\<open>Schema_Field\<close>), looks at the YAML (\<open>Form_Yaml\<close>), validates and
  submits. The properties: what is sent is well formed and carries the version read last, writes
  follow one another, and the preview shows what is sent.

  An instance is what the code reads of it. The parser \<open>parse\<close> of the package \<open>yaml\<close> is a parameter;
  \<open>selected\<close> is what \<open>initialNamespace()\<close> gives.
\<close>

section \<open>Labels and annotations\<close>

record kv_entry =
  kv_id :: nat
  kv_key :: string
  kv_value :: string

definition toRecord :: "kv_entry list \<Rightarrow> (string \<times> string) list" where
  "toRecord es =
     fold (\<lambda>e r. if kv_key e \<noteq> [] \<and> \<not> dangerous (kv_key e) then rec_set r (kv_key e) (kv_value e) else r) es []"

definition findDuplicateKeys :: "kv_entry list \<Rightarrow> string set" where
  "findDuplicateKeys es =
     snd (fold (\<lambda>e (seen, dupes).
                  if kv_key e \<noteq> []
                  then (insert (kv_key e) seen, if kv_key e \<in> seen then insert (kv_key e) dupes else dupes)
                  else (seen, dupes)) es ({}, {}))"

text \<open>\<open>entriesToKV\<close>, with the next id of the module.\<close>

fun entriesToKV :: "nat \<Rightarrow> (string \<times> string) list \<Rightarrow> kv_entry list" where
  "entriesToKV i [] = []"
| "entriesToKV i ((k, v) # r) = \<lparr>kv_id = i, kv_key = k, kv_value = v\<rparr> # entriesToKV (i + 1) r"

datatype kv_edit = KvKey nat string | KvValue nat string | KvRemove nat | KvAdd

text \<open>\<open>KeyValueSection\<close>: the rows after an edit, with the next id.\<close>

definition set_row :: "nat \<Rightarrow> (kv_entry \<Rightarrow> kv_entry) \<Rightarrow> kv_entry list \<Rightarrow> kv_entry list" where
  "set_row i u es = (if i < length es then es[i := u (es ! i)] else es)"

fun edit_rows :: "kv_edit \<Rightarrow> nat \<times> kv_entry list \<Rightarrow> nat \<times> kv_entry list" where
  "edit_rows (KvKey i t) (n, es) = (n, set_row i (\<lambda>e. e\<lparr>kv_key := t\<rparr>) es)"
| "edit_rows (KvValue i t) (n, es) = (n, set_row i (\<lambda>e. e\<lparr>kv_value := t\<rparr>) es)"
| "edit_rows (KvRemove i) (n, es) = (n, without i es)"
| "edit_rows KvAdd (n, es) = (n + 1, es @ [\<lparr>kv_id = n, kv_key = [], kv_value = []\<rparr>])"


section \<open>The form\<close>

record form_props =
  fp_group :: string
  fp_resource :: string
  fp_namespace :: "string option"
  fp_name :: "string option"
  fp_edit :: bool

text \<open>What the code reads of the definition and of the instance.\<close>

record crd_reply =
  cr_kind :: string
  cr_namespaced :: bool
  cr_version :: string
  cr_spec :: "(string \<times> schema) list option"

record instance_reply =
  ir_labels :: "(string \<times> string) list option"
  ir_annotations :: "(string \<times> string) list option"
  ir_version :: "string option"
  ir_spec :: js

datatype load_phase = LoadingCrd | LoadingInstance | Loaded

datatype form_request =
    GetCrd | GetInstance string | CreateWith string js | UpdateWith string js | ValidateWith js

text \<open>
  \<open>sf_loading\<close> is \<open>loading\<close> with the request it waits for; \<open>sf_sent\<close> are the requests so far,
  \<open>sf_settled\<close> counts the writes that have been answered, and \<open>sf_reported\<close> are the versions
  the server has reported, the last one first.
\<close>

record schema_form =
  sf_loading :: load_phase
  sf_error :: "string option"
  sf_kind :: string
  sf_namespaced :: bool
  sf_api :: string
  sf_schema :: "(string \<times> schema) list option"
  sf_yaml :: bool
  sf_submitting :: bool
  sf_validating :: bool
  sf_result :: "(bool \<times> string) option"
  sf_name :: string
  sf_namespace :: string
  sf_labels :: "kv_entry list"
  sf_annotations :: "kv_entry list"
  sf_spec :: js
  sf_version :: string
  sf_next_id :: nat
  sf_toasts :: "(string \<times> bool) list"
  sf_closed :: bool
  sf_sent :: "form_request list"
  sf_settled :: nat
  sf_reported :: "string list"

definition form_init :: "form_props \<Rightarrow> string \<Rightarrow> nat \<Rightarrow> schema_form" where
  "form_init p selected n =
     \<lparr>sf_loading = LoadingCrd, sf_error = None, sf_kind = [], sf_namespaced = True, sf_api = [], sf_schema = None,
      sf_yaml = False, sf_submitting = False, sf_validating = False, sf_result = None,
      sf_name = (case fp_name p of None \<Rightarrow> [] | Some n \<Rightarrow> n),
      sf_namespace = (case fp_namespace p of None \<Rightarrow> selected | Some ns \<Rightarrow> ns),
      sf_labels = [], sf_annotations = [], sf_spec = JObj [], sf_version = [], sf_next_id = n, sf_toasts = [],
      sf_closed = False, sf_sent = [GetCrd], sf_settled = 0, sf_reported = []\<rparr>"

text \<open>A rejected request: \<open>ApiError\<close> shows its detail or its message.\<close>

datatype failure = ApiFailure api_error | OtherFailure

definition failure_text :: "string \<Rightarrow> failure \<Rightarrow> string" where
  "failure_text fallback f =
     (case f of
        ApiFailure e \<Rightarrow> js_text (coalesce (ae_detail e) (JStr (ae_message e)))
      | OtherFailure \<Rightarrow> fallback)"

definition load_failed :: "failure \<Rightarrow> schema_form \<Rightarrow> schema_form" where
  "load_failed f s = s\<lparr>sf_error := Some (failure_text ''Failed to load CRD schema'' f), sf_loading := Loaded\<rparr>"

text \<open>\<open>fetchData\<close> from the reply with the definition, and from the one with the instance.\<close>

definition crd_settled :: "form_props \<Rightarrow> crd_reply option + failure \<Rightarrow> schema_form \<Rightarrow> schema_form" where
  "crd_settled p r s =
     (case r of
        Inr f \<Rightarrow> load_failed f s
      | Inl None \<Rightarrow> s\<lparr>sf_error := Some ''CRD not found'', sf_loading := Loaded\<rparr>
      | Inl (Some c) \<Rightarrow>
          (let s1 = s\<lparr>sf_kind := cr_kind c, sf_namespaced := cr_namespaced c, sf_api := cr_version c, sf_schema := cr_spec c\<rparr>
           in if fp_edit p \<and> has_text (fp_name p)
              then s1\<lparr>sf_loading := LoadingInstance,
                      sf_sent := sf_sent s1 @ [GetInstance (if has_text (fp_namespace p) then the (fp_namespace p) else ''_'')]\<rparr>
              else s1\<lparr>sf_loading := Loaded\<rparr>))"

definition load_rows :: "(string \<times> string) list option \<Rightarrow> (kv_entry list \<Rightarrow> schema_form \<Rightarrow> schema_form) \<Rightarrow> schema_form \<Rightarrow> schema_form" where
  "load_rows r put_rows s =
     (case r of
        None \<Rightarrow> s
      | Some es \<Rightarrow> (put_rows (entriesToKV (sf_next_id s) es) s)\<lparr>sf_next_id := sf_next_id s + length es\<rparr>)"

definition instance_settled :: "instance_reply option + failure \<Rightarrow> schema_form \<Rightarrow> schema_form" where
  "instance_settled r s =
     (case r of
        Inr f \<Rightarrow> load_failed f s
      | Inl None \<Rightarrow> s\<lparr>sf_loading := Loaded\<rparr>
      | Inl (Some i) \<Rightarrow>
          (let s1 = load_rows (ir_labels i) (\<lambda>rows s. s\<lparr>sf_labels := rows\<rparr>) s;
               s2 = load_rows (ir_annotations i) (\<lambda>rows s. s\<lparr>sf_annotations := rows\<rparr>) s1;
               s3 = (if has_text (ir_version i)
                     then s2\<lparr>sf_version := the (ir_version i), sf_reported := the (ir_version i) # sf_reported s2\<rparr> else s2);
               s4 = (if is_container (ir_spec i) then s3\<lparr>sf_spec := ir_spec i\<rparr> else s3)
           in s4\<lparr>sf_loading := Loaded\<rparr>))"


section \<open>What is sent and shown\<close>

definition members_of :: "js \<Rightarrow> (string \<times> js) list" where
  "members_of v =
     (case v of JObj r \<Rightarrow> r | JArr vs \<Rightarrow> zip (map string_of_nat [0..<length vs]) vs | _ \<Rightarrow> [])"

definition text_object :: "(string \<times> string) list \<Rightarrow> js" where
  "text_object r = JObj (map (\<lambda>(k, v). (k, JStr v)) r)"

definition apiVersion :: "form_props \<Rightarrow> schema_form \<Rightarrow> string" where
  "apiVersion p s = fp_group p @ ''/'' @ sf_api s"

definition buildBody :: "form_props \<Rightarrow> schema_form \<Rightarrow> js" where
  "buildBody p s =
     (let labels = toRecord (sf_labels s); annotations = toRecord (sf_annotations s)
      in JObj ([(''apiVersion'', JStr (apiVersion p s)), (''kind'', JStr (sf_kind s)),
                (''metadata'', JObj ([(''name'', JStr (sf_name s))]
                   @ (if sf_namespaced s then [(''namespace'', JStr (sf_namespace s))] else [])
                   @ (if labels \<noteq> [] then [(''labels'', text_object labels)] else [])
                   @ (if annotations \<noteq> [] then [(''annotations'', text_object annotations)] else [])
                   @ (if fp_edit p \<and> sf_version s \<noteq> [] then [(''resourceVersion'', JStr (sf_version s))] else [])))]
               @ (if members_of (sf_spec s) \<noteq> [] then [(''spec'', sf_spec s)] else [])))"

definition yamlPreview :: "form_props \<Rightarrow> schema_form \<Rightarrow> string" where
  "yamlPreview p s =
     (let labels = toRecord (sf_labels s); annotations = toRecord (sf_annotations s)
      in formStateToYaml (apiVersion p s) (sf_kind s)
           \<lparr>fm_name = sf_name s, fm_namespace = (if sf_namespaced s then Some (sf_namespace s) else None),
            fm_labels = (if labels \<noteq> [] then Some labels else None),
            fm_annotations = (if annotations \<noteq> [] then Some annotations else None)\<rparr>
           (members_of (sf_spec s)))"

text \<open>The paths, built by interpolation.\<close>

definition request_endpoint :: "form_props \<Rightarrow> form_request \<Rightarrow> endpoint" where
  "request_endpoint p r =
     (let crd = fp_group p @ ''/'' @ fp_resource p; name = (case fp_name p of None \<Rightarrow> ''undefined'' | Some n \<Rightarrow> n);
          base = ''/v1/extensions/resources/'' @ crd
      in case r of
           GetCrd \<Rightarrow> api_get (''/v1/extensions/crds/'' @ crd)
         | GetInstance ns \<Rightarrow> api_get (base @ ''/'' @ ns @ ''/'' @ name)
         | CreateWith ns body \<Rightarrow> api_post (base @ ''/'' @ ns) body
         | UpdateWith ns body \<Rightarrow> api_put (base @ ''/'' @ ns @ ''/'' @ name) body
         | ValidateWith body \<Rightarrow> api_post (base @ ''/-/validate'') body)"


section \<open>Submitting and validating\<close>

definition toast :: "string \<Rightarrow> bool \<Rightarrow> schema_form \<Rightarrow> schema_form" where
  "toast m ok s = s\<lparr>sf_toasts := sf_toasts s @ [(m, ok)]\<rparr>"

definition handleSubmit :: "form_props \<Rightarrow> schema_form \<Rightarrow> schema_form" where
  "handleSubmit p s =
     (if js_trim (sf_name s) = [] then toast ''Name is required'' False s
      else (let ns = (if sf_namespaced s then sf_namespace s else ''_''); body = buildBody p s
            in s\<lparr>sf_submitting := True,
                 sf_sent := sf_sent s @ [if fp_edit p then UpdateWith ns body else CreateWith ns body]\<rparr>))"

definition submit_settled :: "form_props \<Rightarrow> string option + failure \<Rightarrow> schema_form \<Rightarrow> schema_form" where
  "submit_settled p r s =
     (case r of
        Inr f \<Rightarrow> toast (failure_text ''Operation failed'' f) False s
      | Inl version \<Rightarrow>
          if fp_edit p
          then toast (''Updated '' @ sf_name s) True
                 (if has_text version
                  then s\<lparr>sf_version := the version, sf_reported := the version # sf_reported s\<rparr> else s)
          else (toast (''Created '' @ sf_name s) True s)\<lparr>sf_closed := True\<rparr>)
     \<lparr>sf_submitting := False, sf_settled := sf_settled s + 1\<rparr>"

definition handleValidateForm :: "form_props \<Rightarrow> schema_form \<Rightarrow> schema_form" where
  "handleValidateForm p s =
     s\<lparr>sf_validating := True, sf_result := None, sf_sent := sf_sent s @ [ValidateWith (buildBody p s)]\<rparr>"

definition validation_settled :: "failure option \<Rightarrow> schema_form \<Rightarrow> schema_form" where
  "validation_settled r s =
     s\<lparr>sf_validating := False,
       sf_result := Some (case r of
         None \<Rightarrow> (True, ''Validation passed'') | Some f \<Rightarrow> (False, failure_text ''Validation failed'' f))\<rparr>"

text \<open>The text area shown when there is no schema: an object or an array replaces the spec.\<close>

definition yaml_spec :: "(string \<Rightarrow> js option) \<Rightarrow> string \<Rightarrow> schema_form \<Rightarrow> schema_form" where
  "yaml_spec parse t s =
     (case parse t of None \<Rightarrow> s | Some x \<Rightarrow> if is_container x then s\<lparr>sf_spec := x\<rparr> else s)"

datatype form_event =
    CrdReply "crd_reply option + failure" | InstanceReply "instance_reply option + failure"
  | TypeName string | PickNamespace string | LabelEdit kv_edit | AnnotationEdit kv_edit
  | SpecEdit string edit | SpecYaml string | ShowYaml bool
  | PressSubmit | SubmitReply "string option + failure" | PressValidate | ValidateReply "failure option" | PressCancel

text \<open>The form is shown once it has loaded without an error; its fields only in the form view.\<close>

definition form_shown :: "schema_form \<Rightarrow> bool" where
  "form_shown s \<longleftrightarrow> sf_loading s = Loaded \<and> \<not> has_text (sf_error s) \<and> \<not> sf_closed s"

definition fields_shown :: "schema_form \<Rightarrow> bool" where
  "fields_shown s \<longleftrightarrow> form_shown s \<and> \<not> sf_yaml s"

definition edit_labels_of :: "kv_edit \<Rightarrow> schema_form \<Rightarrow> schema_form" where
  "edit_labels_of e s = (let (n, rows) = edit_rows e (sf_next_id s, sf_labels s) in s\<lparr>sf_labels := rows, sf_next_id := n\<rparr>)"

definition edit_annotations_of :: "kv_edit \<Rightarrow> schema_form \<Rightarrow> schema_form" where
  "edit_annotations_of e s =
     (let (n, rows) = edit_rows e (sf_next_id s, sf_annotations s) in s\<lparr>sf_annotations := rows, sf_next_id := n\<rparr>)"

fun form_step :: "(string \<Rightarrow> js option) \<Rightarrow> form_props \<Rightarrow> schema_form \<Rightarrow> form_event \<Rightarrow> schema_form option" where
  "form_step parse p s (CrdReply r) = (if sf_loading s = LoadingCrd then Some (crd_settled p r s) else None)"
| "form_step parse p s (InstanceReply r) = (if sf_loading s = LoadingInstance then Some (instance_settled r s) else None)"
| "form_step parse p s (TypeName t) = (if fields_shown s \<and> \<not> fp_edit p then Some (s\<lparr>sf_name := t\<rparr>) else None)"
| "form_step parse p s (PickNamespace ns) =
     (if fields_shown s \<and> \<not> fp_edit p \<and> sf_namespaced s then Some (s\<lparr>sf_namespace := ns\<rparr>) else None)"
| "form_step parse p s (LabelEdit e) = (if fields_shown s then Some (edit_labels_of e s) else None)"
| "form_step parse p s (AnnotationEdit e) = (if fields_shown s then Some (edit_annotations_of e s) else None)"
| "form_step parse p s (SpecEdit k e) =
     (if fields_shown s
      then (case sf_schema s of
              None \<Rightarrow> None
            | Some props \<Rightarrow> map_option (\<lambda>x. s\<lparr>sf_spec := x\<rparr>) (spec_edit parse props (sf_spec s) k e))
      else None)"
| "form_step parse p s (SpecYaml t) = (if fields_shown s \<and> sf_schema s = None then Some (yaml_spec parse t s) else None)"
| "form_step parse p s (ShowYaml b) = (if form_shown s then Some (s\<lparr>sf_yaml := b\<rparr>) else None)"
| "form_step parse p s PressSubmit = (if form_shown s \<and> \<not> sf_submitting s then Some (handleSubmit p s) else None)"
| "form_step parse p s (SubmitReply r) = (if sf_submitting s then Some (submit_settled p r s) else None)"
| "form_step parse p s PressValidate = (if form_shown s \<and> \<not> sf_validating s then Some (handleValidateForm p s) else None)"
| "form_step parse p s (ValidateReply r) = (if sf_validating s then Some (validation_settled r s) else None)"
| "form_step parse p s PressCancel = (if form_shown s then Some (s\<lparr>sf_closed := True\<rparr>) else None)"



section \<open>What a form sends\<close>

definition keys_plain :: "(string \<times> 'v) list \<Rightarrow> bool" where
  "keys_plain r \<longleftrightarrow> distinct (map fst r) \<and> (\<forall>k \<in> fst ` set r. k \<noteq> [] \<and> \<not> dangerous k)"

definition keys_ok :: "(string \<times> 'v) list \<Rightarrow> bool" where
  "keys_ok r \<longleftrightarrow> r \<noteq> [] \<and> keys_plain r"

definition pairs_sound :: "js \<Rightarrow> bool" where
  "pairs_sound v \<longleftrightarrow> v = JUndef \<or> (is_object v \<and> strings_only (object_of v) \<and> keys_ok (object_of v))"

definition spec_sound :: "(string \<times> schema) list option \<Rightarrow> js \<Rightarrow> bool" where
  "spec_sound sch v \<longleftrightarrow> (case sch of None \<Rightarrow> is_container v | Some props \<Rightarrow> spec_fits props v)"

definition body_sound :: "(string \<times> schema) list option \<Rightarrow> js \<Rightarrow> bool" where
  "body_sound sch body \<longleftrightarrow>
     (let md = js_get body ''metadata''
      in pairs_sound (js_get md ''labels'') \<and> pairs_sound (js_get md ''annotations'')
         \<and> (js_get body ''spec'' = JUndef \<or> spec_sound sch (js_get body ''spec'')))"

definition named :: "js \<Rightarrow> bool" where
  "named body \<longleftrightarrow> (case js_get (js_get body ''metadata'') ''name'' of JStr n \<Rightarrow> js_trim n \<noteq> [] | _ \<Rightarrow> False)"

definition body_version :: "js \<Rightarrow> js" where
  "body_version body = js_get (js_get body ''metadata'') ''resourceVersion''"

fun request_sound :: "(string \<times> schema) list option \<Rightarrow> form_request \<Rightarrow> bool" where
  "request_sound sch (CreateWith ns body) = (body_sound sch body \<and> named body)"
| "request_sound sch (UpdateWith ns body) = (body_sound sch body \<and> named body)"
| "request_sound sch (ValidateWith body) = body_sound sch body"
| "request_sound sch _ = True"

fun is_write :: "form_request \<Rightarrow> bool" where
  "is_write (CreateWith _ _) = True"
| "is_write (UpdateWith _ _) = True"
| "is_write _ = False"

lemma keys_plain_set:
  assumes "keys_plain r" "k \<noteq> []" "\<not> dangerous k"
  shows "keys_plain (rec_set r k v)"
proof -
  have "fst ` set (rec_set r k v) \<subseteq> insert k (fst ` set r)" using image_mono [OF set_rec_set [of r k v], of fst] by simp
  moreover have "\<forall>a \<in> insert k (fst ` set r). a \<noteq> [] \<and> \<not> dangerous a" using assms by (simp add: keys_plain_def)
  ultimately have "\<forall>a \<in> fst ` set (rec_set r k v). a \<noteq> [] \<and> \<not> dangerous a" by (rule subset_ball)
  then show ?thesis using assms(1) distinct_rec_set [of r k v] unfolding keys_plain_def by blast
qed

lemma keys_plain_fold:
  "keys_plain r \<Longrightarrow>
   keys_plain (fold (\<lambda>e r. if kv_key e \<noteq> [] \<and> \<not> dangerous (kv_key e) then rec_set r (kv_key e) (kv_value e) else r) es r)"
  by (induction es arbitrary: r) (simp_all add: keys_plain_set)

lemma toRecord_ok: "toRecord es \<noteq> [] \<Longrightarrow> keys_ok (toRecord es)"
proof -
  have "keys_plain (toRecord es)" unfolding toRecord_def by (rule keys_plain_fold) (simp add: keys_plain_def)
  then show "toRecord es \<noteq> [] \<Longrightarrow> keys_ok (toRecord es)" by (simp add: keys_ok_def)
qed

lemma body_parts:
  "js_get (buildBody p s) ''spec'' = (if members_of (sf_spec s) \<noteq> [] then sf_spec s else JUndef)"
  "js_get (js_get (buildBody p s) ''metadata'') ''name'' = JStr (sf_name s)"
  "js_get (js_get (buildBody p s) ''metadata'') ''labels'' =
     (if toRecord (sf_labels s) \<noteq> [] then text_object (toRecord (sf_labels s)) else JUndef)"
  "js_get (js_get (buildBody p s) ''metadata'') ''annotations'' =
     (if toRecord (sf_annotations s) \<noteq> [] then text_object (toRecord (sf_annotations s)) else JUndef)"
  "body_version (buildBody p s) = (if fp_edit p \<and> sf_version s \<noteq> [] then JStr (sf_version s) else JUndef)"
  by (simp_all add: buildBody_def body_version_def Let_def)

lemma keys_ok_cong: "map fst r = map fst r' \<Longrightarrow> keys_ok r \<longleftrightarrow> keys_ok r'"
  unfolding keys_ok_def keys_plain_def by (metis list.set_map map_is_Nil_conv)

lemma text_object_sound: "keys_ok r \<Longrightarrow> pairs_sound (text_object r)"
proof -
  have "map fst (map (\<lambda>(k, v). (k, JStr v)) r) = map fst r" by (induction r) auto
  from keys_ok_cong [OF this] show "keys_ok r \<Longrightarrow> pairs_sound (text_object r)"
    by (auto simp: pairs_sound_def text_object_def object_of_def strings_only_def)
qed

lemma members_container: "members_of v \<noteq> [] \<Longrightarrow> is_container v"
  by (cases v) (simp_all add: members_of_def is_container_def)

lemma buildBody_sound:
  assumes "\<And>props. sf_schema s = Some props \<Longrightarrow> spec_fits props (sf_spec s)"
  shows "body_sound (sf_schema s) (buildBody p s)"
proof -
  have pairs: "pairs_sound (if toRecord es \<noteq> [] then text_object (toRecord es) else JUndef)" for es
    using text_object_sound [OF toRecord_ok [of es]] by (simp add: pairs_sound_def)
  show ?thesis
    unfolding body_sound_def Let_def body_parts spec_sound_def
    using pairs assms members_container by (auto split: option.splits)
qed

lemma buildBody_named: "js_trim (sf_name s) \<noteq> [] \<Longrightarrow> named (buildBody p s)"
  by (simp add: named_def body_parts)

definition form_inv :: "schema_form \<Rightarrow> bool" where
  "form_inv s \<longleftrightarrow>
     (\<forall>props. sf_schema s = Some props \<longrightarrow> spec_fits props (sf_spec s))
     \<and> (sf_loading s = Loaded \<or> (sf_spec s = JObj [] \<and> list_all (\<lambda>q. q \<in> {GetCrd} \<union> range GetInstance) (sf_sent s)))
     \<and> list_all (request_sound (sf_schema s)) (sf_sent s)
     \<and> length (filter is_write (sf_sent s)) = sf_settled s + (if sf_submitting s then 1 else 0)
     \<and> sf_version s = (case sf_reported s of [] \<Rightarrow> [] | v # _ \<Rightarrow> v) \<and> [] \<notin> set (sf_reported s)"

fun allowed :: "schema_form \<Rightarrow> form_event \<Rightarrow> bool" where
  "allowed s (SpecEdit k e) = (plain_key k \<and> plain_edit e)"
| "allowed s (InstanceReply (Inl (Some i))) =
     (case sf_schema s of
        None \<Rightarrow> True | Some props \<Rightarrow> \<not> is_container (ir_spec i) \<or> spec_fits props (ir_spec i))"
| "allowed s _ = True"

text \<open>The fields of the form the invariant does not speak of.\<close>

lemma form_inv_fields [simp]:
  "form_inv (s\<lparr>sf_error := a\<rparr>) = form_inv s" "form_inv (s\<lparr>sf_kind := b\<rparr>) = form_inv s"
  "form_inv (s\<lparr>sf_namespaced := c\<rparr>) = form_inv s" "form_inv (s\<lparr>sf_api := d\<rparr>) = form_inv s"
  "form_inv (s\<lparr>sf_yaml := c\<rparr>) = form_inv s" "form_inv (s\<lparr>sf_validating := c\<rparr>) = form_inv s"
  "form_inv (s\<lparr>sf_result := e\<rparr>) = form_inv s" "form_inv (s\<lparr>sf_name := b\<rparr>) = form_inv s"
  "form_inv (s\<lparr>sf_namespace := b\<rparr>) = form_inv s" "form_inv (s\<lparr>sf_labels := f\<rparr>) = form_inv s"
  "form_inv (s\<lparr>sf_annotations := f\<rparr>) = form_inv s" "form_inv (s\<lparr>sf_next_id := g\<rparr>) = form_inv s"
  "form_inv (s\<lparr>sf_toasts := h\<rparr>) = form_inv s" "form_inv (s\<lparr>sf_closed := c\<rparr>) = form_inv s"
  by (simp_all add: form_inv_def)


lemma form_init_inv: "form_inv (form_init p selected n)"
  by (simp add: form_inv_def form_init_def)

lemma empty_fits: "spec_fits props (JObj [])"
  by (simp add: spec_fits_def object_of_def)

lemma load_failed_inv: "form_inv s \<Longrightarrow> form_inv (load_failed f s)"
  by (simp add: form_inv_def load_failed_def)

lemma crd_settled_inv: "form_inv s \<Longrightarrow> sf_loading s = LoadingCrd \<Longrightarrow> form_inv (crd_settled p r s)"
proof (cases r)
  case (Inl c)
  assume inv: "form_inv s" and ld: "sf_loading s = LoadingCrd"
  have gets: "list_all (request_sound sch) (sf_sent s)" "filter is_write (sf_sent s) = []" for sch
    using inv ld unfolding form_inv_def by (auto simp: list_all_iff filter_empty_conv)
  show ?thesis
  proof (cases c)
    case None
    then show ?thesis using inv Inl by (simp add: crd_settled_def form_inv_def)
  next
    case (Some d)
    then show ?thesis using inv ld Inl gets by (auto simp: crd_settled_def form_inv_def Let_def empty_fits)
  qed
qed (simp add: crd_settled_def load_failed_inv)

lemma load_rows_inv:
  "form_inv s \<Longrightarrow> (\<And>rows s. form_inv (f rows s) = form_inv s) \<Longrightarrow> form_inv (load_rows r f s)"
  by (cases r) (simp_all add: load_rows_def)

lemma load_rows_other:
  "(\<And>rows s. sf_schema (f rows s) = sf_schema s) \<Longrightarrow> sf_schema (load_rows r f s) = sf_schema s"
  by (cases r) (simp_all add: load_rows_def)

lemma instance_settled_inv:
  assumes "form_inv s" "allowed s (InstanceReply r)"
  shows "form_inv (instance_settled r s)"
proof (cases r)
  case (Inl i)
  show ?thesis
  proof (cases i)
    case None
    then show ?thesis using assms Inl by (simp add: instance_settled_def form_inv_def)
  next
    case (Some d)
    let ?s = "load_rows (ir_annotations d) (\<lambda>rows s. s\<lparr>sf_annotations := rows\<rparr>)
                (load_rows (ir_labels d) (\<lambda>rows s. s\<lparr>sf_labels := rows\<rparr>) s)"
    have i: "form_inv ?s" by (intro load_rows_inv assms(1)) simp_all
    have sch: "sf_schema ?s = sf_schema s" by (simp add: load_rows_other)
    let ?t = "if has_text (ir_version d)
              then ?s\<lparr>sf_version := the (ir_version d), sf_reported := the (ir_version d) # sf_reported ?s\<rparr> else ?s"
    have t: "form_inv ?t" using i by (auto simp: form_inv_def has_text_iff)
    have "form_inv ((if is_container (ir_spec d) then ?t\<lparr>sf_spec := ir_spec d\<rparr> else ?t)\<lparr>sf_loading := Loaded\<rparr>)"
      using t assms(2) sch Inl Some by (auto simp: form_inv_def split: if_splits)
    then show ?thesis using Inl Some by (simp add: instance_settled_def Let_def)
  qed
qed (simp add: instance_settled_def load_failed_inv assms)

lemma toast_inv [simp]: "form_inv (toast m b s) = form_inv s"
  by (simp add: toast_def)

lemma handleSubmit_inv:
  assumes "form_inv s" "\<not> sf_submitting s" "sf_loading s = Loaded"
  shows "form_inv (handleSubmit p s)"
proof -
  have "body_sound (sf_schema s) (buildBody p s)" by (rule buildBody_sound) (use assms(1) in \<open>simp add: form_inv_def\<close>)
  then show ?thesis using assms buildBody_named [of s p]
    by (cases "js_trim (sf_name s) = []") (auto simp: handleSubmit_def toast_def form_inv_def Let_def)
qed

lemma handleValidate_inv:
  assumes "form_inv s" "sf_loading s = Loaded"
  shows "form_inv (handleValidateForm p s)"
proof -
  have "body_sound (sf_schema s) (buildBody p s)" by (rule buildBody_sound) (use assms(1) in \<open>simp add: form_inv_def\<close>)
  then show ?thesis using assms by (auto simp: handleValidateForm_def form_inv_def)
qed

lemma submit_settled_inv: "form_inv s \<Longrightarrow> sf_submitting s \<Longrightarrow> form_inv (submit_settled p r s)"
  by (cases r) (auto simp: submit_settled_def toast_def form_inv_def has_text_iff)

lemma edit_rows_inv: "form_inv (edit_labels_of e s) = form_inv s" "form_inv (edit_annotations_of e s) = form_inv s"
  by (auto simp: edit_labels_of_def edit_annotations_of_def split: prod.split)

lemma form_step_inv:
  assumes "form_inv s" "allowed s e" "form_step parse p s e = Some t"
  shows "form_inv t"
proof (cases e)
  case (SpecEdit k ed)
  then obtain props x where x: "sf_schema s = Some props" "spec_edit parse props (sf_spec s) k ed = Some x"
      "t = s\<lparr>sf_spec := x\<rparr>" "sf_loading s = Loaded"
    using assms(3) by (auto simp: fields_shown_def form_shown_def split: if_splits option.splits)
  have "spec_fits props (sf_spec s)" using assms(1) x(1) by (simp add: form_inv_def)
  then have "spec_fits props x"
    using spec_step_fits [of props "sf_spec s" "(k, ed)" parse x] x(2) assms(2) SpecEdit
    by (simp add: spec_step_def plain_step_def)
  then show ?thesis using assms(1) x by (simp add: form_inv_def)
next
  case (SpecYaml u)
  then show ?thesis using assms
    by (auto simp: yaml_spec_def form_inv_def fields_shown_def form_shown_def split: if_splits option.splits)
next
  case (CrdReply r)
  then show ?thesis using assms crd_settled_inv by (auto split: if_splits)
next
  case (InstanceReply r)
  then show ?thesis using assms instance_settled_inv by (auto split: if_splits)
next
  case PressSubmit
  then show ?thesis using assms handleSubmit_inv by (auto simp: form_shown_def split: if_splits)
next
  case PressValidate
  then show ?thesis using assms handleValidate_inv by (auto simp: form_shown_def split: if_splits)
next
  case (SubmitReply r)
  then show ?thesis using assms submit_settled_inv by (auto split: if_splits)
qed (use assms edit_rows_inv in \<open>auto simp: validation_settled_def split: if_splits\<close>)

interpretation forms: machine "form_step parse p" allowed form_inv for parse p
  by unfold_locales (rule form_step_inv)




section \<open>The preview\<close>

text \<open>The body as YAML shows it: without the empty members of the spec.\<close>

definition shown_body :: "js \<Rightarrow> js" where
  "shown_body body =
     JObj (map (\<lambda>(k, v). (k, if k = ''spec'' then view_value (JObj (members_of v)) else v)) (object_of body))"

lemma pairs_view_text:
  "keys_ok r \<Longrightarrow> pairs_view title (Some r) = [(title, text_object r)]"
proof -
  assume k: "keys_ok r"
  have "(\<lambda>(k, v). k \<noteq> []) q" if "q \<in> set r" for q using k that by (cases q) (force simp: keys_ok_def keys_plain_def)
  then have "filter (\<lambda>(k, v). k \<noteq> []) r = r" by (simp add: filter_id_conv)
  then show ?thesis using k by (simp add: pairs_view_def keys_ok_def text_object_def Let_def)
qed

definition preview_metadata :: "schema_form \<Rightarrow> form_metadata" where
  "preview_metadata s =
     (let labels = toRecord (sf_labels s); annotations = toRecord (sf_annotations s)
      in \<lparr>fm_name = sf_name s, fm_namespace = (if sf_namespaced s then Some (sf_namespace s) else None),
          fm_labels = (if labels \<noteq> [] then Some labels else None),
          fm_annotations = (if annotations \<noteq> [] then Some annotations else None)\<rparr>)"

lemma yamlPreview_form: "yamlPreview p s = formStateToYaml (apiVersion p s) (sf_kind s) (preview_metadata s) (members_of (sf_spec s))"
  by (simp add: yamlPreview_def preview_metadata_def Let_def)

lemma view_of_body:
  assumes "\<not> fp_edit p" "\<not> sf_namespaced s \<or> sf_namespace s \<noteq> []"
  shows "form_view (apiVersion p s) (sf_kind s) (preview_metadata s) (members_of (sf_spec s)) = shown_body (buildBody p s)"
proof -
  have opt: "pairs_view title (if toRecord es \<noteq> [] then Some (toRecord es) else None)
      = (if toRecord es \<noteq> [] then [(title, text_object (toRecord es))] else [])" for title es
    using pairs_view_text [OF toRecord_ok [of es], of title] by (cases "toRecord es = []") (simp_all add: pairs_view_def)
  show ?thesis
    using assms unfolding form_view_def shown_body_def buildBody_def preview_metadata_def Let_def form_metadata.simps opt
    by (simp add: object_of_def)
qed




section \<open>Examples\<close>

definition demo_form :: form_props where
  "demo_form = \<lparr>fp_group = ''io'', fp_resource = ''rs'', fp_namespace = None, fp_name = None, fp_edit = False\<rparr>"

definition demo_crd :: crd_reply where
  "demo_crd = \<lparr>cr_kind = ''R'', cr_namespaced = True, cr_version = ''v1'', cr_spec = Some demo_props\<rparr>"

definition demo_events :: "form_event list" where
  "demo_events = [CrdReply (Inl (Some demo_crd)), TypeName ''x'', SpecEdit ''replicas'' (Input ''3''), PressSubmit]"

definition demo_body :: js where
  "demo_body =
     JObj [(''apiVersion'', JStr ''io/v1''), (''kind'', JStr ''R''),
           (''metadata'', JObj [(''name'', JStr ''x''), (''namespace'', JStr ''prod'')]),
           (''spec'', JObj [(''replicas'', JNum 3)])]"



text \<open>
  The preview leaves out what the body sends: an emptied field of an integer or a text keeps the
  empty text, which is not in the YAML but goes to the server.
\<close>

lemma preview_hides_blank:
  "int_or_string [] = Some (JStr [])
   \<and> (\<exists>s. js_get (buildBody demo_form s) ''spec'' = JObj [(''port'', JStr [])]
         \<and> view_value (JObj (members_of (sf_spec s))) = JNull)"
proof
  show "int_or_string [] = Some (JStr [])" by code_simp
  show "\<exists>s. js_get (buildBody demo_form s) ''spec'' = JObj [(''port'', JStr [])]
      \<and> view_value (JObj (members_of (sf_spec s))) = JNull"
    by (rule exI [of _ "(form_init demo_form [] 0)\<lparr>sf_spec := JObj [(''port'', JStr [])]\<rparr>"])
      (simp add: body_parts members_of_def isEmptyValue_def)
qed

text \<open>Without a schema the spec cannot be emptied again: the empty text is no object.\<close>

lemma yaml_spec_stays: "parse [] = Some JNull \<Longrightarrow> yaml_spec parse [] s = s"
  by (simp add: yaml_spec_def is_container_def)

text \<open>A second row with the same key replaces the first in what is sent, although both are shown.\<close>

lemma duplicate_label_last_wins:
  "toRecord [\<lparr>kv_id = 1, kv_key = ''a'', kv_value = ''1''\<rparr>, \<lparr>kv_id = 2, kv_key = ''a'', kv_value = ''2''\<rparr>] = [(''a'', ''2'')]
   \<and> ''a'' \<in> findDuplicateKeys [\<lparr>kv_id = 1, kv_key = ''a'', kv_value = ''1''\<rparr>, \<lparr>kv_id = 2, kv_key = ''a'', kv_value = ''2''\<rparr>]"
  by (simp add: toRecord_def findDuplicateKeys_def dangerous_def)

text \<open>The duplicates marked are exactly the keys of more than one row.\<close>

lemma duplicates_marked: "findDuplicateKeys es = {k. k \<noteq> [] \<and> length (filter (\<lambda>e. kv_key e = k) es) > 1}"
proof -
  let ?f = "\<lambda>e (seen, dupes). if kv_key e \<noteq> []
              then (insert (kv_key e) seen, if kv_key e \<in> seen then insert (kv_key e) dupes else dupes) else (seen, dupes)"
  let ?n = "\<lambda>es k. length (filter (\<lambda>e. kv_key e = k) es)"
  have "fold ?f es ({}, {}) = ({k. k \<noteq> [] \<and> ?n es k > 0}, {k. k \<noteq> [] \<and> ?n es k > 1})" for es
  proof (induction es rule: rev_induct)
    case (snoc e es)
    then show ?case by (auto simp: filter_empty_conv)
  qed simp
  from this [of es] show ?thesis unfolding findDuplicateKeys_def by (simp only: snd_conv)
qed

text \<open>The ids of the rows, which they are rendered with, stay distinct.\<close>

definition ids_ok :: "nat \<times> kv_entry list \<Rightarrow> bool" where
  "ids_ok s \<longleftrightarrow> distinct (map kv_id (snd s)) \<and> (\<forall>e \<in> set (snd s). kv_id e < fst s)"

lemma map_set_row: "(\<And>e. kv_id (u e) = kv_id e) \<Longrightarrow> map kv_id (set_row i u es) = map kv_id es"
  by (auto simp: set_row_def map_update intro: nth_equalityI simp: nth_list_update)

lemma ids_ok_map: "map kv_id es' = map kv_id es \<Longrightarrow> ids_ok (n, es') = ids_ok (n, es)"
  unfolding ids_ok_def fst_conv snd_conv by (metis (no_types, lifting) imageE image_eqI list.set_map)

lemma edit_rows_ids: "ids_ok s \<Longrightarrow> ids_ok (edit_rows e s)"
proof (cases "(e, s)" rule: edit_rows.cases)
  case (3 i n es)
  assume "ids_ok s"
  then have d: "distinct (map kv_id es)" "\<forall>e \<in> set es. kv_id e < n" using 3 by (simp_all add: ids_ok_def)
  have "distinct (map kv_id (without i es))"
    using set_take_disj_set_drop_if_distinct [OF d(1), of i "i + 1"] d(1)
    by (simp add: without_def take_map drop_map flip: take_map drop_map)
  then show ?thesis using 3 subset_ball [OF without_subset d(2)] by (simp add: ids_ok_def)
next
  case (4 n es)
  assume "ids_ok s"
  then show ?thesis using 4 by (auto simp: ids_ok_def less_SucI)
qed (auto simp: ids_ok_map [OF map_set_row])

end
