(* ===== verification/Cluster_Topology.thy ===== *)
theory Cluster_Topology
  imports Namespace_Topology K8s_Types
begin

text \<open>
The cluster graph (\<open>islands/ClusterTopology.tsx\<close>): the island fetches seven lists of resources,
  lays them out in five rows, joins them by label selectors, node names and volume claims, and
  prepares the text of each node's tooltip. The edges are proved to be the relations between the
  resources, the tooltips to say the same as the edges, and the nodes not to overlap. Lengths on
  the canvas are exact reals.
\<close>

section \<open>Resources\<close>

record topo_meta =
  tm_name :: string
  tm_namespace :: "string option"
  tm_labels :: "str_map option"

record cluster_node =
  cn_meta :: topo_meta
  cn_conditions :: "(string \<times> string) list option"

record cluster_service =
  cs_meta :: topo_meta
  cs_selector :: "str_map option"

text \<open>A volume is its name and the claim it mounts, if it mounts one.\<close>

record cluster_pod =
  cp_meta :: topo_meta
  cp_node :: "string option"
  cp_containers :: "string list option"
  cp_volumes :: "(string \<times> string option) list option"
  cp_phase :: "string option"

record cluster_pvc =
  cv_meta :: topo_meta
  cv_volume :: "string option"
  cv_phase :: "string option"

record cluster_workload =
  cw_kind :: string
  cw_meta :: topo_meta
  cw_labels :: "str_map option"

record raw_data =
  rd_nodes :: "cluster_node list"
  rd_svcs :: "cluster_service list"
  rd_workloads :: "cluster_workload list"
  rd_pods :: "cluster_pod list"
  rd_pvcs :: "cluster_pvc list"

text \<open>A reply of \<open>Promise.allSettled\<close>: \<open>None\<close> is a request that failed or whose \<open>data\<close> is no array.\<close>

definition extractArr :: "'a list option \<Rightarrow> 'a list" where
  "extractArr res = (case res of None \<Rightarrow> [] | Some xs \<Rightarrow> xs)"

definition load :: "cluster_node list option \<Rightarrow> cluster_service list option \<Rightarrow> cluster_pod list option
    \<Rightarrow> cluster_pvc list option \<Rightarrow> cluster_workload list option \<Rightarrow> cluster_workload list option
    \<Rightarrow> cluster_workload list option \<Rightarrow> raw_data" where
  "load nodesRes svcsRes podsRes pvcsRes depsRes stsRes dsRes =
     (let deployments = map (\<lambda>w. w\<lparr>cw_kind := ''Deployment''\<rparr>) (extractArr depsRes);
          statefulSets = map (\<lambda>w. w\<lparr>cw_kind := ''StatefulSet''\<rparr>) (extractArr stsRes);
          daemonSets = map (\<lambda>w. w\<lparr>cw_kind := ''DaemonSet''\<rparr>) (extractArr dsRes)
      in \<lparr>rd_nodes = extractArr nodesRes, rd_svcs = extractArr svcsRes,
          rd_workloads = deployments @ statefulSets @ daemonSets,
          rd_pods = extractArr podsRes, rd_pvcs = extractArr pvcsRes\<rparr>)"

definition matchesSelector :: "str_map option \<Rightarrow> str_map option \<Rightarrow> bool" where
  "matchesSelector selector labels =
     (case (selector, labels) of
        (Some sel, Some ls) \<Rightarrow> list_all (\<lambda>(k, v). rec_get ls k = Some v) sel
      | _ \<Rightarrow> False)"

text \<open>\<open>getHealthStatus\<close>, one function per kind of resource it is called with.\<close>

datatype node_health = HealthOk | HealthWarning | HealthError

definition node_health_of :: "cluster_node \<Rightarrow> node_health" where
  "node_health_of n =
     (case List.find (\<lambda>c. fst c = ''Ready'') (case cn_conditions n of None \<Rightarrow> [] | Some cs \<Rightarrow> cs) of
        Some (_, status) \<Rightarrow> if status = ''True'' then HealthOk else HealthError
      | None \<Rightarrow> HealthError)"

definition pod_health :: "cluster_pod \<Rightarrow> node_health" where
  "pod_health p =
     (if cp_phase p = Some ''Running'' \<or> cp_phase p = Some ''Succeeded'' then HealthOk
      else if cp_phase p = Some ''Pending'' then HealthWarning else HealthError)"

definition pvc_health :: "cluster_pvc \<Rightarrow> node_health" where
  "pvc_health v =
     (if cv_phase v = Some ''Bound'' then HealthOk
      else if cv_phase v = Some ''Pending'' then HealthWarning else HealthError)"

text \<open>The ids the template literals build; an absent namespace prints as \<open>undefined\<close>.\<close>

definition ns_text :: "topo_meta \<Rightarrow> string" where
  "ns_text m = (case tm_namespace m of None \<Rightarrow> ''undefined'' | Some ns \<Rightarrow> ns)"

definition node_id :: "string \<Rightarrow> string" where
  "node_id name = ''node-'' @ name"

definition svc_id :: "cluster_service \<Rightarrow> string" where
  "svc_id s = ''svc-'' @ ns_text (cs_meta s) @ ''-'' @ tm_name (cs_meta s)"

definition wl_id :: "cluster_workload \<Rightarrow> string" where
  "wl_id w = ''wl-'' @ cw_kind w @ ''-'' @ ns_text (cw_meta w) @ ''-'' @ tm_name (cw_meta w)"

definition pod_id :: "cluster_pod \<Rightarrow> string" where
  "pod_id p = ''pod-'' @ ns_text (cp_meta p) @ ''-'' @ tm_name (cp_meta p)"

definition claim_id :: "topo_meta \<Rightarrow> string \<Rightarrow> string" where
  "claim_id m claim = ''pvc-'' @ ns_text m @ ''-'' @ claim"

definition pvc_id :: "cluster_pvc \<Rightarrow> string" where
  "pvc_id v = claim_id (cv_meta v) (tm_name (cv_meta v))"

definition wl_label :: "cluster_workload \<Rightarrow> string" where
  "wl_label w = cw_kind w @ ''/'' @ tm_name (cw_meta w)"

section \<open>Layout\<close>

datatype topo_kind = KNode | KService | KWorkload | KPod | KPvc

record topo_item =
  ti_id :: string
  ti_label :: string
  ti_kind :: topo_kind
  ti_namespace :: "string option"
  ti_health :: node_health
  ti_count :: "nat option"
  ti_names :: "string list option"

record placed_node = topo_item +
  pl_abbr :: string
  pl_x :: real
  pl_y :: real
  pl_size :: real

definition place_item :: "topo_item \<Rightarrow> string \<Rightarrow> real \<Rightarrow> real \<Rightarrow> real \<Rightarrow> placed_node" where
  "place_item item abbr x y sz =
     topo_item.extend item (placed_node.fields abbr x y sz)"

lemma place_item_simps [simp]:
  "ti_id (place_item it a x y s) = ti_id it" "ti_kind (place_item it a x y s) = ti_kind it"
  "ti_label (place_item it a x y s) = ti_label it" "ti_namespace (place_item it a x y s) = ti_namespace it"
  "pl_x (place_item it a x y s) = x" "pl_y (place_item it a x y s) = y" "pl_size (place_item it a x y s) = s"
  by (simp_all add: place_item_def topo_item.defs placed_node.defs)

definition ITEM_SPACING_H :: real where "ITEM_SPACING_H = 62"

definition max_items :: "raw_data \<Rightarrow> nat" where
  "max_items r = Max {length (rd_nodes r), length (rd_svcs r), length (rd_workloads r),
                      length (rd_pods r), length (rd_pvcs r)}"

definition virtual_width :: "raw_data \<Rightarrow> real" where
  "virtual_width r = max 400 ((real (max_items r) + 1) * ITEM_SPACING_H)"

definition virtual_height :: "raw_data \<Rightarrow> real" where
  "virtual_height r = max 400 (virtual_width r / (23 / 10))"

fun kindAbbr :: "topo_kind \<Rightarrow> string" where
  "kindAbbr KNode = ''N''"
| "kindAbbr KService = ''SVC''"
| "kindAbbr KWorkload = ''WL''"
| "kindAbbr KPod = ''P''"
| "kindAbbr KPvc = ''PVC''"

text \<open>One row of \<open>placeRow\<close> on a canvas of width \<open>w\<close> at height \<open>y\<close>.\<close>

definition placeRow :: "real \<Rightarrow> real \<Rightarrow> real \<Rightarrow> topo_item list \<Rightarrow> placed_node list" where
  "placeRow w y sz items =
     (let spacing = w / (real (length items) + 1)
      in map (\<lambda>(i, item).
           let base = kindAbbr (ti_kind item);
               abbr = (if ti_kind item = KNode then base @ string_of_nat (i + 1) else base)
           in place_item item abbr (spacing * (real i + 1)) y sz) (enumerate 0 items))"

definition node_item :: "cluster_node \<Rightarrow> topo_item" where
  "node_item n = \<lparr>ti_id = node_id (tm_name (cn_meta n)), ti_label = tm_name (cn_meta n), ti_kind = KNode,
     ti_namespace = None, ti_health = node_health_of n, ti_count = None, ti_names = None\<rparr>"

definition svc_item :: "cluster_service \<Rightarrow> topo_item" where
  "svc_item s = \<lparr>ti_id = svc_id s, ti_label = tm_name (cs_meta s), ti_kind = KService,
     ti_namespace = tm_namespace (cs_meta s), ti_health = HealthOk, ti_count = None, ti_names = None\<rparr>"

definition wl_item :: "cluster_workload \<Rightarrow> topo_item" where
  "wl_item w = \<lparr>ti_id = wl_id w, ti_label = wl_label w, ti_kind = KWorkload,
     ti_namespace = tm_namespace (cw_meta w), ti_health = HealthOk, ti_count = None, ti_names = None\<rparr>"

definition pod_item :: "cluster_pod \<Rightarrow> topo_item" where
  "pod_item p = \<lparr>ti_id = pod_id p, ti_label = tm_name (cp_meta p), ti_kind = KPod,
     ti_namespace = tm_namespace (cp_meta p), ti_health = pod_health p,
     ti_count = Some (case cp_containers p of None \<Rightarrow> 1 | Some cs \<Rightarrow> length cs),
     ti_names = Some (case cp_containers p of None \<Rightarrow> [] | Some cs \<Rightarrow> cs)\<rparr>"

definition pvc_item :: "cluster_pvc \<Rightarrow> topo_item" where
  "pvc_item v = \<lparr>ti_id = pvc_id v, ti_label = tm_name (cv_meta v), ti_kind = KPvc,
     ti_namespace = tm_namespace (cv_meta v), ti_health = pvc_health v, ti_count = None, ti_names = None\<rparr>"

definition workload_abbr :: "string \<Rightarrow> string" where
  "workload_abbr kind =
     (case rec_get [(''Deployment'', ''DEP''), (''StatefulSet'', ''STS''), (''DaemonSet'', ''DS'')] kind of
        Some a \<Rightarrow> a | None \<Rightarrow> take 3 kind)"

text \<open>\<open>placed.abbr = ...\<close> on the first node of an id.\<close>

fun set_abbr :: "string \<Rightarrow> string \<Rightarrow> placed_node list \<Rightarrow> placed_node list" where
  "set_abbr nid a [] = []"
| "set_abbr nid a (n # ns) = (if ti_id n = nid then n\<lparr>pl_abbr := a\<rparr> # ns else n # set_abbr nid a ns)"

definition place_pods :: "real \<Rightarrow> real \<Rightarrow> real \<Rightarrow> topo_item list \<Rightarrow> placed_node list" where
  "place_pods w y sz items =
     (let podCount = length items; spacing = w / (real podCount + 1)
      in map (\<lambda>(i, item). place_item item ''P'' (spacing * (real i + 1)) y sz) (enumerate 0 items))"

text \<open>\<open>topoNodes\<close>: the rows in the order they are pushed.\<close>

definition topo_nodes :: "raw_data \<Rightarrow> placed_node list" where
  "topo_nodes r =
     (let w = virtual_width r; h = virtual_height r;
          nodeSize = (if length (rd_nodes r) > 6 then 40 else 52);
          svcSize = (if length (rd_svcs r) > 8 then 32 else 44);
          wlSize = (if length (rd_workloads r) > 10 then 28 else 36);
          podSize = (if length (rd_pods r) > 10 then 28 else 36);
          pvcSize = (if length (rd_pvcs r) > 6 then 28 else 36);
          rows1 = placeRow w (h * (8 / 100)) nodeSize (map node_item (rd_nodes r));
          rows2 = rows1 @ placeRow w (h * (25 / 100)) svcSize (map svc_item (rd_svcs r));
          rows3 = rows2 @ placeRow w (h * (45 / 100)) wlSize (map wl_item (rd_workloads r));
          named = fold (\<lambda>wl ns. set_abbr (wl_id wl) (workload_abbr (cw_kind wl)) ns) (rd_workloads r) rows3;
          rows4 = named @ place_pods w (h * (65 / 100)) podSize (map pod_item (rd_pods r))
      in rows4 @ placeRow w (h * (85 / 100)) pvcSize (map pvc_item (rd_pvcs r)))"

section \<open>Edges\<close>

record cluster_edge =
  ce_from :: string
  ce_to :: string
  ce_color :: string

text \<open>\<open>metadata.namespace === metadata.namespace && matchesSelector(selector, labels)\<close>.\<close>

definition selects :: "topo_meta \<Rightarrow> str_map option \<Rightarrow> cluster_pod \<Rightarrow> bool" where
  "selects m sel p \<longleftrightarrow>
     tm_namespace m = tm_namespace (cp_meta p) \<and> matchesSelector sel (tm_labels (cp_meta p))"

definition svc_selects :: "cluster_service \<Rightarrow> cluster_pod \<Rightarrow> bool" where
  "svc_selects s p \<longleftrightarrow> selects (cs_meta s) (cs_selector s) p"

definition wl_selects :: "cluster_workload \<Rightarrow> cluster_pod \<Rightarrow> bool" where
  "wl_selects w p \<longleftrightarrow> selects (cw_meta w) (cw_labels w) p"

definition node_edges :: "raw_data \<Rightarrow> cluster_edge list" where
  "node_edges r = concat (map (\<lambda>n.
     let connectedSvcs = fold (\<lambda>p c.
           if cp_node p \<noteq> Some (tm_name (cn_meta n)) then c
           else fold (\<lambda>s c. if svc_selects s p then set_add c (svc_id s) else c) (rd_svcs r) c)
         (rd_pods r) []
     in map (\<lambda>s. \<lparr>ce_from = node_id (tm_name (cn_meta n)), ce_to = s, ce_color = ''var(--accent)''\<rparr>)
          connectedSvcs) (rd_nodes r))"

text \<open>\<open>podToWorkloads\<close> and the edges that are pushed while it is built.\<close>

type_synonym id_lists = "(string \<times> string list) list"

definition link_pod :: "cluster_workload \<Rightarrow> cluster_pod \<Rightarrow> id_lists \<times> cluster_edge list
    \<Rightarrow> id_lists \<times> cluster_edge list" where
  "link_pod w p st =
     (if wl_selects w p then
        (rec_set (fst st) (pod_id p) (set_add (list_at (fst st) (pod_id p)) (wl_id w)),
         snd st @ [\<lparr>ce_from = wl_id w, ce_to = pod_id p, ce_color = ''var(--info)''\<rparr>])
      else st)"

definition link_workloads :: "raw_data \<Rightarrow> id_lists \<times> cluster_edge list" where
  "link_workloads r = fold (\<lambda>w st.
     if cw_labels w = None then st else fold (link_pod w) (rd_pods r) st) (rd_workloads r) ([], [])"

definition link_service :: "id_lists \<Rightarrow> cluster_service \<Rightarrow> cluster_pod \<Rightarrow> string list \<times> cluster_edge list
    \<Rightarrow> string list \<times> cluster_edge list" where
  "link_service podToWorkloads s p st =
     (if svc_selects s p then
        (case rec_get podToWorkloads (pod_id p) of
           Some wlIds \<Rightarrow> (fold (\<lambda>wlId c. set_add c wlId) wlIds (fst st), snd st)
         | None \<Rightarrow> (fst st,
             snd st @ [\<lparr>ce_from = svc_id s, ce_to = pod_id p, ce_color = ''var(--accent-secondary)''\<rparr>]))
      else st)"

definition service_edges :: "id_lists \<Rightarrow> raw_data \<Rightarrow> cluster_edge list" where
  "service_edges podToWorkloads r = concat (map (\<lambda>s.
     let (connectedWorkloads, direct) = fold (link_service podToWorkloads s) (rd_pods r) ([], [])
     in direct @ map (\<lambda>w. \<lparr>ce_from = svc_id s, ce_to = w, ce_color = ''var(--accent-secondary)''\<rparr>)
          connectedWorkloads) (rd_svcs r))"

definition pod_volumes :: "cluster_pod \<Rightarrow> (string \<times> string option) list" where
  "pod_volumes p = (case cp_volumes p of None \<Rightarrow> [] | Some vs \<Rightarrow> vs)"

definition claim_edges :: "string list \<Rightarrow> raw_data \<Rightarrow> cluster_edge list" where
  "claim_edges topoNodeIds r = concat (map (\<lambda>p. concat (map (\<lambda>vol.
     if has_text (snd vol) \<and> claim_id (cp_meta p) (the (snd vol)) \<in> set topoNodeIds
     then [\<lparr>ce_from = pod_id p, ce_to = claim_id (cp_meta p) (the (snd vol)), ce_color = ''var(--info)''\<rparr>]
     else []) (pod_volumes p))) (rd_pods r))"

definition topo_edges :: "raw_data \<Rightarrow> cluster_edge list" where
  "topo_edges r =
     (let (podToWorkloads, owning) = link_workloads r
      in node_edges r @ owning @ service_edges podToWorkloads r
         @ claim_edges (map ti_id (topo_nodes r)) r)"

text \<open>The lines that are drawn: an edge with an end that is no node is left out.\<close>

definition nodeMap :: "placed_node list \<Rightarrow> (string \<times> placed_node) list" where
  "nodeMap ns = fold (\<lambda>n m. rec_set m (ti_id n) n) ns []"

definition drawn_lines :: "raw_data \<Rightarrow> ((real \<times> real) \<times> (real \<times> real) \<times> string) list" where
  "drawn_lines r = concat (map (\<lambda>e.
     case (rec_get (nodeMap (topo_nodes r)) (ce_from e), rec_get (nodeMap (topo_nodes r)) (ce_to e)) of
       (Some a, Some b) \<Rightarrow> [((pl_x a, pl_y a), (pl_x b, pl_y b), ce_color e)]
     | _ \<Rightarrow> []) (topo_edges r))"

section \<open>What the edges are\<close>

lemma set_add_set [simp]: "set (set_add c x) = insert x (set c)"
  by (auto simp: set_add_def)

lemma fold_set_add:
  "set (fold (\<lambda>x c. if P x then set_add c (f x) else c) xs c) = set c \<union> f ` {x \<in> set xs. P x}"
  by (induction xs arbitrary: c) auto

lemma fold_set_add_all: "set (fold (\<lambda>x c. set_add c x) xs c) = set c \<union> set xs"
  by (induction xs arbitrary: c) auto

definition ends :: "cluster_edge \<Rightarrow> string \<times> string" where
  "ends e = (ce_from e, ce_to e)"

lemma ends_simp [simp]: "ends \<lparr>ce_from = a, ce_to = b, ce_color = c\<rparr> = (a, b)"
  by (simp add: ends_def)

text \<open>Services joined to a node by the pods that run there.\<close>

lemma node_services:
  "set (fold (\<lambda>p c. if cp_node p \<noteq> Some nm then c
           else fold (\<lambda>s c. if svc_selects s p then set_add c (svc_id s) else c) svcs c) pods c) =
   set c \<union> {svc_id s |s p. s \<in> set svcs \<and> p \<in> set pods \<and> cp_node p = Some nm \<and> svc_selects s p}"
proof (induction pods arbitrary: c)
  case (Cons p pods)
  show ?case
  proof (cases "cp_node p = Some nm")
    case True
    then show ?thesis by (simp add: Cons.IH fold_set_add) blast
  next
    case False
    then show ?thesis by (simp add: Cons.IH) blast
  qed
qed simp

lemma node_edges_ends:
  "ends ` set (node_edges r) =
   {(node_id (tm_name (cn_meta n)), svc_id s) |n s p. n \<in> set (rd_nodes r) \<and> s \<in> set (rd_svcs r)
      \<and> p \<in> set (rd_pods r) \<and> cp_node p = Some (tm_name (cn_meta n)) \<and> svc_selects s p}"
  by (auto simp: node_edges_def Let_def image_Union image_image node_services)

text \<open>The pods of the workloads, one pair for each edge.\<close>

definition owned :: "raw_data \<Rightarrow> (cluster_workload \<times> cluster_pod) list" where
  "owned r = concat (map (\<lambda>w. map (Pair w) (filter (wl_selects w) (rd_pods r))) (rd_workloads r))"

lemma owned_set: "set (owned r) = {(w, p). w \<in> set (rd_workloads r) \<and> p \<in> set (rd_pods r) \<and> wl_selects w p}"
  by (auto simp: owned_def)

definition link_pair :: "cluster_workload \<times> cluster_pod \<Rightarrow> id_lists \<Rightarrow> id_lists" where
  "link_pair x m = rec_set m (pod_id (snd x)) (set_add (list_at m (pod_id (snd x))) (wl_id (fst x)))"

definition owner_edge :: "cluster_workload \<times> cluster_pod \<Rightarrow> cluster_edge" where
  "owner_edge x = \<lparr>ce_from = wl_id (fst x), ce_to = pod_id (snd x), ce_color = ''var(--info)''\<rparr>"

lemma link_pods:
  "fold (link_pod w) ps (m, es) =
   (fold link_pair (map (Pair w) (filter (wl_selects w) ps)) m,
    es @ map owner_edge (map (Pair w) (filter (wl_selects w) ps)))"
  by (induction ps arbitrary: m es) (auto simp: link_pod_def link_pair_def owner_edge_def)

lemma no_labels: "cw_labels w = None \<Longrightarrow> \<not> wl_selects w p"
  by (simp add: wl_selects_def selects_def matchesSelector_def)

lemma link_workloads_pairs:
  "link_workloads r = (fold link_pair (owned r) [], map owner_edge (owned r))"
proof -
  have "fold (\<lambda>w st. if cw_labels w = None then st else fold (link_pod w) ps st) ws (m, es) =
      (fold link_pair (concat (map (\<lambda>w. map (Pair w) (filter (wl_selects w) ps)) ws)) m,
       es @ map owner_edge (concat (map (\<lambda>w. map (Pair w) (filter (wl_selects w) ps)) ws)))" for ws ps m es
  proof (induction ws arbitrary: m es)
    case (Cons w ws)
    show ?case
    proof (cases "cw_labels w = None")
      case True
      then have "filter (wl_selects w) ps = []" by (simp add: filter_empty_conv no_labels)
      then show ?thesis using True by (simp add: Cons.IH)
    next
      case False
      then obtain sel where "cw_labels w = Some sel" by blast
      then show ?thesis by (simp add: link_pods Cons.IH)
    qed
  qed simp
  then show ?thesis by (simp add: link_workloads_def owned_def)
qed

text \<open>What \<open>podToWorkloads\<close> holds for an id: the workloads of the pods of that id, when there are any.\<close>

lemma list_at_pair:
  "set (list_at (link_pair x m) k) = set (list_at m k) \<union> (if pod_id (snd x) = k then {wl_id (fst x)} else {})"
  by (auto simp: link_pair_def list_at_def)

lemma link_pairs_list:
  "set (list_at (fold link_pair xs m) k) = set (list_at m k) \<union> {wl_id w |w p. (w, p) \<in> set xs \<and> pod_id p = k}"
proof (induction xs arbitrary: m)
  case (Cons x xs)
  obtain w p where x: "x = (w, p)" by (cases x)
  show ?case by (simp add: Cons.IH list_at_pair) (auto simp: x)
qed simp

lemma link_pairs_none:
  "rec_get (fold link_pair xs m) k = None \<longleftrightarrow> rec_get m k = None \<and> (\<forall>x \<in> set xs. pod_id (snd x) \<noteq> k)"
proof (induction xs arbitrary: m)
  case (Cons x xs)
  show ?case by (simp add: Cons.IH) (auto simp: link_pair_def)
qed simp

text \<open>One service's pass over the pods.\<close>

lemma link_service_workloads:
  "set (fst (fold (link_service m s) ps st)) =
   set (fst st) \<union> {x. \<exists>p \<in> set ps. svc_selects s p \<and> x \<in> set (list_at m (pod_id p))}"
proof (induction ps arbitrary: st)
  case (Cons p ps)
  have "set (fst (link_service m s p st)) =
      set (fst st) \<union> (if svc_selects s p then set (list_at m (pod_id p)) else {})"
    by (simp add: link_service_def list_at_def fold_set_add_all split: option.split)
  then show ?case by (auto simp: Cons.IH)
qed simp

lemma link_service_direct:
  "ends ` set (snd (fold (link_service m s) ps st)) =
   ends ` set (snd st) \<union> {(svc_id s, pod_id p) |p. p \<in> set ps \<and> svc_selects s p \<and> rec_get m (pod_id p) = None}"
proof (induction ps arbitrary: st)
  case (Cons p ps)
  have "ends ` set (snd (link_service m s p st)) =
      ends ` set (snd st) \<union> (if svc_selects s p \<and> rec_get m (pod_id p) = None then {(svc_id s, pod_id p)} else {})"
    by (auto simp: link_service_def split: option.split)
  then show ?case by (auto simp: Cons.IH)
qed simp

lemma service_edges_ends:
  "ends ` set (service_edges m r) =
   {(svc_id s, pod_id p) |s p. s \<in> set (rd_svcs r) \<and> p \<in> set (rd_pods r) \<and> svc_selects s p
      \<and> rec_get m (pod_id p) = None}
   \<union> {(svc_id s, x) |s p x. s \<in> set (rd_svcs r) \<and> p \<in> set (rd_pods r) \<and> svc_selects s p
      \<and> x \<in> set (list_at m (pod_id p))}"
proof -
  have one: "ends ` set (let (c, d) = fold (link_service m s) (rd_pods r) ([], [])
        in d @ map (\<lambda>w. \<lparr>ce_from = svc_id s, ce_to = w, ce_color = col\<rparr>) c) =
      {(svc_id s, pod_id p) |p. p \<in> set (rd_pods r) \<and> svc_selects s p \<and> rec_get m (pod_id p) = None}
      \<union> {(svc_id s, x) |p x. p \<in> set (rd_pods r) \<and> svc_selects s p \<and> x \<in> set (list_at m (pod_id p))}" for s col
    using link_service_workloads [of m s "rd_pods r" "([], [])"] link_service_direct [of m s "rd_pods r" "([], [])"]
    by (auto simp: case_prod_unfold Let_def image_Un image_image)
  show ?thesis
    by (simp only: service_edges_def set_concat set_map image_Union image_image one) blast
qed

text \<open>The ids of the placed nodes are those of the resources.\<close>

lemma map_enumerate_snd: "map (\<lambda>x. f (snd x)) (enumerate k xs) = map f xs"
  by (induction xs arbitrary: k) simp_all

lemma placeRow_ids [simp]: "map ti_id (placeRow w y sz items) = map ti_id items"
  by (simp add: placeRow_def Let_def case_prod_unfold comp_def map_enumerate_snd)

lemma place_pods_ids [simp]: "map ti_id (place_pods w y sz items) = map ti_id items"
  by (simp add: place_pods_def Let_def case_prod_unfold comp_def map_enumerate_snd)

lemma set_abbr_map:
  assumes "\<And>n a. f (n\<lparr>pl_abbr := a\<rparr>) = f n"
  shows "map f (fold (\<lambda>wl ns. set_abbr (i wl) (a wl) ns) wls ns) = map f ns"
proof -
  have 1: "map f (set_abbr nid ab ns) = map f ns" for nid ab ns
    by (induction ns) (simp_all add: assms)
  show ?thesis by (induction wls arbitrary: ns) (simp_all add: 1)
qed

definition resource_ids :: "raw_data \<Rightarrow> string list" where
  "resource_ids r = map (\<lambda>n. node_id (tm_name (cn_meta n))) (rd_nodes r) @ map svc_id (rd_svcs r)
     @ map wl_id (rd_workloads r) @ map pod_id (rd_pods r) @ map pvc_id (rd_pvcs r)"

lemma topo_ids: "map ti_id (topo_nodes r) = resource_ids r"
  by (simp add: topo_nodes_def Let_def set_abbr_map resource_ids_def comp_def
      node_item_def svc_item_def wl_item_def pod_item_def pvc_item_def)

lemma claim_is_pvc: "claim_id m c \<in> set (resource_ids r) \<longleftrightarrow> claim_id m c \<in> pvc_id ` set (rd_pvcs r)"
  by (auto simp: resource_ids_def claim_id_def node_id_def svc_id_def wl_id_def pod_id_def)

lemma claim_edges_ends:
  "ends ` set (claim_edges (map ti_id (topo_nodes r)) r) =
   {(pod_id p, pvc_id v) |p v n c. p \<in> set (rd_pods r) \<and> v \<in> set (rd_pvcs r)
      \<and> (n, Some c) \<in> set (pod_volumes p) \<and> c \<noteq> [] \<and> claim_id (cp_meta p) c = pvc_id v}"
  (is "?L = ?R")
proof
  show "?L \<subseteq> ?R"
  proof
    fix e assume "e \<in> ?L"
    then obtain p n o1 where e: "p \<in> set (rd_pods r)" "(n, o1) \<in> set (pod_volumes p)" "has_text o1"
      "claim_id (cp_meta p) (the o1) \<in> set (resource_ids r)" "e = (pod_id p, claim_id (cp_meta p) (the o1))"
      by (auto simp: claim_edges_def topo_ids split: if_splits)
    then obtain c where c: "o1 = Some c" "c \<noteq> []" by (auto simp: has_text_iff)
    then obtain v where "v \<in> set (rd_pvcs r)" "claim_id (cp_meta p) c = pvc_id v"
      using e(4) by (auto simp: claim_is_pvc)
    then show "e \<in> ?R" using e c by auto
  qed
  show "?R \<subseteq> ?L"
  proof
    fix e assume "e \<in> ?R"
    then obtain p v n c where e: "p \<in> set (rd_pods r)" "v \<in> set (rd_pvcs r)" "(n, Some c) \<in> set (pod_volumes p)"
      "c \<noteq> []" "claim_id (cp_meta p) c = pvc_id v" "e = (pod_id p, pvc_id v)" by blast
    have "claim_id (cp_meta p) c \<in> set (resource_ids r)" using e(2) unfolding e(5) by (simp add: resource_ids_def)
    then have "\<lparr>ce_from = pod_id p, ce_to = claim_id (cp_meta p) c, ce_color = ''var(--info)''\<rparr>
        \<in> set (claim_edges (map ti_id (topo_nodes r)) r)"
      using e(1,3,4) by (auto simp: claim_edges_def topo_ids intro!: bexI [of _ p] bexI [of _ "(n, Some c)"])
    from imageI [OF this, of ends] show "e \<in> ?L" using e(5,6) by simp
  qed
qed

text \<open>
  What the graph is meant to show, in terms of the resources alone.
\<close>

definition mounts :: "cluster_pod \<Rightarrow> cluster_pvc \<Rightarrow> bool" where
  "mounts p v \<longleftrightarrow> tm_namespace (cp_meta p) = tm_namespace (cv_meta v) \<and> tm_name (cv_meta v) \<noteq> []
     \<and> Some (tm_name (cv_meta v)) \<in> set (map snd (pod_volumes p))"

definition cluster_relation :: "raw_data \<Rightarrow> (string \<times> string) set" where
  "cluster_relation r =
     {(node_id (tm_name (cn_meta n)), svc_id s) |n s p. n \<in> set (rd_nodes r) \<and> s \<in> set (rd_svcs r)
        \<and> p \<in> set (rd_pods r) \<and> cp_node p = Some (tm_name (cn_meta n)) \<and> svc_selects s p}
     \<union> {(wl_id w, pod_id p) |w p. w \<in> set (rd_workloads r) \<and> p \<in> set (rd_pods r) \<and> wl_selects w p}
     \<union> {(svc_id s, pod_id p) |s p. s \<in> set (rd_svcs r) \<and> p \<in> set (rd_pods r) \<and> svc_selects s p
        \<and> \<not> list_ex (\<lambda>w. wl_selects w p) (rd_workloads r)}
     \<union> {(svc_id s, wl_id w) |s w p. s \<in> set (rd_svcs r) \<and> w \<in> set (rd_workloads r) \<and> p \<in> set (rd_pods r)
        \<and> svc_selects s p \<and> wl_selects w p}
     \<union> {(pod_id p, pvc_id v) |p v. p \<in> set (rd_pods r) \<and> v \<in> set (rd_pvcs r) \<and> mounts p v}"

text \<open>
  Ids are joined with dashes, which names may contain: the claim of a pod may print like the id of a
  claim in another namespace. The theorems below ask that this does not happen.
\<close>

definition claims_clear :: "raw_data \<Rightarrow> bool" where
  "claims_clear r \<longleftrightarrow> list_all (\<lambda>p. list_all (\<lambda>v. list_all (\<lambda>vol.
     case snd vol of
       None \<Rightarrow> True
     | Some c \<Rightarrow> claim_id (cp_meta p) c \<noteq> pvc_id v
         \<or> (tm_namespace (cp_meta p) = tm_namespace (cv_meta v) \<and> c = tm_name (cv_meta v)))
     (pod_volumes p)) (rd_pvcs r)) (rd_pods r)"

lemma claim_mounts:
  assumes "claims_clear r" "p \<in> set (rd_pods r)" "v \<in> set (rd_pvcs r)"
  shows "(\<exists>n c. (n, Some c) \<in> set (pod_volumes p) \<and> c \<noteq> [] \<and> claim_id (cp_meta p) c = pvc_id v) \<longleftrightarrow> mounts p v"
proof
  assume "\<exists>n c. (n, Some c) \<in> set (pod_volumes p) \<and> c \<noteq> [] \<and> claim_id (cp_meta p) c = pvc_id v"
  then obtain n c where c: "(n, Some c) \<in> set (pod_volumes p)" "c \<noteq> []" "claim_id (cp_meta p) c = pvc_id v" by blast
  have "tm_namespace (cp_meta p) = tm_namespace (cv_meta v) \<and> c = tm_name (cv_meta v)"
    using assms c(1,3) by (fastforce simp: claims_clear_def list_all_iff)
  then show "mounts p v" using c(1,2) by (force simp: mounts_def)
next
  assume m: "mounts p v"
  then obtain n where "(n, Some (tm_name (cv_meta v))) \<in> set (pod_volumes p)" by (auto simp: mounts_def)
  moreover have "claim_id (cp_meta p) (tm_name (cv_meta v)) = pvc_id v"
    using m by (simp add: mounts_def claim_id_def pvc_id_def ns_text_def)
  ultimately show "\<exists>n c. (n, Some c) \<in> set (pod_volumes p) \<and> c \<noteq> [] \<and> claim_id (cp_meta p) c = pvc_id v"
    using m by (auto simp: mounts_def)
qed

lemma same_pod: "distinct (map pod_id ps) \<Longrightarrow> p \<in> set ps \<Longrightarrow> q \<in> set ps \<Longrightarrow> pod_id p = pod_id q \<longleftrightarrow> p = q"
  by (auto simp: distinct_map dest: inj_onD)

text \<open>With one pod for each id, the map says which workloads select the pod.\<close>

lemma linked_workloads:
  assumes "distinct (map pod_id (rd_pods r))" "p \<in> set (rd_pods r)"
  shows "set (list_at (fst (link_workloads r)) (pod_id p)) = wl_id ` {w \<in> set (rd_workloads r). wl_selects w p}"
    and "rec_get (fst (link_workloads r)) (pod_id p) = None \<longleftrightarrow> \<not> list_ex (\<lambda>w. wl_selects w p) (rd_workloads r)"
proof -
  have q: "pod_id q = pod_id p \<longleftrightarrow> q = p" if "q \<in> set (rd_pods r)" for q
    by (rule same_pod [OF assms(1) that assms(2)])
  have "{wl_id w |w q. (w, q) \<in> set (owned r) \<and> pod_id q = pod_id p} = wl_id ` {w \<in> set (rd_workloads r). wl_selects w p}"
    using assms(2) q unfolding owned_set by fastforce
  then show "set (list_at (fst (link_workloads r)) (pod_id p)) = wl_id ` {w \<in> set (rd_workloads r). wl_selects w p}"
    by (simp add: link_workloads_pairs link_pairs_list) (simp add: list_at_def)
  have "(\<forall>x \<in> set (owned r). pod_id (snd x) \<noteq> pod_id p) \<longleftrightarrow> \<not> list_ex (\<lambda>w. wl_selects w p) (rd_workloads r)"
    using assms(2) q by (auto simp: owned_set list_ex_iff)
  then show "rec_get (fst (link_workloads r)) (pod_id p) = None \<longleftrightarrow> \<not> list_ex (\<lambda>w. wl_selects w p) (rd_workloads r)"
    by (simp add: link_workloads_pairs link_pairs_none)
qed

lemma service_relation:
  assumes "distinct (map pod_id (rd_pods r))"
  shows "ends ` set (service_edges (fst (link_workloads r)) r) =
     {(svc_id s, pod_id p) |s p. s \<in> set (rd_svcs r) \<and> p \<in> set (rd_pods r) \<and> svc_selects s p
        \<and> \<not> list_ex (\<lambda>w. wl_selects w p) (rd_workloads r)}
     \<union> {(svc_id s, wl_id w) |s w p. s \<in> set (rd_svcs r) \<and> w \<in> set (rd_workloads r) \<and> p \<in> set (rd_pods r)
        \<and> svc_selects s p \<and> wl_selects w p}"
proof -
  note l = linked_workloads [OF assms]
  have 1: "{(svc_id s, pod_id p) |s p. s \<in> set (rd_svcs r) \<and> p \<in> set (rd_pods r) \<and> svc_selects s p
        \<and> rec_get (fst (link_workloads r)) (pod_id p) = None} =
      {(svc_id s, pod_id p) |s p. s \<in> set (rd_svcs r) \<and> p \<in> set (rd_pods r) \<and> svc_selects s p
        \<and> \<not> list_ex (\<lambda>w. wl_selects w p) (rd_workloads r)}"
    by (simp only: l(2) cong: conj_cong)
  have 2: "{(svc_id s, x) |s p x. s \<in> set (rd_svcs r) \<and> p \<in> set (rd_pods r) \<and> svc_selects s p
        \<and> x \<in> set (list_at (fst (link_workloads r)) (pod_id p))} =
      {(svc_id s, wl_id w) |s w p. s \<in> set (rd_svcs r) \<and> w \<in> set (rd_workloads r) \<and> p \<in> set (rd_pods r)
        \<and> svc_selects s p \<and> wl_selects w p}"
    by (simp only: l(1) cong: conj_cong) blast
  show ?thesis by (simp only: service_edges_ends 1 2)
qed

lemma relation_refined:
  assumes "distinct (map pod_id (rd_pods r))" "claims_clear r"
  shows "ends ` set (topo_edges r) = cluster_relation r"
proof -
  have owning: "ends ` set (snd (link_workloads r)) =
      {(wl_id w, pod_id p) |w p. w \<in> set (rd_workloads r) \<and> p \<in> set (rd_pods r) \<and> wl_selects w p}"
    by (simp add: link_workloads_pairs owner_edge_def image_image owned_set) force
  have "{(pod_id p, pvc_id v) |p v n c. p \<in> set (rd_pods r) \<and> v \<in> set (rd_pvcs r)
        \<and> (n, Some c) \<in> set (pod_volumes p) \<and> c \<noteq> [] \<and> claim_id (cp_meta p) c = pvc_id v} =
      {(pod_id p, pvc_id v) |p v. p \<in> set (rd_pods r) \<and> v \<in> set (rd_pvcs r) \<and> mounts p v}"
    using claim_mounts [OF assms(2)] by blast
  then show ?thesis
    by (simp only: topo_edges_def case_prod_unfold Let_def set_append image_Un node_edges_ends owning
        service_relation [OF assms(1)] claim_edges_ends cluster_relation_def Un_assoc)
qed

text \<open>No edge is left out of the drawing: both ends of each are placed.\<close>

lemma edges_between_nodes: "ends ` set (topo_edges r) \<subseteq> set (resource_ids r) \<times> set (resource_ids r)"
proof -
  have n: "ends ` set (node_edges r) \<subseteq> set (resource_ids r) \<times> set (resource_ids r)"
    unfolding node_edges_ends by (auto simp: resource_ids_def)
  have w: "ends ` set (snd (link_workloads r)) \<subseteq> set (resource_ids r) \<times> set (resource_ids r)"
    by (auto simp: link_workloads_pairs owner_edge_def owned_set resource_ids_def)
  have l: "set (list_at (fst (link_workloads r)) k) \<subseteq> wl_id ` set (rd_workloads r)" for k
    by (simp add: link_workloads_pairs link_pairs_list) (auto simp: list_at_def owned_set)
  have s: "ends ` set (service_edges (fst (link_workloads r)) r) \<subseteq> set (resource_ids r) \<times> set (resource_ids r)"
    unfolding service_edges_ends using l by (auto simp: resource_ids_def)
  have v: "ends ` set (claim_edges (map ti_id (topo_nodes r)) r) \<subseteq> set (resource_ids r) \<times> set (resource_ids r)"
    unfolding claim_edges_ends by (auto simp: resource_ids_def)
  show ?thesis using n w s v by (simp add: topo_edges_def case_prod_unfold Let_def image_Un)
qed

lemma nodeMap_get: "rec_get (nodeMap ns) k = None \<longleftrightarrow> k \<notin> set (map ti_id ns)"
proof -
  have "rec_get (fold (\<lambda>n m. rec_set m (ti_id n) n) ns m) k = None \<longleftrightarrow>
      rec_get m k = None \<and> k \<notin> ti_id ` set ns" for m
    by (induction ns arbitrary: m) auto
  then show ?thesis by (simp add: nodeMap_def)
qed

lemma length_singletons: "(\<And>x. x \<in> set xs \<Longrightarrow> length (f x) = 1) \<Longrightarrow> length (concat (map f xs)) = length xs"
  by (induction xs) auto

lemma every_edge_drawn: "length (drawn_lines r) = length (topo_edges r)"
  unfolding drawn_lines_def
proof (rule length_singletons)
  fix e assume "e \<in> set (topo_edges r)"
  then have "ends e \<in> set (resource_ids r) \<times> set (resource_ids r)" using edges_between_nodes by blast
  then have "rec_get (nodeMap (topo_nodes r)) (ce_from e) \<noteq> None" "rec_get (nodeMap (topo_nodes r)) (ce_to e) \<noteq> None"
    by (simp_all only: nodeMap_get topo_ids) (auto simp: ends_def)
  then show "length (case (rec_get (nodeMap (topo_nodes r)) (ce_from e), rec_get (nodeMap (topo_nodes r)) (ce_to e)) of
       (Some a, Some b) \<Rightarrow> [((pl_x a, pl_y a), (pl_x b, pl_y b), ce_color e)] | _ \<Rightarrow> []) = 1"
    by auto
qed


definition demo_meta :: "string \<Rightarrow> string \<Rightarrow> str_map option \<Rightarrow> topo_meta" where
  "demo_meta ns name ls = \<lparr>tm_name = name, tm_namespace = Some ns, tm_labels = ls\<rparr>"

definition demo_pod :: "string \<Rightarrow> string \<Rightarrow> string \<Rightarrow> string option \<Rightarrow> cluster_pod" where
  "demo_pod ns name app claim = \<lparr>cp_meta = demo_meta ns name (Some [(''app'', app)]), cp_node = Some ''n1'',
     cp_containers = Some [''c''], cp_volumes = Some [(''v'', claim)], cp_phase = Some ''Running''\<rparr>"

definition demo_cluster :: raw_data where
  "demo_cluster = \<lparr>
     rd_nodes = [\<lparr>cn_meta = \<lparr>tm_name = ''n1'', tm_namespace = None, tm_labels = None\<rparr>, cn_conditions = None\<rparr>],
     rd_svcs = [\<lparr>cs_meta = demo_meta ''shop'' ''web'' None, cs_selector = Some [(''app'', ''w'')]\<rparr>,
                \<lparr>cs_meta = demo_meta ''shop'' ''one'' None, cs_selector = Some [(''app'', ''o'')]\<rparr>],
     rd_workloads = [\<lparr>cw_kind = ''Deployment'', cw_meta = demo_meta ''shop'' ''web'' None,
                       cw_labels = Some [(''app'', ''w'')]\<rparr>],
     rd_pods = [demo_pod ''shop'' ''web-1'' ''w'' (Some ''data''), demo_pod ''shop'' ''one'' ''o'' None],
     rd_pvcs = [\<lparr>cv_meta = demo_meta ''shop'' ''data'' None, cv_volume = None, cv_phase = Some ''Bound''\<rparr>]\<rparr>"

lemma demo_cluster_clear: "distinct (map pod_id (rd_pods demo_cluster))" "claims_clear demo_cluster"
  by code_simp+


text \<open>
  Without the condition the graph joins strangers: the pods \<open>a/b-c\<close> and \<open>a-b/c\<close> have the same id, so a
  service of namespace \<open>a-b\<close> is joined to a workload of namespace \<open>a\<close>.
\<close>

definition colliding_pods :: raw_data where
  "colliding_pods = \<lparr>
     rd_nodes = [],
     rd_svcs = [\<lparr>cs_meta = demo_meta ''a-b'' ''web'' None, cs_selector = Some [(''app'', ''w'')]\<rparr>],
     rd_workloads = [\<lparr>cw_kind = ''Deployment'', cw_meta = demo_meta ''a'' ''db'' None,
                       cw_labels = Some [(''app'', ''d'')]\<rparr>],
     rd_pods = [demo_pod ''a'' ''b-c'' ''d'' None, demo_pod ''a-b'' ''c'' ''w'' None],
     rd_pvcs = []\<rparr>"

lemma shared_namespace:
  "svc_selects s p \<Longrightarrow> wl_selects w p \<Longrightarrow> tm_namespace (cs_meta s) = tm_namespace (cw_meta w)"
  by (simp add: svc_selects_def wl_selects_def selects_def)

lemma colliding_pods_joined:
  "(''svc-a-b-web'', ''wl-Deployment-a-db'') \<in> ends ` set (topo_edges colliding_pods)"
  "(''svc-a-b-web'', ''wl-Deployment-a-db'') \<notin> cluster_relation colliding_pods"
proof -
  have "map ends (topo_edges colliding_pods) =
     [(''wl-Deployment-a-db'', ''pod-a-b-c''), (''svc-a-b-web'', ''wl-Deployment-a-db'')]"
    by (simp only: topo_edges_def topo_ids) code_simp
  then have "set (map ends (topo_edges colliding_pods)) =
     {(''wl-Deployment-a-db'', ''pod-a-b-c''), (''svc-a-b-web'', ''wl-Deployment-a-db'')}" by simp
  then show "(''svc-a-b-web'', ''wl-Deployment-a-db'') \<in> ends ` set (topo_edges colliding_pods)"
    by (simp add: image_set [symmetric])
  show "(''svc-a-b-web'', ''wl-Deployment-a-db'') \<notin> cluster_relation colliding_pods"
  proof
    assume "(''svc-a-b-web'', ''wl-Deployment-a-db'') \<in> cluster_relation colliding_pods"
    then obtain s w p where "s \<in> set (rd_svcs colliding_pods)" "w \<in> set (rd_workloads colliding_pods)"
      "svc_selects s p" "wl_selects w p"
      by (auto simp: cluster_relation_def node_id_def svc_id_def wl_id_def pod_id_def)
    then show False using shared_namespace [of s p w] by (simp add: colliding_pods_def demo_meta_def)
  qed
qed

text \<open>An empty selector matches every pod that has labels, while the server selects nothing with it.\<close>

lemma empty_selector_matches: "matchesSelector (Some []) (Some ls)"
  by (simp add: matchesSelector_def)

section \<open>Where the nodes are\<close>

lemma row_spacing:
  assumes "n \<le> max_items r"
  shows "62 \<le> virtual_width r / (real n + 1)"
proof -
  have "(real n + 1) * 62 \<le> (real (max_items r) + 1) * 62" using assms by simp
  also have "\<dots> \<le> virtual_width r" by (simp add: virtual_width_def ITEM_SPACING_H_def)
  finally show ?thesis by (simp add: pos_le_divide_eq mult.commute)
qed

lemma row_lengths:
  "length (rd_nodes r) \<le> max_items r" "length (rd_svcs r) \<le> max_items r" "length (rd_workloads r) \<le> max_items r"
  "length (rd_pods r) \<le> max_items r" "length (rd_pvcs r) \<le> max_items r"
  by (simp_all add: max_items_def)

text \<open>A node's place and size, which is all that decides whether two nodes overlap.\<close>

definition place_of :: "placed_node \<Rightarrow> real \<times> real \<times> real" where
  "place_of n = (pl_x n, pl_y n, pl_size n)"

lemma place_of_abbr: "place_of (n\<lparr>pl_abbr := a\<rparr>) = place_of n"
  by (simp add: place_of_def)

definition row_places :: "real \<Rightarrow> real \<Rightarrow> real \<Rightarrow> nat \<Rightarrow> (real \<times> real \<times> real) list" where
  "row_places w y sz n = map (\<lambda>i. (w / (real n + 1) * (real i + 1), y, sz)) [0..<n]"

lemma map_enumerate_fst: "map (\<lambda>x. f (fst x)) (enumerate k xs) = map f [k..<k + length xs]"
  by (simp add: map_map [symmetric, unfolded comp_def] map_fst_enumerate del: map_map)

lemma placeRow_places [simp]: "map place_of (placeRow w y sz items) = row_places w y sz (length items)"
  using map_enumerate_fst [of "\<lambda>i. (w / (real (length items) + 1) * (real i + 1), y, sz)" 0 items]
  by (simp add: placeRow_def Let_def case_prod_unfold comp_def place_of_def row_places_def)

lemma place_pods_places [simp]: "map place_of (place_pods w y sz items) = row_places w y sz (length items)"
  using map_enumerate_fst [of "\<lambda>i. (w / (real (length items) + 1) * (real i + 1), y, sz)" 0 items]
  by (simp add: place_pods_def Let_def case_prod_unfold comp_def place_of_def row_places_def)

definition far :: "real \<times> real \<times> real \<Rightarrow> real \<times> real \<times> real \<Rightarrow> bool" where
  "far a b \<longleftrightarrow> 62 \<le> \<bar>fst a - fst b\<bar> \<or> 68 \<le> \<bar>fst (snd a) - fst (snd b)\<bar>"

lemma row_far:
  assumes "62 \<le> w / (real n + 1)"
  shows "sorted_wrt far (row_places w y sz n)"
proof -
  have "62 \<le> \<bar>w / (real n + 1) * (real i + 1) - w / (real n + 1) * (real j + 1)\<bar>" if "i < j" for i j
  proof -
    have "w / (real n + 1) * (real j + 1) - w / (real n + 1) * (real i + 1) = w / (real n + 1) * (real j - real i)"
      by (simp only: right_diff_distrib [symmetric]) simp
    moreover have "62 * 1 \<le> w / (real n + 1) * (real j - real i)"
      using assms that by (intro mult_mono) auto
    ultimately show ?thesis by simp
  qed
  then show ?thesis
    by (auto simp: row_places_def far_def sorted_wrt_map intro!: sorted_wrt_mono_rel [OF _ sorted_wrt_upt])
qed

lemma row_inside:
  assumes "62 \<le> w / (real n + 1)" "t \<in> set (row_places w y sz n)"
  shows "62 \<le> fst t" "fst t \<le> w - 62" "snd t = (y, sz)"
proof -
  obtain i where i: "i < n" "t = (w / (real n + 1) * (real i + 1), y, sz)"
    using assms(2) by (auto simp: row_places_def)
  have "62 * 1 \<le> w / (real n + 1) * (real i + 1)" using assms(1) by (intro mult_mono) auto
  then show "62 \<le> fst t" using i by simp
  have "w - w / (real n + 1) * (real i + 1) = w / (real n + 1) * (real n - real i)"
    by (simp add: field_simps)
  moreover have "62 * 1 \<le> w / (real n + 1) * (real n - real i)" using assms(1) i(1) by (intro mult_mono) auto
  ultimately show "fst t \<le> w - 62" using i by simp
  show "snd t = (y, sz)" using i by simp
qed

text \<open>The rows: the height as a share of the canvas, the size of the nodes and their number.\<close>

definition canvas_rows :: "raw_data \<Rightarrow> (real \<times> real \<times> nat) list" where
  "canvas_rows r =
     [(8 / 100, if length (rd_nodes r) > 6 then 40 else 52, length (rd_nodes r)),
      (25 / 100, if length (rd_svcs r) > 8 then 32 else 44, length (rd_svcs r)),
      (45 / 100, if length (rd_workloads r) > 10 then 28 else 36, length (rd_workloads r)),
      (65 / 100, if length (rd_pods r) > 10 then 28 else 36, length (rd_pods r)),
      (85 / 100, if length (rd_pvcs r) > 6 then 28 else 36, length (rd_pvcs r))]"

definition row_at :: "raw_data \<Rightarrow> real \<times> real \<times> nat \<Rightarrow> (real \<times> real \<times> real) list" where
  "row_at r row = row_places (virtual_width r) (virtual_height r * fst row) (fst (snd row)) (snd (snd row))"

lemma topo_places: "map place_of (topo_nodes r) = concat (map (row_at r) (canvas_rows r))"
  by (simp only: topo_nodes_def Let_def map_append placeRow_places place_pods_places length_map append_assoc
      set_abbr_map [where f = place_of, OF place_of_abbr] canvas_rows_def row_at_def list.map concat.simps
      fst_conv snd_conv append_Nil2)

text \<open>Half the side of a node's box, at the scale of 1.15 the hovered node is drawn with.\<close>

definition extent :: "placed_node \<Rightarrow> real" where
  "extent n = 115 / 100 * pl_size n / 2"

definition apart :: "placed_node \<Rightarrow> placed_node \<Rightarrow> bool" where
  "apart a b \<longleftrightarrow> extent a + extent b < \<bar>pl_x a - pl_x b\<bar> \<or> extent a + extent b < \<bar>pl_y a - pl_y b\<bar>"

definition inside :: "raw_data \<Rightarrow> placed_node \<Rightarrow> bool" where
  "inside r n \<longleftrightarrow> extent n \<le> pl_x n \<and> pl_x n + extent n \<le> virtual_width r
     \<and> extent n \<le> pl_y n \<and> pl_y n + extent n \<le> virtual_height r"

text \<open>A place on the canvas of \<open>r\<close>, with room for a node of the largest size.\<close>

definition roomy :: "raw_data \<Rightarrow> real \<times> real \<times> real \<Rightarrow> bool" where
  "roomy r t \<longleftrightarrow> 62 \<le> fst t \<and> fst t \<le> virtual_width r - 62 \<and> 32 \<le> fst (snd t)
     \<and> fst (snd t) \<le> virtual_height r - 60 \<and> snd (snd t) \<le> 52"

lemma far_apart: "far (place_of a) (place_of b) \<Longrightarrow> pl_size a \<le> 52 \<Longrightarrow> pl_size b \<le> 52 \<Longrightarrow> apart a b"
  by (auto simp: far_def place_of_def apart_def extent_def)

lemma roomy_inside: "roomy r (place_of n) \<Longrightarrow> inside r n"
  by (auto simp: roomy_def place_of_def inside_def extent_def)

lemma virtual_height_ge: "400 \<le> virtual_height r"
  by (simp add: virtual_height_def)

lemma row_roomy:
  assumes "k \<le> max_items r" "8 / 100 \<le> f" "f \<le> 85 / 100" "sz \<in> {28..52}"
    "t \<in> set (row_places (virtual_width r) (virtual_height r * f) sz k)"
  shows "roomy r t"
proof -
  note h = virtual_height_ge [of r]
  have "400 * (8 / 100) \<le> virtual_height r * f" using h assms(2) by (intro mult_mono) auto
  moreover have "400 * (15 / 100) \<le> virtual_height r * (1 - f)" using h assms(3) by (intro mult_mono) auto
  then have "virtual_height r * f \<le> virtual_height r - 60" by (simp add: algebra_simps)
  ultimately show ?thesis
    using row_inside [OF row_spacing [OF assms(1)] assms(5)] assms(4) by (simp add: roomy_def)
qed

text \<open>Two rows are far apart when their heights differ by at least 0.17 of the canvas.\<close>

lemma rows_far:
  assumes "a \<in> set (row_places w (virtual_height r * f) sz k)" "b \<in> set (row_places w' (virtual_height r * g) sz' k')"
    "17 / 100 \<le> g - f"
  shows "far a b"
proof -
  have "400 * (17 / 100) \<le> virtual_height r * (g - f)"
    using virtual_height_ge [of r] assms(3) by (intro mult_mono) auto
  then have "68 \<le> virtual_height r * g - virtual_height r * f" by (simp add: right_diff_distrib)
  moreover have "fst (snd a) = virtual_height r * f" "fst (snd b) = virtual_height r * g"
    using assms(1,2) by (auto simp: row_places_def)
  ultimately show ?thesis by (simp add: far_def)
qed

lemma rows_sorted:
  assumes "\<forall>row \<in> set rows. snd (snd row) \<le> max_items r" "sorted_wrt (\<lambda>a b. 17 / 100 \<le> fst b - fst a) rows"
  shows "sorted_wrt far (concat (map (row_at r) rows))"
  using assms
proof (induction rows)
  case (Cons row rows)
  have "sorted_wrt far (row_at r row)"
    unfolding row_at_def using Cons.prems(1) by (intro row_far row_spacing) simp
  moreover have "far a b" if ab: "a \<in> set (row_at r row)" "b \<in> set (concat (map (row_at r) rows))" for a b
  proof -
    obtain row' where row': "row' \<in> set rows" "b \<in> set (row_at r row')" using ab(2) by auto
    have "17 / 100 \<le> fst row' - fst row" using Cons.prems(2) row'(1) by simp
    then show ?thesis using rows_far ab(1) row'(2) unfolding row_at_def by blast
  qed
  moreover have "sorted_wrt far (concat (map (row_at r) rows))" using Cons by simp
  ultimately show ?case by (simp add: sorted_wrt_append)
qed simp

lemma places_far: "sorted_wrt far (map place_of (topo_nodes r))"
  unfolding topo_places
  by (rule rows_sorted) (simp_all add: canvas_rows_def row_lengths)

lemma canvas_rows_fit:
  "row \<in> set (canvas_rows r) \<Longrightarrow>
   snd (snd row) \<le> max_items r \<and> 8 / 100 \<le> fst row \<and> fst row \<le> 85 / 100 \<and> fst (snd row) \<in> {28..52}"
  by (auto simp: canvas_rows_def row_lengths)

lemma places_roomy:
  assumes "t \<in> set (map place_of (topo_nodes r))"
  shows "roomy r t"
proof -
  obtain row where row: "row \<in> set (canvas_rows r)" "t \<in> set (row_at r row)"
    using assms unfolding topo_places by auto
  then show ?thesis using canvas_rows_fit [OF row(1)] row_roomy unfolding row_at_def by blast
qed

text \<open>C29: However many resources a cluster has, the nodes of its graph do not overlap, not even when
  one is enlarged by hovering, and all of them lie on the canvas; every resource is placed, in the
  order of the lists.\<close>

theorem cluster_layout_fits:
  "sorted_wrt apart (topo_nodes r) \<and> list_all (inside r) (topo_nodes r) \<and> map ti_id (topo_nodes r) = resource_ids r"
proof (intro conjI)
  have roomy: "roomy r (place_of n)" if "n \<in> set (topo_nodes r)" for n
    using places_roomy [of "place_of n"] that by simp
  then have size: "pl_size n \<le> 52" if "n \<in> set (topo_nodes r)" for n
    using roomy [OF that] by (simp add: roomy_def place_of_def)
  show "list_all (inside r) (topo_nodes r)" by (simp add: list_all_iff roomy roomy_inside)
  have "sorted_wrt (\<lambda>a b. far (place_of a) (place_of b)) (topo_nodes r)"
    using places_far [of r] by (simp add: sorted_wrt_map)
  then show "sorted_wrt apart (topo_nodes r)"
    by (rule sorted_wrt_mono_rel [rotated]) (simp add: far_apart size)
qed (rule topo_ids)

section \<open>Tooltips\<close>

text \<open>\<open>const l = m.get(k) ?? []; l.push(v); m.set(k, l)\<close>.\<close>

definition push_at :: "id_lists \<Rightarrow> string \<Rightarrow> string \<Rightarrow> id_lists" where
  "push_at m k v = rec_set m k (list_at m k @ [v])"

record tip_maps =
  podsByNode :: id_lists
  podToNode :: "(string \<times> string) list"
  podToSvcs :: id_lists
  svcToPods :: id_lists
  svcToWorkloads :: id_lists
  wlToPods :: id_lists
  podToPVCs :: id_lists
  pvcToPods :: id_lists
  wlToSvcs :: id_lists

definition no_tips :: tip_maps where
  "no_tips = \<lparr>podsByNode = [], podToNode = [], podToSvcs = [], svcToPods = [], svcToWorkloads = [],
     wlToPods = [], podToPVCs = [], pvcToPods = [], wlToSvcs = []\<rparr>"

definition tip_pod_node :: "cluster_pod \<Rightarrow> tip_maps \<Rightarrow> tip_maps" where
  "tip_pod_node p m =
     (if has_text (cp_node p) then
        m\<lparr>podToNode := rec_set (podToNode m) (pod_id p) (the (cp_node p)),
          podsByNode := push_at (podsByNode m) (the (cp_node p)) (tm_name (cp_meta p))\<rparr>
      else m)"

definition tip_svc_pod :: "cluster_service \<Rightarrow> cluster_pod \<Rightarrow> tip_maps \<Rightarrow> tip_maps" where
  "tip_svc_pod s p m =
     (if svc_selects s p then
        m\<lparr>svcToPods := push_at (svcToPods m) (svc_id s) (tm_name (cp_meta p)),
          podToSvcs := push_at (podToSvcs m) (pod_id p) (tm_name (cs_meta s))\<rparr>
      else m)"

definition tip_wl_pod :: "cluster_workload \<Rightarrow> cluster_pod \<Rightarrow> tip_maps \<Rightarrow> tip_maps" where
  "tip_wl_pod w p m =
     (if wl_selects w p then m\<lparr>wlToPods := push_at (wlToPods m) (wl_id w) (tm_name (cp_meta p))\<rparr> else m)"

definition tip_wl_svc :: "cluster_workload \<Rightarrow> cluster_service \<Rightarrow> tip_maps \<Rightarrow> tip_maps" where
  "tip_wl_svc w s m =
     (if tm_namespace (cs_meta s) \<noteq> tm_namespace (cw_meta w) then m
      else (let svcPods = list_at (svcToPods m) (svc_id s);
                wlPodSet = set (list_at (wlToPods m) (wl_id w))
            in if list_ex (\<lambda>p. p \<in> wlPodSet) svcPods then
                 m\<lparr>svcToWorkloads := push_at (svcToWorkloads m) (svc_id s) (wl_label w),
                   wlToSvcs := push_at (wlToSvcs m) (wl_id w) (tm_name (cs_meta s))\<rparr>
               else m))"

definition tip_workload :: "raw_data \<Rightarrow> cluster_workload \<Rightarrow> tip_maps \<Rightarrow> tip_maps" where
  "tip_workload r w m =
     (if cw_labels w = None then m
      else fold (tip_wl_svc w) (rd_svcs r) (fold (tip_wl_pod w) (rd_pods r) m))"

definition tip_claim :: "string list \<Rightarrow> cluster_pod \<Rightarrow> string \<times> string option \<Rightarrow> tip_maps \<Rightarrow> tip_maps" where
  "tip_claim topoNodeIds p vol m =
     (if has_text (snd vol) \<and> claim_id (cp_meta p) (the (snd vol)) \<in> set topoNodeIds then
        m\<lparr>podToPVCs := push_at (podToPVCs m) (pod_id p) (the (snd vol)),
          pvcToPods := push_at (pvcToPods m) (claim_id (cp_meta p) (the (snd vol))) (tm_name (cp_meta p))\<rparr>
      else m)"

definition tip_lookups :: "raw_data \<Rightarrow> tip_maps" where
  "tip_lookups r =
     (let m1 = fold tip_pod_node (rd_pods r) no_tips;
          m2 = fold (\<lambda>s. fold (tip_svc_pod s) (rd_pods r)) (rd_svcs r) m1;
          m3 = fold (tip_workload r) (rd_workloads r) m2
      in fold (\<lambda>p. fold (tip_claim (map ti_id (topo_nodes r)) p) (pod_volumes p)) (rd_pods r) m3)"

record tip_group =
  tr_kind :: string
  tr_color :: string
  tr_items :: "string list"

record tooltip_data =
  tt_kind :: topo_kind
  tt_name :: string
  tt_namespace :: "string option"
  tt_health :: node_health
  tt_workload_kind :: "string option"
  tt_node_name :: "string option"
  tt_pod_phase :: "string option"
  tt_pvc_phase :: "string option"
  tt_volume :: "string option"
  tt_containers :: "string list option"
  tt_related :: "tip_group list"

text \<open>\<open>if (items.length > 0) related.push({ kind, color, items: shown })\<close>.\<close>

definition group_of :: "string \<Rightarrow> string \<Rightarrow> string list \<Rightarrow> string list \<Rightarrow> tip_group list" where
  "group_of kind color items shown =
     (if items = [] then [] else [\<lparr>tr_kind = kind, tr_color = color, tr_items = shown\<rparr>])"

definition tip :: "topo_kind \<Rightarrow> topo_meta \<Rightarrow> node_health \<Rightarrow> tip_group list \<Rightarrow> tooltip_data" where
  "tip kind m health related =
     \<lparr>tt_kind = kind, tt_name = tm_name m, tt_namespace = (if kind = KNode then None else tm_namespace m),
      tt_health = health, tt_workload_kind = None, tt_node_name = None, tt_pod_phase = None,
      tt_pvc_phase = None, tt_volume = None, tt_containers = None, tt_related = related\<rparr>"

definition node_tip :: "tip_maps \<Rightarrow> cluster_node \<Rightarrow> tooltip_data" where
  "node_tip m n =
     (let pods = list_at (podsByNode m) (tm_name (cn_meta n))
      in tip KNode (cn_meta n) (node_health_of n) (group_of ''Pods'' ''var(--success)'' pods (take 6 pods)))"

definition svc_tip :: "tip_maps \<Rightarrow> cluster_service \<Rightarrow> tooltip_data" where
  "svc_tip m s =
     (let wls = list_at (svcToWorkloads m) (svc_id s);
          pods = list_at (svcToPods m) (svc_id s)
      in tip KService (cs_meta s) HealthOk
           (group_of ''Workloads'' ''var(--info)'' wls (take 4 wls)
            @ group_of ''Pods'' ''var(--success)'' pods (take 6 pods)))"

definition wl_nodes :: "raw_data \<Rightarrow> cluster_workload \<Rightarrow> string list" where
  "wl_nodes r w = fold (\<lambda>p c. if wl_selects w p \<and> has_text (cp_node p) then set_add c (the (cp_node p)) else c)
     (rd_pods r) []"

definition wl_tip :: "raw_data \<Rightarrow> tip_maps \<Rightarrow> cluster_workload \<Rightarrow> tooltip_data" where
  "wl_tip r m w =
     (let svcs = list_at (wlToSvcs m) (wl_id w);
          pods = list_at (wlToPods m) (wl_id w);
          nodeNames = wl_nodes r w
      in (tip KWorkload (cw_meta w) HealthOk
           (group_of ''Services'' ''var(--accent-secondary)'' svcs (take 4 svcs)
            @ group_of ''Pods'' ''var(--success)'' pods (take 6 pods)
            @ group_of ''Nodes'' ''var(--accent)'' nodeNames nodeNames))\<lparr>tt_workload_kind := Some (cw_kind w)\<rparr>)"

definition pod_tip :: "tip_maps \<Rightarrow> cluster_pod \<Rightarrow> tooltip_data" where
  "pod_tip m p =
     (let svcs = list_at (podToSvcs m) (pod_id p);
          pvcs = list_at (podToPVCs m) (pod_id p)
      in (tip KPod (cp_meta p) (pod_health p)
           (group_of ''Services'' ''var(--accent-secondary)'' svcs (take 4 svcs)
            @ group_of ''PVCs'' ''var(--warning)'' pvcs pvcs))
         \<lparr>tt_node_name := cp_node p, tt_pod_phase := cp_phase p,
          tt_containers := Some (case cp_containers p of None \<Rightarrow> [] | Some cs \<Rightarrow> cs)\<rparr>)"

definition pvc_tip :: "tip_maps \<Rightarrow> cluster_pvc \<Rightarrow> tooltip_data" where
  "pvc_tip m v =
     (let pods = list_at (pvcToPods m) (pvc_id v)
      in (tip KPvc (cv_meta v) (pvc_health v) (group_of ''Pods'' ''var(--success)'' pods (take 6 pods)))
         \<lparr>tt_pvc_phase := cv_phase v, tt_volume := cv_volume v\<rparr>)"

definition tooltips :: "raw_data \<Rightarrow> (string \<times> tooltip_data) list" where
  "tooltips r =
     (let m = tip_lookups r;
          t1 = fold (\<lambda>n t. rec_set t (node_id (tm_name (cn_meta n))) (node_tip m n)) (rd_nodes r) [];
          t2 = fold (\<lambda>s t. rec_set t (svc_id s) (svc_tip m s)) (rd_svcs r) t1;
          t3 = fold (\<lambda>w t. rec_set t (wl_id w) (wl_tip r m w)) (rd_workloads r) t2;
          t4 = fold (\<lambda>p t. rec_set t (pod_id p) (pod_tip m p)) (rd_pods r) t3
      in fold (\<lambda>v t. rec_set t (pvc_id v) (pvc_tip m v)) (rd_pvcs r) t4)"

text \<open>What a list holds after a loop of pushes.\<close>

lemma list_at_push_at [simp]: "list_at (push_at m k v) k' = (if k' = k then list_at m k' @ [v] else list_at m k')"
  by (simp add: push_at_def list_at_def)

lemma list_at_pushes:
  "list_at (fold (\<lambda>x m. if P x then push_at m (k x) (v x) else m) xs m) key =
   list_at m key @ map v (filter (\<lambda>x. P x \<and> k x = key) xs)"
  by (induction xs arbitrary: m) auto

lemma filter_one:
  "distinct (map f xs) \<Longrightarrow> x \<in> set xs \<Longrightarrow> filter (\<lambda>y. P y \<and> f y = f x) xs = (if P x then [x] else [])"
proof (induction xs)
  case (Cons y xs)
  show ?case
  proof (cases "x = y")
    case True
    have "f z \<noteq> f y" if "z \<in> set xs" for z using Cons.prems(1) imageI [OF that, of f] by auto
    then have "filter (\<lambda>z. P z \<and> f z = f x) xs = []" using True by (simp add: filter_empty_conv)
    then show ?thesis using True by simp
  next
    case False
    then have "x \<in> set xs" using Cons.prems(2) by simp
    moreover from this have "f y \<noteq> f x" using Cons.prems(1) by (auto simp: image_iff)
    ultimately show ?thesis using Cons by simp
  qed
qed simp

text \<open>The lists of a service: its pods, from the second loop.\<close>

lemma tip_pod_nodes_keep: "svcToPods (fold tip_pod_node ps m) = svcToPods m" "wlToPods (fold tip_pod_node ps m) = wlToPods m"
  "svcToWorkloads (fold tip_pod_node ps m) = svcToWorkloads m" "wlToSvcs (fold tip_pod_node ps m) = wlToSvcs m"
  by (induction ps arbitrary: m) (simp_all add: tip_pod_node_def)

lemma tip_svc_pods_keep:
  "wlToPods (fold (tip_svc_pod s) ps m) = wlToPods m" "svcToWorkloads (fold (tip_svc_pod s) ps m) = svcToWorkloads m"
  "wlToSvcs (fold (tip_svc_pod s) ps m) = wlToSvcs m"
  by (induction ps arbitrary: m) (simp_all add: tip_svc_pod_def)

lemma tip_svcs_keep:
  "wlToPods (fold (\<lambda>s. fold (tip_svc_pod s) ps) ss m) = wlToPods m"
  "svcToWorkloads (fold (\<lambda>s. fold (tip_svc_pod s) ps) ss m) = svcToWorkloads m"
  "wlToSvcs (fold (\<lambda>s. fold (tip_svc_pod s) ps) ss m) = wlToSvcs m"
  by (induction ss arbitrary: m) (simp_all add: tip_svc_pods_keep)

definition pod_names :: "(cluster_pod \<Rightarrow> bool) \<Rightarrow> cluster_pod list \<Rightarrow> string list" where
  "pod_names P ps = map (\<lambda>p. tm_name (cp_meta p)) (filter P ps)"

lemma tip_svc_pods:
  "list_at (svcToPods (fold (tip_svc_pod s) ps m)) k =
   list_at (svcToPods m) k @ (if svc_id s = k then pod_names (svc_selects s) ps else [])"
  by (induction ps arbitrary: m) (auto simp: tip_svc_pod_def pod_names_def)

lemma tip_svcs_pods:
  "list_at (svcToPods (fold (\<lambda>s. fold (tip_svc_pod s) ps) ss m)) k =
   list_at (svcToPods m) k @ concat (map (\<lambda>s. pod_names (svc_selects s) ps) (filter (\<lambda>s. svc_id s = k) ss))"
  by (induction ss arbitrary: m) (simp_all add: tip_svc_pods)

text \<open>The third loop: the pods of a workload, then the services it shares a pod with.\<close>

lemma tip_wl_pods:
  "list_at (wlToPods (fold (tip_wl_pod w) ps m)) k =
   list_at (wlToPods m) k @ (if wl_id w = k then pod_names (wl_selects w) ps else [])"
  by (induction ps arbitrary: m) (auto simp: tip_wl_pod_def pod_names_def)

lemma tip_wl_pods_keep:
  "svcToPods (fold (tip_wl_pod w) ps m) = svcToPods m" "svcToWorkloads (fold (tip_wl_pod w) ps m) = svcToWorkloads m"
  "wlToSvcs (fold (tip_wl_pod w) ps m) = wlToSvcs m"
  by (induction ps arbitrary: m) (simp_all add: tip_wl_pod_def)

lemma tip_wl_svcs_keep:
  "svcToPods (fold (tip_wl_svc w) ss m) = svcToPods m" "wlToPods (fold (tip_wl_svc w) ss m) = wlToPods m"
  by (induction ss arbitrary: m) (simp_all add: tip_wl_svc_def Let_def)

definition shares :: "tip_maps \<Rightarrow> cluster_workload \<Rightarrow> cluster_service \<Rightarrow> bool" where
  "shares m w s \<longleftrightarrow> tm_namespace (cs_meta s) = tm_namespace (cw_meta w)
     \<and> list_ex (\<lambda>p. p \<in> set (list_at (wlToPods m) (wl_id w))) (list_at (svcToPods m) (svc_id s))"

lemma tip_wl_svc_shares:
  "svcToWorkloads (tip_wl_svc w s m) =
     (if shares m w s then push_at (svcToWorkloads m) (svc_id s) (wl_label w) else svcToWorkloads m)"
  "wlToSvcs (tip_wl_svc w s m) =
     (if shares m w s then push_at (wlToSvcs m) (wl_id w) (tm_name (cs_meta s)) else wlToSvcs m)"
  "shares (tip_wl_svc w s m) = shares m"
  by (simp_all add: tip_wl_svc_def shares_def Let_def fun_eq_iff)

lemma tip_wl_svcs:
  "list_at (svcToWorkloads (fold (tip_wl_svc w) ss m)) k =
     list_at (svcToWorkloads m) k @ map (\<lambda>_. wl_label w) (filter (\<lambda>s. shares m w s \<and> svc_id s = k) ss)"
  by (induction ss arbitrary: m) (auto simp: tip_wl_svc_shares)

lemma tip_wl_svcs':
  "list_at (wlToSvcs (fold (tip_wl_svc w) ss m)) k =
     list_at (wlToSvcs m) k @ (if wl_id w = k then map (\<lambda>s. tm_name (cs_meta s)) (filter (shares m w) ss) else [])"
  by (induction ss arbitrary: m) (auto simp: tip_wl_svc_shares)

text \<open>What the third loop needs of the maps: the pods of each service, and nothing yet of the workloads to come.\<close>

definition services_done :: "raw_data \<Rightarrow> tip_maps \<Rightarrow> bool" where
  "services_done r m \<longleftrightarrow> list_all (\<lambda>s. list_at (svcToPods m) (svc_id s) = pod_names (svc_selects s) (rd_pods r)) (rd_svcs r)"

definition share_pod :: "raw_data \<Rightarrow> cluster_service \<Rightarrow> cluster_workload \<Rightarrow> bool" where
  "share_pod r s w \<longleftrightarrow> list_ex (\<lambda>p. svc_selects s p \<and> wl_selects w p) (rd_pods r)"

text \<open>The loops compare pod names; within a namespace, with distinct ids, that is comparing pods.\<close>

lemma shares_share_pod:
  assumes "distinct (map pod_id (rd_pods r))"
  shows "tm_namespace (cs_meta s) = tm_namespace (cw_meta w)
      \<and> list_ex (\<lambda>p. p \<in> set (pod_names (wl_selects w) (rd_pods r))) (pod_names (svc_selects s) (rd_pods r))
    \<longleftrightarrow> share_pod r s w"
proof
  assume "tm_namespace (cs_meta s) = tm_namespace (cw_meta w)
      \<and> list_ex (\<lambda>p. p \<in> set (pod_names (wl_selects w) (rd_pods r))) (pod_names (svc_selects s) (rd_pods r))"
  then obtain p q where ns: "tm_namespace (cs_meta s) = tm_namespace (cw_meta w)"
    and p: "p \<in> set (rd_pods r)" "svc_selects s p" and q: "q \<in> set (rd_pods r)" "wl_selects w q"
    and nm: "tm_name (cp_meta p) = tm_name (cp_meta q)"
    by (auto simp: list_ex_iff pod_names_def)
  have "tm_namespace (cp_meta p) = tm_namespace (cp_meta q)"
    using ns p(2) q(2) by (simp add: svc_selects_def wl_selects_def selects_def)
  then have "pod_id p = pod_id q" using nm by (simp add: pod_id_def ns_text_def)
  then have "p = q" using same_pod [OF assms p(1) q(1)] by simp
  then show "share_pod r s w" using p q by (auto simp: share_pod_def list_ex_iff)
next
  assume "share_pod r s w"
  then obtain p where "p \<in> set (rd_pods r)" "svc_selects s p" "wl_selects w p"
    by (auto simp: share_pod_def list_ex_iff)
  then show "tm_namespace (cs_meta s) = tm_namespace (cw_meta w)
      \<and> list_ex (\<lambda>p. p \<in> set (pod_names (wl_selects w) (rd_pods r))) (pod_names (svc_selects s) (rd_pods r))"
    using shared_namespace by (auto simp: list_ex_iff pod_names_def)
qed

text \<open>One workload's turn, when the services are done and the workload is new.\<close>

lemma shares_new:
  assumes "distinct (map pod_id (rd_pods r))" "services_done r m" "list_at (wlToPods m) (wl_id w) = []"
    "s \<in> set (rd_svcs r)"
  shows "shares (fold (tip_wl_pod w) (rd_pods r) m) w s \<longleftrightarrow> share_pod r s w"
proof -
  have "list_at (svcToPods m) (svc_id s) = pod_names (svc_selects s) (rd_pods r)"
    using assms(2,4) by (simp add: services_done_def list_all_iff)
  then show ?thesis
    by (simp only: shares_def tip_wl_pods tip_wl_pods_keep assms(3) append_Nil if_True shares_share_pod [OF assms(1)] refl)
qed

lemma no_labels_share: "cw_labels w = None \<Longrightarrow> \<not> share_pod r s w"
  by (simp add: share_pod_def list_ex_iff no_labels)

lemma tip_workload_turn:
  assumes r: "distinct (map pod_id (rd_pods r))" "distinct (map svc_id (rd_svcs r))"
    and m: "services_done r m" "list_at (wlToPods m) (wl_id w) = []" and s: "s \<in> set (rd_svcs r)"
  shows "list_at (svcToWorkloads (tip_workload r w m)) (svc_id s) =
      list_at (svcToWorkloads m) (svc_id s) @ (if share_pod r s w then [wl_label w] else [])"
proof (cases "cw_labels w = None")
  case True
  then show ?thesis by (simp add: tip_workload_def no_labels_share)
next
  case False
  then obtain sel where False: "cw_labels w = Some sel" by blast
  have "filter (\<lambda>x. shares (fold (tip_wl_pod w) (rd_pods r) m) w x \<and> svc_id x = svc_id s) (rd_svcs r) =
      (if share_pod r s w then [s] else [])"
    by (subst filter_one [OF r(2) s]) (simp add: shares_new [OF r(1) m s])
  then show ?thesis using False by (simp add: tip_workload_def tip_wl_svcs tip_wl_pods_keep)
qed

lemma tip_workload_pods:
  "list_at (wlToPods (tip_workload r w m)) k =
   list_at (wlToPods m) k @ (if wl_id w = k then pod_names (wl_selects w) (rd_pods r) else [])"
  by (simp add: tip_workload_def tip_wl_svcs_keep tip_wl_pods)
    (simp add: pod_names_def filter_empty_conv no_labels)

lemma tip_workload_services: "services_done r m \<Longrightarrow> services_done r (tip_workload r w m)"
  by (simp add: services_done_def tip_workload_def tip_wl_svcs_keep tip_wl_pods_keep)

lemma tip_workloads:
  assumes r: "distinct (map pod_id (rd_pods r))" "distinct (map svc_id (rd_svcs r))" and s: "s \<in> set (rd_svcs r)"
  shows "distinct (map wl_id ws) \<Longrightarrow> services_done r m \<Longrightarrow> list_all (\<lambda>w. list_at (wlToPods m) (wl_id w) = []) ws \<Longrightarrow>
    list_at (svcToWorkloads (fold (tip_workload r) ws m)) (svc_id s) =
      list_at (svcToWorkloads m) (svc_id s) @ map wl_label (filter (share_pod r s) ws)"
proof (induction ws arbitrary: m)
  case (Cons w ws)
  have new: "list_at (wlToPods m) (wl_id w) = []" using Cons.prems(3) by simp
  have "list_all (\<lambda>w'. list_at (wlToPods (tip_workload r w m)) (wl_id w') = []) ws"
    using Cons.prems(1,3) by (auto simp: list_all_iff tip_workload_pods)
  with Cons.IH [OF _ tip_workload_services [OF Cons.prems(2)]] Cons.prems(1)
  show ?case by (simp add: tip_workload_turn [OF r Cons.prems(2) new s])
qed simp

text \<open>The last loop leaves these lists alone.\<close>

lemma tip_claims_keep:
  "svcToPods (fold (tip_claim ids p) vs m) = svcToPods m" "svcToWorkloads (fold (tip_claim ids p) vs m) = svcToWorkloads m"
  by (induction vs arbitrary: m) (simp_all add: tip_claim_def)

lemma tip_pod_claims_keep:
  "svcToPods (fold (\<lambda>p. fold (tip_claim ids p) (pod_volumes p)) ps m) = svcToPods m"
  "svcToWorkloads (fold (\<lambda>p. fold (tip_claim ids p) (pod_volumes p)) ps m) = svcToWorkloads m"
  by (induction ps arbitrary: m) (simp_all add: tip_claims_keep)

lemma tip_workloads_svcPods: "svcToPods (fold (tip_workload r) ws m) = svcToPods m"
  by (induction ws arbitrary: m) (simp_all add: tip_workload_def tip_wl_svcs_keep tip_wl_pods_keep)

definition ids_distinct :: "raw_data \<Rightarrow> bool" where
  "ids_distinct r \<longleftrightarrow> distinct (map svc_id (rd_svcs r)) \<and> distinct (map wl_id (rd_workloads r))
     \<and> distinct (map pod_id (rd_pods r))"

lemma service_lists:
  assumes "ids_distinct r" "s \<in> set (rd_svcs r)"
  shows "list_at (svcToPods (tip_lookups r)) (svc_id s) = pod_names (svc_selects s) (rd_pods r)"
    and "list_at (svcToWorkloads (tip_lookups r)) (svc_id s) = map wl_label (filter (share_pod r s) (rd_workloads r))"
proof -
  define m1 where "m1 = fold tip_pod_node (rd_pods r) no_tips"
  define m2 where "m2 = fold (\<lambda>s. fold (tip_svc_pod s) (rd_pods r)) (rd_svcs r) m1"
  have d: "distinct (map svc_id (rd_svcs r))" "distinct (map wl_id (rd_workloads r))" "distinct (map pod_id (rd_pods r))"
    using assms(1) by (simp_all add: ids_distinct_def)
  have z: "list_at (svcToPods m1) k = []" "list_at (wlToPods m2) k = []" "list_at (svcToWorkloads m2) k = []" for k
    by (simp_all add: m2_def m1_def tip_svcs_keep tip_pod_nodes_keep no_tips_def list_at_def)
  have pods: "list_at (svcToPods m2) (svc_id x) = pod_names (svc_selects x) (rd_pods r)" if "x \<in> set (rd_svcs r)" for x
    using filter_one [OF d(1) that, of "\<lambda>_. True"] by (simp add: m2_def tip_svcs_pods z(1))
  then have done2: "services_done r m2" by (simp add: services_done_def list_all_iff)
  have l: "tip_lookups r = fold (\<lambda>p. fold (tip_claim (map ti_id (topo_nodes r)) p) (pod_volumes p)) (rd_pods r)
      (fold (tip_workload r) (rd_workloads r) m2)"
    by (simp add: tip_lookups_def m2_def m1_def Let_def)
  show "list_at (svcToPods (tip_lookups r)) (svc_id s) = pod_names (svc_selects s) (rd_pods r)"
    by (simp add: l tip_pod_claims_keep tip_workloads_svcPods pods [OF assms(2)])
  show "list_at (svcToWorkloads (tip_lookups r)) (svc_id s) = map wl_label (filter (share_pod r s) (rd_workloads r))"
    using tip_workloads [OF d(3,1) assms(2) d(2) done2] by (simp add: l tip_pod_claims_keep z list_all_iff)
qed

lemma fold_set_other: "key \<notin> k ` set xs \<Longrightarrow> rec_get (fold (\<lambda>x t. rec_set t (k x) (v x)) xs t) key = rec_get t key"
  by (induction xs arbitrary: t) auto

lemma fold_set_one:
  "distinct (map k xs) \<Longrightarrow> x \<in> set xs \<Longrightarrow> rec_get (fold (\<lambda>x t. rec_set t (k x) (v x)) xs t) (k x) = Some (v x)"
proof (induction xs arbitrary: t)
  case (Cons y xs)
  then show ?case by (cases "x = y") (auto simp: fold_set_other)
qed simp

lemma service_tooltip:
  assumes "ids_distinct r" "s \<in> set (rd_svcs r)"
  shows "rec_get (tooltips r) (svc_id s) = Some (svc_tip (tip_lookups r) s)"
proof -
  have "svc_id s \<notin> pvc_id ` set (rd_pvcs r)" "svc_id s \<notin> pod_id ` set (rd_pods r)"
    "svc_id s \<notin> wl_id ` set (rd_workloads r)"
    by (auto simp: svc_id_def pvc_id_def pod_id_def wl_id_def claim_id_def)
  moreover have "distinct (map svc_id (rd_svcs r))" using assms(1) by (simp add: ids_distinct_def)
  ultimately show ?thesis using assms(2)
    by (simp add: tooltips_def Let_def fold_set_other fold_set_one)
qed

lemma same_key: "distinct (map f xs) \<Longrightarrow> x \<in> set xs \<Longrightarrow> y \<in> set xs \<Longrightarrow> f x = f y \<Longrightarrow> x = y"
  by (auto simp: distinct_map dest: inj_onD)

lemma service_edge_shared:
  assumes "ids_distinct r" "s \<in> set (rd_svcs r)" "w \<in> set (rd_workloads r)"
  shows "(svc_id s, wl_id w) \<in> ends ` set (topo_edges r) \<longleftrightarrow> share_pod r s w"
proof -
  have d: "distinct (map svc_id (rd_svcs r))" "distinct (map wl_id (rd_workloads r))" "distinct (map pod_id (rd_pods r))"
    using assms(1) by (simp_all add: ids_distinct_def)
  have n: "(svc_id s, wl_id w) \<notin> ends ` set (node_edges r)"
    unfolding node_edges_ends by (auto simp: svc_id_def wl_id_def)
  have o: "(svc_id s, wl_id w) \<notin> ends ` set (snd (link_workloads r))"
    by (auto simp: link_workloads_pairs owner_edge_def svc_id_def wl_id_def)
  have c: "(svc_id s, wl_id w) \<notin> ends ` set (claim_edges (map ti_id (topo_nodes r)) r)"
    unfolding claim_edges_ends by (auto simp: svc_id_def pod_id_def)
  have "(svc_id s, wl_id w) \<in> ends ` set (service_edges (fst (link_workloads r)) r) \<longleftrightarrow> share_pod r s w"
    unfolding service_relation [OF d(3)]
  proof
    assume "(svc_id s, wl_id w) \<in> {(svc_id s, pod_id p) |s p. s \<in> set (rd_svcs r) \<and> p \<in> set (rd_pods r)
        \<and> svc_selects s p \<and> \<not> list_ex (\<lambda>w. wl_selects w p) (rd_workloads r)}
      \<union> {(svc_id s, wl_id w) |s w p. s \<in> set (rd_svcs r) \<and> w \<in> set (rd_workloads r) \<and> p \<in> set (rd_pods r)
        \<and> svc_selects s p \<and> wl_selects w p}"
    then obtain s' w' p where *: "svc_id s = svc_id s'" "wl_id w = wl_id w'" "s' \<in> set (rd_svcs r)"
      "w' \<in> set (rd_workloads r)" "p \<in> set (rd_pods r)" "svc_selects s' p" "wl_selects w' p"
      by (auto simp: wl_id_def pod_id_def)
    then have "s' = s" "w' = w" using same_key [OF d(1)] same_key [OF d(2)] assms(2,3) by metis+
    then show "share_pod r s w" using * by (auto simp: share_pod_def list_ex_iff)
  next
    assume "share_pod r s w"
    then obtain p where "p \<in> set (rd_pods r)" "svc_selects s p" "wl_selects w p"
      by (auto simp: share_pod_def list_ex_iff)
    then show "(svc_id s, wl_id w) \<in> {(svc_id s, pod_id p) |s p. s \<in> set (rd_svcs r) \<and> p \<in> set (rd_pods r)
        \<and> svc_selects s p \<and> \<not> list_ex (\<lambda>w. wl_selects w p) (rd_workloads r)}
      \<union> {(svc_id s, wl_id w) |s w p. s \<in> set (rd_svcs r) \<and> w \<in> set (rd_workloads r) \<and> p \<in> set (rd_pods r)
        \<and> svc_selects s p \<and> wl_selects w p}"
      using assms(2,3) by blast
  qed
  then show ?thesis using n o c by (simp add: topo_edges_def case_prod_unfold Let_def image_Un)
qed


lemma demo_cluster_distinct: "ids_distinct demo_cluster"
  by code_simp


text \<open>The number shown beside a group's title is the number of its items, which the cut bounds: a
  node with many pods is shown to have six.\<close>

definition group_counts :: "tooltip_data \<Rightarrow> (string \<times> nat) list" where
  "group_counts t = map (\<lambda>g. (tr_kind g, length (tr_items g))) (tt_related t)"

lemma pods_count_capped: "(''Pods'', n) \<in> set (group_counts (node_tip m x)) \<Longrightarrow> n \<le> 6"
  by (auto simp: group_counts_def node_tip_def tip_def group_of_def Let_def split: if_splits)

section \<open>Colours and links\<close>

record svg_style =
  ss_stroke :: string
  ss_fill :: string
  ss_text :: string
  ss_rect :: bool

definition style_of :: "string \<Rightarrow> string \<Rightarrow> string \<Rightarrow> bool \<Rightarrow> svg_style" where
  "style_of stroke fill txt isRect = \<lparr>ss_stroke = stroke, ss_fill = fill, ss_text = txt, ss_rect = isRect\<rparr>"

fun kindSvgColors :: "topo_kind \<Rightarrow> svg_style" where
  "kindSvgColors KNode = style_of ''rgba(0,194,255,0.5)'' ''rgba(0,194,255,0.1)'' ''var(--accent)'' False"
| "kindSvgColors KService = style_of ''rgba(124,92,252,0.5)'' ''rgba(124,92,252,0.1)'' ''var(--accent-secondary)'' False"
| "kindSvgColors KWorkload = style_of ''rgba(97,175,239,0.5)'' ''rgba(97,175,239,0.12)'' ''var(--info)'' True"
| "kindSvgColors KPod = style_of ''rgba(80,250,123,0.5)'' ''rgba(80,250,123,0.1)'' ''var(--success)'' False"
| "kindSvgColors KPvc = style_of ''rgba(255,183,77,0.5)'' ''rgba(255,183,77,0.1)'' ''var(--warning)'' True"

definition getNodeSvgStyle :: "placed_node \<Rightarrow> svg_style" where
  "getNodeSvgStyle n =
     (let base = kindSvgColors (ti_kind n)
      in case ti_health n of
           HealthOk \<Rightarrow> base
         | HealthWarning \<Rightarrow> base\<lparr>ss_stroke := ''rgba(255,179,0,0.5)'', ss_fill := ''rgba(255,179,0,0.1)''\<rparr>
         | HealthError \<Rightarrow> base\<lparr>ss_stroke := ''rgba(255,82,82,0.5)'', ss_fill := ''rgba(255,82,82,0.1)''\<rparr>)"

text \<open>The stroke tells whether a node is healthy, and the text colour its kind.\<close>

lemma style_tells:
  "ss_text (getNodeSvgStyle a) = ss_text (getNodeSvgStyle b) \<longleftrightarrow> ti_kind a = ti_kind b"
  "ss_stroke (getNodeSvgStyle a) = ss_stroke (getNodeSvgStyle b) \<Longrightarrow> ti_health a = ti_health b"
  by (cases "ti_kind a"; cases "ti_kind b"; cases "ti_health a"; cases "ti_health b";
      simp add: getNodeSvgStyle_def style_of_def)+

definition getWorkloadHref :: "string \<Rightarrow> string \<Rightarrow> string" where
  "getWorkloadHref label ns =
     (if CHR ''/'' \<notin> set label then ''/workloads/deployments/'' @ ns @ ''/'' @ label
      else (let kind = to_lower (takeWhile (\<lambda>c. c \<noteq> CHR ''/'') label);
                name = tl (dropWhile (\<lambda>c. c \<noteq> CHR ''/'') label);
                kindPath = [(''deployment'', ''deployments''), (''statefulset'', ''statefulsets''),
                            (''daemonset'', ''daemonsets'')]
            in ''/workloads/'' @ (case rec_get kindPath kind of Some p \<Rightarrow> p | None \<Rightarrow> ''deployments'')
               @ ''/'' @ ns @ ''/'' @ name))"

definition getNodeHref :: "'a topo_item_scheme \<Rightarrow> string" where
  "getNodeHref n =
     (let ns = (case ti_namespace n of None \<Rightarrow> ''default'' | Some ns \<Rightarrow> ns)
      in case ti_kind n of
           KNode \<Rightarrow> ''/cluster/nodes/'' @ ti_label n
         | KService \<Rightarrow> ''/networking/services/'' @ ns @ ''/'' @ ti_label n
         | KWorkload \<Rightarrow> getWorkloadHref (ti_label n) ns
         | KPod \<Rightarrow> ''/workloads/pods/'' @ ns @ ''/'' @ ti_label n
         | KPvc \<Rightarrow> ''/storage/pvcs/'' @ ns @ ''/'' @ ti_label n)"

text \<open>A name the server accepts needs no encoding.\<close>

definition plain :: "string \<Rightarrow> bool" where
  "plain s \<longleftrightarrow> s \<noteq> [] \<and> list_all uri_unreserved s"

lemma plain_encoded: "plain s \<Longrightarrow> encode_uri_component s = s"
proof -
  have "list_all uri_unreserved s \<Longrightarrow> encode_uri_component s = s"
    by (induction s) (simp_all add: encode_uri_component_def enc_char_def)
  then show "plain s \<Longrightarrow> encode_uri_component s = s" by (simp add: plain_def)
qed

lemma plain_page_two:
  assumes "detail_page base 2" "plain a" "plain b"
  shows "page_exists (base @ ''/'' @ a @ ''/'' @ b)"
  using detail_page_exists [of base "[a, b]"] assms by (simp add: plain_encoded plain_def numeral_2_eq_2)

lemma plain_page_one: "detail_page base 1 \<Longrightarrow> plain a \<Longrightarrow> page_exists (base @ ''/'' @ a)"
  using detail_page_exists [of base "[a]"] by (simp add: plain_encoded plain_def)

lemma cluster_pages:
  "detail_page ''/cluster/nodes'' 1" "detail_page ''/networking/services'' 2" "detail_page ''/workloads/pods'' 2"
  "detail_page ''/storage/pvcs'' 2" "detail_page ''/workloads/deployments'' 2"
  "detail_page ''/workloads/statefulsets'' 2" "detail_page ''/workloads/daemonsets'' 2"
  by (simp_all add: detail_page_def numeral_2_eq_2 page_eval)

lemma lower_kinds:
  "to_lower ''Deployment'' = ''deployment''" "to_lower ''StatefulSet'' = ''statefulset''"
  "to_lower ''DaemonSet'' = ''daemonset''"
  by code_simp+

lemma workload_href:
  assumes "kind \<in> {''Deployment'', ''StatefulSet'', ''DaemonSet''}" "plain name" "plain ns"
  shows "page_exists (getWorkloadHref (kind @ ''/'' @ name) ns)"
proof -
  have "getWorkloadHref (kind @ ''/'' @ name) ns \<in>
      {''/workloads/deployments'' @ ''/'' @ ns @ ''/'' @ name, ''/workloads/statefulsets'' @ ''/'' @ ns @ ''/'' @ name,
       ''/workloads/daemonsets'' @ ''/'' @ ns @ ''/'' @ name}"
    using assms(1) by (auto simp: getWorkloadHref_def lower_kinds)
  then show ?thesis using cluster_pages(5-7) [THEN plain_page_two, OF assms(3,2)] by auto
qed

text \<open>The page of every node of the graph exists, when names and namespaces are plain.\<close>

lemma item_links:
  "plain (tm_name (cn_meta n)) \<Longrightarrow> page_exists (getNodeHref (node_item n))"
  "plain (tm_name (cs_meta s)) \<Longrightarrow> tm_namespace (cs_meta s) = Some ns \<Longrightarrow> plain ns \<Longrightarrow> page_exists (getNodeHref (svc_item s))"
  "plain (tm_name (cp_meta p)) \<Longrightarrow> tm_namespace (cp_meta p) = Some ns \<Longrightarrow> plain ns \<Longrightarrow> page_exists (getNodeHref (pod_item p))"
  "plain (tm_name (cv_meta v)) \<Longrightarrow> tm_namespace (cv_meta v) = Some ns \<Longrightarrow> plain ns \<Longrightarrow> page_exists (getNodeHref (pvc_item v))"
  "plain (tm_name (cw_meta w)) \<Longrightarrow> tm_namespace (cw_meta w) = Some ns \<Longrightarrow> plain ns
   \<Longrightarrow> cw_kind w \<in> {''Deployment'', ''StatefulSet'', ''DaemonSet''} \<Longrightarrow> page_exists (getNodeHref (wl_item w))"
  using plain_page_one [OF cluster_pages(1)] plain_page_two [OF cluster_pages(2)] plain_page_two [OF cluster_pages(3)]
    plain_page_two [OF cluster_pages(4)] workload_href
  by (simp_all add: getNodeHref_def node_item_def svc_item_def pod_item_def pvc_item_def wl_item_def wl_label_def)

text \<open>The kinds are the island's own, whatever the server sent.\<close>

lemma loaded_kinds:
  "w \<in> set (rd_workloads (load a b c d e f g)) \<Longrightarrow> cw_kind w \<in> {''Deployment'', ''StatefulSet'', ''DaemonSet''}"
  by (auto simp: load_def Let_def)

text \<open>Failed requests are not told apart from empty ones: with the server down the graph says that there
  are no resources.\<close>

lemma load_failures: "topo_nodes (load None None None None None None None) = []"
  by (simp add: load_def extractArr_def topo_nodes_def placeRow_def place_pods_def Let_def)

section \<open>Pointer\<close>

text \<open>The zoom limits are 0.5 and 3; the canvas has the size of the layout.\<close>

interpretation cluster_view: zoom_view "(1 / 2, 3)" dims for dims
  by unfold_locales simp_all

record cluster_ui =
  ui_view :: view
  ui_tooltip :: "(string \<times> real \<times> real) option"
  ui_rect :: "(real \<times> real) option"

datatype ui_event = OnWheel screen_rect real "real \<times> real" | OnMouseDown nat "real \<times> real"
  | OnMouseMove screen_rect "real \<times> real" | OnMouseUp
  | NodeEnter string "(real \<times> real) option" "real \<times> real" | NodeMove string "real \<times> real" | NodeLeave

definition show_tip :: "string \<Rightarrow> real \<times> real \<Rightarrow> cluster_ui \<Rightarrow> cluster_ui" where
  "show_tip nid pos u =
     (case ui_rect u of
        None \<Rightarrow> u
      | Some cr \<Rightarrow> u\<lparr>ui_tooltip := Some (nid, fst pos - fst cr, snd pos - snd cr)\<rparr>)"

fun view_of_event :: "ui_event \<Rightarrow> view_event option" where
  "view_of_event (OnWheel rect d pos) = Some (Wheel rect d pos)"
| "view_of_event (OnMouseDown b pos) = Some (MouseDown b pos)"
| "view_of_event (OnMouseMove rect pos) = Some (MouseMove rect pos)"
| "view_of_event OnMouseUp = Some MouseUp"
| "view_of_event _ = None"

definition ui_step :: "real \<times> real \<Rightarrow> cluster_ui \<Rightarrow> ui_event \<Rightarrow> cluster_ui option" where
  "ui_step dims u e =
     (case view_of_event e of
        Some ve \<Rightarrow> map_option (\<lambda>v. u\<lparr>ui_view := v,
            ui_tooltip := (case e of OnMouseDown b _ \<Rightarrow> if b = 0 then None else ui_tooltip u | _ \<Rightarrow> ui_tooltip u)\<rparr>)
          (view_step (1 / 2, 3) dims (ui_view u) ve)
      | None \<Rightarrow> (case e of
            NodeEnter nid cr pos \<Rightarrow> Some (show_tip nid pos (u\<lparr>ui_rect := cr\<rparr>))
          | NodeMove nid pos \<Rightarrow> Some (show_tip nid pos u)
          | _ \<Rightarrow> Some (u\<lparr>ui_tooltip := None\<rparr>)))"

definition ui_init :: cluster_ui where
  "ui_init = \<lparr>ui_view = view_init, ui_tooltip = None, ui_rect = None\<rparr>"

lemma ui_step_zoom:
  "cluster_view.in_limits (ui_view u) \<Longrightarrow> ui_step dims u e = Some u' \<Longrightarrow> cluster_view.in_limits (ui_view u')"
  by (auto simp: ui_step_def show_tip_def simp del: view_step.simps dest: cluster_view.step_in_limits
      split: option.splits ui_event.splits)

interpretation cluster_pointer: free_machine "ui_step dims" "\<lambda>u. cluster_view.in_limits (ui_view u)" for dims
  by unfold_locales (rule ui_step_zoom)

text \<open>The handler on a node's link: the click is ignored when the pan has moved by more than three units
  since the last press.\<close>

definition click_ignored :: "view \<Rightarrow> bool" where
  "click_ignored v \<longleftrightarrow> 3 < \<bar>fst (vw_pan v) - fst (vw_pan_start v)\<bar> \<or> 3 < \<bar>snd (vw_pan v) - snd (vw_pan_start v)\<bar>"

lemma click_navigates: "\<not> click_ignored (handle_mouse_up (handle_mouse_down 0 pos v))"
  by (simp add: click_ignored_def handle_mouse_up_def handle_mouse_down_def)

text \<open>
  The pan also moves with the wheel, and a link followed from the keyboard has no press: after one turn of
  the wheel, Enter on a focused node does nothing.
\<close>

lemma wheel_blocks_keyboard:
  "map_option (\<lambda>u. click_ignored (ui_view u))
     (ui_step (800, 400) ui_init (OnWheel \<lparr>rc_left = 0, rc_top = 0, rc_width = 800, rc_height = 400\<rparr> (- 1) (400, 200)))
   = Some True"
  by (simp add: ui_step_def ui_init_def visible_def handle_wheel_def view_init_def click_ignored_def Let_def)

text \<open>
  The press hides the tooltip, but the node under the pointer moves along with the drag and its own
  handler shows the tooltip again.
\<close>

lemma tooltip_while_dragging:
  "map_option (\<lambda>u. (vw_dragging (ui_view u), ui_tooltip u))
     (run_events (ui_step (800, 400)) ui_init
        [NodeEnter ''pod-a-b'' (Some (0, 0)) (100, 100), OnMouseDown 0 (100, 100), NodeMove ''pod-a-b'' (110, 100)])
   = Some (True, Some (''pod-a-b'', 110, 100))"
  by (simp add: ui_step_def ui_init_def show_tip_def handle_mouse_down_def)

text \<open>Where the tooltip is put: beside the pointer, on the other side near the edge, never left of the
  container.\<close>

definition tip_at :: "real \<Rightarrow> real \<Rightarrow> real \<Rightarrow> real" where
  "tip_at px extent_est container =
     (let OFFSET = 14; flip = px + extent_est + OFFSET > container
      in max 0 (if flip then px - extent_est - OFFSET else px + OFFSET))"

lemma tip_in_container:
  "0 \<le> tip_at px ext c" "0 \<le> ext \<Longrightarrow> px \<le> c \<Longrightarrow> ext \<le> c \<Longrightarrow> tip_at px ext c + ext \<le> c"
  by (auto simp: tip_at_def Let_def)

text \<open>The tooltip covers the pointer only in a container too narrow for it on either side.\<close>

lemma tip_beside_pointer:
  "0 \<le> ext \<Longrightarrow> 0 \<le> px \<Longrightarrow> 2 * (ext + 14) \<le> c \<Longrightarrow> px < tip_at px ext c \<or> tip_at px ext c + ext < px"
  by (auto simp: tip_at_def Let_def max_def)

end
