(* ===== verification/Spec2Isabelle.thy ===== *)
theory Spec2Isabelle
  imports Http_Client Ws_Client Endpoints Auth Nav Access Api_Proxy Ws_Proxy K8s_Types Columns
    Compliance Form_Yaml Deep_Set Yaml_Apply Resource_Counts Namespace_Topology NetworkPolicy_Wizard Table_Rows
    Ingress_Wizard Service_Wizard Binding_Wizard Hpa_Wizard Command_Palette Bulk_Refresh Polling Log_Viewer Schema_Form
    Cluster_Topology
begin

text \<open>
  A model of the web frontend of k8sCenter (\<open>src/frontend\<close>, TypeScript on Deno Fresh and Preact):
  the browser's client library under \<open>lib/\<close> and the two server routes that stand between the
  browser and the Go backend.

  \<^bold>\<open>The program.\<close> The islands (interactive components) call the typed endpoints of \<open>lib/api.ts\<close>,
  \<open>lib/eso-api.ts\<close> and \<open>lib/mesh-api.ts\<close>; these go through the one function \<open>api()\<close>, which adds
  the token, refreshes it once on a 401 and turns failures into \<open>ApiError\<close>. \<open>lib/auth.ts\<close> keeps
  the session signals on top of it and \<open>lib/permissions.ts\<close> and \<open>lib/action-handlers.ts\<close> decide
  from the permissions what the interface offers. \<open>lib/ws.ts\<close> keeps the WebSocket with its
  subscriptions and reconnects. On the server \<open>routes/api/[...path].ts\<close> forwards requests and
  \<open>routes/ws/[...path].ts\<close> relays WebSockets to the backend. Tables, links and navigation are
  rendered from \<open>lib/resource-columns.ts\<close>, \<open>lib/status-colors.ts\<close>, \<open>lib/constants.ts\<close> and the
  link helpers; forms turn into YAML in \<open>lib/schema-to-yaml.ts\<close>.

  \<^bold>\<open>The theories.\<close>
  \<^item> \<open>Js_Prelude\<close>: JavaScript strings, URI encoding, JSON-like values, ordered records.
  \<^item> \<open>Interfaces\<close>: the locales \<open>ordered_dict\<close>, \<open>sort_order\<close>, \<open>machine\<close>, \<open>free_machine\<close> and
    \<open>draining\<close>, with the lemmas their clients share. Each is interpreted where it is used.
  \<^item> \<open>Http_Client\<close> (\<open>lib/api.ts\<close>): \<open>api_step\<close> runs any number of concurrent calls. Invariant
    \<open>api_inv\<close>: at most one token refresh is unsettled; each call sends at most two requests
    (\<open>retry_inv\<close>); without new calls a run ends (\<open>api_work\<close>); data come from a server reply.
  \<^item> \<open>Endpoints\<close> (\<open>lib/api.ts\<close>, \<open>lib/eso-api.ts\<close>, \<open>lib/mesh-api.ts\<close>): what each method sends, and
    that the route and parameters a server decodes are the arguments.
  \<^item> \<open>Auth\<close> (\<open>lib/auth.ts\<close>): the session signals under any order of replies.
  \<^item> \<open>Ws_Client\<close> (\<open>lib/ws.ts\<close>): sockets, handlers, timer, token refresh. \<open>ws_in_sync\<close> refines the
    set of subscriptions the user has asked for; \<open>reconnects_bounded\<close> pays every reconnect from
    a budget.
  \<^item> \<open>Access\<close> (\<open>lib/permissions.ts\<close>, \<open>lib/action-handlers.ts\<close>, \<open>lib/rbac-utils.ts\<close>).
  \<^item> \<open>Api_Proxy\<close>, \<open>Ws_Proxy\<close> (\<open>routes/api/[...path].ts\<close>, \<open>routes/api/auth/oidc-token-exchange.ts\<close>,
    \<open>routes/ws/[...path].ts\<close>): confinement to the backend's API, headers, relay order and closes.
  \<^item> \<open>Nav\<close> (\<open>lib/constants.ts\<close>, \<open>lib/nav.ts\<close>, \<open>lib/k8s-links.ts\<close>, \<open>lib/notif-action.ts\<close>): navigation
    data and links, checked against the page files.
  \<^item> \<open>K8s_Types\<close>, \<open>Columns\<close> (\<open>lib/k8s-types.ts\<close>, \<open>lib/resource-columns.ts\<close>, \<open>lib/status-colors.ts\<close>,
    \<open>lib/format.ts\<close>): the resources as records and every table cell.
  \<^item> \<open>Compliance\<close> (\<open>lib/compliance-violations.ts\<close>): ranking and grouping of policy violations.
  \<^item> \<open>Form_Yaml\<close>, \<open>Deep_Set\<close> (\<open>lib/schema-to-yaml.ts\<close>): the serializer against a reader of its
    subset of YAML, and the deep update of form state on a store with aliasing.
  \<^item> \<open>Deep_Tree\<close>, \<open>Schema_Field\<close>, \<open>Schema_Form\<close> (\<open>islands/SchemaFormField.tsx\<close>, \<open>islands/SchemaForm.tsx\<close>): the
    forms generated from schemas. \<open>holds\<close> says that a store holds a tree, on which the deep update is
    \<open>deep_set\<close>; \<open>field_change\<close> is the chain of fields with its paths and \<open>edited\<close> the edit on the value
    itself; \<open>fits\<close> is the shape a schema asks for; \<open>form_step\<close> loads, edits, validates and submits.
  \<^item> \<open>Yaml_Apply\<close> (\<open>lib/yaml-apply.ts\<close>, \<open>lib/secretstore-template-nav.ts\<close>) and \<open>Resource_Counts\<close>
    (\<open>lib/resource-counts.ts\<close>): two modules whose handlers interleave at their \<open>await\<close>s.
  \<^item> \<open>Svg_View\<close>, \<open>Namespace_Topology\<close> (\<open>islands/NamespaceTopology.tsx\<close>): the locale \<open>zoom_view\<close> of
    zooming and dragging; the focused subgraph against reachability, the layered layout, links
    and fetching.
  \<^item> \<open>Cluster_Topology\<close> (\<open>islands/ClusterTopology.tsx\<close>): the five rows of resources and the edges between
    them; \<open>cluster_relation\<close> is what the edges are to say and \<open>canvas_rows\<close> where the nodes are; the
    tooltips are compared with the edges.
  \<^item> \<open>Resource_Table\<close>, \<open>Table_Rows\<close> (\<open>islands/ResourceTable.tsx\<close>, \<open>components/ui/ConfirmDialog.tsx\<close>,
    \<open>components/ui/ScaleDialog.tsx\<close>): the list and watch of one kind. \<open>world_step\<close> runs the table
    beside a server that changes its objects and sends watch events; \<open>table_converges\<close> says when the
    rows are the server's objects. Then the rows displayed, and the row actions with their dialogs.
  \<^item> \<open>Wizard_Preview\<close> (\<open>components/wizard/WizardReviewStep.tsx\<close>, \<open>islands/WizardShell.tsx\<close>): preview
    requests with late replies, and the guarded apply.
  \<^item> \<open>Wizard_Shell\<close>: the step machine the wizards share, and the locale \<open>wizard_contract\<close> under which
    only validated forms are sent.
  \<^item> \<open>NetworkPolicy_Wizard\<close> (\<open>islands/NetworkPolicyWizard.tsx\<close>): form, edits, validation, payload and
    manifest, and that what is posted selects what the form says.
  \<^item> \<open>Ingress_Wizard\<close>, \<open>Service_Wizard\<close>, \<open>Binding_Wizard\<close>, \<open>Hpa_Wizard\<close> (\<open>islands/IngressWizard.tsx\<close>,
    \<open>ServiceWizard.tsx\<close>, \<open>RoleBindingWizard.tsx\<close>, \<open>HPAWizard.tsx\<close>): the same for their forms; each interprets
    the locale \<open>guarded_wizard\<close> and its property says that every payload posted is sound.
  \<^item> \<open>Command_Palette\<close> (\<open>lib/fuzzy-search.ts\<close>, \<open>islands/CommandPalette.tsx\<close>): the ranking against a
    stable sort, and that the palette leads to pages that exist.
  \<^item> \<open>Bulk_Refresh\<close> (\<open>islands/ESOBulkRefreshDialog.tsx\<close>): the phases of the dialog; what it sends has
    been confirmed.
  \<^item> \<open>Polling\<close> (\<open>lib/hooks/use-poll.ts\<close>, \<open>lib/useWsRefetch.ts\<close>): when a poll sends and when it is quiet.
  \<^item> \<open>Log_Viewer\<close> (\<open>islands/LogViewer.tsx\<close>): sockets, batches and snapshots of the container tabs against
    the texts received, and the highlighting of a search.

  \<^bold>\<open>Conventions.\<close> Strings are lists of 8-bit characters; a code point above 255 has no model.
  Untyped JSON is the datatype \<open>js\<close> with integer numbers; an object is an association list in
  insertion order. An asynchronous function is split at its \<open>await\<close>s: the part up to the first one
  is an operation, each continuation is an event whose payload is what the awaited promise gave.
  Any interleaving of those events is a run (\<open>run_events\<close>). The server, the browser's socket and
  timers are the environment: a step is \<open>None\<close> when the event cannot occur. Functions are
  structurally recursive or come with a measure, and the bounds on runs are theorems; the one depth
  bound, of \<open>assign_layer\<close>, is the number of nodes plus one, which is proved to be enough. Screen
  coordinates and zoom are exact reals where the code has floating point.

  \<^bold>\<open>Not modelled.\<close> Rendering (the JSX of islands and components, charts, the editor and terminal
  widgets), the wizards not named above, the Go backend, the mobile application, the end-to-end tests and
  the deployment files. Abort signals appear only in \<open>Resource_Counts\<close> and
  \<open>Resource_Table\<close>. The collation behind
  \<open>localeCompare\<close> is a parameter.
\<close>

end
